(* ===== verification/Py_Prelude.thy ===== *)
theory Py_Prelude
  imports Complex_Main
begin

text \<open>
  Shared vocabulary of the development: the Python values that the daemon reads from and
  writes to JSON documents, dictionary access, the comparison rules of Python that matter
  for validation (a boolean is an integer, numbers compare across types), identifier
  character sets, and generic lemmas about association lists and list positions.

  A Python dictionary that came from or goes to JSON is an association list in insertion
  order, looked up with \<open>map_of\<close>. A raised exception is the left side of a sum.
\<close>

named_theorems py_simps
  \<comment> \<open>unfolding facts of the value predicates\<close>
named_theorems step_defs
  \<comment> \<open>definitions of state transforms, unfolded together in frame and invariant proofs\<close>

subsection \<open>Values\<close>

text \<open>A float: a finite value, an infinity (its flag says positive) or not-a-number.\<close>

datatype pyfloat = FFin rat | FInf bool | FNaN

datatype pyval =
    PNone
  | PBool bool
  | PInt int
  | PFloat pyfloat
  | PStr string
  | PList "pyval list"
  | PDict "(string \<times> pyval) list"

type_synonym pydict = "(string \<times> pyval) list"

text \<open>\<open>isinstance(v, str)\<close>, \<open>isinstance(v, int)\<close> (true of booleans), \<open>type(v) is int\<close>
  (false of booleans), and the other type tests.\<close>

fun is_str :: "pyval \<Rightarrow> bool" where
  "is_str (PStr _) = True"
| "is_str _ = False"

fun is_bool :: "pyval \<Rightarrow> bool" where
  "is_bool (PBool _) = True"
| "is_bool _ = False"

fun is_exact_int :: "pyval \<Rightarrow> bool" where
  "is_exact_int (PInt _) = True"
| "is_exact_int _ = False"

fun isinstance_int :: "pyval \<Rightarrow> bool" where
  "isinstance_int (PInt _) = True"
| "isinstance_int (PBool _) = True"
| "isinstance_int _ = False"

fun is_float :: "pyval \<Rightarrow> bool" where
  "is_float (PFloat _) = True"
| "is_float _ = False"

fun is_list :: "pyval \<Rightarrow> bool" where
  "is_list (PList _) = True"
| "is_list _ = False"

fun is_dict :: "pyval \<Rightarrow> bool" where
  "is_dict (PDict _) = True"
| "is_dict _ = False"

text \<open>The integer value of an int or a bool, as arithmetic and comparison see it.\<close>

fun int_of_val :: "pyval \<Rightarrow> int" where
  "int_of_val (PInt n) = n"
| "int_of_val (PBool b) = (if b then 1 else 0)"
| "int_of_val _ = 0"

fun str_of_val :: "pyval \<Rightarrow> string" where
  "str_of_val (PStr s) = s"
| "str_of_val _ = []"

fun list_of_val :: "pyval \<Rightarrow> pyval list" where
  "list_of_val (PList xs) = xs"
| "list_of_val _ = []"

fun dict_of_val :: "pyval \<Rightarrow> pydict" where
  "dict_of_val (PDict d) = d"
| "dict_of_val _ = []"

text \<open>\<open>v == n\<close> for an integer constant: numbers compare across int, bool and float.\<close>

fun eq_int :: "pyval \<Rightarrow> int \<Rightarrow> bool" where
  "eq_int (PInt k) n = (k = n)"
| "eq_int (PBool b) n = ((if b then 1 else 0) = n)"
| "eq_int (PFloat (FFin q)) n = (q = of_int n)"
| "eq_int _ n = False"

text \<open>\<open>v == s\<close> for a string constant.\<close>

definition eq_str :: "pyval \<Rightarrow> string \<Rightarrow> bool" where
  "eq_str v s \<longleftrightarrow> v = PStr s"

text \<open>
  \<open>v == w\<close>: numbers across int, bool and float, dictionaries without their order,
  everything else structurally. Not-a-number is equal to nothing.
\<close>

fun num_val :: "pyval \<Rightarrow> rat option" where
  "num_val (PBool b) = Some (if b then 1 else 0)"
| "num_val (PInt n) = Some (of_int n)"
| "num_val (PFloat (FFin q)) = Some q"
| "num_val _ = None"

fun py_eq :: "pyval \<Rightarrow> pyval \<Rightarrow> bool" where
  "py_eq (PStr s) v = (v = PStr s)"
| "py_eq PNone v = (v = PNone)"
| "py_eq (PFloat (FInf b)) v = (v = PFloat (FInf b))"
| "py_eq (PFloat FNaN) v = False"
| "py_eq (PList xs) v = (is_list v \<and> list_all2 py_eq xs (list_of_val v))"
| "py_eq (PDict d) v =
     (is_dict v \<and> length d = length (dict_of_val v) \<and>
      list_all (\<lambda>kv. case map_of (dict_of_val v) (fst kv) of
                        None \<Rightarrow> False | Some w \<Rightarrow> py_eq (snd kv) w) d)"
| "py_eq v w = (num_val w \<noteq> None \<and> num_val v = num_val w)"

text \<open>Truth value of an object, as \<open>if v:\<close>, \<open>v or w\<close> and \<open>bool(v)\<close> use it.\<close>

fun truthy :: "pyval \<Rightarrow> bool" where
  "truthy PNone = False"
| "truthy (PBool b) = b"
| "truthy (PInt n) = (n \<noteq> 0)"
| "truthy (PFloat (FFin q)) = (q \<noteq> 0)"
| "truthy (PFloat _) = True"
| "truthy (PStr s) = (s \<noteq> [])"
| "truthy (PList xs) = (xs \<noteq> [])"
| "truthy (PDict d) = (d \<noteq> [])"

subsection \<open>Dictionaries\<close>

text \<open>\<open>d.get(k)\<close>: the value, or \<open>None\<close> when the key is absent.\<close>

definition dget :: "pydict \<Rightarrow> string \<Rightarrow> pyval" where
  "dget d k = (case map_of d k of None \<Rightarrow> PNone | Some v \<Rightarrow> v)"

definition has_key :: "pydict \<Rightarrow> string \<Rightarrow> bool" where
  "has_key d k \<longleftrightarrow> k \<in> set (map fst d)"

text \<open>\<open>set(d) == set(ks)\<close>\<close>

definition keys_are :: "pydict \<Rightarrow> string list \<Rightarrow> bool" where
  "keys_are d ks \<longleftrightarrow> set (map fst d) = set ks"

text \<open>A dictionary literal or a dictionary read by \<open>json.loads\<close> has every key once.\<close>

definition wf_dict :: "('k \<times> 'v) list \<Rightarrow> bool" where
  "wf_dict d \<longleftrightarrow> distinct (map fst d)"

text \<open>\<open>d[k] = v\<close>: overwrite in place, or append a new key.\<close>

fun dset :: "'k \<Rightarrow> 'v \<Rightarrow> ('k \<times> 'v) list \<Rightarrow> ('k \<times> 'v) list" where
  "dset k v [] = [(k, v)]"
| "dset k v ((k', v') # d) = (if k = k' then (k, v) # d else (k', v') # dset k v d)"

lemma map_of_dset [simp]: "map_of (dset k v d) = (map_of d)(k \<mapsto> v)"
  by (induction d) auto

lemma keys_dset [simp]: "fst ` set (dset k v d) = insert k (fst ` set d)"
proof (induction d)
  case (Cons a d)
  then show ?case by (cases a) (simp add: insert_commute)
qed simp

lemma wf_dict_dset [intro]: "wf_dict d \<Longrightarrow> wf_dict (dset k v d)"
proof (induction d)
  case (Cons a d)
  then show ?case by (cases a) (simp add: wf_dict_def)
qed (simp add: wf_dict_def)

lemma dget_Cons [simp]: "dget ((k, v) # d) k' = (if k = k' then v else dget d k')"
  by (simp add: dget_def)

lemma dget_Nil [simp]: "dget [] k = PNone"
  by (simp add: dget_def)

subsection \<open>Identifiers and character sets\<close>

definition ascii_lower :: string where
  "ascii_lower = ''abcdefghijklmnopqrstuvwxyz''"

definition ascii_upper :: string where
  "ascii_upper = ''ABCDEFGHIJKLMNOPQRSTUVWXYZ''"

definition ascii_digits :: string where
  "ascii_digits = ''0123456789''"

definition lower_hex :: string where
  "lower_hex = ''0123456789abcdef''"

definition token_chars :: string where
  "token_chars = ascii_lower @ ascii_upper @ ascii_digits @ ''-_''"

definition all_in :: "string \<Rightarrow> string \<Rightarrow> bool" where
  "all_in s cs \<longleftrightarrow> list_all (\<lambda>c. c \<in> set cs) s"

lemma all_in_append [simp]: "all_in (s @ t) cs \<longleftrightarrow> all_in s cs \<and> all_in t cs"
  by (simp add: all_in_def)

subsection \<open>Positions in a list\<close>

text \<open>\<open>xs.index(x)\<close>: the first position, or \<open>None\<close> where Python raises ValueError.\<close>

fun index_of :: "'a list \<Rightarrow> 'a \<Rightarrow> nat option" where
  "index_of [] x = None"
| "index_of (y # ys) x = (if y = x then Some 0 else map_option Suc (index_of ys x))"

lemma index_of_None [simp]: "index_of xs x = None \<longleftrightarrow> x \<notin> set xs"
  by (induction xs) auto

lemma index_of_Some: "x \<in> set xs \<Longrightarrow> \<exists>i. index_of xs x = Some i"
  by (cases "index_of xs x") auto

lemma index_of_nth: "index_of xs x = Some i \<Longrightarrow> i < length xs \<and> xs ! i = x"
  by (induction xs arbitrary: i) (auto split: if_splits)

lemma nth_index_of: "distinct xs \<Longrightarrow> i < length xs \<Longrightarrow> index_of xs (xs ! i) = Some i"
proof (induction xs arbitrary: i)
  case (Cons y ys)
  show ?case
  proof (cases i)
    case (Suc j)
    with Cons.prems have "y \<noteq> ys ! j" by auto
    with Suc Cons show ?thesis by simp
  qed simp
qed simp

lemma index_of_inj:
  "index_of xs x = Some i \<Longrightarrow> index_of xs y = Some i \<Longrightarrow> x = y"
  using index_of_nth by metis

subsection \<open>Lists and early returns\<close>

text \<open>An early \<open>return False\<close> is a conjunction.\<close>

lemma if_False_conv: "(if b then False else c) = (\<not> b \<and> c)"
  by simp

lemma sum_list_filter_le: "sum_list (map f (filter P xs)) \<le> sum_list (map f xs)"
  for f :: "'a \<Rightarrow> nat"
  by (induction xs) auto

lemma list_all_append_iff: "list_all P (xs @ ys) \<longleftrightarrow> list_all P xs \<and> list_all P ys"
  by simp

end
