(* ===== verification/Op_Model.thy ===== *)
theory Op_Model
  imports Py_Prelude
begin

text \<open>
  The persistent long-operation engine, part 1 (daemon/operations.py): the operation
  record, the centralised state and phase machine, the error object, the event log and the
  transforms that the runner and the cancel command apply to a record.

  The clock reading of a call (\<open>_now_iso()\<close>), the random identifier (\<open>uuid4\<close>) and the
  SHA-256 fingerprint function are arguments. A transform returns the mutated record and the
  flag \<open>changed\<close> that tells \<open>mutate\<close> whether to write it; an \<open>InvalidTransition\<close>
  is the left side of the sum.
\<close>

subsection \<open>Constants and the error vocabulary\<close>

datatype op_exc =
    InvalidTransition
  | ValueError
  | OperationNotFound
  | OperationIdConflict
  | OperationConflict
  | UnsupportedOperationType
  | InvalidOperationRecord
  | StoreBlocked

datatype op_state = Queued | Running | Blocked | Succeeded | Failed | Cancelled

fun state_name :: "op_state \<Rightarrow> string" where
  "state_name Queued = ''queued''"
| "state_name Running = ''running''"
| "state_name Blocked = ''blocked''"
| "state_name Succeeded = ''succeeded''"
| "state_name Failed = ''failed''"
| "state_name Cancelled = ''cancelled''"

definition STATES :: "op_state list" where
  "STATES = [Queued, Running, Blocked, Succeeded, Failed, Cancelled]"

definition TERMINAL_STATES :: "op_state list" where
  "TERMINAL_STATES = [Succeeded, Failed, Cancelled]"

definition CANONICAL_PHASES :: "string list" where
  "CANONICAL_PHASES = [''preflight'', ''waiting-for-quiesce'', ''staging'', ''publishing'',
     ''reopening'', ''catching-up'', ''cleanup'']"

definition PROGRESS_UNITS :: "string list" where
  "PROGRESS_UNITS = [''events'', ''bytes'', ''chunks'']"

definition LOG_KINDS :: "string list" where
  "LOG_KINDS = [''transition'', ''progress'', ''cancel_requested'', ''terminal'']"

definition OUTCOMES :: "string list" where
  "OUTCOMES = [''succeeded'', ''failed'', ''cancelled'', ''blocked'']"

definition SAFE_ID_CHARS :: string where
  "SAFE_ID_CHARS = ascii_lower @ ascii_upper @ ascii_digits @ ''-_''"

definition MAX_ID_LENGTH :: nat where
  "MAX_ID_LENGTH = 64"

definition STABLE_MESSAGES :: "(string \<times> string) list" where
  "STABLE_MESSAGES = [
     (''operation_not_found'', ''no such operation''),
     (''operation_id_conflict'', ''operation id already used with different parameters''),
     (''unsupported_operation_type'', ''no executor is registered for this operation type''),
     (''invalid_operation_record'', ''the operation record is invalid or from an unsupported version''),
     (''store_blocked'', ''the operation store cannot be safely accessed''),
     (''unsupported_privilege'', ''the CLI refuses to run with elevated privileges''),
     (''operation_uncancellable'', ''the operation is past its irreversible point and cannot be cancelled''),
     (''operation_already_terminal'', ''the operation already reached a terminal state''),
     (''deterministic_step_failure'', ''the operation failed deterministically and needs an explicit retry''),
     (''transient_step_failure'', ''the operation failed on a transient condition''),
     (''not_implemented'', ''this command is reserved by the spec and not implemented in this build''),
     (''unknown_schema'', ''no deployed schema matches the filter''),
     (''operation_conflict'', ''the operation changed concurrently; retry''),
     (''fixture_preflight_failed'', ''fixture preflight failed (test-only)'')]"

text \<open>\<open>validate_operation_id\<close>: true where the code returns, false where it raises ValueError.\<close>

definition valid_operation_id :: "string \<Rightarrow> bool" where
  "valid_operation_id s \<longleftrightarrow> s \<noteq> [] \<and> length s \<le> MAX_ID_LENGTH \<and> all_in s SAFE_ID_CHARS"

subsection \<open>The record\<close>

record op_event =
  ev_seq :: int
  ev_at :: string
  ev_kind :: string
  ev_state :: op_state
  ev_phase :: string
  ev_progress :: "(string \<times> int) list option"
  ev_error_code :: "string option"
  ev_outcome :: "string option"

record op_error =
  err_code :: string
  err_message :: string
  err_occurred_at :: string
  err_retryable :: bool
  err_phase :: string
  err_remediation :: string
  err_cause :: "pydict option"

record op_claim =
  claim_pid :: int
  claim_token :: string
  claim_at :: string

record op_progress =
  n_events :: int
  n_bytes :: int
  n_chunks :: int

record operation =
  operation_id :: string
  op_type :: string
  state :: op_state
  phase :: string
  phases :: "string list"
  irreversible_phase :: string
  cancel_phase :: "string option"
  parameters :: pydict
  parameters_fp :: string
  created_at :: string
  updated_at :: string
  cancel_requested :: bool
  cancel_requested_at :: "string option"
  progress :: op_progress
  op_result :: pyval
  op_err :: "op_error option"
  op_log :: "op_event list"
  op_rev :: int
  runner_claim :: "op_claim option"

text \<open>A step that raised \<open>OperationBlocked\<close> or \<open>OperationFailed\<close> carries this object.\<close>

record step_error =
  se_code :: string
  se_phase :: string
  se_retryable :: bool
  se_remediation :: "string option"
  se_cause :: "pydict option"

text \<open>What a step returns: \<open>progress\<close>, \<open>advance\<close> and \<open>result\<close>, each may be absent.\<close>

record step_result =
  sr_progress :: "(string \<times> int) list"
  sr_advance :: bool
  sr_result :: pyval

subsection \<open>Error objects\<close>

definition default_remediation :: "bool \<Rightarrow> string" where
  "default_remediation retryable =
     (if retryable then ''retry the operation'' else ''fix the condition and explicitly retry'')"

definition stable_message :: "string \<Rightarrow> string" where
  "stable_message code = (case map_of STABLE_MESSAGES code of None \<Rightarrow> code | Some m \<Rightarrow> m)"

definition make_error ::
    "string \<Rightarrow> string \<Rightarrow> string \<Rightarrow> bool \<Rightarrow> string option \<Rightarrow> pydict option \<Rightarrow> op_error" where
  "make_error now code ph retryable remediation cause =
     \<lparr>err_code = code, err_message = stable_message code, err_occurred_at = now,
      err_retryable = retryable, err_phase = ph,
      err_remediation = (case remediation of
          Some r \<Rightarrow> if r = [] then default_remediation retryable else r
        | None \<Rightarrow> default_remediation retryable),
      err_cause = cause\<rparr>"

definition to_error_object :: "string \<Rightarrow> step_error \<Rightarrow> op_error" where
  "to_error_object now e =
     make_error now (se_code e) (se_phase e) (se_retryable e) (se_remediation e) (se_cause e)"

subsection \<open>State machine\<close>

fun state_transitions :: "op_state \<Rightarrow> op_state list" where
  "state_transitions Queued = [Running, Cancelled]"
| "state_transitions Running = [Blocked, Failed, Succeeded, Cancelled]"
| "state_transitions Blocked = [Running, Cancelled]"
| "state_transitions Succeeded = []"
| "state_transitions Failed = []"
| "state_transitions Cancelled = []"

definition state_of_name :: "string \<Rightarrow> op_state option" where
  "state_of_name s = map_of (map (\<lambda>x. (state_name x, x)) STATES) s"

definition validate_state_transition :: "string \<Rightarrow> string \<Rightarrow> op_exc + bool" where
  "validate_state_transition current new_state =
     (case state_of_name current of
        None \<Rightarrow> Inl InvalidTransition
      | Some a \<Rightarrow>
          (case state_of_name new_state of
             None \<Rightarrow> Inl InvalidTransition
           | Some b \<Rightarrow> if b \<notin> set (state_transitions a) then Inl InvalidTransition else Inr True))"

definition phase_index :: "operation \<Rightarrow> string \<Rightarrow> op_exc + nat" where
  "phase_index r ph =
     (case index_of (phases r) ph of None \<Rightarrow> Inl InvalidTransition | Some i \<Rightarrow> Inr i)"

definition validate_phase_transition :: "operation \<Rightarrow> string \<Rightarrow> op_exc + bool" where
  "validate_phase_transition r new_phase =
     (if phase r = new_phase then Inr True
      else if new_phase \<notin> set (phases r) then Inl InvalidTransition
      else if phase r \<notin> set (phases r) then Inl InvalidTransition
      else (case phase_index r (phase r) of
              Inl e \<Rightarrow> Inl e
            | Inr i \<Rightarrow>
                (case phase_index r new_phase of
                   Inl e \<Rightarrow> Inl e
                 | Inr j \<Rightarrow> if j \<noteq> i + 1 then Inl InvalidTransition else Inr True)))"

text \<open>
  \<open>is_cancelable\<close>: the last comparison calls \<open>_phase_index\<close> on the irreversible phase, which
  raises when that phase was not recorded; \<open>validate_record\<close> excludes such records, and the
  model answers False there.
\<close>

definition is_cancelable :: "operation \<Rightarrow> bool" where
  "is_cancelable r =
     (if state r \<in> set TERMINAL_STATES then False
      else if state r = Queued then True
      else if phase r \<notin> set (phases r) then False
      else (case phase_index r (phase r) of
              Inl _ \<Rightarrow> False
            | Inr i \<Rightarrow>
                (case phase_index r (irreversible_phase r) of
                   Inl _ \<Rightarrow> False
                 | Inr j \<Rightarrow> i < j)))"

subsection \<open>Creation\<close>

definition new_operation ::
    "(string \<Rightarrow> pydict \<Rightarrow> string) \<Rightarrow> string \<Rightarrow> string \<Rightarrow> string \<Rightarrow> pydict \<Rightarrow> string list \<Rightarrow> string
       \<Rightarrow> string option \<Rightarrow> string option \<Rightarrow> op_exc + operation" where
  "new_operation fp uid now otype params phs irr oid cph =
     (let opid = (case oid of Some s \<Rightarrow> if s = [] then uid else s | None \<Rightarrow> uid) in
      if \<not> valid_operation_id opid then Inl ValueError
      else if phs = [] \<or> irr \<notin> set phs then Inl ValueError
      else if \<not> distinct phs then Inl ValueError
      else if \<not> list_all (\<lambda>p. p \<in> set CANONICAL_PHASES) phs then Inl ValueError
      else if (case cph of Some c \<Rightarrow> c \<notin> set phs | None \<Rightarrow> False) then Inl ValueError
      else if (case cph of
                 Some c \<Rightarrow> the (index_of phs c) \<le> the (index_of phs irr)
               | None \<Rightarrow> False) then Inl ValueError
      else Inr \<lparr>operation_id = opid, op_type = otype, state = Queued, phase = hd phs,
             phases = phs, irreversible_phase = irr, cancel_phase = cph,
             parameters = params, parameters_fp = fp otype params,
             created_at = now, updated_at = now, cancel_requested = False,
             cancel_requested_at = None,
             progress = \<lparr>n_events = 0, n_bytes = 0, n_chunks = 0\<rparr>,
             op_result = PNone, op_err = None, op_log = [], op_rev = 1, runner_claim = None\<rparr>)"

subsection \<open>Event log\<close>

definition append_event ::
    "string \<Rightarrow> string \<Rightarrow> op_state \<Rightarrow> string \<Rightarrow> (string \<times> int) list option \<Rightarrow> string option
       \<Rightarrow> string option \<Rightarrow> operation \<Rightarrow> operation" where
  [step_defs]: "append_event now kind st ph prog code outcome r =
     r\<lparr>op_log := op_log r @ [\<lparr>ev_seq = int (length (op_log r)) + 1, ev_at = now, ev_kind = kind,
          ev_state = st, ev_phase = ph, ev_progress = prog, ev_error_code = code,
          ev_outcome = outcome\<rparr>]\<rparr>"

definition step_index_in_phase :: "operation \<Rightarrow> string \<Rightarrow> nat" where
  "step_index_in_phase r ph =
     length (filter (\<lambda>e. ev_kind e = ''progress'' \<and> ev_phase e = ph) (op_log r))"

subsection \<open>Transforms\<close>

text \<open>Each \<open>now\<close> is the clock reading of the call.\<close>

definition refresh_claim :: "string \<Rightarrow> op_claim \<Rightarrow> operation \<Rightarrow> operation" where
  [step_defs]: "refresh_claim now c r =
     r\<lparr>runner_claim := Some \<lparr>claim_pid = claim_pid c, claim_token = claim_token c, claim_at = now\<rparr>\<rparr>"

definition claim_and_start_transform ::
    "string \<Rightarrow> op_claim \<Rightarrow> bool \<Rightarrow> operation \<Rightarrow> op_exc + (operation \<times> bool)" where
  "claim_and_start_transform now c retry_blocked r =
     (if state r = Queued then
        Inr (append_event now ''transition'' Running (phase r) None None None
               ((refresh_claim now c r)\<lparr>state := Running\<rparr>), True)
      else if state r = Blocked \<and> retry_blocked then
        Inr (append_event now ''transition'' Running (phase r) None None None
               ((refresh_claim now c r)\<lparr>state := Running, op_err := None\<rparr>), True)
      else Inr (r, False))"

definition cancel_checkpoint_transform ::
    "string \<Rightarrow> operation \<Rightarrow> op_exc + (operation \<times> bool)" where
  "cancel_checkpoint_transform now r =
     (if \<not> (cancel_requested r \<and> is_cancelable r) then Inr (r, False)
      else
        (case cancel_phase r of
           Some cp \<Rightarrow>
             (if cp \<noteq> [] \<and> phase r \<noteq> cp then
                (if state r \<in> {Queued, Blocked} then
                   (case validate_state_transition (state_name (state r)) ''running'' of
                      Inl e \<Rightarrow> Inl e
                    | Inr _ \<Rightarrow>
                        Inr ((append_event now ''transition'' Running cp None None None
                               (r\<lparr>state := Running, op_err := None\<rparr>))\<lparr>phase := cp\<rparr>, True))
                 else
                   Inr ((append_event now ''transition'' Running cp None None None r)
                          \<lparr>phase := cp\<rparr>, True))
              else if cp \<noteq> [] \<and> phase r = cp then Inr (r, False)
              else
                (case validate_state_transition (state_name (state r)) ''cancelled'' of
                   Inl e \<Rightarrow> Inl e
                 | Inr _ \<Rightarrow>
                     Inr ((append_event now ''terminal'' Cancelled (phase r) None None
                             (Some ''cancelled'') r)\<lparr>state := Cancelled\<rparr>, True)))
         | None \<Rightarrow>
             (case validate_state_transition (state_name (state r)) ''cancelled'' of
                Inl e \<Rightarrow> Inl e
              | Inr _ \<Rightarrow>
                  Inr ((append_event now ''terminal'' Cancelled (phase r) None None
                          (Some ''cancelled'') r)\<lparr>state := Cancelled\<rparr>, True))))"

definition fail_unsupported_transform ::
    "string \<Rightarrow> op_claim \<Rightarrow> operation \<Rightarrow> op_exc + (operation \<times> bool)" where
  "fail_unsupported_transform now c r =
     (let r1 = refresh_claim now c r;
          r2 = r1\<lparr>op_err := Some (make_error now ''unsupported_operation_type'' (phase r1)
                                   False None None)\<rparr>;
          r3 = append_event now ''terminal'' Failed (phase r2) None
                 (Some ''unsupported_operation_type'') (Some ''failed'') r2
      in Inr (r3\<lparr>state := Failed\<rparr>, True))"

definition mark_step_error_transform ::
    "string \<Rightarrow> op_claim \<Rightarrow> string \<Rightarrow> step_error \<Rightarrow> op_state \<Rightarrow> operation
       \<Rightarrow> op_exc + (operation \<times> bool)" where
  "mark_step_error_transform now c ph e st r =
     (if phase r \<noteq> ph \<or> state r \<noteq> Running then Inr (r, False)
      else
        (let r1 = refresh_claim now c r in
         if cancel_requested r1 \<and> is_cancelable r1 then cancel_checkpoint_transform now r1
         else
           (let r2 = r1\<lparr>op_err := Some (to_error_object now e)\<rparr>;
                r3 = append_event now ''terminal'' st ph None (Some (se_code e))
                       (Some (state_name st)) r2
            in Inr (r3\<lparr>state := st\<rparr>, True))))"

text \<open>\<open>record["progress"][unit] += int(progress[unit])\<close> for every unit present in the delta.\<close>

definition add_unit :: "(string \<times> int) list \<Rightarrow> string \<Rightarrow> int \<Rightarrow> int" where
  "add_unit delta unit n = (case map_of delta unit of None \<Rightarrow> n | Some k \<Rightarrow> n + k)"

definition add_progress :: "(string \<times> int) list \<Rightarrow> op_progress \<Rightarrow> op_progress" where
  "add_progress delta p =
     \<lparr>n_events = add_unit delta ''events'' (n_events p),
      n_bytes = add_unit delta ''bytes'' (n_bytes p),
      n_chunks = add_unit delta ''chunks'' (n_chunks p)\<rparr>"

definition completed_result :: "pyval \<Rightarrow> pyval" where
  "completed_result v = (if truthy v then v else PDict [(''completed'', PBool True)])"

text \<open>The branch taken when the step asked to advance, after progress was recorded.\<close>

definition advance_phase ::
    "string \<Rightarrow> string \<Rightarrow> step_result \<Rightarrow> operation \<Rightarrow> op_exc + (operation \<times> bool)" where
  "advance_phase now ph result r =
     (if cancel_requested r \<and> is_cancelable r \<and> Some (phase r) \<noteq> cancel_phase r then
        Inr (r, True)
      else if Some ph = cancel_phase r \<and> cancel_requested r then
        Inr ((append_event now ''terminal'' Cancelled ph None None (Some ''cancelled'')
                (r\<lparr>op_err := None\<rparr>))\<lparr>state := Cancelled\<rparr>, True)
      else if ph = last (phases r) then
        Inr ((append_event now ''terminal'' Succeeded ph None None (Some ''succeeded'')
                (r\<lparr>op_result := completed_result (sr_result result), op_err := None\<rparr>))
               \<lparr>state := Succeeded\<rparr>, True)
      else
        (case phase_index r ph of
           Inl e \<Rightarrow> Inl e
         | Inr i \<Rightarrow>
             (let new_phase = phases r ! (i + 1) in
              case validate_phase_transition r new_phase of
                Inl e \<Rightarrow> Inl e
              | Inr _ \<Rightarrow>
                  Inr ((append_event now ''transition'' Running new_phase None None None r)
                         \<lparr>phase := new_phase\<rparr>, True))))"

definition apply_step_result_transform ::
    "string \<Rightarrow> op_claim \<Rightarrow> string \<Rightarrow> step_result \<Rightarrow> operation \<Rightarrow> op_exc + (operation \<times> bool)" where
  "apply_step_result_transform now c ph result r =
     (if phase r \<noteq> ph then Inr (r, False)
      else
        (let r1 = refresh_claim now c r;
             r2 = (if sr_progress result \<noteq> [] then
                     append_event now ''progress'' (state r1) ph (Some (sr_progress result)) None None
                       (r1\<lparr>progress := add_progress (sr_progress result) (progress r1)\<rparr>)
                   else r1)
         in if sr_advance result then advance_phase now ph result r2 else Inr (r2, True)))"

subsection \<open>Cancel requests\<close>

datatype cancel_class = AlreadyCancelled | AlreadyTerminal | Uncancellable | Requested

definition classify_cancel :: "operation \<Rightarrow> cancel_class" where
  "classify_cancel r =
     (if state r = Cancelled then AlreadyCancelled
      else if state r \<in> {Succeeded, Failed} then AlreadyTerminal
      else if \<not> is_cancelable r then Uncancellable
      else Requested)"

text \<open>The two closures that \<open>cancel_operation\<close> hands to \<open>mutate\<close>.\<close>

definition cancel_blocked :: "string \<Rightarrow> operation \<Rightarrow> op_exc + (operation \<times> bool)" where
  "cancel_blocked now r =
     (if state r \<noteq> Blocked \<or> \<not> is_cancelable r then Inr (r, False)
      else
        (case validate_state_transition (state_name (state r)) ''cancelled'' of
           Inl e \<Rightarrow> Inl e
         | Inr _ \<Rightarrow>
             Inr ((append_event now ''terminal'' Cancelled (phase r) None None
                     (Some ''cancelled'') r)\<lparr>state := Cancelled\<rparr>, True)))"

definition cancel_apply :: "string \<Rightarrow> operation \<Rightarrow> op_exc + (operation \<times> bool)" where
  "cancel_apply now r =
     (if classify_cancel r \<noteq> Requested then Inr (r, False)
      else if cancel_requested r then Inr (r, False)
      else Inr (append_event now ''cancel_requested'' (state r) (phase r) None None None
                  (r\<lparr>cancel_requested := True, cancel_requested_at := Some now\<rparr>), True))"

subsection \<open>Waiting and output\<close>

definition operation_outcome_exit_code :: "op_state option \<Rightarrow> int" where
  "operation_outcome_exit_code outcome =
     (if outcome \<in> {Some Succeeded, Some Cancelled} then 0
      else if outcome \<in> {Some Failed, Some Blocked} then 1 else 2)"

text \<open>\<open>_scrub_private\<close> drops every \<open>parameters\<close> entry, at any depth.\<close>

fun scrub_private :: "pyval \<Rightarrow> pyval" where
  "scrub_private (PDict d) =
     PDict (map (\<lambda>kv. (fst kv, scrub_private (snd kv))) (filter (\<lambda>kv. fst kv \<noteq> ''parameters'') d))"
| "scrub_private (PList xs) = PList (map scrub_private xs)"
| "scrub_private v = v"

definition public_record :: "pyval \<Rightarrow> pyval" where
  "public_record r = scrub_private r"

end
