(* ===== verification/Op_Record.thy ===== *)
theory Op_Record
  imports Op_Model
begin

text \<open>
  The persistent long-operation engine, part 2 (daemon/operations.py): the structural
  validation of a record read from disk as an untyped JSON value, the JSON form of the typed
  record, and the refinement between the two: on the JSON form of a typed record the
  validator decides exactly the typed well-formedness predicate \<open>op_valid\<close>.

  \<open>ts_ok s\<close> stands for "\<open>datetime.fromisoformat(s)\<close> returns a value with a time zone";
  \<open>fp\<close> is the SHA-256 fingerprint of the canonical JSON text, \<open>None\<close> where computing it
  raises.
\<close>

definition REQUIRED_RECORD_FIELDS :: "string list" where
  "REQUIRED_RECORD_FIELDS = [''operation_version'', ''operation_id'', ''type'', ''state'',
     ''phase'', ''phases'', ''irreversible_phase'', ''cancel_phase'', ''parameters'',
     ''parameters_fingerprint'', ''created_at'', ''updated_at'', ''cancel_requested'',
     ''cancel_requested_at'', ''progress'', ''result'', ''error'', ''log'', ''rev'',
     ''runner_claim'']"

definition ERROR_FIELDS :: "string list" where
  "ERROR_FIELDS = [''error_version'', ''code'', ''message'', ''occurred_at'', ''retryable'',
     ''phase'', ''remediation'', ''cause'']"

definition EVENT_FIELDS :: "string list" where
  "EVENT_FIELDS = [''event_version'', ''seq'', ''at'', ''kind'', ''state'', ''phase'',
     ''progress'', ''error_code'', ''outcome'']"

definition valid_timestamp :: "(string \<Rightarrow> bool) \<Rightarrow> pyval \<Rightarrow> bool" where
  "valid_timestamp ts_ok v \<longleftrightarrow> is_str v \<and> str_of_val v \<noteq> [] \<and> ts_ok (str_of_val v)"

definition valid_claim :: "(string \<Rightarrow> bool) \<Rightarrow> pyval \<Rightarrow> bool" where
  "valid_claim ts_ok v \<longleftrightarrow>
     v = PNone \<or>
     (is_dict v \<and>
      (let d = dict_of_val v in
        is_exact_int (dget d ''pid'') \<and> int_of_val (dget d ''pid'') > 0 \<and>
        is_str (dget d ''token'') \<and> str_of_val (dget d ''token'') \<noteq> [] \<and>
        valid_timestamp ts_ok (dget d ''claimed_at'')))"

definition valid_error :: "(string \<Rightarrow> bool) \<Rightarrow> pyval \<Rightarrow> bool" where
  "valid_error ts_ok v \<longleftrightarrow>
     v = PNone \<or>
     (is_dict v \<and>
      (let d = dict_of_val v in
        keys_are d ERROR_FIELDS \<and>
        eq_int (dget d ''error_version'') 1 \<and>
        is_str (dget d ''code'') \<and> str_of_val (dget d ''code'') \<noteq> [] \<and>
        is_str (dget d ''message'') \<and> str_of_val (dget d ''message'') \<noteq> [] \<and>
        valid_timestamp ts_ok (dget d ''occurred_at'') \<and>
        is_bool (dget d ''retryable'') \<and>
        is_str (dget d ''phase'') \<and> str_of_val (dget d ''phase'') \<noteq> [] \<and>
        is_str (dget d ''remediation'') \<and>
        (is_dict (dget d ''cause'') \<or> dget d ''cause'' = PNone)))"

text \<open>\<open>isinstance(s, str) and s in STATES\<close>\<close>

definition is_state :: "pyval \<Rightarrow> bool" where
  "is_state v \<longleftrightarrow> is_str v \<and> state_of_name (str_of_val v) \<noteq> None"

definition valid_delta :: "pyval \<Rightarrow> bool" where
  "valid_delta v \<longleftrightarrow> is_dict v \<and> dict_of_val v \<noteq> [] \<and>
     list_all (\<lambda>(unit, n). unit \<in> set PROGRESS_UNITS \<and> isinstance_int n \<and> \<not> is_bool n \<and>
                 \<not> int_of_val n < 0) (dict_of_val v)"

text \<open>One log entry at zero-based position \<open>i\<close>, given the recorded phases.\<close>

definition valid_entry :: "string list \<Rightarrow> int \<Rightarrow> pyval \<Rightarrow> bool" where
  "valid_entry phs i v \<longleftrightarrow> is_dict v \<and>
     (let d = dict_of_val v; kind = dget d ''kind'' in
        list_all (\<lambda>k. k \<in> set EVENT_FIELDS) (map fst d) \<and>
        is_exact_int (dget d ''seq'') \<and> int_of_val (dget d ''seq'') = i + 1 \<and>
        eq_int (dget d ''event_version'') 1 \<and>
        is_str (dget d ''at'') \<and> str_of_val (dget d ''at'') \<noteq> [] \<and>
        is_str kind \<and> str_of_val kind \<in> set LOG_KINDS \<and>
        is_state (dget d ''state'') \<and>
        is_str (dget d ''phase'') \<and> str_of_val (dget d ''phase'') \<in> set phs \<and>
        (if kind = PStr ''progress'' then valid_delta (dget d ''progress'') else True) \<and>
        (if kind = PStr ''terminal''
         then is_str (dget d ''outcome'') \<and> str_of_val (dget d ''outcome'') \<in> set OUTCOMES
         else True) \<and>
        (dget d ''error_code'' = PNone \<or> is_str (dget d ''error_code'')))"

fun valid_log :: "string list \<Rightarrow> int \<Rightarrow> pyval list \<Rightarrow> bool" where
  "valid_log phs i [] = True"
| "valid_log phs i (v # vs) = (valid_entry phs i v \<and> valid_log phs (i + 1) vs)"

definition canonical_indexes :: "string list \<Rightarrow> nat list" where
  "canonical_indexes phs = map (\<lambda>p. the (index_of CANONICAL_PHASES p)) phs"

definition valid_phases :: "pyval \<Rightarrow> bool" where
  "valid_phases v \<longleftrightarrow> is_list v \<and> list_of_val v \<noteq> [] \<and> list_all is_str (list_of_val v) \<and>
     (let phs = map str_of_val (list_of_val v) in
        distinct phs \<and> list_all (\<lambda>p. p \<in> set CANONICAL_PHASES) phs \<and>
        sorted (canonical_indexes phs))"

definition valid_progress :: "pyval \<Rightarrow> bool" where
  "valid_progress v \<longleftrightarrow> is_dict v \<and> keys_are (dict_of_val v) PROGRESS_UNITS \<and>
     list_all (\<lambda>u. is_exact_int (dget (dict_of_val v) u) \<and>
                   \<not> int_of_val (dget (dict_of_val v) u) < 0) PROGRESS_UNITS"

definition valid_fingerprint ::
    "(string \<Rightarrow> pydict \<Rightarrow> string option) \<Rightarrow> string \<Rightarrow> pydict \<Rightarrow> pyval \<Rightarrow> bool" where
  "valid_fingerprint fp otype params v =
     (case fp otype params of
        None \<Rightarrow> False
      | Some expected \<Rightarrow>
          is_str v \<and> length (str_of_val v) = 64 \<and> all_in (str_of_val v) lower_hex \<and>
          str_of_val v = expected)"

definition validate_record ::
    "(string \<Rightarrow> bool) \<Rightarrow> (string \<Rightarrow> pydict \<Rightarrow> string option) \<Rightarrow> pyval \<Rightarrow> bool" where
  "validate_record ts_ok fp recd =
     (if \<not> is_dict recd then False else
      let d = dict_of_val recd in
      if \<not> eq_int (dget d ''operation_version'') 1 then False
      else if \<not> keys_are d REQUIRED_RECORD_FIELDS then False
      else if \<not> (is_str (dget d ''operation_id'') \<and> valid_operation_id (str_of_val (dget d ''operation_id'')))
        then False
      else if \<not> is_str (dget d ''type'') \<or> str_of_val (dget d ''type'') = [] then False
      else if \<not> is_dict (dget d ''parameters'') then False
      else if \<not> valid_fingerprint fp (str_of_val (dget d ''type''))
                  (dict_of_val (dget d ''parameters'')) (dget d ''parameters_fingerprint'')
        then False
      else if \<not> valid_timestamp ts_ok (dget d ''created_at'')
              \<or> \<not> valid_timestamp ts_ok (dget d ''updated_at'') then False
      else if \<not> is_bool (dget d ''cancel_requested'') then False
      else if dget d ''cancel_requested_at'' \<noteq> PNone
              \<and> \<not> valid_timestamp ts_ok (dget d ''cancel_requested_at'') then False
      else if truthy (dget d ''cancel_requested'') \<and> dget d ''cancel_requested_at'' = PNone
        then False
      else if \<not> (is_dict (dget d ''result'') \<or> dget d ''result'' = PNone) then False
      else if \<not> valid_error ts_ok (dget d ''error'') then False
      else if \<not> is_state (dget d ''state'') then False
      else if \<not> is_exact_int (dget d ''rev'') \<or> int_of_val (dget d ''rev'') < 1 then False
      else if \<not> valid_claim ts_ok (dget d ''runner_claim'') then False
      else if \<not> valid_phases (dget d ''phases'') then False
      else
        (let phs = map str_of_val (list_of_val (dget d ''phases''));
             irr = dget d ''irreversible_phase''; cph = dget d ''cancel_phase'' in
         if \<not> is_str irr \<or> str_of_val irr \<notin> set phs then False
         else if cph \<noteq> PNone \<and> (\<not> is_str cph \<or> str_of_val cph \<notin> set phs) then False
         else if cph \<noteq> PNone
                 \<and> the (index_of phs (str_of_val cph)) \<le> the (index_of phs (str_of_val irr)) then False
         else if \<not> is_str (dget d ''phase'') \<or> str_of_val (dget d ''phase'') \<notin> set phs then False
         else if \<not> valid_progress (dget d ''progress'') then False
         else if \<not> is_list (dget d ''log'') then False
         else valid_log phs 0 (list_of_val (dget d ''log''))))"

subsection \<open>The JSON form of a typed record\<close>

definition opt_str :: "string option \<Rightarrow> pyval" where
  "opt_str ov = (case ov of None \<Rightarrow> PNone | Some s \<Rightarrow> PStr s)"

definition opt_field :: "string \<Rightarrow> pyval option \<Rightarrow> pydict" where
  "opt_field k v = (case v of None \<Rightarrow> [] | Some x \<Rightarrow> [(k, x)])"

definition event_json :: "op_event \<Rightarrow> pyval" where
  "event_json e = PDict
     ([(''event_version'', PInt 1), (''seq'', PInt (ev_seq e)), (''at'', PStr (ev_at e)),
       (''kind'', PStr (ev_kind e)), (''state'', PStr (state_name (ev_state e))),
       (''phase'', PStr (ev_phase e))] @
      opt_field ''progress''
        (map_option (\<lambda>d. PDict (map (\<lambda>(u, n). (u, PInt n)) d)) (ev_progress e)) @
      opt_field ''error_code'' (map_option PStr (ev_error_code e)) @
      opt_field ''outcome'' (map_option PStr (ev_outcome e)))"

definition error_json :: "op_error option \<Rightarrow> pyval" where
  "error_json ov = (case ov of None \<Rightarrow> PNone | Some e \<Rightarrow> PDict
     [(''error_version'', PInt 1), (''code'', PStr (err_code e)),
      (''message'', PStr (err_message e)), (''occurred_at'', PStr (err_occurred_at e)),
      (''retryable'', PBool (err_retryable e)), (''phase'', PStr (err_phase e)),
      (''remediation'', PStr (err_remediation e)),
      (''cause'', case err_cause e of None \<Rightarrow> PNone | Some c \<Rightarrow> PDict c)])"

definition claim_json :: "op_claim option \<Rightarrow> pyval" where
  "claim_json ov = (case ov of None \<Rightarrow> PNone | Some c \<Rightarrow> PDict
     [(''pid'', PInt (claim_pid c)), (''token'', PStr (claim_token c)),
      (''claimed_at'', PStr (claim_at c))])"

definition progress_json :: "op_progress \<Rightarrow> pyval" where
  "progress_json p = PDict [(''events'', PInt (n_events p)), (''bytes'', PInt (n_bytes p)),
     (''chunks'', PInt (n_chunks p))]"

definition record_json :: "operation \<Rightarrow> pyval" where
  "record_json r = PDict
     [(''operation_version'', PInt 1), (''operation_id'', PStr (operation_id r)),
      (''type'', PStr (op_type r)), (''state'', PStr (state_name (state r))),
      (''phase'', PStr (phase r)), (''phases'', PList (map PStr (phases r))),
      (''irreversible_phase'', PStr (irreversible_phase r)),
      (''cancel_phase'', opt_str (cancel_phase r)),
      (''parameters'', PDict (parameters r)),
      (''parameters_fingerprint'', PStr (parameters_fp r)),
      (''created_at'', PStr (created_at r)), (''updated_at'', PStr (updated_at r)),
      (''cancel_requested'', PBool (cancel_requested r)),
      (''cancel_requested_at'', opt_str (cancel_requested_at r)),
      (''progress'', progress_json (progress r)), (''result'', op_result r),
      (''error'', error_json (op_err r)), (''log'', PList (map event_json (op_log r))),
      (''rev'', PInt (op_rev r)), (''runner_claim'', claim_json (runner_claim r))]"

subsection \<open>Typed well-formedness\<close>

definition ts_valid :: "(string \<Rightarrow> bool) \<Rightarrow> string \<Rightarrow> bool" where
  "ts_valid ts_ok s \<longleftrightarrow> s \<noteq> [] \<and> ts_ok s"

definition delta_valid :: "(string \<times> int) list \<Rightarrow> bool" where
  "delta_valid d \<longleftrightarrow> d \<noteq> [] \<and> list_all (\<lambda>(u, n). u \<in> set PROGRESS_UNITS \<and> 0 \<le> n) d"

definition event_valid :: "string list \<Rightarrow> int \<Rightarrow> op_event \<Rightarrow> bool" where
  "event_valid phs i e \<longleftrightarrow>
     ev_seq e = i + 1 \<and> ev_at e \<noteq> [] \<and> ev_kind e \<in> set LOG_KINDS \<and> ev_phase e \<in> set phs \<and>
     (ev_kind e = ''progress'' \<longrightarrow> (case ev_progress e of None \<Rightarrow> False | Some d \<Rightarrow> delta_valid d)) \<and>
     (ev_kind e = ''terminal'' \<longrightarrow>
        (case ev_outcome e of None \<Rightarrow> False | Some s \<Rightarrow> s \<in> set OUTCOMES))"

fun log_valid :: "string list \<Rightarrow> int \<Rightarrow> op_event list \<Rightarrow> bool" where
  "log_valid phs i [] = True"
| "log_valid phs i (e # es) = (event_valid phs i e \<and> log_valid phs (i + 1) es)"

definition err_valid :: "(string \<Rightarrow> bool) \<Rightarrow> op_error \<Rightarrow> bool" where
  "err_valid ts_ok e \<longleftrightarrow> err_code e \<noteq> [] \<and> err_message e \<noteq> [] \<and>
     ts_valid ts_ok (err_occurred_at e) \<and> err_phase e \<noteq> []"

definition claim_valid :: "(string \<Rightarrow> bool) \<Rightarrow> op_claim \<Rightarrow> bool" where
  "claim_valid ts_ok c \<longleftrightarrow> 0 < claim_pid c \<and> claim_token c \<noteq> [] \<and> ts_valid ts_ok (claim_at c)"

text \<open>The phase machine of a record: its recorded phases and the two marked ones.\<close>

definition machine_valid :: "operation \<Rightarrow> bool" where
  "machine_valid r \<longleftrightarrow>
     phases r \<noteq> [] \<and> distinct (phases r) \<and> set (phases r) \<subseteq> set CANONICAL_PHASES \<and>
     sorted (canonical_indexes (phases r)) \<and> irreversible_phase r \<in> set (phases r) \<and>
     (\<forall>c. cancel_phase r = Some c \<longrightarrow> c \<in> set (phases r) \<and>
        the (index_of (phases r) (irreversible_phase r)) < the (index_of (phases r) c)) \<and>
     phase r \<in> set (phases r)"

definition progress_valid :: "op_progress \<Rightarrow> bool" where
  "progress_valid p \<longleftrightarrow> 0 \<le> n_events p \<and> 0 \<le> n_bytes p \<and> 0 \<le> n_chunks p"

definition op_valid :: "(string \<Rightarrow> bool) \<Rightarrow> (string \<Rightarrow> pydict \<Rightarrow> string) \<Rightarrow> operation \<Rightarrow> bool" where
  "op_valid ts_ok fp r \<longleftrightarrow>
     valid_operation_id (operation_id r) \<and> op_type r \<noteq> [] \<and>
     length (parameters_fp r) = 64 \<and> all_in (parameters_fp r) lower_hex \<and>
     parameters_fp r = fp (op_type r) (parameters r) \<and>
     ts_valid ts_ok (created_at r) \<and> ts_valid ts_ok (updated_at r) \<and>
     (\<forall>t. cancel_requested_at r = Some t \<longrightarrow> ts_valid ts_ok t) \<and>
     (cancel_requested r \<longrightarrow> cancel_requested_at r \<noteq> None) \<and>
     (is_dict (op_result r) \<or> op_result r = PNone) \<and>
     (\<forall>e. op_err r = Some e \<longrightarrow> err_valid ts_ok e) \<and>
     1 \<le> op_rev r \<and> (\<forall>c. runner_claim r = Some c \<longrightarrow> claim_valid ts_ok c) \<and>
     machine_valid r \<and> progress_valid (progress r) \<and> log_valid (phases r) 0 (op_log r)"

subsection \<open>The validator on JSON forms\<close>

lemma state_of_state_name [simp]: "state_of_name (state_name s) = Some s"
  by (cases s) (simp_all add: state_of_name_def STATES_def)

lemma valid_timestamp_PStr [simp]: "valid_timestamp ts_ok (PStr s) = ts_valid ts_ok s"
  by (simp add: valid_timestamp_def ts_valid_def)

lemma valid_timestamp_PNone [simp]: "\<not> valid_timestamp ts_ok PNone"
  by (simp add: valid_timestamp_def)

lemma has_key_Cons [simp]: "has_key ((k, v) # d) k' = (k = k' \<or> has_key d k')"
  by (auto simp: has_key_def)

lemma has_key_Nil [simp]: "\<not> has_key [] k"
  by (simp add: has_key_def)

lemma dget_append [simp]:
  "dget (d @ d') k = (if has_key d k then dget d k else dget d' k)"
proof (induction d)
  case (Cons a d)
  then show ?case by (cases a) simp
qed simp

lemma dget_opt_field [simp]:
  "dget (opt_field k v) k' = (if k = k' then (case v of None \<Rightarrow> PNone | Some x \<Rightarrow> x) else PNone)"
  by (simp add: opt_field_def split: option.splits)

lemma has_key_opt_field [simp]: "has_key (opt_field k v) k' = (k = k' \<and> v \<noteq> None)"
  by (auto simp: opt_field_def split: option.splits)

lemma valid_delta_json:
  "valid_delta (PDict (map (\<lambda>(u, n). (u, PInt n)) d)) = delta_valid d"
  by (auto simp: valid_delta_def delta_valid_def list_all_iff)

lemma valid_delta_PNone [simp]: "\<not> valid_delta PNone"
  by (simp add: valid_delta_def)

lemma event_json_keys:
  "is_dict (event_json e)"
  "list_all (\<lambda>k. k \<in> set EVENT_FIELDS) (map fst (dict_of_val (event_json e)))"
  by (auto simp: event_json_def EVENT_FIELDS_def opt_field_def split: option.splits)

lemma event_json_get:
  "dget (dict_of_val (event_json e)) ''event_version'' = PInt 1"
  "dget (dict_of_val (event_json e)) ''seq'' = PInt (ev_seq e)"
  "dget (dict_of_val (event_json e)) ''at'' = PStr (ev_at e)"
  "dget (dict_of_val (event_json e)) ''kind'' = PStr (ev_kind e)"
  "dget (dict_of_val (event_json e)) ''state'' = PStr (state_name (ev_state e))"
  "dget (dict_of_val (event_json e)) ''phase'' = PStr (ev_phase e)"
  "dget (dict_of_val (event_json e)) ''progress'' =
     (case ev_progress e of None \<Rightarrow> PNone | Some d \<Rightarrow> PDict (map (\<lambda>(u, n). (u, PInt n)) d))"
  "dget (dict_of_val (event_json e)) ''error_code'' = opt_str (ev_error_code e)"
  "dget (dict_of_val (event_json e)) ''outcome'' = opt_str (ev_outcome e)"
  by (auto simp: event_json_def opt_str_def split: option.splits)

lemma valid_entry_json: "valid_entry phs i (event_json e) = event_valid phs i e"
  unfolding valid_entry_def Let_def event_json_get
  by (auto simp: event_json_keys event_valid_def opt_str_def valid_delta_json is_state_def
        split: option.splits)

lemma valid_log_json: "valid_log phs i (map event_json es) = log_valid phs i es"
  by (induction es arbitrary: i) (simp_all add: valid_entry_json)

lemma valid_error_json:
  "valid_error ts_ok (error_json ov) = (\<forall>e. ov = Some e \<longrightarrow> err_valid ts_ok e)"
  by (cases ov) (auto simp: valid_error_def error_json_def err_valid_def keys_are_def
        ERROR_FIELDS_def split: option.splits)

lemma valid_claim_json:
  "valid_claim ts_ok (claim_json ov) = (\<forall>c. ov = Some c \<longrightarrow> claim_valid ts_ok c)"
  by (cases ov) (auto simp: valid_claim_def claim_json_def claim_valid_def)

lemma map_str_of_PStr [simp]: "map (str_of_val \<circ> PStr) xs = xs"
  by (induction xs) simp_all

lemma list_all_is_str_PStr [simp]: "list_all is_str (map PStr xs)"
  by (induction xs) simp_all

lemma valid_phases_json:
  "valid_phases (PList (map PStr phs)) \<longleftrightarrow>
     phs \<noteq> [] \<and> distinct phs \<and> set phs \<subseteq> set CANONICAL_PHASES \<and> sorted (canonical_indexes phs)"
  by (auto simp: valid_phases_def list_all_iff)

lemma valid_progress_json: "valid_progress (progress_json p) = progress_valid p"
  by (auto simp: valid_progress_def progress_json_def progress_valid_def keys_are_def
        PROGRESS_UNITS_def)

lemma record_json_keys:
  "is_dict (record_json r)" "keys_are (dict_of_val (record_json r)) REQUIRED_RECORD_FIELDS"
  by (simp_all add: record_json_def keys_are_def REQUIRED_RECORD_FIELDS_def)

lemma record_json_get:
  "dget (dict_of_val (record_json r)) ''operation_version'' = PInt 1"
  "dget (dict_of_val (record_json r)) ''operation_id'' = PStr (operation_id r)"
  "dget (dict_of_val (record_json r)) ''type'' = PStr (op_type r)"
  "dget (dict_of_val (record_json r)) ''state'' = PStr (state_name (state r))"
  "dget (dict_of_val (record_json r)) ''phase'' = PStr (phase r)"
  "dget (dict_of_val (record_json r)) ''phases'' = PList (map PStr (phases r))"
  "dget (dict_of_val (record_json r)) ''irreversible_phase'' = PStr (irreversible_phase r)"
  "dget (dict_of_val (record_json r)) ''cancel_phase'' = opt_str (cancel_phase r)"
  "dget (dict_of_val (record_json r)) ''parameters'' = PDict (parameters r)"
  "dget (dict_of_val (record_json r)) ''parameters_fingerprint'' = PStr (parameters_fp r)"
  "dget (dict_of_val (record_json r)) ''created_at'' = PStr (created_at r)"
  "dget (dict_of_val (record_json r)) ''updated_at'' = PStr (updated_at r)"
  "dget (dict_of_val (record_json r)) ''cancel_requested'' = PBool (cancel_requested r)"
  "dget (dict_of_val (record_json r)) ''cancel_requested_at'' = opt_str (cancel_requested_at r)"
  "dget (dict_of_val (record_json r)) ''progress'' = progress_json (progress r)"
  "dget (dict_of_val (record_json r)) ''result'' = op_result r"
  "dget (dict_of_val (record_json r)) ''error'' = error_json (op_err r)"
  "dget (dict_of_val (record_json r)) ''log'' = PList (map event_json (op_log r))"
  "dget (dict_of_val (record_json r)) ''rev'' = PInt (op_rev r)"
  "dget (dict_of_val (record_json r)) ''runner_claim'' = claim_json (runner_claim r)"
  by (simp_all add: record_json_def)

lemma opt_str_simps [simp]:
  "(opt_str ov = PNone) = (ov = None)"
  "is_str (opt_str ov) = (ov \<noteq> None)"
  "str_of_val (opt_str ov) = (case ov of None \<Rightarrow> [] | Some s \<Rightarrow> s)"
  "valid_timestamp ts_ok (opt_str ov) = (\<exists>s. ov = Some s \<and> ts_valid ts_ok s)"
  by (cases ov; simp add: opt_str_def)+

text \<open>The validator agrees with the typed predicate on the JSON form of every typed record.\<close>

lemma validate_record_json:
  "validate_record ts_ok (\<lambda>t p. Some (fp t p)) (record_json r) = op_valid ts_ok fp r"
  unfolding validate_record_def Let_def record_json_get op_valid_def machine_valid_def
    if_False_conv
  apply (simp add: record_json_keys valid_fingerprint_def valid_error_json is_state_def
      valid_claim_json valid_phases_json valid_progress_json valid_log_json not_le not_less)
  apply (cases "cancel_phase r"; cases "cancel_requested_at r"; simp; blast)
  done

end
