(* ===== verification/Op_Invariants.thy ===== *)
theory Op_Invariants
  imports Op_Record
begin

text \<open>
  Preservation facts of the record transforms of daemon/operations.py: no transform raises on
  a well-formed record, every transform keeps the record well-formed (so the validation
  inside \<open>_write_record\<close> never refuses a runner's own write), the phase never moves
  backwards, and the identity, machine and parameters of a record never change.
\<close>

subsection \<open>Positions in the phase machine\<close>

definition pos :: "operation \<Rightarrow> string \<Rightarrow> nat" where
  "pos r ph = the (index_of (phases r) ph)"

lemma phase_index_in [simp]: "ph \<in> set (phases r) \<Longrightarrow> phase_index r ph = Inr (pos r ph)"
  by (auto simp: phase_index_def pos_def dest!: index_of_Some)

lemma pos_less: "ph \<in> set (phases r) \<Longrightarrow> pos r ph < length (phases r)"
  using index_of_Some index_of_nth unfolding pos_def by (metis option.sel)

lemma nth_pos: "ph \<in> set (phases r) \<Longrightarrow> phases r ! pos r ph = ph"
  using index_of_Some index_of_nth unfolding pos_def by (metis option.sel)

lemma pos_nth: "distinct (phases r) \<Longrightarrow> i < length (phases r) \<Longrightarrow> pos r (phases r ! i) = i"
  by (simp add: pos_def nth_index_of)

lemma pos_inj: "a \<in> set (phases r) \<Longrightarrow> b \<in> set (phases r) \<Longrightarrow> pos r a = pos r b \<Longrightarrow> a = b"
  using nth_pos by metis

lemma pos_last: "distinct (phases r) \<Longrightarrow> phases r \<noteq> [] \<Longrightarrow> pos r (last (phases r)) = length (phases r) - 1"
  using pos_nth [of r "length (phases r) - 1"] by (simp add: last_conv_nth)

lemma pos_not_last:
  assumes "distinct (phases r)" "phases r \<noteq> []" "ph \<in> set (phases r)" "ph \<noteq> last (phases r)"
  shows "pos r ph + 1 < length (phases r)"
proof -
  have "pos r ph \<noteq> length (phases r) - 1"
    using assms nth_pos [of ph r] by (auto simp: last_conv_nth)
  with pos_less [OF assms(3)] show ?thesis by linarith
qed

lemma is_cancelable_iff:
  assumes "machine_valid r"
  shows "is_cancelable r \<longleftrightarrow>
    state r \<in> {Queued, Running, Blocked} \<and>
    (state r = Queued \<or> pos r (phase r) < pos r (irreversible_phase r))"
  using assms by (cases "state r") (simp_all add: is_cancelable_def machine_valid_def TERMINAL_STATES_def)

lemma cancel_phase_after:
  "machine_valid r \<Longrightarrow> cancel_phase r = Some c \<Longrightarrow>
     c \<in> set (phases r) \<and> pos r (irreversible_phase r) < pos r c \<and> c \<noteq> []"
  by (auto simp: machine_valid_def pos_def CANONICAL_PHASES_def)

subsection \<open>What no transform changes\<close>

text \<open>Identity, machine, parameters, creation time and revision.\<close>

definition frame :: "operation \<Rightarrow> operation \<Rightarrow> bool" where
  "frame r r' \<longleftrightarrow>
     operation_id r' = operation_id r \<and> op_type r' = op_type r \<and> phases r' = phases r \<and>
     irreversible_phase r' = irreversible_phase r \<and> cancel_phase r' = cancel_phase r \<and>
     parameters r' = parameters r \<and> parameters_fp r' = parameters_fp r \<and>
     created_at r' = created_at r \<and> updated_at r' = updated_at r \<and> op_rev r' = op_rev r"

lemma frame_refl [simp]: "frame r r"
  by (simp add: frame_def)

lemma frame_trans: "frame r s \<Longrightarrow> frame s t \<Longrightarrow> frame r t"
  by (simp add: frame_def)

lemma frame_pos: "frame r r' \<Longrightarrow> pos r' = pos r"
  by (simp add: frame_def pos_def fun_eq_iff)

lemma validate_to_running [simp]:
  "s \<in> {Queued, Blocked} \<Longrightarrow> validate_state_transition (state_name s) ''running'' = Inr True"
  using state_of_state_name [of Running] by (auto simp: validate_state_transition_def)

lemma validate_to_cancelled [simp]:
  "s \<in> {Queued, Running, Blocked} \<Longrightarrow>
     validate_state_transition (state_name s) ''cancelled'' = Inr True"
  using state_of_state_name [of Cancelled] by (auto simp: validate_state_transition_def)

lemma is_cancelable_live: "is_cancelable r \<Longrightarrow> state r \<in> {Queued, Running, Blocked}"
  by (cases "state r") (auto simp: is_cancelable_def TERMINAL_STATES_def)

lemma is_cancelable_cong:
  "state r' = state r \<Longrightarrow> phase r' = phase r \<Longrightarrow> phases r' = phases r \<Longrightarrow>
     irreversible_phase r' = irreversible_phase r \<Longrightarrow> is_cancelable r' = is_cancelable r"
  by (simp add: is_cancelable_def phase_index_def cong: sum.case_cong)

text \<open>Only the state, the phase and the machine decide whether a cancel is honoured.\<close>

lemma is_cancelable_updates [simp]:
  "is_cancelable (r\<lparr>op_err := er\<rparr>) = is_cancelable r"
  "is_cancelable (r\<lparr>op_result := v\<rparr>) = is_cancelable r"
  "is_cancelable (r\<lparr>progress := pg\<rparr>) = is_cancelable r"
  "is_cancelable (r\<lparr>cancel_requested := b\<rparr>) = is_cancelable r"
  "is_cancelable (r\<lparr>cancel_requested_at := t\<rparr>) = is_cancelable r"
  "is_cancelable (r\<lparr>cancel_requested := b, cancel_requested_at := t\<rparr>) = is_cancelable r"
  "is_cancelable (r\<lparr>runner_claim := c\<rparr>) = is_cancelable r"
  "is_cancelable (r\<lparr>state := s, op_err := er\<rparr>) = is_cancelable (r\<lparr>state := s\<rparr>)"
  by (rule is_cancelable_cong; simp)+

text \<open>The checkpoint as one conditional: the state checks inside it never raise.\<close>

lemma cancel_checkpoint_eq:
  "cancel_checkpoint_transform now r =
     Inr (if \<not> (cancel_requested r \<and> is_cancelable r) then (r, False)
          else if cancel_phase r \<noteq> None \<and> cancel_phase r \<noteq> Some [] then
            (if phase r = the (cancel_phase r) then (r, False)
             else ((append_event now ''transition'' Running (the (cancel_phase r)) None None None
                      (if state r = Running then r else r\<lparr>state := Running, op_err := None\<rparr>))
                     \<lparr>phase := the (cancel_phase r)\<rparr>, True))
          else ((append_event now ''terminal'' Cancelled (phase r) None None
                   (Some ''cancelled'') r)\<lparr>state := Cancelled\<rparr>, True))"
  using is_cancelable_live [of r]
  by (auto simp: cancel_checkpoint_transform_def split: option.splits)

lemma cancel_blocked_eq:
  "cancel_blocked now r =
     Inr (if state r \<noteq> Blocked \<or> \<not> is_cancelable r then (r, False)
          else ((append_event now ''terminal'' Cancelled (phase r) None None
                   (Some ''cancelled'') r)\<lparr>state := Cancelled\<rparr>, True))"
  using validate_to_cancelled [of Blocked] by (auto simp: cancel_blocked_def)


subsection \<open>Preservation of well-formedness\<close>

lemma log_valid_append:
  "log_valid phs i (es @ [e]) \<longleftrightarrow> log_valid phs i es \<and> event_valid phs (i + int (length es)) e"
  by (induction es arbitrary: i) (auto simp: algebra_simps)

definition log_ok :: "operation \<Rightarrow> bool" where
  "log_ok r \<longleftrightarrow> log_valid (phases r) 0 (op_log r)"

lemma log_ok_append_event:
  assumes "log_ok r" "now \<noteq> []" "kind \<in> set LOG_KINDS" "ph \<in> set (phases r)"
    and "kind = ''progress'' \<Longrightarrow> (\<exists>d. prog = Some d \<and> delta_valid d)"
    and "kind = ''terminal'' \<Longrightarrow> (\<exists>s. outcome = Some s \<and> s \<in> set OUTCOMES)"
  shows "log_ok (append_event now kind st ph prog code outcome r)"
  using assms by (auto simp: log_ok_def append_event_def log_valid_append event_valid_def)

lemma frame_append_event [simp]:
  "frame r (append_event now kind st ph prog code outcome r') = frame r r'"
  by (simp add: frame_def append_event_def)

lemma append_event_fields [simp]:
  "operation_id (append_event now kind st ph prog code outcome r) = operation_id r"
  "op_type (append_event now kind st ph prog code outcome r) = op_type r"
  "state (append_event now kind st ph prog code outcome r) = state r"
  "phase (append_event now kind st ph prog code outcome r) = phase r"
  "phases (append_event now kind st ph prog code outcome r) = phases r"
  "irreversible_phase (append_event now kind st ph prog code outcome r) = irreversible_phase r"
  "cancel_phase (append_event now kind st ph prog code outcome r) = cancel_phase r"
  "parameters (append_event now kind st ph prog code outcome r) = parameters r"
  "parameters_fp (append_event now kind st ph prog code outcome r) = parameters_fp r"
  "created_at (append_event now kind st ph prog code outcome r) = created_at r"
  "updated_at (append_event now kind st ph prog code outcome r) = updated_at r"
  "cancel_requested (append_event now kind st ph prog code outcome r) = cancel_requested r"
  "cancel_requested_at (append_event now kind st ph prog code outcome r) = cancel_requested_at r"
  "progress (append_event now kind st ph prog code outcome r) = progress r"
  "op_result (append_event now kind st ph prog code outcome r) = op_result r"
  "op_err (append_event now kind st ph prog code outcome r) = op_err r"
  "op_rev (append_event now kind st ph prog code outcome r) = op_rev r"
  "runner_claim (append_event now kind st ph prog code outcome r) = runner_claim r"
  "is_cancelable (append_event now kind st ph prog code outcome r) = is_cancelable r"
  by (simp_all add: append_event_def is_cancelable_def phase_index_def cong: sum.case_cong)

text \<open>The part of \<open>op_valid\<close> that no transform touches, and the rest.\<close>

definition core_valid :: "(string \<Rightarrow> bool) \<Rightarrow> (string \<Rightarrow> pydict \<Rightarrow> string) \<Rightarrow> operation \<Rightarrow> bool" where
  "core_valid ts_ok fp r \<longleftrightarrow>
     valid_operation_id (operation_id r) \<and> op_type r \<noteq> [] \<and>
     length (parameters_fp r) = 64 \<and> all_in (parameters_fp r) lower_hex \<and>
     parameters_fp r = fp (op_type r) (parameters r) \<and>
     ts_valid ts_ok (created_at r) \<and> ts_valid ts_ok (updated_at r) \<and> 1 \<le> op_rev r"

definition live_valid :: "(string \<Rightarrow> bool) \<Rightarrow> operation \<Rightarrow> bool" where
  "live_valid ts_ok r \<longleftrightarrow>
     (\<forall>t. cancel_requested_at r = Some t \<longrightarrow> ts_valid ts_ok t) \<and>
     (cancel_requested r \<longrightarrow> cancel_requested_at r \<noteq> None) \<and>
     (is_dict (op_result r) \<or> op_result r = PNone) \<and>
     (\<forall>e. op_err r = Some e \<longrightarrow> err_valid ts_ok e) \<and>
     (\<forall>c. runner_claim r = Some c \<longrightarrow> claim_valid ts_ok c) \<and>
     progress_valid (progress r)"

lemma op_valid_split:
  "op_valid ts_ok fp r \<longleftrightarrow> core_valid ts_ok fp r \<and> live_valid ts_ok r \<and> machine_valid r \<and> log_ok r"
  by (auto simp: op_valid_def core_valid_def live_valid_def log_ok_def)

lemma core_valid_frame: "frame r r' \<Longrightarrow> core_valid ts_ok fp r' = core_valid ts_ok fp r"
  by (simp add: frame_def core_valid_def)

lemma machine_valid_frame:
  "frame r r' \<Longrightarrow> machine_valid r \<Longrightarrow> machine_valid r' \<longleftrightarrow> phase r' \<in> set (phases r)"
  by (auto simp: frame_def machine_valid_def)

lemma op_valid_step:
  assumes "op_valid ts_ok fp r" "frame r r'" "phase r' \<in> set (phases r)"
    and "live_valid ts_ok r'" "log_ok r'"
  shows "op_valid ts_ok fp r'"
  using assms core_valid_frame machine_valid_frame by (simp add: op_valid_split)

lemma op_validD:
  assumes "op_valid ts_ok fp r"
  shows "machine_valid r" "live_valid ts_ok r" "log_ok r" "phase r \<in> set (phases r)"
    "phases r \<noteq> []" "distinct (phases r)"
  using assms by (auto simp: op_valid_split machine_valid_def)

text \<open>
  Inputs of a transform that the code supplies: an aware clock reading, a claim made by
  \<open>make_runner_claim\<close>, an error object with a code and a phase, a step result that reports
  real non-negative units and a dictionary (or nothing) as its result.
\<close>

definition clock_ok :: "(string \<Rightarrow> bool) \<Rightarrow> string \<Rightarrow> bool" where
  "clock_ok ts_ok now \<longleftrightarrow> ts_valid ts_ok now"

definition claim_ok :: "op_claim \<Rightarrow> bool" where
  "claim_ok c \<longleftrightarrow> 0 < claim_pid c \<and> claim_token c \<noteq> []"

definition step_error_ok :: "step_error \<Rightarrow> bool" where
  "step_error_ok e \<longleftrightarrow> se_code e \<noteq> [] \<and> se_phase e \<noteq> []"

definition step_result_ok :: "step_result \<Rightarrow> bool" where
  "step_result_ok s \<longleftrightarrow> (sr_progress s = [] \<or> delta_valid (sr_progress s)) \<and>
     (is_dict (sr_result s) \<or> sr_result s = PNone)"

lemma stable_message_nonempty: "code \<noteq> [] \<Longrightarrow> stable_message code \<noteq> []"
proof -
  have "list_all (\<lambda>(c, m). m \<noteq> []) STABLE_MESSAGES"
    by (simp add: STABLE_MESSAGES_def)
  then have "map_of STABLE_MESSAGES code = Some m \<Longrightarrow> m \<noteq> []" for m
    by (auto dest!: map_of_SomeD simp: list_all_iff)
  then show "code \<noteq> [] \<Longrightarrow> stable_message code \<noteq> []"
    by (auto simp: stable_message_def split: option.splits)
qed

lemma err_valid_make_error:
  "code \<noteq> [] \<Longrightarrow> ph \<noteq> [] \<Longrightarrow> clock_ok ts_ok now \<Longrightarrow> err_valid ts_ok (make_error now code ph rt rem cause)"
  by (simp add: err_valid_def make_error_def stable_message_nonempty clock_ok_def)

lemma add_unit_nonneg:
  "0 \<le> n \<Longrightarrow> delta_valid d \<Longrightarrow> 0 \<le> add_unit d u n"
  by (fastforce simp: add_unit_def delta_valid_def list_all_iff dest: map_of_SomeD
        split: option.splits)

lemma progress_valid_add:
  "progress_valid p \<Longrightarrow> delta_valid d \<Longrightarrow> progress_valid (add_progress d p)"
  by (simp add: progress_valid_def add_progress_def add_unit_nonneg)

lemma LOG_KINDS_mem [simp]:
  "''transition'' \<in> set LOG_KINDS" "''progress'' \<in> set LOG_KINDS"
  "''cancel_requested'' \<in> set LOG_KINDS" "''terminal'' \<in> set LOG_KINDS"
  by (simp_all add: LOG_KINDS_def)

lemma OUTCOMES_mem [simp]:
  "''succeeded'' \<in> set OUTCOMES" "''failed'' \<in> set OUTCOMES" "''cancelled'' \<in> set OUTCOMES"
  "''blocked'' \<in> set OUTCOMES"
  by (simp_all add: OUTCOMES_def)


subsection \<open>Every transform is total and keeps the record well-formed\<close>

text \<open>The phase of \<open>r'\<close> is recorded in \<open>r\<close> and is not an earlier one.\<close>

definition advances :: "operation \<Rightarrow> operation \<Rightarrow> bool" where
  "advances r r' \<longleftrightarrow> frame r r' \<and> phase r' \<in> set (phases r) \<and> pos r (phase r) \<le> pos r (phase r')"

definition transform_good ::
    "(string \<Rightarrow> bool) \<Rightarrow> (string \<Rightarrow> pydict \<Rightarrow> string) \<Rightarrow> operation \<Rightarrow> op_exc + (operation \<times> bool)
       \<Rightarrow> bool" where
  "transform_good ts_ok fp r res \<longleftrightarrow>
     (case res of Inl _ \<Rightarrow> False | Inr (r', ch) \<Rightarrow> op_valid ts_ok fp r' \<and> advances r r')"

lemma advances_refl [simp]: "phase r \<in> set (phases r) \<Longrightarrow> advances r r"
  by (simp add: advances_def)

lemma advances_trans: "advances r s \<Longrightarrow> advances s t \<Longrightarrow> advances r t"
  by (auto simp: advances_def frame_def pos_def)

lemma transform_good_Inr:
  "transform_good ts_ok fp r (Inr (r', ch)) \<longleftrightarrow> op_valid ts_ok fp r' \<and> advances r r'"
  by (simp add: transform_good_def)

lemma op_valid_nonempty_phase: "op_valid ts_ok fp r \<Longrightarrow> phase r \<noteq> []"
  by (auto simp: op_valid_split machine_valid_def CANONICAL_PHASES_def)

lemmas transform_fields = live_valid_def advances_def frame_def log_ok_def pos_def

lemma refresh_claim_good:
  assumes "op_valid ts_ok fp r" "clock_ok ts_ok now" "claim_ok c"
  shows "op_valid ts_ok fp (refresh_claim now c r)" "advances r (refresh_claim now c r)"
  using op_validD [OF assms(1)] assms
  by (auto intro!: op_valid_step [OF assms(1)]
      simp: refresh_claim_def live_valid_def frame_def log_ok_def advances_def claim_valid_def
        claim_ok_def clock_ok_def)

lemma refresh_claim_fields [simp]:
  "state (refresh_claim now c r) = state r" "phase (refresh_claim now c r) = phase r"
  "phases (refresh_claim now c r) = phases r"
  "irreversible_phase (refresh_claim now c r) = irreversible_phase r"
  "cancel_phase (refresh_claim now c r) = cancel_phase r"
  "cancel_requested (refresh_claim now c r) = cancel_requested r"
  "is_cancelable (refresh_claim now c r) = is_cancelable r"
  "progress (refresh_claim now c r) = progress r"
  "op_log (refresh_claim now c r) = op_log r"
  "is_cancelable ((refresh_claim now c r)\<lparr>state := s\<rparr>) = is_cancelable (r\<lparr>state := s\<rparr>)"
  by (simp_all add: refresh_claim_def is_cancelable_def phase_index_def cong: sum.case_cong)

text \<open>
  The unfolding that settles a transform's result against the facts of \<open>op_validD\<close>: record
  updates are computed, the appended event is checked.
\<close>

lemmas event_simps = append_event_def live_valid_def log_ok_def log_valid_append event_valid_def
  frame_def claim_valid_def claim_ok_def clock_ok_def ts_valid_def

lemma transform_goodI:
  assumes "op_valid ts_ok fp r" "frame r r'" "phase r' \<in> set (phases r)"
    and "live_valid ts_ok r'" "log_ok r'" "pos r (phase r) \<le> pos r (phase r')"
  shows "transform_good ts_ok fp r (Inr (r', ch))"
  using assms op_valid_step [OF assms(1-5)] by (simp add: transform_good_def advances_def)

lemma transform_good_unchanged:
  "op_valid ts_ok fp r \<Longrightarrow> transform_good ts_ok fp r (Inr (r, ch))"
  by (simp add: transform_good_def op_validD(4))

lemma claim_and_start_good:
  assumes v: "op_valid ts_ok fp r" and "clock_ok ts_ok now" "claim_ok c"
  shows "transform_good ts_ok fp r (claim_and_start_transform now c retry r)"
  using assms(2,3) op_validD [OF v]
  by (auto simp: claim_and_start_transform_def refresh_claim_def event_simps transform_good_unchanged [OF v]
      intro!: transform_goodI [OF v])

text \<open>
  A queued operation has not left its first phase. The validator does not check this; creation
  establishes it and no transform returns to the queued state.
\<close>

definition queued_first :: "operation \<Rightarrow> bool" where
  "queued_first r \<longleftrightarrow> (state r = Queued \<longrightarrow> pos r (phase r) = 0)"

lemma cancel_checkpoint_good:
  assumes v: "op_valid ts_ok fp r" and "clock_ok ts_ok now" and q: "queued_first r"
  shows "transform_good ts_ok fp r (cancel_checkpoint_transform now r)"
proof -
  note facts = op_validD [OF v]
  show ?thesis
  proof (cases "cancel_requested r \<and> is_cancelable r")
    case False
    then show ?thesis by (simp add: cancel_checkpoint_eq transform_good_unchanged [OF v])
  next
    case True
    show ?thesis
    proof (cases "cancel_phase r")
      case None
      with True assms(2) facts show ?thesis
        by (auto simp: cancel_checkpoint_eq event_simps intro!: transform_goodI [OF v])
    next
      case (Some cp)
      with facts(1) have cp: "cp \<in> set (phases r)" "pos r (irreversible_phase r) < pos r cp" "cp \<noteq> []"
        using cancel_phase_after by auto
      show ?thesis
      proof (cases "phase r = cp")
        case True
        with Some cp \<open>cancel_requested r \<and> _\<close> show ?thesis
          by (simp add: cancel_checkpoint_eq transform_good_unchanged [OF v])
      next
        case False
        have "pos r (phase r) \<le> pos r cp"
          using True q cp(2) is_cancelable_iff [OF facts(1)] by (auto simp: queued_first_def)
        then have "pos r (phase r) \<le> pos r' cp" if "phases r' = phases r" for r' :: operation
          using that by (simp add: pos_def)
        with Some cp True False assms(2) facts show ?thesis
          by (auto simp: cancel_checkpoint_eq event_simps intro!: transform_goodI [OF v])
      qed
    qed
  qed
qed

lemma fail_unsupported_good:
  assumes v: "op_valid ts_ok fp r" and "clock_ok ts_ok now" "claim_ok c"
  shows "transform_good ts_ok fp r (fail_unsupported_transform now c r)"
proof -
  have "err_valid ts_ok (make_error now ''unsupported_operation_type'' (phase r) False None None)"
    using assms(2) op_valid_nonempty_phase [OF v] by (intro err_valid_make_error) auto
  with assms(2,3) op_validD [OF v] show ?thesis
    by (auto simp: fail_unsupported_transform_def refresh_claim_def Let_def event_simps
        intro!: transform_goodI [OF v])
qed


lemma mark_step_error_good:
  assumes v: "op_valid ts_ok fp r" and "clock_ok ts_ok now" "claim_ok c" "step_error_ok e"
    and st: "st \<in> {Blocked, Failed}"
  shows "transform_good ts_ok fp r (mark_step_error_transform now c ph e st r)"
proof -
  let ?r1 = "refresh_claim now c r"
  have v1: "op_valid ts_ok fp ?r1" "advances r ?r1"
    using refresh_claim_good [OF v assms(2,3)] by auto
  have "state r = Running \<Longrightarrow> transform_good ts_ok fp ?r1 (cancel_checkpoint_transform now ?r1)"
    by (rule cancel_checkpoint_good [OF v1(1) assms(2)]) (simp add: queued_first_def)
  then have chk: "state r = Running \<Longrightarrow> transform_good ts_ok fp r (cancel_checkpoint_transform now ?r1)"
    using v1(2) by (auto simp: transform_good_def split: sum.splits intro: advances_trans)
  have "err_valid ts_ok (to_error_object now e)"
    using assms(2,4) by (auto simp: to_error_object_def step_error_ok_def intro!: err_valid_make_error)
  then have set_err: "transform_good ts_ok fp r (Inr ((append_event now ''terminal'' st ph None
      (Some (se_code e)) (Some (state_name st)) (?r1\<lparr>op_err := Some (to_error_object now e)\<rparr>))
        \<lparr>state := st\<rparr>, True))" if "phase r = ph"
    using that assms(2,3) st op_validD [OF v]
    by (auto simp: refresh_claim_def event_simps OUTCOMES_def intro!: transform_goodI [OF v])
  show ?thesis
    unfolding mark_step_error_transform_def Let_def
    using chk set_err transform_good_unchanged [OF v] by simp
qed

lemma pos_update [simp]: "pos (r\<lparr>phase := p\<rparr>) = pos r"
  by (simp add: pos_def fun_eq_iff)

lemma pos_append_event [simp]: "pos (append_event now kind st ph prog code outcome r) = pos r"
  by (simp add: pos_def fun_eq_iff)

text \<open>The advance into the recorded successor phase never raises.\<close>

lemma validate_phase_transition_next:
  assumes "machine_valid r" "phase r = ph" "ph \<noteq> last (phases r)"
  shows "phases r ! (pos r ph + 1) \<in> set (phases r)"
    and "pos r (phases r ! (pos r ph + 1)) = pos r ph + 1"
    and "validate_phase_transition r (phases r ! (pos r ph + 1)) = Inr True"
proof -
  have m: "distinct (phases r)" "phases r \<noteq> []" "ph \<in> set (phases r)"
    using assms by (auto simp: machine_valid_def)
  have l: "pos r ph + 1 < length (phases r)"
    using pos_not_last [OF m assms(3)] .
  then show 1: "phases r ! (pos r ph + 1) \<in> set (phases r)" by simp
  show 2: "pos r (phases r ! (pos r ph + 1)) = pos r ph + 1"
    using pos_nth [OF m(1) l] .
  show "validate_phase_transition r (phases r ! (pos r ph + 1)) = Inr True"
    using 1 2 m assms(2) by (simp add: validate_phase_transition_def)
qed

lemma advance_phase_good:
  assumes v: "op_valid ts_ok fp r" and "clock_ok ts_ok now" "step_result_ok s" "phase r = ph"
  shows "transform_good ts_ok fp r (advance_phase now ph s r)"
proof -
  note facts = op_validD [OF v]
  have ph: "ph \<in> set (phases r)" using facts assms(4) by simp
  have res: "is_dict (completed_result (sr_result s)) \<or> completed_result (sr_result s) = PNone"
    using assms(3) by (auto simp: step_result_ok_def completed_result_def)
  show ?thesis
  proof (cases "ph = last (phases r)")
    case True
    with assms(2,4) facts ph res show ?thesis
      by (auto simp: advance_phase_def event_simps intro!: transform_goodI [OF v])
  next
    case False
    note nxt = validate_phase_transition_next [OF facts(1) assms(4) False]
    from False nxt assms(2,4) facts ph show ?thesis
      by (auto simp: advance_phase_def Let_def event_simps transform_good_unchanged [OF v]
          intro!: transform_goodI [OF v])
  qed
qed

lemma apply_step_result_good:
  assumes v: "op_valid ts_ok fp r" and "clock_ok ts_ok now" "claim_ok c" "step_result_ok s"
  shows "transform_good ts_ok fp r (apply_step_result_transform now c ph s r)"
proof (cases "phase r = ph")
  case False
  then show ?thesis by (simp add: apply_step_result_transform_def transform_good_unchanged [OF v])
next
  case True
  define r1 where "r1 = refresh_claim now c r"
  define r2 where "r2 = (if sr_progress s \<noteq> [] then
      append_event now ''progress'' (state r1) ph (Some (sr_progress s)) None None
        (r1\<lparr>progress := add_progress (sr_progress s) (progress r1)\<rparr>) else r1)"
  have v1: "op_valid ts_ok fp r1" "advances r r1"
    using refresh_claim_good [OF v assms(2,3)] by (auto simp: r1_def)
  note facts = op_validD [OF v1(1)]
  have p1: "phase r1 = ph" using True by (simp add: r1_def)
  have g2: "transform_good ts_ok fp r1 (Inr (r2, True))"
  proof (cases "sr_progress s = []")
    case True
    then show ?thesis by (simp add: r2_def transform_good_unchanged [OF v1(1)])
  next
    case False
    with p1 assms(2,4) facts show ?thesis
      by (auto simp: r2_def event_simps step_result_ok_def progress_valid_add
          intro!: transform_goodI [OF v1(1)])
  qed
  then have v2: "op_valid ts_ok fp r2" "advances r r2"
    using v1(2) by (auto simp: transform_good_def intro: advances_trans)
  have "phase r2 = ph" using True by (simp add: r2_def r1_def)
  from advance_phase_good [OF v2(1) assms(2,4) this]
  have "transform_good ts_ok fp r (advance_phase now ph s r2)"
    using v2(2) by (auto simp: transform_good_def split: sum.splits intro: advances_trans)
  moreover have "apply_step_result_transform now c ph s r =
      (if sr_advance s then advance_phase now ph s r2 else Inr (r2, True))"
    using True by (simp add: apply_step_result_transform_def Let_def r2_def r1_def)
  ultimately show ?thesis
    using v2 by (simp add: transform_good_Inr)
qed

lemma cancel_apply_good:
  assumes v: "op_valid ts_ok fp r" and "clock_ok ts_ok now"
  shows "transform_good ts_ok fp r (cancel_apply now r)"
  using assms(2) op_validD [OF v]
  by (auto simp: cancel_apply_def event_simps transform_good_unchanged [OF v]
      intro!: transform_goodI [OF v])

lemma cancel_blocked_good:
  assumes v: "op_valid ts_ok fp r" and "clock_ok ts_ok now"
  shows "transform_good ts_ok fp r (cancel_blocked now r)"
  using assms(2) op_validD [OF v]
  by (auto simp: cancel_blocked_eq event_simps transform_good_unchanged [OF v]
      intro!: transform_goodI [OF v])

end
