(* ===== verification/Op_Store.thy ===== *)
theory Op_Store
  imports Op_Invariants
begin

text \<open>
  The persistent long-operation engine, part 3 (daemon/operations.py, class OperationStore):
  reading, compare-and-swap writing, exclusive creation and the linearizable
  read-modify-write loop. The directory of record files is a map from operation ids to typed
  records; \<open>valid\<close> is the validation of a record (\<open>op_valid\<close>), system-call faults are left
  out. What other processes do to the store between a load and the locked write of one
  attempt is a function on the store, one per attempt.
\<close>

subsection \<open>A versioned cell\<close>

text \<open>
  The contract the retry loop relies on: a load, a compare-and-swap that succeeds only at the
  version the new value carries, and interference that never brings a version back with
  another value.
\<close>

fun mutate_loop ::
    "('s \<Rightarrow> 'e + 'r) \<Rightarrow> ('s \<Rightarrow> 'r \<Rightarrow> 's \<times> ('e + 'r)) \<Rightarrow> 'e \<Rightarrow> ('r \<Rightarrow> 'e + ('r \<times> bool))
       \<Rightarrow> ('s \<Rightarrow> 's) list \<Rightarrow> 's \<Rightarrow> 's \<times> ('e + 'r)" where
  "mutate_loop load cas conflict fn [] s = (s, Inl conflict)"
| "mutate_loop load cas conflict fn (w # ws) s =
     (case load s of
        Inl e \<Rightarrow> (s, Inl e)
      | Inr r \<Rightarrow>
          (case fn r of
             Inl e \<Rightarrow> (s, Inl e)
           | Inr (r1, changed) \<Rightarrow>
               if \<not> changed then (s, Inr r1)
               else
                 (case cas (w s) r1 of
                    (s2, Inr r2) \<Rightarrow> (s2, Inr r2)
                  | (s2, Inl e) \<Rightarrow>
                      if e = conflict then mutate_loop load cas conflict fn ws s2
                      else (s2, Inl e))))"

locale versioned_cell =
  fixes load :: "'s \<Rightarrow> 'e + 'r"
    and cas :: "'s \<Rightarrow> 'r \<Rightarrow> 's \<times> ('e + 'r)"
    and conflict :: 'e
    and ver :: "'r \<Rightarrow> int"
    and grows :: "'s \<Rightarrow> 's \<Rightarrow> bool"
  assumes cas_hit: "cas s r1 = (s', Inr r2) \<Longrightarrow> \<exists>cur. load s = Inr cur \<and> ver cur = ver r1"
    and cas_miss: "cas s r1 = (s', Inl e) \<Longrightarrow> s' = s"
    and grows_same: "grows s s' \<Longrightarrow> load s = Inr r \<Longrightarrow> load s' = Inr r' \<Longrightarrow> ver r' = ver r
                       \<Longrightarrow> r' = r"
begin

text \<open>The update a transform makes, applied in one instant to the store \<open>s\<close>.\<close>

definition atomic_update :: "('r \<Rightarrow> 'e + ('r \<times> bool)) \<Rightarrow> 's \<Rightarrow> 's \<Rightarrow> 'r \<Rightarrow> bool" where
  "atomic_update fn s s' r' \<longleftrightarrow>
     (\<exists>r r1 ch. load s = Inr r \<and> fn r = Inr (r1, ch) \<and>
        (if ch then cas s r1 = (s', Inr r') else s' = s \<and> r' = r1))"

text \<open>
  Linearizability: a returned value is the transform applied to the store of a single instant,
  whatever the other processes did before it.
\<close>

lemma mutate_linearizable:
  assumes "mutate_loop load cas conflict fn ws s = (s', Inr r')"
    and "\<And>w t. w \<in> set ws \<Longrightarrow> grows t (w t)"
    and keeps: "\<And>r r1. fn r = Inr (r1, True) \<Longrightarrow> ver r1 = ver r"
  shows "\<exists>s0. atomic_update fn s0 s' r'"
  using assms(1,2)
proof (induction ws arbitrary: s)
  case Nil
  then show ?case by simp
next
  case (Cons w ws)
  from Cons.prems(1) obtain r r1 ch where l: "load s = Inr r" and f: "fn r = Inr (r1, ch)"
    by (auto split: sum.splits)
  show ?case
  proof (cases ch)
    case False
    with Cons.prems(1) l f show ?thesis by (auto simp: atomic_update_def)
  next
    case True
    obtain s2 x where c: "cas (w s) r1 = (s2, x)" by (cases "cas (w s) r1")
    show ?thesis
    proof (cases x)
      case (Inl e)
      with Cons.prems(1) l f c True have "mutate_loop load cas conflict fn ws s2 = (s', Inr r')"
        by (auto split: if_splits)
      then show ?thesis using Cons.IH Cons.prems(2) by simp
    next
      case (Inr r2)
      with c obtain cur where cur: "load (w s) = Inr cur" "ver cur = ver r1"
        using cas_hit by blast
      have "ver r1 = ver r" using keeps f True by simp
      with cur l Cons.prems(2) [of w s] have "cur = r"
        using grows_same by (metis list.set_intros(1))
      with Inr c l f True cur Cons.prems(1) show ?thesis
        by (auto simp: atomic_update_def)
    qed
  qed
qed

text \<open>Giving up leaves the store as the other processes left it: no partial write.\<close>

lemma mutate_conflict_frame:
  assumes "mutate_loop load cas conflict fn ws s = (s', Inl e)"
    and "P s" and "\<And>w t. w \<in> set ws \<Longrightarrow> P t \<Longrightarrow> P (w t)"
  shows "P s'"
  using assms
proof (induction ws arbitrary: s)
  case Nil
  then show ?case by simp
next
  case (Cons w ws)
  have "P (w s)" using Cons.prems(2,3) by simp
  with Cons show ?case
    by (auto split: sum.splits prod.splits if_splits dest!: cas_miss)
qed

text \<open>Without interference the first attempt succeeds.\<close>

lemma mutate_quiet:
  "load s = Inr r \<Longrightarrow> fn r = Inr (r1, True) \<Longrightarrow> cas s r1 = (s', Inr r2) \<Longrightarrow>
     mutate_loop load cas conflict fn ((\<lambda>t. t) # ws) s = (s', Inr r2)"
  by simp

end

subsection \<open>The record store\<close>

type_synonym op_store = "string \<Rightarrow> operation option"

definition read_record :: "(operation \<Rightarrow> bool) \<Rightarrow> string \<Rightarrow> op_store \<Rightarrow> op_exc + operation" where
  "read_record valid oid st =
     (if \<not> valid_operation_id oid then Inl OperationNotFound
      else (case st oid of
              None \<Rightarrow> Inl OperationNotFound
            | Some r \<Rightarrow>
                if \<not> valid r then Inl StoreBlocked
                else if operation_id r \<noteq> oid then Inl StoreBlocked
                else Inr r))"

text \<open>
  \<open>_write_record\<close> with \<open>expected_rev=record["rev"]\<close>, as \<open>mutate\<close> calls it: validate, stamp,
  compare the stored revision under the lock, bump the revision, replace.
\<close>

definition write_record ::
    "(operation \<Rightarrow> bool) \<Rightarrow> string \<Rightarrow> string \<Rightarrow> op_store \<Rightarrow> operation
       \<Rightarrow> op_store \<times> (op_exc + operation)" where
  "write_record valid now oid st r =
     (if \<not> valid r then (st, Inl InvalidOperationRecord)
      else
        (let r1 = r\<lparr>updated_at := now\<rparr> in
         case read_record valid oid st of
           Inl e \<Rightarrow> (st, Inl (if e = OperationNotFound then OperationConflict else e))
         | Inr current \<Rightarrow>
             if op_rev current \<noteq> op_rev r then (st, Inl OperationConflict)
             else
               (let r2 = r1\<lparr>op_rev := (if op_rev r1 = 0 then 1 else op_rev r1) + 1\<rparr>
                in (st(oid := Some r2), Inr r2))))"

definition create_record ::
    "(operation \<Rightarrow> bool) \<Rightarrow> op_store \<Rightarrow> operation \<Rightarrow> op_store \<times> (op_exc + operation)" where
  "create_record valid st r =
     (if \<not> valid r then (st, Inl InvalidOperationRecord)
      else
        (case st (operation_id r) of
           None \<Rightarrow>
             (let st' = st(operation_id r := Some r)
              in (st', read_record valid (operation_id r) st'))
         | Some _ \<Rightarrow>
             (st, case read_record valid (operation_id r) st of
                    Inl e \<Rightarrow> Inl (if e = OperationNotFound then OperationConflict else e)
                  | Inr existing \<Rightarrow>
                      if parameters_fp existing \<noteq> parameters_fp r then Inl OperationIdConflict
                      else Inr existing)))"

definition mutate ::
    "(operation \<Rightarrow> bool) \<Rightarrow> string \<Rightarrow> string \<Rightarrow> (operation \<Rightarrow> op_exc + (operation \<times> bool))
       \<Rightarrow> (op_store \<Rightarrow> op_store) list \<Rightarrow> op_store \<Rightarrow> op_store \<times> (op_exc + operation)" where
  "mutate valid now oid fn ws st =
     mutate_loop (read_record valid oid) (write_record valid now oid) OperationConflict fn ws st"

text \<open>
  What another process may do to the store: leave the record of this operation alone, or
  replace it by one with a larger revision.
\<close>

definition store_grows :: "string \<Rightarrow> op_store \<Rightarrow> op_store \<Rightarrow> bool" where
  "store_grows oid st st' \<longleftrightarrow>
     st' oid = st oid \<or> (\<exists>r r'. st oid = Some r \<and> st' oid = Some r' \<and> op_rev r < op_rev r')"

lemma read_record_Inr:
  "read_record valid oid st = Inr r \<longleftrightarrow>
     valid_operation_id oid \<and> st oid = Some r \<and> valid r \<and> operation_id r = oid"
  by (auto simp: read_record_def split: option.splits if_splits)

interpretation op_cell: versioned_cell "read_record valid oid" "write_record valid now oid"
    OperationConflict op_rev "store_grows oid" for valid now oid
proof unfold_locales
  fix s r1 s' r2
  assume "write_record valid now oid s r1 = (s', Inr r2)"
  then show "\<exists>cur. read_record valid oid s = Inr cur \<and> op_rev cur = op_rev r1"
    by (auto simp: write_record_def Let_def split: sum.splits if_splits)
next
  fix s r1 s' e
  assume "write_record valid now oid s r1 = (s', Inl e)"
  then show "s' = s"
    by (auto simp: write_record_def Let_def split: sum.splits if_splits)
next
  fix s s' r r'
  assume "store_grows oid s s'" "read_record valid oid s = Inr r"
    "read_record valid oid s' = Inr r'" "op_rev r' = op_rev r"
  then show "r' = r"
    by (auto simp: store_grows_def read_record_Inr)
qed

text \<open>Every write of a record is itself such interference, so concurrent mutations compose.\<close>

lemma write_record_grows:
  assumes "write_record valid now oid st r = (st', x)" and "\<And>r. valid r \<Longrightarrow> 1 \<le> op_rev r"
  shows "store_grows oid st st'"
  using assms
  by (force simp: write_record_def Let_def store_grows_def read_record_Inr
      split: sum.splits if_splits)

lemma write_record_hit:
  assumes "read_record valid oid st = Inr cur" "valid r" "op_rev r = op_rev cur" "1 \<le> op_rev r"
  shows "write_record valid now oid st r =
    (st(oid := Some (r\<lparr>updated_at := now, op_rev := op_rev r + 1\<rparr>)),
     Inr (r\<lparr>updated_at := now, op_rev := op_rev r + 1\<rparr>))"
  using assms by (simp add: write_record_def Let_def)

end
