(* ===== verification/Op_Runner.thy ===== *)
theory Op_Runner
  imports Op_Store
begin

text \<open>
  The persistent long-operation engine, part 4 (daemon/operations.py: try_run_pending_steps,
  cancel_operation, wait_for_terminal): the step executor as a machine that interleaves, at
  the granularity of the store's atomic mutations, with any number of cancel commands and
  with crashes. The per-operation run lock admits one executor, so the system has one runner
  program counter; cancel commands act on the stored record at any time.
\<close>

subsection \<open>The decision at the head of the runner loop\<close>

datatype runner_action = DReturn | DCheckpoint | DStart | DUnsupported | DExecute string

definition runner_decide ::
    "bool \<Rightarrow> (string \<Rightarrow> bool) \<Rightarrow> bool \<Rightarrow> operation \<Rightarrow> runner_action" where
  "runner_decide retry_blocked registered at_limit r =
     (if state r \<in> set TERMINAL_STATES then DReturn
      else if cancel_requested r \<and> is_cancelable r then DCheckpoint
      else if state r = Blocked \<and> \<not> retry_blocked then DReturn
      else if state r \<in> {Queued, Blocked} then DStart
      else if at_limit then DReturn
      else if \<not> registered (op_type r) then DUnsupported
      else DExecute (phase r))"

text \<open>The effect of a successful \<open>mutate\<close> on the stored record (lemma \<open>write_record_hit\<close>).\<close>

definition commit :: "string \<Rightarrow> operation \<Rightarrow> op_exc + (operation \<times> bool) \<Rightarrow> operation" where
  "commit now d res =
     (case res of
        Inl _ \<Rightarrow> d
      | Inr (r, changed) \<Rightarrow> if changed then r\<lparr>updated_at := now, op_rev := op_rev r + 1\<rparr> else d)"

subsection \<open>The interleaved system\<close>

datatype runner_pc =
    RIdle
  | RHead
  | RHave operation
  | RExec string
  | RResult string step_result
  | RError string step_error op_state

record osys =
  disk :: operation
  pc :: runner_pc
  retry :: bool

text \<open>Whether the runner invocation ends once \<open>mutate\<close> returned this record.\<close>

definition after_checkpoint :: "operation \<Rightarrow> runner_pc" where
  "after_checkpoint d = (if state d = Cancelled then RIdle else RHead)"

definition after_error :: "operation \<Rightarrow> runner_pc" where
  "after_error d = (if state d = Running then RHead else RIdle)"

inductive osys_step :: "(string \<Rightarrow> bool) \<Rightarrow> (string \<Rightarrow> bool) \<Rightarrow> osys \<Rightarrow> osys \<Rightarrow> bool"
  for ts_ok registered where
  invoke: "pc s = RIdle \<Longrightarrow> osys_step ts_ok registered s (s\<lparr>pc := RHead, retry := b\<rparr>)"
| load: "pc s = RHead \<Longrightarrow> osys_step ts_ok registered s (s\<lparr>pc := RHave (disk s)\<rparr>)"
| return: "pc s = RHave r \<Longrightarrow> runner_decide (retry s) registered cap r = DReturn \<Longrightarrow>
     osys_step ts_ok registered s (s\<lparr>pc := RIdle\<rparr>)"
| checkpoint: "pc s = RHave r \<Longrightarrow> runner_decide (retry s) registered cap r = DCheckpoint \<Longrightarrow>
     clock_ok ts_ok now \<Longrightarrow> d = commit now (disk s) (cancel_checkpoint_transform now (disk s)) \<Longrightarrow>
     osys_step ts_ok registered s (s\<lparr>disk := d, pc := after_checkpoint d\<rparr>)"
| begin_run: "pc s = RHave r \<Longrightarrow> runner_decide (retry s) registered cap r = DStart \<Longrightarrow>
     clock_ok ts_ok now \<Longrightarrow> claim_ok c \<Longrightarrow>
     d = commit now (disk s) (claim_and_start_transform now c (retry s) (disk s)) \<Longrightarrow>
     osys_step ts_ok registered s (s\<lparr>disk := d, pc := RHead\<rparr>)"
| unsupported: "pc s = RHave r \<Longrightarrow> runner_decide (retry s) registered cap r = DUnsupported \<Longrightarrow>
     clock_ok ts_ok now \<Longrightarrow> claim_ok c \<Longrightarrow>
     d = commit now (disk s) (fail_unsupported_transform now c (disk s)) \<Longrightarrow>
     osys_step ts_ok registered s (s\<lparr>disk := d, pc := RIdle\<rparr>)"
| execute: "pc s = RHave r \<Longrightarrow> runner_decide (retry s) registered cap r = DExecute ph \<Longrightarrow>
     osys_step ts_ok registered s (s\<lparr>pc := RExec ph\<rparr>)"
| step_returns: "pc s = RExec ph \<Longrightarrow> step_result_ok res \<Longrightarrow>
     osys_step ts_ok registered s (s\<lparr>pc := RResult ph res\<rparr>)"
| step_raises: "pc s = RExec ph \<Longrightarrow> step_error_ok e \<Longrightarrow> st \<in> {Blocked, Failed} \<Longrightarrow>
     osys_step ts_ok registered s (s\<lparr>pc := RError ph e st\<rparr>)"
| apply_result: "pc s = RResult ph res \<Longrightarrow> step_result_ok res \<Longrightarrow>
     clock_ok ts_ok now \<Longrightarrow> claim_ok c \<Longrightarrow>
     d = commit now (disk s) (apply_step_result_transform now c ph res (disk s)) \<Longrightarrow>
     osys_step ts_ok registered s (s\<lparr>disk := d, pc := RHead\<rparr>)"
| mark_error: "pc s = RError ph e st \<Longrightarrow> step_error_ok e \<Longrightarrow> st \<in> {Blocked, Failed} \<Longrightarrow>
     clock_ok ts_ok now \<Longrightarrow> claim_ok c \<Longrightarrow>
     d = commit now (disk s) (mark_step_error_transform now c ph e st (disk s)) \<Longrightarrow>
     osys_step ts_ok registered s (s\<lparr>disk := d, pc := after_error d\<rparr>)"
| crash: "osys_step ts_ok registered s (s\<lparr>pc := RIdle\<rparr>)"
| request_cancel: "clock_ok ts_ok now \<Longrightarrow> d = commit now (disk s) (cancel_apply now (disk s)) \<Longrightarrow>
     osys_step ts_ok registered s (s\<lparr>disk := d\<rparr>)"
| cancel_while_blocked: "clock_ok ts_ok now \<Longrightarrow>
     cancel_phase (disk s) = None \<or> cancel_phase (disk s) = Some [] \<Longrightarrow>
     d = commit now (disk s) (cancel_blocked now (disk s)) \<Longrightarrow>
     osys_step ts_ok registered s (s\<lparr>disk := d\<rparr>)"

text \<open>Runs that start from a freshly created record and an idle runner.\<close>

inductive osys_reachable ::
    "(string \<Rightarrow> bool) \<Rightarrow> (string \<Rightarrow> bool) \<Rightarrow> operation \<Rightarrow> osys \<Rightarrow> bool"
  for ts_ok registered d0 where
  init: "osys_reachable ts_ok registered d0 \<lparr>disk = d0, pc = RIdle, retry = False\<rparr>"
| step: "osys_reachable ts_ok registered d0 s \<Longrightarrow> osys_step ts_ok registered s t \<Longrightarrow>
     osys_reachable ts_ok registered d0 t"

subsection \<open>The sequential runner\<close>

datatype step_outcome = StepOk step_result | StepBlocked step_error | StepFailed step_error

text \<open>
  \<open>try_run_pending_steps\<close> with the run lock held and no concurrent writer, each loop
  iteration one unit of fuel; \<open>None\<close> is running out of fuel. \<open>steps ph r\<close> is the registered
  step function; the clock and the claim are fixed.
\<close>

fun run_loop ::
    "nat \<Rightarrow> string \<Rightarrow> op_claim \<Rightarrow> bool \<Rightarrow> (string \<Rightarrow> bool) \<Rightarrow> (string \<Rightarrow> operation \<Rightarrow> step_outcome)
       \<Rightarrow> nat option \<Rightarrow> operation \<Rightarrow> operation option" where
  "run_loop 0 now c retry_blocked registered steps budget d = None"
| "run_loop (Suc fuel) now c retry_blocked registered steps budget d =
     (case runner_decide retry_blocked registered (budget = Some 0) d of
        DReturn \<Rightarrow> Some d
      | DCheckpoint \<Rightarrow>
          (let d1 = commit now d (cancel_checkpoint_transform now d) in
           if state d1 = Cancelled then Some d1
           else run_loop fuel now c retry_blocked registered steps budget d1)
      | DStart \<Rightarrow>
          run_loop fuel now c retry_blocked registered steps budget
            (commit now d (claim_and_start_transform now c retry_blocked d))
      | DUnsupported \<Rightarrow> Some (commit now d (fail_unsupported_transform now c d))
      | DExecute ph \<Rightarrow>
          (case steps ph d of
             StepBlocked e \<Rightarrow>
               (let d1 = commit now d (mark_step_error_transform now c ph e Blocked d) in
                if state d1 = Running
                then run_loop fuel now c retry_blocked registered steps budget d1 else Some d1)
           | StepFailed e \<Rightarrow>
               (let d1 = commit now d (mark_step_error_transform now c ph e Failed d) in
                if state d1 = Running
                then run_loop fuel now c retry_blocked registered steps budget d1 else Some d1)
           | StepOk res \<Rightarrow>
               run_loop fuel now c retry_blocked registered steps
                 (map_option (\<lambda>n. n - 1) budget)
                 (commit now d (apply_step_result_transform now c ph res d))))"

subsection \<open>Observing an operation\<close>

text \<open>
  One poll of \<open>wait_for_terminal\<close>: emit every log entry with a sequence number above the last
  one seen, and stop at a terminal or blocked state.
\<close>

fun emit_unseen :: "int \<Rightarrow> op_event list \<Rightarrow> op_event list \<times> int" where
  "emit_unseen last_seq [] = ([], last_seq)"
| "emit_unseen last_seq (e # es) =
     (if ev_seq e > last_seq
      then (let (out, l) = emit_unseen (ev_seq e) es in (e # out, l))
      else emit_unseen last_seq es)"

fun wait_polls :: "int \<Rightarrow> operation list \<Rightarrow> op_event list \<times> op_state option" where
  "wait_polls last_seq [] = ([], None)"
| "wait_polls last_seq (d # ds) =
     (let (out, l) = emit_unseen last_seq (op_log d) in
      if state d \<in> set TERMINAL_STATES \<or> state d = Blocked then (out, Some (state d))
      else (let (more, res) = wait_polls l ds in (out @ more, res)))"


subsection \<open>The invariant of the interleaved system\<close>

text \<open>
  An acknowledged cancel is still honourable, already compensating, or the operation is over
  without success.
\<close>

definition honoured :: "operation \<Rightarrow> bool" where
  "honoured d \<longleftrightarrow>
     (cancel_requested d \<longrightarrow>
        state d \<in> {Failed, Cancelled} \<or> is_cancelable d \<or>
        (state d \<in> {Running, Blocked} \<and> cancel_phase d = Some (phase d)))"

text \<open>
  What the stored record satisfies in every reachable state when the irreversible phase is
  not the first one: it is well-formed, a queued operation is in its first phase, and a cancel
  is honoured.
\<close>

definition disk_inv ::
    "(string \<Rightarrow> bool) \<Rightarrow> (string \<Rightarrow> pydict \<Rightarrow> string) \<Rightarrow> operation \<Rightarrow> bool" where
  "disk_inv ts_ok fp d \<longleftrightarrow>
     op_valid ts_ok fp d \<and> queued_first d \<and> 0 < pos d (irreversible_phase d) \<and> honoured d"

text \<open>What the runner's program counter knows about the stored record.\<close>

fun pc_inv :: "operation \<Rightarrow> runner_pc \<Rightarrow> bool" where
  "pc_inv d RIdle = True"
| "pc_inv d RHead = True"
| "pc_inv d (RHave r) =
     (phase d = phase r \<and> phases d = phases r \<and> irreversible_phase d = irreversible_phase r \<and>
      cancel_phase d = cancel_phase r \<and> op_type d = op_type r \<and>
      (cancel_requested r \<longrightarrow> cancel_requested d) \<and>
      (state d = state r \<or> (state r = Blocked \<and> state d = Cancelled)))"
| "pc_inv d (RExec ph) = (state d = Running \<and> phase d = ph)"
| "pc_inv d (RResult ph res) = (state d = Running \<and> phase d = ph)"
| "pc_inv d (RError ph e st) = (state d = Running \<and> phase d = ph)"

definition osys_inv ::
    "(string \<Rightarrow> bool) \<Rightarrow> (string \<Rightarrow> pydict \<Rightarrow> string) \<Rightarrow> osys \<Rightarrow> bool" where
  "osys_inv ts_ok fp s \<longleftrightarrow> disk_inv ts_ok fp (disk s) \<and> pc_inv (disk s) (pc s)"

lemma op_valid_stamp:
  "op_valid ts_ok fp r \<Longrightarrow> clock_ok ts_ok now \<Longrightarrow>
     op_valid ts_ok fp (r\<lparr>updated_at := now, op_rev := op_rev r + 1\<rparr>)"
  by (auto simp: op_valid_def machine_valid_def clock_ok_def)

lemma stamp_fields [simp]:
  "is_cancelable (r\<lparr>updated_at := t, op_rev := n\<rparr>) = is_cancelable r"
  "pos (r\<lparr>updated_at := t, op_rev := n\<rparr>) = pos r"
  by (simp_all add: is_cancelable_def phase_index_def pos_def fun_eq_iff cong: sum.case_cong)

text \<open>A good transform that keeps a cancel honoured keeps the disk invariant.\<close>

definition keeps_cancel :: "op_exc + (operation \<times> bool) \<Rightarrow> bool" where
  "keeps_cancel res \<longleftrightarrow>
     (case res of Inl _ \<Rightarrow> True | Inr (r', ch) \<Rightarrow> ch \<longrightarrow> queued_first r' \<and> honoured r')"

lemma disk_inv_commit:
  assumes "disk_inv ts_ok fp d" "clock_ok ts_ok now" "transform_good ts_ok fp d res"
    and "keeps_cancel res"
  shows "disk_inv ts_ok fp (commit now d res)"
proof -
  obtain r' ch where res: "res = Inr (r', ch)"
    using assms(3) by (auto simp: transform_good_def split: sum.splits)
  have "frame d r'" "op_valid ts_ok fp r'"
    using assms(3) by (auto simp: res transform_good_def advances_def)
  moreover have "pos r' (irreversible_phase r') = pos d (irreversible_phase d)"
    using \<open>frame d r'\<close> by (simp add: frame_def pos_def)
  ultimately show ?thesis
    using assms op_valid_stamp
    by (auto simp: disk_inv_def commit_def queued_first_def res keeps_cancel_def honoured_def)
qed

lemma commit_frame:
  "transform_good ts_ok fp d res \<Longrightarrow>
     phases (commit now d res) = phases d \<and>
     irreversible_phase (commit now d res) = irreversible_phase d \<and>
     cancel_phase (commit now d res) = cancel_phase d \<and> op_type (commit now d res) = op_type d"
  by (auto simp: transform_good_def commit_def advances_def frame_def split: sum.splits)


lemma live_not_queued [simp]: "state r \<noteq> Queued \<Longrightarrow> queued_first r"
  by (simp add: queued_first_def)

text \<open>The facts of the disk invariant in the form the transform lemmas use.\<close>

lemma disk_invD:
  assumes "disk_inv ts_ok fp d"
  shows "op_valid ts_ok fp d" "machine_valid d" "queued_first d"
    "0 < pos d (irreversible_phase d)" "honoured d"
    "is_cancelable d \<longleftrightarrow> state d \<in> {Queued, Running, Blocked} \<and>
       (state d = Queued \<or> pos d (phase d) < pos d (irreversible_phase d))"
    "state d = Queued \<Longrightarrow> pos d (phase d) = 0"
    "phase d \<in> set (phases d)"
  using assms is_cancelable_iff [of d]
  by (auto simp: disk_inv_def op_valid_split queued_first_def machine_valid_def)

lemma is_cancelable_running:
  "phases r = phases d \<Longrightarrow> phase r = phase d \<Longrightarrow> irreversible_phase r = irreversible_phase d \<Longrightarrow>
     machine_valid d \<Longrightarrow> state r \<in> {Running, Blocked} \<Longrightarrow>
     is_cancelable r = (pos d (phase d) < pos d (irreversible_phase d))"
  by (auto simp: is_cancelable_def phase_index_def pos_def machine_valid_def TERMINAL_STATES_def
      dest!: index_of_Some)

lemma keeps_claim_and_start:
  assumes d: "disk_inv ts_ok fp d"
  shows "keeps_cancel (claim_and_start_transform now c b d)"
proof -
  note D = disk_invD [OF d]
  have "state d \<noteq> Succeeded \<Longrightarrow> state d \<noteq> Failed \<Longrightarrow> state d \<noteq> Cancelled \<Longrightarrow>
      is_cancelable (d\<lparr>state := Running\<rparr>) = (pos d (phase d) < pos d (irreversible_phase d))"
    by (rule is_cancelable_running [OF _ _ _ D(2)]) simp_all
  with D(4,5,6,7) show ?thesis
    by (auto simp: claim_and_start_transform_def keeps_cancel_def honoured_def)
qed

lemma keeps_checkpoint:
  assumes d: "disk_inv ts_ok fp d"
  shows "keeps_cancel (cancel_checkpoint_transform now d)"
  using disk_invD [OF d]
  by (auto simp: cancel_checkpoint_eq keeps_cancel_def honoured_def)

lemma keeps_unsupported:
  "keeps_cancel (fail_unsupported_transform now c d)"
  by (simp add: fail_unsupported_transform_def keeps_cancel_def honoured_def Let_def)

lemma disk_inv_refresh:
  assumes "disk_inv ts_ok fp d" "clock_ok ts_ok now" "claim_ok c"
  shows "disk_inv ts_ok fp (refresh_claim now c d)"
proof -
  have "pos (refresh_claim now c d) = pos d"
    by (simp add: pos_def fun_eq_iff)
  then show ?thesis
    using assms refresh_claim_good [of ts_ok fp d now c]
    by (simp add: disk_inv_def queued_first_def honoured_def)
qed

lemma keeps_mark_error:
  assumes d: "disk_inv ts_ok fp d" and "clock_ok ts_ok now" "claim_ok c" "st \<in> {Blocked, Failed}"
  shows "keeps_cancel (mark_step_error_transform now c ph e st d)"
proof -
  note D = disk_invD [OF d]
  have chk: "keeps_cancel (cancel_checkpoint_transform now (refresh_claim now c d))"
    by (rule keeps_checkpoint [OF disk_inv_refresh [OF d assms(2,3)]])
  show ?thesis
    using D(5,6) chk assms(4)
    by (auto simp: mark_step_error_transform_def Let_def keeps_cancel_def honoured_def)
qed

text \<open>Advancing out of a phase while a cancel is pending can only end the operation cancelled.\<close>

lemma keeps_advance:
  assumes "machine_valid r" "honoured r" "state r = Running" "phase r = ph"
  shows "keeps_cancel (advance_phase now ph res r)"
proof (cases "cancel_requested r")
  case True
  with assms have "is_cancelable r \<or> cancel_phase r = Some ph"
    by (auto simp: honoured_def)
  moreover have "is_cancelable r \<Longrightarrow> cancel_phase r \<noteq> Some ph"
    using cancel_phase_after [OF assms(1), of ph] is_cancelable_iff [OF assms(1)] assms(3,4) by auto
  ultimately show ?thesis
    using True assms by (auto simp: advance_phase_def keeps_cancel_def honoured_def)
next
  case False
  with assms(3) show ?thesis
    by (auto simp: advance_phase_def keeps_cancel_def honoured_def Let_def split: sum.splits)
qed

lemma keeps_apply_result:
  assumes d: "disk_inv ts_ok fp d" and "clock_ok ts_ok now" "claim_ok c" and run: "state d = Running"
  shows "keeps_cancel (apply_step_result_transform now c ph res d)"
proof (cases "phase d = ph")
  case False
  then show ?thesis by (simp add: apply_step_result_transform_def keeps_cancel_def)
next
  case True
  define r1 where "r1 = refresh_claim now c d"
  define r2 where "r2 = (if sr_progress res \<noteq> [] then
      append_event now ''progress'' (state r1) ph (Some (sr_progress res)) None None
        (r1\<lparr>progress := add_progress (sr_progress res) (progress r1)\<rparr>) else r1)"
  have r1: "disk_inv ts_ok fp r1" unfolding r1_def by (rule disk_inv_refresh [OF assms(1-3)])
  have fields: "machine_valid r2 = machine_valid r1" "honoured r2 = honoured r1"
    "state r2 = Running" "phase r2 = ph"
    using run True
    by (simp_all add: r2_def r1_def machine_valid_def honoured_def is_cancelable_def phase_index_def
        cong: sum.case_cong)
  then have "keeps_cancel (advance_phase now ph res r2)"
    using disk_invD(2,5) [OF r1] by (intro keeps_advance) simp_all
  moreover have "keeps_cancel (Inr (r2, True))"
    using fields disk_invD(5) [OF r1] by (simp add: keeps_cancel_def)
  moreover have "apply_step_result_transform now c ph res d =
      (if sr_advance res then advance_phase now ph res r2 else Inr (r2, True))"
    using True by (simp add: apply_step_result_transform_def Let_def r2_def r1_def)
  ultimately show ?thesis by simp
qed

lemma keeps_cancel_apply:
  assumes d: "disk_inv ts_ok fp d"
  shows "keeps_cancel (cancel_apply now d)"
proof -
  have "queued_first (append_event now k (state d) (phase d) None None None
      (d\<lparr>cancel_requested := True, cancel_requested_at := t\<rparr>))" for k t
    using disk_invD(3) [OF d] by (simp add: queued_first_def pos_def)
  then show ?thesis
    by (simp add: cancel_apply_def keeps_cancel_def honoured_def classify_cancel_def)
qed

lemma keeps_cancel_blocked:
  "keeps_cancel (cancel_blocked now d)"
  by (simp add: cancel_blocked_eq keeps_cancel_def honoured_def)

lemmas disk_steps = claim_and_start_good cancel_checkpoint_good fail_unsupported_good
  mark_step_error_good apply_step_result_good cancel_apply_good cancel_blocked_good
lemmas keeps_steps = keeps_claim_and_start keeps_checkpoint keeps_unsupported keeps_mark_error
  keeps_apply_result keeps_cancel_apply keeps_cancel_blocked


lemma commit_cancel_apply [simp]:
  "state (commit now d (cancel_apply now d)) = state d"
  "phase (commit now d (cancel_apply now d)) = phase d"
  "cancel_requested d \<Longrightarrow> cancel_requested (commit now d (cancel_apply now d))"
  by (simp_all add: commit_def cancel_apply_def)

lemma commit_cancel_blocked:
  "state (commit now d (cancel_blocked now d)) =
     (if state d = Blocked \<and> is_cancelable d then Cancelled else state d)"
  "phase (commit now d (cancel_blocked now d)) = phase d"
  "cancel_requested (commit now d (cancel_blocked now d)) = cancel_requested d"
  by (simp_all add: commit_def cancel_blocked_eq)

lemma runner_decide_execute:
  "runner_decide b registered cap r = DExecute ph \<Longrightarrow>
     state r = Running \<and> ph = phase r \<and> \<not> (cancel_requested r \<and> is_cancelable r)"
  by (cases "state r") (auto simp: runner_decide_def TERMINAL_STATES_def split: if_splits)

text \<open>What a cancel command may do to the record under the runner's feet.\<close>

lemma pc_inv_cancel:
  assumes "pc_inv d p" "phase d' = phase d" "phases d' = phases d"
    "irreversible_phase d' = irreversible_phase d" "cancel_phase d' = cancel_phase d"
    "op_type d' = op_type d" "cancel_requested d \<Longrightarrow> cancel_requested d'"
    "state d' = state d \<or> (state d = Blocked \<and> state d' = Cancelled)"
  shows "pc_inv d' p"
  using assms by (cases p) auto

lemma osys_step_inv:
  assumes "osys_step ts_ok registered s t" "osys_inv ts_ok fp s"
  shows "osys_inv ts_ok fp t"
proof -
  from assms(2) have D: "disk_inv ts_ok fp (disk s)" and P: "pc_inv (disk s) (pc s)"
    by (auto simp: osys_inv_def)
  note V = disk_invD [OF D]
  from assms(1) show ?thesis
  proof cases
    case (checkpoint r cap now d)
    then have "disk_inv ts_ok fp d"
      using disk_inv_commit [OF D _ cancel_checkpoint_good keeps_checkpoint] D V by blast
    then show ?thesis using checkpoint by (simp add: osys_inv_def after_checkpoint_def)
  next
    case (begin_run r cap now c d)
    then have "disk_inv ts_ok fp d"
      using disk_inv_commit [OF D _ claim_and_start_good keeps_claim_and_start] D V by blast
    then show ?thesis using begin_run by (simp add: osys_inv_def)
  next
    case (unsupported r cap now c d)
    then have "disk_inv ts_ok fp d"
      using disk_inv_commit [OF D _ fail_unsupported_good keeps_unsupported] V by blast
    then show ?thesis using unsupported by (simp add: osys_inv_def)
  next
    case (execute r cap ph)
    then show ?thesis using D P runner_decide_execute by (fastforce simp: osys_inv_def)
  next
    case (apply_result ph res now c d)
    then have "state (disk s) = Running" using P by simp
    with apply_result have "disk_inv ts_ok fp d"
      using disk_inv_commit [OF D _ apply_step_result_good keeps_apply_result] D V by blast
    then show ?thesis using apply_result by (simp add: osys_inv_def)
  next
    case (mark_error ph e st now c d)
    then have "disk_inv ts_ok fp d"
      using disk_inv_commit [OF D _ mark_step_error_good keeps_mark_error] D V by blast
    then show ?thesis using mark_error by (simp add: osys_inv_def after_error_def)
  next
    case (request_cancel now d)
    then have "disk_inv ts_ok fp d"
      using disk_inv_commit [OF D _ cancel_apply_good keeps_cancel_apply] D V by blast
    moreover have "pc_inv d (pc s)"
      using request_cancel commit_frame [OF cancel_apply_good [OF V(1)], of now] P
      by (intro pc_inv_cancel [OF P]) auto
    ultimately show ?thesis using request_cancel by (simp add: osys_inv_def)
  next
    case (cancel_while_blocked now d)
    then have "disk_inv ts_ok fp d"
      using disk_inv_commit [OF D _ cancel_blocked_good keeps_cancel_blocked] V by blast
    moreover have "pc_inv d (pc s)"
      using cancel_while_blocked commit_frame [OF cancel_blocked_good [OF V(1)], of now]
      by (intro pc_inv_cancel [OF P]) (auto simp: commit_cancel_blocked)
    ultimately show ?thesis using cancel_while_blocked by (simp add: osys_inv_def)
  qed (use D P in \<open>auto simp: osys_inv_def\<close>)
qed

lemma osys_reachable_inv:
  assumes "osys_reachable ts_ok registered d0 s" "disk_inv ts_ok fp d0"
  shows "osys_inv ts_ok fp s"
  using assms
proof (induction rule: osys_reachable.induct)
  case init
  then show ?case by (simp add: osys_inv_def)
next
  case (step s t)
  then show ?case using osys_step_inv by blast
qed

text \<open>A freshly created record satisfies the disk invariant.\<close>

lemma new_operation_disk_inv:
  assumes "new_operation fp uid now otype params phs irr oid cph = Inr d"
    and "clock_ok ts_ok now" "otype \<noteq> []" "length (fp otype params) = 64"
    "all_in (fp otype params) lower_hex" "sorted (canonical_indexes phs)" "irr \<noteq> hd phs"
  shows "disk_inv ts_ok fp d"
proof -
  have d: "valid_operation_id (operation_id d)" "op_type d = otype" "state d = Queued"
    "phase d = hd phs" "phases d = phs" "irreversible_phase d = irr" "cancel_phase d = cph"
    "parameters d = params" "parameters_fp d = fp otype params" "created_at d = now"
    "updated_at d = now" "\<not> cancel_requested d" "cancel_requested_at d = None"
    "progress d = \<lparr>n_events = 0, n_bytes = 0, n_chunks = 0\<rparr>" "op_result d = PNone"
    "op_err d = None" "op_log d = []" "op_rev d = 1" "runner_claim d = None"
    "phs \<noteq> []" "irr \<in> set phs" "distinct phs" "set phs \<subseteq> set CANONICAL_PHASES"
    "\<And>c. cph = Some c \<Longrightarrow> c \<in> set phs \<and> the (index_of phs irr) < the (index_of phs c)"
    using assms(1)
    by (auto simp: new_operation_def Let_def list_all_iff split: if_splits option.splits)
  from d(20) have "pos d (hd phs) = 0"
    by (simp add: pos_def d(5) hd_conv_nth) (metis d(22) length_greater_0_conv nth_index_of option.sel)
  moreover have "pos d irr \<noteq> pos d (hd phs)"
    using pos_inj [of irr d "hd phs"] d(5,20,21) assms(7) by auto
  ultimately have "0 < pos d (irreversible_phase d)" "queued_first d"
    by (simp_all add: d queued_first_def)
  moreover have "op_valid ts_ok fp d"
    using d assms(2-6)
    by (auto simp: op_valid_def machine_valid_def progress_valid_def clock_ok_def)
  ultimately show ?thesis by (simp add: disk_inv_def honoured_def d)
qed

subsection \<open>Terminal states\<close>

lemma terminal_not_cancelable: "state d \<in> set TERMINAL_STATES \<Longrightarrow> \<not> is_cancelable d"
  by (simp add: is_cancelable_def)

lemma terminal_not_live:
  "state d \<in> set TERMINAL_STATES \<Longrightarrow> state d \<noteq> Queued \<and> state d \<noteq> Running \<and> state d \<noteq> Blocked"
  by (auto simp: TERMINAL_STATES_def)

lemma commit_unchanged [simp]: "commit now d (Inr (r, False)) = d"
  by (simp add: commit_def)

lemma terminal_cancel_no_change:
  assumes "state d \<in> set TERMINAL_STATES"
  shows "cancel_apply now d = Inr (d, False)" "cancel_blocked now d = Inr (d, False)"
    "cancel_checkpoint_transform now d = Inr (d, False)"
    "claim_and_start_transform now c b d = Inr (d, False)"
  using terminal_not_cancelable [OF assms] terminal_not_live [OF assms]
  by (simp_all add: cancel_apply_def cancel_blocked_eq cancel_checkpoint_eq
      claim_and_start_transform_def classify_cancel_def)

lemma runner_decide_unsupported:
  "runner_decide b registered cap r = DUnsupported \<Longrightarrow> state r = Running"
  by (cases "state r") (auto simp: runner_decide_def TERMINAL_STATES_def split: if_splits)

lemma terminal_step_unchanged:
  assumes "osys_step ts_ok registered s t" "osys_inv ts_ok fp s"
    "state (disk s) \<in> set TERMINAL_STATES"
  shows "disk t = disk s"
proof -
  have P: "pc_inv (disk s) (pc s)" using assms(2) by (simp add: osys_inv_def)
  have live: "state (disk s) \<noteq> Running" using assms(3) by (auto simp: TERMINAL_STATES_def)
  from assms(1) show ?thesis
  proof cases
    case (unsupported r cap now c d)
    with P live runner_decide_unsupported show ?thesis by fastforce
  qed (use P live assms(3) in \<open>auto simp: terminal_cancel_no_change\<close>)
qed

end
