(* ===== verification/Op_Api.thy ===== *)
theory Op_Api
  imports Op_Runner "HOL-Library.Sublist"
begin

text \<open>
  The persistent long-operation engine, part 5 (daemon/operations.py): the operation type
  registry, the public calls \<open>create_operation\<close>, \<open>cancel_operation\<close> and
  \<open>try_run_pending_steps\<close>, and the facts about whole runs: the log and the phase only grow,
  and a run without interference finishes.
\<close>

subsection \<open>The registry and creation\<close>

record op_type_spec =
  spec_type :: string
  spec_phases :: "string list"
  spec_irreversible :: string
  spec_cancel :: "string option"
  spec_normalize :: "pydict \<Rightarrow> pydict"

type_synonym op_registry = "string \<Rightarrow> op_type_spec option"

definition registry_register :: "op_type_spec \<Rightarrow> op_registry \<Rightarrow> op_registry" where
  "registry_register sp reg = reg(spec_type sp \<mapsto> sp)"

definition new_record ::
    "(string \<Rightarrow> pydict \<Rightarrow> string) \<Rightarrow> string \<Rightarrow> string \<Rightarrow> op_type_spec \<Rightarrow> pydict \<Rightarrow> string option
       \<Rightarrow> op_exc + operation" where
  "new_record fp uid now sp params oid =
     new_operation fp uid now (spec_type sp) (spec_normalize sp params) (spec_phases sp)
       (spec_irreversible sp) oid (spec_cancel sp)"

definition create_operation ::
    "(operation \<Rightarrow> bool) \<Rightarrow> (string \<Rightarrow> pydict \<Rightarrow> string) \<Rightarrow> string \<Rightarrow> string \<Rightarrow> op_registry
       \<Rightarrow> string \<Rightarrow> pydict \<Rightarrow> string option \<Rightarrow> op_store \<Rightarrow> op_store \<times> (op_exc + operation)" where
  "create_operation valid fp uid now reg otype params oid st =
     (case reg otype of
        None \<Rightarrow> (st, Inl UnsupportedOperationType)
      | Some sp \<Rightarrow>
          (case new_record fp uid now sp params oid of
             Inl e \<Rightarrow> (st, Inl e)
           | Inr r \<Rightarrow> create_record valid st r))"

subsection \<open>Cancelling\<close>

text \<open>
  The retry loop of \<open>cancel_operation\<close>, one unit of fuel per iteration (\<open>None\<close> is out of
  fuel); \<open>ws\<close> is what other processes do to the store, one function for each of the
  attempts of a \<open>mutate\<close>.
\<close>

fun cancel_operation ::
    "nat \<Rightarrow> (operation \<Rightarrow> bool) \<Rightarrow> string \<Rightarrow> string \<Rightarrow> (op_store \<Rightarrow> op_store) list \<Rightarrow> op_store
       \<Rightarrow> (op_store \<times> (op_exc + (operation \<times> cancel_class))) option" where
  "cancel_operation 0 valid now oid ws st = None"
| "cancel_operation (Suc fuel) valid now oid ws st =
     (case read_record valid oid st of
        Inl e \<Rightarrow> Some (st, Inl e)
      | Inr r \<Rightarrow>
          if classify_cancel r \<noteq> Requested then Some (st, Inr (r, classify_cancel r))
          else if state r = Blocked \<and> (cancel_phase r = None \<or> cancel_phase r = Some []) then
            (case mutate valid now oid (cancel_blocked now) ws st of
               (st1, Inl e) \<Rightarrow> Some (st1, Inl e)
             | (st1, Inr u) \<Rightarrow>
                 if state u = Cancelled then Some (st1, Inr (u, Requested))
                 else cancel_operation fuel valid now oid ws st1)
          else
            (case mutate valid now oid (cancel_apply now) ws st of
               (st1, Inl e) \<Rightarrow> Some (st1, Inl e)
             | (st1, Inr u) \<Rightarrow>
                 if cancel_requested u then Some (st1, Inr (u, Requested))
                 else cancel_operation fuel valid now oid ws st1))"

text \<open>A record returned by \<open>mutate\<close> is the one stored at that moment.\<close>

lemma write_record_stores:
  "write_record valid now oid st r = (st', Inr u) \<Longrightarrow> st' oid = Some u"
  by (auto simp: write_record_def Let_def split: sum.splits if_splits)

lemma mutate_returns_same:
  "load s = Inr r \<Longrightarrow> fn r = Inr (r1, False) \<Longrightarrow>
     mutate_loop load cas conflict fn (w # ws) s = (s, Inr r1)"
  by simp

lemma mutate_returns_stored:
  assumes "mutate valid now oid fn ws st = (st', Inr u)"
    and "\<And>r r1. fn r = Inr (r1, False) \<Longrightarrow> r1 = r"
  shows "st' oid = Some u"
  using assms(1) unfolding mutate_def
proof (induction ws arbitrary: st)
  case Nil
  then show ?case by simp
next
  case (Cons w ws)
  then show ?case
    using assms(2)
    by (fastforce simp: read_record_Inr split: sum.splits prod.splits if_splits
        dest!: write_record_stores)
qed

lemma cancel_unchanged:
  "cancel_blocked now r = Inr (r1, False) \<Longrightarrow> r1 = r"
  "cancel_apply now r = Inr (r1, False) \<Longrightarrow> r1 = r"
  by (auto simp: cancel_blocked_eq cancel_apply_def split: if_splits)

lemma cancel_operation_durable:
  "cancel_operation fuel valid now oid ws st = Some (st', Inr (u, cls)) \<Longrightarrow>
     st' oid = Some u \<and> (cls = Requested \<longrightarrow> cancel_requested u \<or> state u = Cancelled) \<and>
     (cls \<noteq> Requested \<longrightarrow> cls = classify_cancel u)"
proof (induction fuel arbitrary: st)
  case 0
  then show ?case by simp
next
  case (Suc fuel)
  have B: "\<And>oid st1 u. mutate valid now oid (cancel_blocked now) ws st = (st1, Inr u) \<Longrightarrow> st1 oid = Some u"
    and A: "\<And>oid st1 u. mutate valid now oid (cancel_apply now) ws st = (st1, Inr u) \<Longrightarrow> st1 oid = Some u"
    using mutate_returns_stored cancel_unchanged by blast+
  from Suc.prems Suc.IH show ?case
    by (auto simp: read_record_Inr split: sum.splits if_splits prod.splits dest: A B)
qed

subsection \<open>Running\<close>

text \<open>\<open>try_run_pending_steps\<close>: a live executor elsewhere makes the call yield.\<close>

definition try_run_pending_steps ::
    "bool \<Rightarrow> nat \<Rightarrow> string \<Rightarrow> op_claim \<Rightarrow> bool \<Rightarrow> (string \<Rightarrow> bool)
       \<Rightarrow> (string \<Rightarrow> operation \<Rightarrow> step_outcome) \<Rightarrow> nat option \<Rightarrow> operation
       \<Rightarrow> (operation \<times> bool) option" where
  "try_run_pending_steps lock_held fuel now c retry_blocked registered steps budget d =
     (if lock_held then Some (d, False)
      else map_option (\<lambda>r. (r, True))
             (run_loop fuel now c retry_blocked registered steps budget d))"

subsection \<open>What a step may do to the stored record\<close>

text \<open>The log of the result extends the log of the record.\<close>

definition logs_grow :: "operation \<Rightarrow> op_exc + (operation \<times> bool) \<Rightarrow> bool" where
  "logs_grow d res \<longleftrightarrow> (case res of Inl _ \<Rightarrow> True | Inr (r, ch) \<Rightarrow> prefix (op_log d) (op_log r))"

lemma logs_grow_Inr [simp]: "logs_grow d (Inr (r, ch)) = prefix (op_log d) (op_log r)"
  by (simp add: logs_grow_def)

lemma logs_grow_Inl [simp]: "logs_grow d (Inl e)"
  by (simp add: logs_grow_def)

lemma op_log_append_event [simp]:
  "\<exists>e. op_log (append_event now kind st ph prog code outcome r) = op_log r @ [e]"
  "prefix (op_log r) (op_log (append_event now kind st ph prog code outcome r))"
  by (simp_all add: append_event_def)

lemma logs_grow_checkpoint: "logs_grow d (cancel_checkpoint_transform now d)"
  by (simp add: cancel_checkpoint_eq append_event_def)

lemma logs_grow_mark:
  "logs_grow d (mark_step_error_transform now c ph e st d)"
  using logs_grow_checkpoint [of "refresh_claim now c d" now]
  by (auto simp: mark_step_error_transform_def Let_def append_event_def logs_grow_def
      split: sum.splits)

lemma logs_grow_advance:
  "prefix (op_log d) (op_log r) \<Longrightarrow> logs_grow d (advance_phase now ph res r)"
  by (auto simp: advance_phase_def Let_def append_event_def prefix_def split: sum.splits)

lemma logs_grow_apply: "logs_grow d (apply_step_result_transform now c ph res d)"
  by (auto simp: apply_step_result_transform_def Let_def append_event_def
      refresh_claim_def intro!: logs_grow_advance)

lemma logs_grow_others:
  "logs_grow d (claim_and_start_transform now c b d)"
  "logs_grow d (fail_unsupported_transform now c d)"
  "logs_grow d (cancel_apply now d)" "logs_grow d (cancel_blocked now d)"
  by (simp_all add: claim_and_start_transform_def fail_unsupported_transform_def cancel_apply_def
      cancel_blocked_eq append_event_def refresh_claim_def Let_def)

lemmas logs_grow_steps = logs_grow_checkpoint logs_grow_mark logs_grow_apply logs_grow_others

text \<open>What one step may do: nothing, or commit a good transform.\<close>

definition disk_advances :: "operation \<Rightarrow> operation \<Rightarrow> bool" where
  "disk_advances d d' \<longleftrightarrow>
     phases d' = phases d \<and> phase d' \<in> set (phases d) \<and> pos d (phase d) \<le> pos d (phase d') \<and>
     operation_id d' = operation_id d \<and> parameters_fp d' = parameters_fp d \<and>
     prefix (op_log d) (op_log d') \<and> (d' = d \<or> op_rev d' = op_rev d + 1)"

lemma disk_advances_commit:
  "transform_good ts_ok fp d res \<Longrightarrow> logs_grow d res \<Longrightarrow> phase d \<in> set (phases d) \<Longrightarrow>
     disk_advances d (commit now d res)"
  by (auto simp: transform_good_def logs_grow_def disk_advances_def commit_def advances_def
      frame_def split: sum.splits)

lemma disk_advances_refl: "phase d \<in> set (phases d) \<Longrightarrow> disk_advances d d"
  by (simp add: disk_advances_def)

lemma osys_step_advances:
  assumes "osys_step ts_ok registered s t" "osys_inv ts_ok fp s"
  shows "disk_advances (disk s) (disk t)"
proof -
  from assms(2) have D: "disk_inv ts_ok fp (disk s)"
    by (simp add: osys_inv_def)
  note V = disk_invD [OF D]
  note go = disk_advances_commit [OF _ _ V(8)]
  from assms(1) show ?thesis
  proof cases
    case (checkpoint r cap now d)
    with go [OF cancel_checkpoint_good [OF V(1)] logs_grow_checkpoint] V show ?thesis by simp
  next
    case (begin_run r cap now c d)
    with go [OF claim_and_start_good [OF V(1)] logs_grow_others(1)] show ?thesis by simp
  next
    case (unsupported r cap now c d)
    with go [OF fail_unsupported_good [OF V(1)] logs_grow_others(2)] show ?thesis by simp
  next
    case (apply_result ph res now c d)
    with go [OF apply_step_result_good [OF V(1)] logs_grow_apply] show ?thesis by simp
  next
    case (mark_error ph e st now c d)
    with go [OF mark_step_error_good [OF V(1)] logs_grow_mark] V show ?thesis by simp
  next
    case (request_cancel now d)
    with go [OF cancel_apply_good [OF V(1)] logs_grow_others(3)] show ?thesis by simp
  next
    case (cancel_while_blocked now d)
    with go [OF cancel_blocked_good [OF V(1)] logs_grow_others(4)] show ?thesis by simp
  qed (use disk_advances_refl [OF V(8)] in simp_all)
qed

lemma osys_run_keeps:
  assumes "(osys_step ts_ok registered)\<^sup>*\<^sup>* s t" "osys_inv ts_ok fp s"
  shows "osys_inv ts_ok fp t \<and> phases (disk t) = phases (disk s) \<and>
    phase (disk t) \<in> set (phases (disk s)) \<and>
    pos (disk s) (phase (disk s)) \<le> pos (disk s) (phase (disk t)) \<and>
    prefix (op_log (disk s)) (op_log (disk t)) \<and> op_rev (disk s) \<le> op_rev (disk t)"
  using assms
proof (induction rule: rtranclp_induct)
  case base
  then show ?case by (auto simp: osys_inv_def dest: disk_invD)
next
  case (step y z)
  then have y: "osys_inv ts_ok fp y" by simp
  have "pos (disk y) = pos (disk s)" using step by (simp add: pos_def fun_eq_iff)
  then show ?case
    using step osys_step_inv [OF step(2) y] osys_step_advances [OF step(2) y]
    by (auto simp: disk_advances_def)
qed

subsection \<open>A run without interference finishes\<close>

text \<open>
  A step that asks to advance either ends the operation or moves it to the next phase; with
  no cancel requested it can only end succeeded.
\<close>

lemma advance_phase_result:
  assumes "machine_valid r" "state r = Running" "phase r = ph"
    and "\<not> (cancel_requested r \<and> is_cancelable r)"
  shows "\<exists>r'. advance_phase now ph res r = Inr (r', True) \<and>
    cancel_requested r' = cancel_requested r \<and>
    (state r' \<in> {Succeeded, Cancelled} \<or>
       state r' = Running \<and> pos r (phase r') = pos r ph + 1 \<and> pos r ph + 1 < length (phases r)) \<and>
    (\<not> cancel_requested r \<longrightarrow> state r' \<in> {Succeeded, Running})"
proof (cases "ph = last (phases r)")
  case True
  with assms(2,4) show ?thesis by (auto simp: advance_phase_def)
next
  case False
  note nxt = validate_phase_transition_next [OF assms(1,3) False]
  have m: "distinct (phases r)" "phases r \<noteq> []" "ph \<in> set (phases r)"
    using assms by (auto simp: machine_valid_def)
  have "pos r ph + 1 < length (phases r)" using pos_not_last [OF m False] .
  with False nxt m(3) assms(2,4) show ?thesis
    by (auto simp: advance_phase_def Let_def)
qed

lemma apply_result_result:
  assumes "op_valid ts_ok fp d" "clock_ok ts_ok now" "claim_ok c" "step_result_ok res"
    and "sr_advance res" "state d = Running" "phase d = ph"
    and "\<not> (cancel_requested d \<and> is_cancelable d)"
  shows "\<exists>r'. apply_step_result_transform now c ph res d = Inr (r', True) \<and>
    cancel_requested r' = cancel_requested d \<and>
    (state r' \<in> {Succeeded, Cancelled} \<or>
       state r' = Running \<and> pos d (phase r') = pos d ph + 1 \<and> pos d ph + 1 < length (phases d)) \<and>
    (\<not> cancel_requested d \<longrightarrow> state r' \<in> {Succeeded, Running})"
proof -
  define r1 where "r1 = refresh_claim now c d"
  define r2 where "r2 = (if sr_progress res \<noteq> [] then
      append_event now ''progress'' (state r1) ph (Some (sr_progress res)) None None
        (r1\<lparr>progress := add_progress (sr_progress res) (progress r1)\<rparr>) else r1)"
  have e: "apply_step_result_transform now c ph res d = advance_phase now ph res r2"
    using assms(5,7) by (simp add: apply_step_result_transform_def Let_def r2_def r1_def)
  have f: "state r2 = Running" "phase r2 = ph" "phases r2 = phases d"
    "cancel_requested r2 = cancel_requested d" "is_cancelable r2 = is_cancelable d"
    "machine_valid r2 = machine_valid d"
    using assms(6,7) by (simp_all add: r2_def r1_def machine_valid_def)
  have "pos r2 = pos d" using f(3) by (simp add: pos_def fun_eq_iff)
  with advance_phase_result [of r2 ph now res] f assms(8) op_validD(1) [OF assms(1)]
  show ?thesis by (simp add: e)
qed

text \<open>How far a record is from settling.\<close>

definition distance_left :: "operation \<Rightarrow> nat" where
  "distance_left d =
     (if state d \<in> set TERMINAL_STATES then 0
      else length (phases d) - pos d (phase d) + (if state d = Running then 0 else 1))"

definition settled :: "operation \<Rightarrow> bool" where
  "settled d \<longleftrightarrow> state d \<in> set TERMINAL_STATES \<or> state d = Blocked"

definition step_progresses :: "step_outcome \<Rightarrow> bool" where
  "step_progresses oc =
     (case oc of
        StepOk res \<Rightarrow> step_result_ok res \<and> sr_advance res
      | StepBlocked e \<Rightarrow> step_error_ok e
      | StepFailed e \<Rightarrow> step_error_ok e)"

definition step_ok :: "step_outcome \<Rightarrow> bool" where
  "step_ok oc = (case oc of StepOk res \<Rightarrow> True | _ \<Rightarrow> False)"

text \<open>What keeps a run on the way to success.\<close>

definition unhindered :: "bool \<Rightarrow> (string \<Rightarrow> bool) \<Rightarrow> operation \<Rightarrow> bool" where
  "unhindered retry_blocked registered d \<longleftrightarrow>
     \<not> cancel_requested d \<and> registered (op_type d) \<and>
     (state d \<in> {Queued, Running, Succeeded} \<or> state d = Blocked \<and> retry_blocked)"

lemma commit_changed [simp]:
  "state (commit now d (Inr (r, True))) = state r"
  "phase (commit now d (Inr (r, True))) = phase r"
  "phases (commit now d (Inr (r, True))) = phases r"
  "cancel_requested (commit now d (Inr (r, True))) = cancel_requested r"
  "op_type (commit now d (Inr (r, True))) = op_type r"
  "pos (commit now d (Inr (r, True))) = pos r"
  by (simp_all add: commit_def pos_def fun_eq_iff)

lemma op_valid_commit:
  "op_valid ts_ok fp d \<Longrightarrow> clock_ok ts_ok now \<Longrightarrow> transform_good ts_ok fp d res \<Longrightarrow>
     op_valid ts_ok fp (commit now d res)"
  using op_valid_stamp
  by (auto simp: transform_good_def commit_def split: sum.splits)

text \<open>Each decision of the loop that continues, continues closer to the end.\<close>

lemma distance_positive:
  "op_valid ts_ok fp d \<Longrightarrow> state d \<notin> set TERMINAL_STATES \<Longrightarrow> 0 < distance_left d"
  using pos_less [of "phase d" d] op_validD(4) [of ts_ok fp d] by (simp add: distance_left_def)

lemma run_start:
  fixes c :: op_claim
  assumes "runner_decide b registered cap d = DStart"
    and d1_def: "d1 = commit now d (claim_and_start_transform now c b d)"
  shows "distance_left d1 < distance_left d" "unhindered b registered d \<Longrightarrow> unhindered b registered d1"
proof -
  have st: "state d = Queued \<or> state d = Blocked \<and> b"
    using assms(1) by (auto simp: runner_decide_def split: if_splits)
  then have d1: "state d1 = Running" "phase d1 = phase d" "phases d1 = phases d"
    "cancel_requested d1 = cancel_requested d" "op_type d1 = op_type d"
    by (auto simp: d1_def claim_and_start_transform_def refresh_claim_def)
  then have "pos d1 = pos d" by (simp add: pos_def fun_eq_iff)
  then show "distance_left d1 < distance_left d"
    using d1 st by (auto simp: distance_left_def TERMINAL_STATES_def)
  show "unhindered b registered d \<Longrightarrow> unhindered b registered d1"
    using d1 by (simp add: unhindered_def)
qed

lemma run_checkpoint:
  assumes "disk_inv ts_ok fp d" "runner_decide b registered cap d = DCheckpoint"
    and d1_def: "d1 = commit now d (cancel_checkpoint_transform now d)"
    and "state d1 \<noteq> Cancelled"
  shows "distance_left d1 < distance_left d" "\<not> unhindered b registered d"
proof -
  have c: "cancel_requested d" "is_cancelable d"
    using assms(2) by (auto simp: runner_decide_def split: if_splits)
  then show "\<not> unhindered b registered d" by (simp add: unhindered_def)
  note D = disk_invD [OF assms(1)]
  obtain cp where cp: "cancel_phase d = Some cp"
    using c assms(4) unfolding d1_def cancel_checkpoint_eq by (cases "cancel_phase d") auto
  note after = cancel_phase_after [OF D(2) cp]
  have early: "pos d (phase d) < pos d cp"
    using c(2) D(4,6,7) after by auto
  then have d1: "state d1 = Running" "phase d1 = cp" "phases d1 = phases d"
    using c cp after by (auto simp: d1_def cancel_checkpoint_eq)
  then have "pos d1 = pos d" by (simp add: pos_def fun_eq_iff)
  with d1 c(2) early pos_less [of cp d] after show "distance_left d1 < distance_left d"
    by (auto simp: distance_left_def terminal_not_cancelable TERMINAL_STATES_def)
qed

lemma run_apply:
  assumes "op_valid ts_ok fp d" "clock_ok ts_ok now" "claim_ok c" "step_result_ok res" "sr_advance res"
    and "runner_decide b registered cap d = DExecute ph"
    and d1_def: "d1 = commit now d (apply_step_result_transform now c ph res d)"
  shows "distance_left d1 < distance_left d" "unhindered b registered d \<Longrightarrow> unhindered b registered d1"
proof -
  have st: "state d = Running" "phase d = ph" "\<not> (cancel_requested d \<and> is_cancelable d)"
    using runner_decide_execute [OF assms(6)] by auto
  from apply_result_result [OF assms(1-5) st] obtain r' where r':
    "apply_step_result_transform now c ph res d = Inr (r', True)"
    "cancel_requested r' = cancel_requested d"
    "state r' \<in> {Succeeded, Cancelled} \<or>
       state r' = Running \<and> pos d (phase r') = pos d ph + 1 \<and> pos d ph + 1 < length (phases d)"
    "\<not> cancel_requested d \<longrightarrow> state r' \<in> {Succeeded, Running}" by blast
  have "transform_good ts_ok fp d (Inr (r', True))"
    using apply_step_result_good [OF assms(1-4), of ph] r'(1) by simp
  then have fr: "phases r' = phases d" "op_type r' = op_type d" "pos r' = pos d"
    by (auto simp: transform_good_def advances_def frame_def pos_def fun_eq_iff)
  have "distance_left d = length (phases d) - pos d ph"
    using st by (simp add: distance_left_def TERMINAL_STATES_def)
  then show "distance_left d1 < distance_left d"
    using r'(1,3) fr distance_positive [OF assms(1)] st(1)
    by (auto simp: d1_def distance_left_def TERMINAL_STATES_def)
  show "unhindered b registered d \<Longrightarrow> unhindered b registered d1"
    using r' fr by (auto simp: d1_def unhindered_def)
qed

lemma run_mark:
  assumes "op_valid ts_ok fp d" "runner_decide b registered cap d = DExecute ph" "st \<in> {Blocked, Failed}"
    and d1_def: "d1 = commit now d (mark_step_error_transform now c ph e st d)"
  shows "state d1 = st"
  using runner_decide_execute [OF assms(2)]
  by (auto simp: d1_def mark_step_error_transform_def Let_def)

lemma run_loop_settles:
  assumes "disk_inv ts_ok fp d" "clock_ok ts_ok now" "claim_ok c" "distance_left d < fuel"
    and "\<And>ph r. step_progresses (steps ph r)"
  shows "\<exists>d'. run_loop fuel now c b registered steps None d = Some d' \<and> settled d' \<and>
    (unhindered b registered d \<and> (\<forall>ph r. step_ok (steps ph r)) \<longrightarrow> state d' = Succeeded)"
  using assms(1,4)
proof (induction fuel arbitrary: d)
  case 0
  then show ?case by simp
next
  case (Suc fuel)
  note D = disk_invD [OF Suc.prems(1)]
  show ?case
  proof (cases "runner_decide b registered False d")
    case DReturn
    then show ?thesis
      by (auto simp: settled_def unhindered_def runner_decide_def TERMINAL_STATES_def split: if_splits)
  next
    case DCheckpoint
    define d1 where "d1 = commit now d (cancel_checkpoint_transform now d)"
    have "disk_inv ts_ok fp d1" unfolding d1_def
      using disk_inv_commit [OF Suc.prems(1) assms(2) cancel_checkpoint_good keeps_checkpoint]
        Suc.prems(1) D(1) assms(2) D(3,4) by blast
    moreover have "state d1 \<noteq> Cancelled \<Longrightarrow> distance_left d1 < fuel"
      using run_checkpoint(1) [OF Suc.prems(1) DCheckpoint d1_def] Suc.prems(2) by simp
    moreover have "\<not> unhindered b registered d"
      using DCheckpoint by (auto simp: unhindered_def runner_decide_def split: if_splits)
    ultimately show ?thesis
      using DCheckpoint Suc.IH [of d1]
      by (cases "state d1 = Cancelled")
        (auto simp: d1_def [symmetric] settled_def TERMINAL_STATES_def Let_def)
  next
    case DStart
    define d1 where "d1 = commit now d (claim_and_start_transform now c b d)"
    have "disk_inv ts_ok fp d1" unfolding d1_def
      using disk_inv_commit [OF Suc.prems(1) assms(2) claim_and_start_good keeps_claim_and_start]
        Suc.prems(1) D(1) assms(2,3) by blast
    with run_start [OF DStart d1_def] Suc.prems(2) Suc.IH [of d1] DStart show ?thesis
      by (auto simp: d1_def [symmetric])
  next
    case DUnsupported
    then have "\<not> unhindered b registered d"
      by (auto simp: unhindered_def runner_decide_def split: if_splits)
    with DUnsupported show ?thesis
      by (simp add: fail_unsupported_transform_def Let_def settled_def TERMINAL_STATES_def)
  next
    case (DExecute ph)
    note sp = assms(5) [of ph d]
    show ?thesis
    proof (cases "steps ph d")
      case (StepOk res)
      with sp have res: "step_result_ok res" "sr_advance res" by (simp_all add: step_progresses_def)
      define d1 where "d1 = commit now d (apply_step_result_transform now c ph res d)"
      have "state d = Running" using runner_decide_execute [OF DExecute] by simp
      then have "disk_inv ts_ok fp d1" unfolding d1_def
        using disk_inv_commit [OF Suc.prems(1) assms(2) apply_step_result_good keeps_apply_result]
          Suc.prems(1) D(1) assms(2,3) res(1) by blast
      with run_apply [OF D(1) assms(2,3) res DExecute d1_def] Suc.prems(2) Suc.IH [of d1] DExecute StepOk
      show ?thesis by (auto simp: d1_def [symmetric])
    next
      case (StepBlocked e)
      have "state (commit now d (mark_step_error_transform now c ph e Blocked d)) = Blocked"
        by (rule run_mark [OF D(1) DExecute _ refl]) simp
      moreover have "\<exists>ph r. \<not> step_ok (steps ph r)"
        using StepBlocked by (intro exI [of _ ph] exI [of _ d]) (simp add: step_ok_def)
      ultimately show ?thesis using DExecute StepBlocked by (auto simp: settled_def Let_def)
    next
      case (StepFailed e)
      have "state (commit now d (mark_step_error_transform now c ph e Failed d)) = Failed"
        by (rule run_mark [OF D(1) DExecute _ refl]) simp
      moreover have "\<exists>ph r. \<not> step_ok (steps ph r)"
        using StepFailed by (intro exI [of _ ph] exI [of _ d]) (simp add: step_ok_def)
      ultimately show ?thesis
        using DExecute StepFailed by (auto simp: settled_def Let_def TERMINAL_STATES_def)
    qed
  qed
qed

subsection \<open>Observing a growing log\<close>

lemma emit_unseen_seqs:
  "(\<And>i. i < length es \<Longrightarrow> ev_seq (es ! i) = int i + b + 1) \<Longrightarrow> b \<le> k \<Longrightarrow>
     emit_unseen k es = (drop (nat (k - b)) es, max k (b + int (length es)))"
proof (induction es arbitrary: b k)
  case Nil
  then show ?case by simp
next
  case (Cons e es)
  have e: "ev_seq e = b + 1" using Cons.prems(1) [of 0] by simp
  have es: "ev_seq (es ! i) = int i + (b + 1) + 1" if "i < length es" for i
    using Cons.prems(1) [of "Suc i"] that by simp
  show ?case
  proof (cases "k = b")
    case True
    with Cons.IH [of "b + 1" "b + 1"] es e show ?thesis by simp
  next
    case False
    with Cons.prems(2) have "b + 1 \<le> k" by simp
    with Cons.IH [of "b + 1" k] es have
      "emit_unseen k es = (drop (nat (k - (b + 1))) es, max k (b + 1 + int (length es)))" by simp
    moreover have "nat (k - b) = Suc (nat (k - (b + 1)))" using \<open>b + 1 \<le> k\<close> by simp
    ultimately show ?thesis using e \<open>b + 1 \<le> k\<close> by simp
  qed
qed

lemma log_valid_seqs:
  "log_valid phs b es \<Longrightarrow> i < length es \<Longrightarrow> ev_seq (es ! i) = int i + b + 1"
proof (induction es arbitrary: b i)
  case (Cons e es)
  then show ?case by (cases i) (auto simp: event_valid_def)
qed simp

lemma emit_unseen_log:
  "log_valid phs 0 es \<Longrightarrow> emit_unseen (int n) es = (drop n es, int (max n (length es)))"
  using emit_unseen_seqs [of es 0 "int n"] log_valid_seqs [of phs 0 es] by (simp add: max_def)

lemma wait_polls_log:
  assumes "ds \<noteq> []" "\<And>d. d \<in> set ds \<Longrightarrow> log_ok d"
    and "\<And>d. d \<in> set ds \<Longrightarrow> n \<le> length (op_log d)"
    and "sorted_wrt (\<lambda>a b. prefix (op_log a) (op_log b)) ds"
    and "\<And>d. d \<in> set (butlast ds) \<Longrightarrow> \<not> settled d"
  shows "wait_polls (int n) ds =
    (drop n (op_log (last ds)), if settled (last ds) then Some (state (last ds)) else None)"
  using assms
proof (induction ds arbitrary: n)
  case Nil
  then show ?case by simp
next
  case (Cons d ds)
  have l: "log_valid (phases d) 0 (op_log d)" and n: "n \<le> length (op_log d)"
    using Cons.prems(2,3) by (auto simp: log_ok_def)
  have e: "emit_unseen (int n) (op_log d) = (drop n (op_log d), int (length (op_log d)))"
    using emit_unseen_log [OF l, of n] n by (simp add: max_def)
  show ?case
  proof (cases "ds = []")
    case True
    with e show ?thesis by (auto simp: settled_def Let_def)
  next
    case False
    then have ns: "\<not> settled d" using Cons.prems(5) by simp
    have p: "prefix (op_log d) (op_log x)" if "x \<in> set ds" for x
      using Cons.prems(4) that by simp
    have "wait_polls (int (length (op_log d))) ds =
      (drop (length (op_log d)) (op_log (last ds)),
       if settled (last ds) then Some (state (last ds)) else None)"
      using Cons.prems False p by (intro Cons.IH) (auto intro: prefix_length_le)
    moreover have "drop n (op_log d) @ drop (length (op_log d)) (op_log (last ds)) =
        drop n (op_log (last ds))"
      using p [of "last ds"] False n by (auto simp: prefix_def)
    ultimately show ?thesis using False e ns by (auto simp: settled_def Let_def)
  qed
qed

subsection \<open>What leaves the store\<close>

text \<open>Whether a \<open>parameters\<close> entry occurs at any depth.\<close>

fun mentions_parameters :: "pyval \<Rightarrow> bool" where
  "mentions_parameters (PDict d) =
     list_ex (\<lambda>kv. fst kv = ''parameters'' \<or> mentions_parameters (snd kv)) d"
| "mentions_parameters (PList xs) = list_ex mentions_parameters xs"
| "mentions_parameters v = False"

lemma scrub_private_clean: "\<not> mentions_parameters (scrub_private v)"
  by (induction v rule: scrub_private.induct) (auto simp: list_ex_iff)

lemma scrub_private_id: "\<not> mentions_parameters v \<Longrightarrow> scrub_private v = v"
proof (induction v rule: scrub_private.induct)
  case (1 d)
  then have "filter (\<lambda>kv. fst kv \<noteq> ''parameters'') d = d"
    by (auto simp: filter_id_conv list_ex_iff)
  with 1 show ?case by (auto simp: list_ex_iff intro!: map_idI)
qed (auto simp: list_ex_iff intro: map_idI)

lemma new_operation_fp:
  "new_operation fp uid now otype params phs irr oid cph = Inr d \<Longrightarrow> parameters_fp d = fp otype params"
  by (auto simp: new_operation_def Let_def split: if_splits)

lemma create_record_cases:
  assumes "create_record valid st r = (st', x)"
  shows "(\<forall>o1 r1. st o1 = Some r1 \<longrightarrow> st' o1 = Some r1) \<and>
    (\<forall>r1. x = Inr r1 \<longrightarrow> st' (operation_id r1) = Some r1 \<and> parameters_fp r1 = parameters_fp r)"
proof -
  have st: "st' = st \<or> st (operation_id r) = None \<and> st' = st(operation_id r := Some r)"
    using assms by (auto simp: create_record_def Let_def split: if_splits option.splits)
  have rd: "read_record valid (operation_id r) st' = Inr r1 \<and> parameters_fp r1 = parameters_fp r"
    if "x = Inr r1" for r1
  proof (cases "st (operation_id r)")
    case None
    have v: "valid r"
      using assms that by (cases "valid r") (simp_all add: create_record_def)
    have eq: "create_record valid st r =
      (st(operation_id r := Some r), read_record valid (operation_id r) (st(operation_id r := Some r)))"
      using None v by (simp add: create_record_def Let_def)
    have "fst (create_record valid st r) = st'" "snd (create_record valid st r) = Inr r1"
      using assms that by simp_all
    then show ?thesis unfolding eq fst_conv snd_conv read_record_Inr by auto
  next
    case (Some r0)
    with assms that show ?thesis
      by (cases "read_record valid (operation_id r) st")
        (simp_all add: create_record_def split: if_splits)
  qed
  have "st' (operation_id r1) = Some r1 \<and> parameters_fp r1 = parameters_fp r" if "x = Inr r1" for r1
    using rd [OF that] unfolding read_record_Inr by simp
  with st show ?thesis by fastforce
qed

lemma create_operation_cases:
  assumes "create_operation valid fp uid now reg otype params oid st = (st', x)"
  shows "(\<forall>o1 r. st o1 = Some r \<longrightarrow> st' o1 = Some r) \<and>
    (\<forall>r. x = Inr r \<longrightarrow> st' (operation_id r) = Some r \<and>
      (\<exists>sp. reg otype = Some sp \<and>
         parameters_fp r = fp (spec_type sp) (spec_normalize sp params)))"
proof (cases "reg otype")
  case None
  with assms show ?thesis by (auto simp: create_operation_def)
next
  case (Some sp)
  show ?thesis
  proof (cases "new_record fp uid now sp params oid")
    case (Inl e)
    with assms Some show ?thesis by (auto simp: create_operation_def)
  next
    case (Inr r0)
    with assms Some have "create_record valid st r0 = (st', x)"
      by (simp add: create_operation_def)
    from create_record_cases [OF this] Some Inr new_operation_fp show ?thesis
      by (fastforce simp: new_record_def)
  qed
qed

end
