(* ===== verification/Op_Properties.thy ===== *)
theory Op_Properties
  imports Op_Api
begin

text \<open>
  Properties of the persistent long-operation engine (daemon/operations.py) as a whole. They
  quantify over every interleaving of the executor with cancel commands and crashes that the
  system of \<open>Op_Runner\<close> admits from a freshly created operation.
\<close>

subsection \<open>Created operations\<close>

text \<open>
  A record made by \<open>new_operation\<close> with an aware clock reading, a non-empty type, a 64-digit
  fingerprint and a phase list in canonical order, whose first phase is not the irreversible
  one. The last two are not checked by \<open>new_operation\<close> itself.
\<close>

definition created ::
    "(string \<Rightarrow> bool) \<Rightarrow> (string \<Rightarrow> pydict \<Rightarrow> string) \<Rightarrow> operation \<Rightarrow> bool" where
  "created ts_ok fp d \<longleftrightarrow>
     (\<exists>uid now otype params phs irr oid cph.
        new_operation fp uid now otype params phs irr oid cph = Inr d \<and> clock_ok ts_ok now \<and>
        otype \<noteq> [] \<and> length (fp otype params) = 64 \<and> all_in (fp otype params) lower_hex \<and>
        sorted (canonical_indexes phs) \<and> irr \<noteq> hd phs)"

lemma created_disk_inv: "created ts_ok fp d \<Longrightarrow> disk_inv ts_ok fp d"
  unfolding created_def using new_operation_disk_inv by blast

lemma created_reachable_inv:
  "created ts_ok fp d0 \<Longrightarrow> osys_reachable ts_ok registered d0 s \<Longrightarrow> osys_inv ts_ok fp s"
  using created_disk_inv osys_reachable_inv by blast

text \<open>A concrete operation for the witnesses: three phases, compensation in the last.\<close>

definition demo_fp :: "string \<Rightarrow> pydict \<Rightarrow> string" where
  "demo_fp t p = replicate 64 (CHR ''0'')"

definition demo_ts :: "string \<Rightarrow> bool" where
  "demo_ts s = True"

definition demo_op :: operation where
  "demo_op = (case new_operation demo_fp ''op-1'' ''2024-01-01T00:00:00+00:00'' ''restore'' []
       [''preflight'', ''publishing'', ''cleanup''] ''publishing'' None (Some ''cleanup'') of
     Inr d \<Rightarrow> d)"

lemma demo_op_eq:
  "new_operation demo_fp ''op-1'' ''2024-01-01T00:00:00+00:00'' ''restore'' []
     [''preflight'', ''publishing'', ''cleanup''] ''publishing'' None (Some ''cleanup'') = Inr demo_op"
  by (simp add: demo_op_def new_operation_def valid_operation_id_def MAX_ID_LENGTH_def
      all_in_def SAFE_ID_CHARS_def ascii_lower_def ascii_upper_def ascii_digits_def
      CANONICAL_PHASES_def)

lemma demo_created: "created demo_ts demo_fp demo_op"
  unfolding created_def
  by (intro exI conjI, rule demo_op_eq)
    (simp_all add: clock_ok_def ts_valid_def demo_ts_def demo_fp_def all_in_def lower_hex_def
      canonical_indexes_def CANONICAL_PHASES_def list_all_iff)

definition demo_now :: string where
  "demo_now = ''2024-01-01T00:00:01+00:00''"

lemma demo_clock [simp]: "clock_ok demo_ts demo_now"
  by (simp add: clock_ok_def ts_valid_def demo_ts_def demo_now_def)

text \<open>The demo operation after a cancel command.\<close>

definition demo_cancelled :: osys where
  "demo_cancelled = \<lparr>disk = commit demo_now demo_op (cancel_apply demo_now demo_op), pc = RIdle,
     retry = False\<rparr>"

lemma demo_cancelled_reachable: "osys_reachable demo_ts (\<lambda>_. True) demo_op demo_cancelled"
proof -
  have "osys_step demo_ts (\<lambda>_. True) \<lparr>disk = demo_op, pc = RIdle, retry = False\<rparr> demo_cancelled"
    using osys_step.request_cancel [of demo_ts demo_now _ "\<lparr>disk = demo_op, pc = RIdle, retry = False\<rparr>"]
    by (simp add: demo_cancelled_def)
  with osys_reachable.init show ?thesis by (rule osys_reachable.step)
qed


lemma demo_op_value:
  "demo_op = \<lparr>operation_id = ''op-1'', op_type = ''restore'', state = Queued,
     phase = ''preflight'', phases = [''preflight'', ''publishing'', ''cleanup''],
     irreversible_phase = ''publishing'', cancel_phase = Some ''cleanup'', parameters = [],
     parameters_fp = demo_fp ''restore'' [], created_at = ''2024-01-01T00:00:00+00:00'',
     updated_at = ''2024-01-01T00:00:00+00:00'', cancel_requested = False,
     cancel_requested_at = None, progress = \<lparr>n_events = 0, n_bytes = 0, n_chunks = 0\<rparr>,
     op_result = PNone, op_err = None, op_log = [], op_rev = 1, runner_claim = None\<rparr>"
  using demo_op_eq by (simp add: new_operation_def Let_def split: if_splits)

lemma demo_op_fields [simp]:
  "state demo_op = Queued" "phase demo_op = ''preflight''"
  "phases demo_op = [''preflight'', ''publishing'', ''cleanup'']"
  "irreversible_phase demo_op = ''publishing''" "cancel_phase demo_op = Some ''cleanup''"
  "\<not> cancel_requested demo_op" "op_log demo_op = []" "operation_id demo_op = ''op-1''"
  "op_type demo_op = ''restore''" "op_rev demo_op = 1"
  by (simp_all add: demo_op_value)

lemma demo_cancelled_fields [simp]:
  "cancel_requested (disk demo_cancelled)" "state (disk demo_cancelled) = Queued"
  "phase (disk demo_cancelled) = ''preflight''"
  by (simp_all add: demo_cancelled_def commit_def cancel_apply_def classify_cancel_def
      is_cancelable_def TERMINAL_STATES_def)

text \<open>The demo operation driven by the executor: started, then two phases, then the last.\<close>

definition demo_claim :: op_claim where
  "demo_claim = \<lparr>claim_pid = 7, claim_token = ''t'', claim_at = demo_now\<rparr>"

definition demo_advance :: step_result where
  "demo_advance = \<lparr>sr_progress = [], sr_advance = True, sr_result = PNone\<rparr>"

lemma demo_inputs_ok [simp]: "claim_ok demo_claim" "step_result_ok demo_advance"
  by (simp_all add: claim_ok_def demo_claim_def step_result_ok_def demo_advance_def)

definition demo_step :: "string \<Rightarrow> operation \<Rightarrow> operation" where
  "demo_step ph d = commit demo_now d (apply_step_result_transform demo_now demo_claim ph demo_advance d)"

definition demo_running :: operation where
  "demo_running = commit demo_now demo_op (claim_and_start_transform demo_now demo_claim False demo_op)"

definition demo_publishing :: operation where
  "demo_publishing = demo_step ''preflight'' demo_running"

definition demo_cleanup :: operation where
  "demo_cleanup = demo_step ''publishing'' demo_publishing"

definition demo_succeeded :: operation where
  "demo_succeeded = demo_step ''cleanup'' demo_cleanup"

lemma demo_running_fields [simp]:
  "state demo_running = Running" "phase demo_running = ''preflight''"
  "phases demo_running = [''preflight'', ''publishing'', ''cleanup'']"
  "cancel_phase demo_running = Some ''cleanup''" "irreversible_phase demo_running = ''publishing''"
  "\<not> cancel_requested demo_running"
  by (simp_all add: demo_running_def commit_def claim_and_start_transform_def)

lemma demo_step_fields:
  "phase d = ph \<Longrightarrow> \<not> cancel_requested d \<Longrightarrow> ph \<noteq> last (phases d) \<Longrightarrow> index_of (phases d) ph = Some i \<Longrightarrow>
     phases d ! (i + 1) \<noteq> ph \<Longrightarrow> index_of (phases d) (phases d ! (i + 1)) = Some (i + 1) \<Longrightarrow>
     state (demo_step ph d) = state d \<and> phase (demo_step ph d) = phases d ! (i + 1) \<and>
     phases (demo_step ph d) = phases d \<and> cancel_phase (demo_step ph d) = cancel_phase d \<and>
     irreversible_phase (demo_step ph d) = irreversible_phase d \<and> \<not> cancel_requested (demo_step ph d)"
  using index_of_nth [of "phases d" ph i] index_of_nth [of "phases d" "phases d ! (i + 1)" "i + 1"]
  by (simp add: demo_step_def commit_def apply_step_result_transform_def demo_advance_def
      advance_phase_def phase_index_def validate_phase_transition_def Let_def nth_mem)
    (metis Suc_lessD nth_mem)

lemma demo_publishing_fields [simp]:
  "state demo_publishing = Running" "phase demo_publishing = ''publishing''"
  "phases demo_publishing = [''preflight'', ''publishing'', ''cleanup'']"
  "cancel_phase demo_publishing = Some ''cleanup''"
  "irreversible_phase demo_publishing = ''publishing''" "\<not> cancel_requested demo_publishing"
  using demo_step_fields [of demo_running "''preflight''" 0] by (simp_all add: demo_publishing_def)

lemma demo_cleanup_fields [simp]:
  "state demo_cleanup = Running" "phase demo_cleanup = ''cleanup''"
  "phases demo_cleanup = [''preflight'', ''publishing'', ''cleanup'']"
  "cancel_phase demo_cleanup = Some ''cleanup''"
  "irreversible_phase demo_cleanup = ''publishing''" "\<not> cancel_requested demo_cleanup"
  using demo_step_fields [of demo_publishing "''publishing''" 1] by (simp_all add: demo_cleanup_def)

lemma demo_succeeded_fields [simp]:
  "state demo_succeeded = Succeeded" "phase demo_succeeded = ''cleanup''"
  "phases demo_succeeded = [''preflight'', ''publishing'', ''cleanup'']"
  by (simp_all add: demo_succeeded_def demo_step_def apply_step_result_transform_def demo_advance_def
      advance_phase_def Let_def)

abbreviation demo_sys :: "operation \<Rightarrow> runner_pc \<Rightarrow> osys" where
  "demo_sys d p \<equiv> \<lparr>disk = d, pc = p, retry = False\<rparr>"

abbreviation demo_reach :: "osys \<Rightarrow> bool" where
  "demo_reach s \<equiv> osys_reachable demo_ts (\<lambda>_. True) demo_op s"

lemma demo_decide_running:
  "state d = Running \<Longrightarrow> \<not> cancel_requested d \<Longrightarrow>
     runner_decide False (\<lambda>_. True) False d = DExecute (phase d)"
  by (simp add: runner_decide_def TERMINAL_STATES_def)

lemma demo_execute:
  assumes "demo_reach (demo_sys d RHead)" "state d = Running" "\<not> cancel_requested d" "phase d = ph"
  shows "demo_reach (demo_sys d (RExec ph))"
proof -
  have "demo_reach (demo_sys d (RHave d))"
    using osys_reachable.step [OF assms(1)] osys_step.load [of "demo_sys d RHead"] by simp
  then show ?thesis
    using osys_reachable.step osys_step.execute [of "demo_sys d (RHave d)" d "\<lambda>_. True" False ph]
      demo_decide_running [OF assms(2,3)] assms(4) by fastforce
qed

lemma demo_iterate:
  assumes "demo_reach (demo_sys d (RExec ph))"
  shows "demo_reach (demo_sys (demo_step ph d) RHead)"
proof -
  have "demo_reach (demo_sys d (RResult ph demo_advance))"
    using osys_reachable.step [OF assms] osys_step.step_returns [of "demo_sys d (RExec ph)" ph demo_advance]
    by simp
  then show ?thesis
    using osys_reachable.step osys_step.apply_result
        [of "demo_sys d (RResult ph demo_advance)" ph demo_advance demo_ts demo_now demo_claim]
    by (fastforce simp: demo_step_def)
qed

lemma demo_running_reachable: "demo_reach (demo_sys demo_running RHead)"
proof -
  have dec: "runner_decide False (\<lambda>_. True) False demo_op = DStart"
    by (simp add: runner_decide_def TERMINAL_STATES_def)
  have "demo_reach (demo_sys demo_op RHead)"
    using osys_reachable.step [OF osys_reachable.init] osys_step.invoke [of "demo_sys demo_op RIdle"]
    by fastforce
  then have "demo_reach (demo_sys demo_op (RHave demo_op))"
    using osys_reachable.step osys_step.load [of "demo_sys demo_op RHead"] by fastforce
  then show ?thesis
    using osys_reachable.step osys_step.begin_run
        [of "demo_sys demo_op (RHave demo_op)" demo_op "\<lambda>_. True" False demo_ts demo_now demo_claim]
      dec by (fastforce simp: demo_running_def)
qed

lemma demo_publishing_executes: "demo_reach (demo_sys demo_publishing (RExec ''publishing''))"
  using demo_iterate [OF demo_execute [OF demo_running_reachable]]
  by (intro demo_execute) (simp_all flip: demo_publishing_def)

lemma demo_succeeded_reachable: "demo_reach (demo_sys demo_succeeded RHead)"
proof -
  have "demo_reach (demo_sys demo_cleanup (RExec ''cleanup''))"
    using demo_iterate [OF demo_publishing_executes]
    by (intro demo_execute) (simp_all flip: demo_cleanup_def)
  from demo_iterate [OF this] show ?thesis by (simp add: demo_succeeded_def)
qed

lemma demo_cancel_step:
  "osys_step demo_ts (\<lambda>_. True) s (s\<lparr>disk := commit demo_now (disk s) (cancel_apply demo_now (disk s))\<rparr>)"
  by (rule osys_step.request_cancel [OF demo_clock refl])

lemma demo_cancel_run:
  "(osys_step demo_ts (\<lambda>_. True))\<^sup>*\<^sup>* s
     (s\<lparr>disk := commit demo_now (disk s) (cancel_apply demo_now (disk s))\<rparr>)"
  using demo_cancel_step by (rule r_into_rtranclp)

text \<open>The stored record after a cancel command, and the evaluation of that command's mutation.\<close>

definition demo_requested :: operation where
  "demo_requested = commit demo_now demo_op (cancel_apply demo_now demo_op)"

lemma demo_read: "read_record (\<lambda>_. True) ''op-1'' [''op-1'' \<mapsto> demo_op] = Inr demo_op"
  by (simp add: read_record_def valid_operation_id_def MAX_ID_LENGTH_def
      all_in_def SAFE_ID_CHARS_def ascii_lower_def ascii_upper_def ascii_digits_def)

lemma demo_mutate_cancel:
  "mutate (\<lambda>_. True) demo_now ''op-1'' (cancel_apply demo_now) [\<lambda>t. t] [''op-1'' \<mapsto> demo_op] =
     ([''op-1'' \<mapsto> demo_requested], Inr demo_requested)"
  using demo_read
  by (simp add: mutate_def write_record_def commit_def demo_requested_def
      cancel_apply_def classify_cancel_def is_cancelable_def TERMINAL_STATES_def append_event_def Let_def)

lemma demo_cancel_operation:
  "cancel_operation 1 (\<lambda>_. True) demo_now ''op-1'' [\<lambda>t. t] [''op-1'' \<mapsto> demo_op] =
     Some ([''op-1'' \<mapsto> demo_requested], Inr (demo_requested, Requested))"
  using demo_read demo_mutate_cancel
  by (simp add: classify_cancel_def is_cancelable_def TERMINAL_STATES_def demo_requested_def commit_def
      cancel_apply_def)

subsection \<open>Properties\<close>

lemma new_operation_start:
  "new_operation fp uid now otype params phs irr oid cph = Inr d \<Longrightarrow>
     state d = Queued \<and> phase d = hd phs \<and> phases d = phs \<and> irreversible_phase d = irr \<and>
     cancel_phase d = cph \<and> \<not> cancel_requested d"
  by (auto simp: new_operation_def Let_def split: if_splits)

text \<open>A one-phase operation whose only phase is the irreversible one.\<close>

definition sole_op :: operation where
  "sole_op = (case new_operation demo_fp ''op-2'' ''2024-01-01T00:00:00+00:00'' ''clear'' []
       [''publishing''] ''publishing'' None None of Inr d \<Rightarrow> d)"

lemma sole_op_eq:
  "new_operation demo_fp ''op-2'' ''2024-01-01T00:00:00+00:00'' ''clear'' []
     [''publishing''] ''publishing'' None None = Inr sole_op"
  by (simp add: sole_op_def new_operation_def valid_operation_id_def MAX_ID_LENGTH_def
      all_in_def SAFE_ID_CHARS_def ascii_lower_def ascii_upper_def ascii_digits_def
      CANONICAL_PHASES_def)

lemma sole_op_fields [simp]:
  "state sole_op = Queued" "phase sole_op = ''publishing''" "phases sole_op = [''publishing'']"
  "irreversible_phase sole_op = ''publishing''" "cancel_phase sole_op = None"
  "\<not> cancel_requested sole_op"
  using new_operation_start [OF sole_op_eq] by auto

definition sole_cancelled :: operation where
  "sole_cancelled = commit demo_now sole_op (cancel_apply demo_now sole_op)"

definition sole_started :: operation where
  "sole_started = commit demo_now sole_cancelled
     (claim_and_start_transform demo_now demo_claim False sole_cancelled)"

lemma sole_cancelled_fields [simp]:
  "state sole_cancelled = Queued" "phase sole_cancelled = ''publishing''"
  "phases sole_cancelled = [''publishing'']" "irreversible_phase sole_cancelled = ''publishing''"
  "cancel_phase sole_cancelled = None" "cancel_requested sole_cancelled"
  by (simp_all add: sole_cancelled_def commit_def cancel_apply_def classify_cancel_def
      is_cancelable_def TERMINAL_STATES_def)

lemma sole_started_fields [simp]:
  "state sole_started = Running" "phase sole_started = ''publishing''"
  "phases sole_started = [''publishing'']" "irreversible_phase sole_started = ''publishing''"
  "cancel_phase sole_started = None" "cancel_requested sole_started"
  by (simp_all add: sole_started_def commit_def claim_and_start_transform_def)

lemma sole_started_uncancellable [simp]: "\<not> is_cancelable sole_started"
  by (simp add: is_cancelable_def phase_index_def TERMINAL_STATES_def)

text \<open>
  The executor has loaded the queued record, the cancel is acknowledged, and the start is
  applied to the fresh record.
\<close>

lemma sole_race:
  "(osys_step demo_ts (\<lambda>_. True))\<^sup>*\<^sup>* (demo_sys sole_cancelled (RHave sole_op))
     (demo_sys (demo_step ''publishing'' sole_started) RHead)"
proof -
  let ?R = "osys_step demo_ts (\<lambda>_. True)"
  have dec: "runner_decide False (\<lambda>_. True) False sole_op = DStart"
    "runner_decide False (\<lambda>_. True) False sole_started = DExecute ''publishing''"
    by (simp_all add: runner_decide_def TERMINAL_STATES_def)
  have "?R (demo_sys sole_cancelled (RHave sole_op)) (demo_sys sole_started RHead)"
    using osys_step.begin_run [of "demo_sys sole_cancelled (RHave sole_op)" sole_op "\<lambda>_. True" False
        demo_ts demo_now demo_claim] dec
    by (simp add: sole_started_def)
  moreover have "?R (demo_sys sole_started RHead) (demo_sys sole_started (RHave sole_started))"
    using osys_step.load [of "demo_sys sole_started RHead"] by simp
  moreover have "?R (demo_sys sole_started (RHave sole_started))
      (demo_sys sole_started (RExec ''publishing''))"
    using osys_step.execute [of "demo_sys sole_started (RHave sole_started)" sole_started "\<lambda>_. True" False]
      dec by simp
  moreover have "?R (demo_sys sole_started (RExec ''publishing''))
      (demo_sys sole_started (RResult ''publishing'' demo_advance))"
    using osys_step.step_returns [of "demo_sys sole_started (RExec ''publishing'')" _ demo_advance]
    by simp
  moreover have "?R (demo_sys sole_started (RResult ''publishing'' demo_advance))
      (demo_sys (demo_step ''publishing'' sole_started) RHead)"
    using osys_step.apply_result [of "demo_sys sole_started (RResult ''publishing'' demo_advance)"
        "''publishing''" demo_advance demo_ts demo_now demo_claim]
    by (simp add: demo_step_def)
  ultimately show ?thesis by (meson rtranclp.rtrancl_into_rtrancl rtranclp.rtrancl_refl)
qed

lemma sole_succeeds: "state (demo_step ''publishing'' sole_started) = Succeeded"
  by (simp add: demo_step_def apply_step_result_transform_def demo_advance_def advance_phase_def Let_def)

lemma sole_reachable: "osys_reachable demo_ts (\<lambda>_. True) sole_op (demo_sys sole_cancelled (RHave sole_op))"
proof -
  let ?C = "osys_reachable demo_ts (\<lambda>_. True) sole_op"
  have "?C (demo_sys sole_op RHead)"
    using osys_reachable.step [OF osys_reachable.init] osys_step.invoke [of "demo_sys sole_op RIdle"]
    by fastforce
  then have "?C (demo_sys sole_op (RHave sole_op))"
    using osys_reachable.step osys_step.load [of "demo_sys sole_op RHead"] by fastforce
  then show ?thesis
    using osys_reachable.step demo_cancel_step [of "demo_sys sole_op (RHave sole_op)"]
    by (fastforce simp: sole_cancelled_def)
qed

text \<open>
  C1. Every record the engine can have stored, in any interleaving of the executor, cancel
  commands and crashes, is accepted by the on-disk validator: \<open>validate_record\<close> returns true
  on its JSON form, so neither the runner's own writes nor a later load is ever refused as an
  invalid operation record.
\<close>

theorem stored_record_always_validates:
  assumes "created ts_ok fp d0" "osys_reachable ts_ok registered d0 s"
  shows "validate_record ts_ok (\<lambda>t p. Some (fp t p)) (record_json (disk s))"
  using created_reachable_inv [OF assms]
  by (simp add: validate_record_json osys_inv_def disk_inv_def)

theorem stored_record_always_validates_witness:
  "validate_record demo_ts (\<lambda>t p. Some (demo_fp t p)) (record_json (disk demo_cancelled))"
  by (rule stored_record_always_validates [OF demo_created demo_cancelled_reachable])

text \<open>
  C2. An acknowledged cancel is never lost: once the stored record carries
  \<open>cancel_requested\<close>, the operation cannot end as succeeded, whatever the interleaving of the
  executor's mutations, further cancel commands, retries and crashes.
\<close>

theorem acknowledged_cancel_never_succeeds:
  assumes "created ts_ok fp d0" "osys_reachable ts_ok registered d0 s"
    and "cancel_requested (disk s)"
  shows "state (disk s) \<noteq> Succeeded"
  using created_reachable_inv [OF assms(1,2)] assms(3)
  by (auto simp: osys_inv_def disk_inv_def honoured_def is_cancelable_def TERMINAL_STATES_def)

theorem acknowledged_cancel_never_succeeds_witness:
  "cancel_requested (disk demo_cancelled) \<and> state (disk demo_cancelled) \<noteq> Succeeded"
  using acknowledged_cancel_never_succeeds [OF demo_created demo_cancelled_reachable] by simp

text \<open>
  C3. The irreversible point: whenever the executor is inside the step function of a phase at
  or after the irreversible phase, no cancel has been acknowledged, unless that phase is the
  compensation phase the operation recorded for cancellation.
\<close>

theorem no_irreversible_step_after_cancel:
  assumes "created ts_ok fp d0" "osys_reachable ts_ok registered d0 s"
    and "pc s = RExec ph" "pos (disk s) (irreversible_phase (disk s)) \<le> pos (disk s) ph"
  shows "\<not> cancel_requested (disk s) \<or> cancel_phase (disk s) = Some ph"
proof -
  have I: "disk_inv ts_ok fp (disk s)" "state (disk s) = Running" "phase (disk s) = ph"
    using created_reachable_inv [OF assms(1,2)] assms(3) by (auto simp: osys_inv_def)
  note D = disk_invD [OF I(1)]
  from D(5,6) I(2,3) assms(4) show ?thesis by (auto simp: honoured_def)
qed

theorem no_irreversible_step_after_cancel_witness:
  "pos demo_publishing ''publishing'' = 1 \<and> \<not> cancel_requested demo_publishing"
  using no_irreversible_step_after_cancel
    [OF demo_created demo_publishing_executes, of "''publishing''"]
  by (simp add: pos_def)

text \<open>
  C4. Terminal states are final: once an operation is succeeded, failed or cancelled, no step
  of the executor or of a cancel command changes anything of its stored record, not even its
  revision.
\<close>

theorem terminal_record_never_changes:
  assumes "created ts_ok fp d0" "osys_reachable ts_ok registered d0 s"
    and "state (disk s) \<in> set TERMINAL_STATES" "(osys_step ts_ok registered)\<^sup>*\<^sup>* s t"
  shows "disk t = disk s"
proof -
  have "osys_inv ts_ok fp t \<and> disk t = disk s"
    using assms(4) created_reachable_inv [OF assms(1,2)] assms(3)
  proof (induction rule: rtranclp_induct)
    case (step y z)
    then show ?case using terminal_step_unchanged osys_step_inv by metis
  qed simp
  then show ?thesis ..
qed

theorem terminal_record_never_changes_witness:
  "commit demo_now demo_succeeded (cancel_apply demo_now demo_succeeded) = demo_succeeded"
  using terminal_record_never_changes
    [OF demo_created demo_succeeded_reachable _ demo_cancel_run]
  by (simp add: TERMINAL_STATES_def)

text \<open>
  C5. Progress is monotone: along any run of executor steps, cancels and crashes the phase
  list is fixed, the phase never moves to an earlier one, the event log is only appended to,
  and the revision never decreases.
\<close>

theorem phase_and_log_only_advance:
  assumes "created ts_ok fp d0" "osys_reachable ts_ok registered d0 s"
    and "(osys_step ts_ok registered)\<^sup>*\<^sup>* s t"
  shows "phases (disk t) = phases (disk s) \<and>
    pos (disk s) (phase (disk s)) \<le> pos (disk s) (phase (disk t)) \<and>
    prefix (op_log (disk s)) (op_log (disk t)) \<and> op_rev (disk s) \<le> op_rev (disk t)"
  using osys_run_keeps [OF assms(3) created_reachable_inv [OF assms(1,2)]] by blast

theorem phase_and_log_only_advance_witness:
  "pos demo_publishing ''publishing'' \<le> pos demo_publishing (phase (disk
     ((demo_sys demo_publishing (RExec ''publishing''))\<lparr>disk := commit demo_now demo_publishing
        (cancel_apply demo_now demo_publishing)\<rparr>)))"
  using phase_and_log_only_advance
    [OF demo_created demo_publishing_executes demo_cancel_run]
  by simp





text \<open>
  Cancel is durable before it is acknowledged: when \<open>cancel_operation\<close> returns, the record
  it returns is the stored one, a \<open>requested\<close> answer means that the stored record carries the
  request or is cancelled, and any other answer is the classification of the stored record.
\<close>

theorem cancel_acknowledged_is_stored:
  assumes "cancel_operation fuel valid now oid ws st = Some (st', Inr (u, cls))"
  shows "st' oid = Some u \<and> (cls = Requested \<longrightarrow> cancel_requested u \<or> state u = Cancelled) \<and>
    (cls \<noteq> Requested \<longrightarrow> cls = classify_cancel u)"
  using assms by (rule cancel_operation_durable)

theorem cancel_acknowledged_is_stored_witness:
  "cancel_requested demo_requested \<or> state demo_requested = Cancelled"
  using cancel_acknowledged_is_stored [OF demo_cancel_operation] by simp

text \<open>
  \<open>wait_for_terminal\<close>, polling any sequence of moments of one run, emits every
  log entry of the last observed record exactly once and in order, and returns the outcome
  of the first settled record it sees.
\<close>

theorem wait_emits_every_event_once:
  assumes "created ts_ok fp d0" "ss \<noteq> []"
    and "\<And>s. s \<in> set ss \<Longrightarrow> osys_reachable ts_ok registered d0 s"
    and "sorted_wrt ((osys_step ts_ok registered)\<^sup>*\<^sup>*) ss"
    and "\<And>s. s \<in> set (butlast ss) \<Longrightarrow> \<not> settled (disk s)"
  shows "wait_polls 0 (map disk ss) =
    (op_log (disk (last ss)),
     if settled (disk (last ss)) then Some (state (disk (last ss))) else None)"
proof -
  have inv: "osys_inv ts_ok fp s" if "s \<in> set ss" for s
    using created_reachable_inv [OF assms(1)] assms(3) that by blast
  have "sorted_wrt (\<lambda>a b. prefix (op_log (disk a)) (op_log (disk b))) ss"
    using assms(4) by (rule sorted_wrt_mono_rel [rotated]) (use osys_run_keeps inv in blast)
  moreover have "log_ok (disk s)" if "s \<in> set ss" for s
    using inv [OF that] op_validD(3) by (auto simp: osys_inv_def disk_inv_def)
  ultimately have "wait_polls (int 0) (map disk ss) =
      (drop 0 (op_log (last (map disk ss))),
       if settled (last (map disk ss)) then Some (state (last (map disk ss))) else None)"
    using assms(2,5) by (intro wait_polls_log) (auto simp: sorted_wrt_map simp flip: map_butlast)
  then show ?thesis using assms(2) by (simp add: last_map)
qed

theorem wait_emits_every_event_once_witness:
  "wait_polls 0 [demo_op, disk demo_cancelled] = (op_log (disk demo_cancelled), None)"
proof -
  have "osys_step demo_ts (\<lambda>_. True) (demo_sys demo_op RIdle) demo_cancelled"
    using demo_cancel_step [of "demo_sys demo_op RIdle"] by (simp add: demo_cancelled_def)
  then show ?thesis
    using wait_emits_every_event_once [OF demo_created, of "[demo_sys demo_op RIdle, demo_cancelled]"
        "\<lambda>_. True"] demo_cancelled_reachable osys_reachable.init [of demo_ts "\<lambda>_. True" demo_op]
    by (auto simp: settled_def TERMINAL_STATES_def)
qed

text \<open>
  Creation is exclusive and idempotent: \<open>create_operation\<close> never replaces a stored record,
  and the record it returns is stored and carries the fingerprint of the normalized
  parameters of this call, so a caller that reuses an id with other parameters is never
  handed the existing operation.
\<close>

theorem create_never_overwrites:
  assumes "create_operation valid fp uid now reg otype params oid st = (st', x)"
  shows "(\<forall>o1 r. st o1 = Some r \<longrightarrow> st' o1 = Some r) \<and>
    (\<forall>r. x = Inr r \<longrightarrow> st' (operation_id r) = Some r \<and>
      (\<exists>sp. reg otype = Some sp \<and>
         parameters_fp r = fp (spec_type sp) (spec_normalize sp params)))"
  using assms by (rule create_operation_cases)

definition demo_spec :: op_type_spec where
  "demo_spec = \<lparr>spec_type = ''restore'', spec_phases = [''preflight'', ''publishing'', ''cleanup''],
     spec_irreversible = ''publishing'', spec_cancel = Some ''cleanup'', spec_normalize = (\<lambda>p. p)\<rparr>"

lemma demo_create:
  "create_operation (\<lambda>_. True) demo_fp ''op-1'' ''2024-01-01T00:00:00+00:00''
     (registry_register demo_spec Map.empty) ''restore'' [] None Map.empty
   = ([''op-1'' \<mapsto> demo_op], Inr demo_op)"
  using demo_op_eq demo_read
  by (simp add: create_operation_def registry_register_def demo_spec_def new_record_def
      create_record_def Let_def)

theorem create_never_overwrites_witness:
  "\<exists>sp. registry_register demo_spec Map.empty ''restore'' = Some sp \<and>
     parameters_fp demo_op = demo_fp (spec_type sp) (spec_normalize sp [])"
  using create_never_overwrites [OF demo_create] by blast

text \<open>
  Privacy of output: the public form of a record has no \<open>parameters\<close> entry at any depth,
  and it is the record itself exactly when there was none.
\<close>

theorem public_record_hides_parameters:
  "\<not> mentions_parameters (public_record v) \<and> (public_record v = v \<longleftrightarrow> \<not> mentions_parameters v)"
  using scrub_private_clean [of v] scrub_private_id [of v] unfolding public_record_def by metis

text \<open>
  The bound of C2: \<open>new_operation\<close> accepts a phase list that starts with the irreversible
  phase, and for such an operation an acknowledged cancel is lost. The cancel is accepted
  because the operation is queued, a concurrent executor that had already loaded the record
  starts it, it is then past its irreversible point, and it succeeds.
\<close>

theorem queued_cancel_can_be_lost:
  "\<exists>d0 s t. new_operation demo_fp ''op-2'' ''2024-01-01T00:00:00+00:00'' ''clear'' []
       [''publishing''] ''publishing'' None None = Inr d0 \<and>
     osys_reachable demo_ts (\<lambda>_. True) d0 s \<and> cancel_requested (disk s) \<and> is_cancelable (disk s) \<and>
     (osys_step demo_ts (\<lambda>_. True))\<^sup>*\<^sup>* s t \<and> state (disk t) = Succeeded"
proof (intro exI conjI)
  show "cancel_requested (disk (demo_sys sole_cancelled (RHave sole_op)))" by simp
  show "is_cancelable (disk (demo_sys sole_cancelled (RHave sole_op)))"
    by (simp add: is_cancelable_def TERMINAL_STATES_def)
  show "state (disk (demo_sys (demo_step ''publishing'' sole_started) RHead)) = Succeeded"
    by (simp add: sole_succeeds)
qed (rule sole_op_eq sole_reachable sole_race)+

end
