(* ===== verification/Compat.thy ===== *)
theory Compat
  imports Py_Prelude "HOL-Library.Multiset" "HOL-Library.List_Lexorder" "HOL-Library.Char_ord"
begin

text \<open>
  The layered compatibility matrix (daemon/compat.py): identity layers and actions, the
  subsumption collapse of an action set, the registry of vector format converters, the
  refusal of unusable identities and the planner \<open>plan_actions\<close>. An identity is the JSON
  value read from a manifest, so a missing layer, a wrong type and an unhashable value are
  cases of the model; a raised exception is the left side of the sum.
\<close>

subsection \<open>Layers and actions\<close>

datatype layer =
    StoreEpoch | FactSchema | Representation | VectorFormat | Projection | IndexFingerprint

fun layer_key :: "layer \<Rightarrow> string" where
  "layer_key FactSchema = ''fact_schema_version''"
| "layer_key Representation = ''representation_id''"
| "layer_key VectorFormat = ''vector_format_version''"
| "layer_key Projection = ''projection_version''"
| "layer_key IndexFingerprint = ''index_fingerprint''"
| "layer_key StoreEpoch = ''store_epoch''"

definition IDENTITY_LAYERS :: "layer list" where
  "IDENTITY_LAYERS =
     [StoreEpoch, FactSchema, Representation, VectorFormat, Projection, IndexFingerprint]"

datatype compat_action =
    InvalidateAll | Reembed | RebuildProjection | ReuseVectors | ConvertVectors | RebuildIndex | Noop

fun action_name :: "compat_action \<Rightarrow> string" where
  "action_name InvalidateAll = ''invalidate_all''"
| "action_name Reembed = ''reembed''"
| "action_name RebuildProjection = ''rebuild_projection''"
| "action_name ReuseVectors = ''reuse_vectors''"
| "action_name ConvertVectors = ''convert_vectors''"
| "action_name RebuildIndex = ''rebuild_index''"
| "action_name Noop = ''noop''"

fun action_label :: "compat_action \<Rightarrow> string" where
  "action_label InvalidateAll =
     ''store epoch changed: discard all derived state, full rebuild''"
| "action_label Reembed = ''representation changed: re-embed all active events''"
| "action_label RebuildProjection =
     ''projection changed: rebuild projection / keys / HLC metadata''"
| "action_label ReuseVectors =
     ''reuse vectors by event_id (representation identical, checksums verified)''"
| "action_label ConvertVectors =
     ''reuse vectors through a registered tested-equivalent converter''"
| "action_label RebuildIndex = ''index fingerprint changed: no model, no projection rebuild''"
| "action_label Noop = ''query parameters changed: no base rebuild''"

text \<open>\<open>_IMPLIES\<close>: the actions an action covers.\<close>

fun action_implies :: "compat_action \<Rightarrow> compat_action list" where
  "action_implies InvalidateAll = [Reembed, RebuildProjection, ReuseVectors, ConvertVectors, RebuildIndex]"
| "action_implies Reembed = [RebuildProjection, ReuseVectors, ConvertVectors, RebuildIndex]"
| "action_implies ConvertVectors = [ReuseVectors]"
| "action_implies _ = []"

fun layer_action :: "layer \<Rightarrow> compat_action option" where
  "layer_action StoreEpoch = Some InvalidateAll"
| "layer_action Representation = Some Reembed"
| "layer_action VectorFormat = Some ConvertVectors"
| "layer_action Projection = Some RebuildProjection"
| "layer_action IndexFingerprint = Some RebuildIndex"
| "layer_action FactSchema = None"

datatype refuse_reason =
    MissingDeclaration | FactSchemaChanged | UnsupportedFormat | UnsupportedBackend
  | ChecksumFailure | UnknownIdentity

datatype compat_exc = CompatValueError | CompatTypeError

subsection \<open>Index fingerprints\<close>

definition EXACT_BACKEND :: string where "EXACT_BACKEND = ''exact''"
definition EXACT_METRIC :: string where "EXACT_METRIC = ''cosine''"
definition FP32_ROW_MAJOR_LE :: string where
  "FP32_ROW_MAJOR_LE = ''fp32-row-major-little-endian''"
definition INDEX_FINGERPRINT_PREFIX :: string where
  "INDEX_FINGERPRINT_PREFIX = ''index-fingerprint-v1''"

definition LIBRARY_VERSION_BY_BACKEND :: "(string \<times> string) list" where
  "LIBRARY_VERSION_BY_BACKEND =
     [(''exact'', ''oracle-exact-v1''),
      (''accelerate-cblas-sgemv'', ''accelerate-vecLib-cblas-sgemv-v1''),
      (''mlx-exact-matmul'', ''mlx-core-matmul-v1''),
      (''usearch-hnsw'', ''usearch-hnsw-v1''),
      (''hnswlib-hnsw'', ''hnswlib-hnsw-v1'')]"

text \<open>
  The payload is a dictionary; \<open>digest\<close> is the SHA-256 hex digest of its canonical JSON.
\<close>

definition fingerprint_payload :: "string \<Rightarrow> string \<Rightarrow> pyval \<Rightarrow> string \<Rightarrow> string \<Rightarrow> pyval" where
  "fingerprint_payload backend metric params version abi =
     PDict [(''backend'', PStr backend), (''metric'', PStr metric),
            (''build_params'', if truthy params then params else PDict []),
            (''library_version'', PStr version), (''serialization_abi'', PStr abi)]"

definition compose_index_fingerprint ::
    "(pyval \<Rightarrow> string) \<Rightarrow> string \<Rightarrow> string \<Rightarrow> pyval \<Rightarrow> string \<Rightarrow> string \<Rightarrow> string" where
  "compose_index_fingerprint digest backend metric params version abi =
     INDEX_FINGERPRINT_PREFIX @ '':'' @
       take 32 (digest (fingerprint_payload backend metric params version abi))"

definition compose_backend_fingerprint ::
    "(pyval \<Rightarrow> string) \<Rightarrow> string \<Rightarrow> pyval \<Rightarrow> compat_exc + string" where
  "compose_backend_fingerprint digest backend params =
     (case map_of LIBRARY_VERSION_BY_BACKEND backend of
        None \<Rightarrow> Inl CompatValueError
      | Some v \<Rightarrow> Inr (compose_index_fingerprint digest backend EXACT_METRIC params v FP32_ROW_MAJOR_LE))"

subsection \<open>Converters\<close>

record 'b converter =
  conv_name :: string
  conv_source :: string
  conv_target :: string
  conv_convert :: "'b \<Rightarrow> 'b"
  conv_verify :: "'b \<Rightarrow> 'b \<Rightarrow> bool"

text \<open>The constructor's checks of the three strings; both callables are functions here.\<close>

definition make_converter ::
    "string \<Rightarrow> string \<Rightarrow> string \<Rightarrow> ('b \<Rightarrow> 'b) \<Rightarrow> ('b \<Rightarrow> 'b \<Rightarrow> bool) \<Rightarrow> compat_exc + 'b converter" where
  "make_converter nm src tgt conv ver =
     (if nm = [] then Inl CompatValueError
      else if src = [] \<or> tgt = [] then Inl CompatValueError
      else Inr \<lparr>conv_name = nm, conv_source = src, conv_target = tgt, conv_convert = conv,
                conv_verify = ver\<rparr>)"

type_synonym 'b converter_registry = "((string \<times> string) \<times> 'b converter) list"

definition register_converter ::
    "'b converter \<Rightarrow> 'b converter_registry \<Rightarrow> 'b converter_registry" where
  "register_converter c reg = dset (conv_source c, conv_target c) c reg"

definition identity_converter :: "'b converter" where
  "identity_converter =
     \<lparr>conv_name = ''identity-'' @ FP32_ROW_MAJOR_LE, conv_source = FP32_ROW_MAJOR_LE,
      conv_target = FP32_ROW_MAJOR_LE, conv_convert = (\<lambda>x. x), conv_verify = (\<lambda>x y. x = y)\<rparr>"

definition CONVERTER_REGISTRY :: "'b converter_registry" where
  "CONVERTER_REGISTRY = register_converter identity_converter []"

text \<open>A list or a dictionary cannot be a dictionary key or a set element.\<close>

definition hashable :: "pyval \<Rightarrow> bool" where
  "hashable v \<longleftrightarrow> \<not> is_list v \<and> \<not> is_dict v"

definition find_converter ::
    "pyval \<Rightarrow> pyval \<Rightarrow> 'b converter_registry \<Rightarrow> compat_exc + 'b converter option" where
  "find_converter src tgt reg =
     (if \<not> hashable src \<or> \<not> hashable tgt then Inl CompatTypeError
      else if is_str src \<and> is_str tgt then Inr (map_of reg (str_of_val src, str_of_val tgt))
      else Inr None)"

subsection \<open>Refusals and mismatches\<close>

definition missing_value :: "pyval \<Rightarrow> bool" where
  "missing_value v \<longleftrightarrow> v = PNone \<or> v = PStr []"

definition starts_with :: "string \<Rightarrow> string \<Rightarrow> bool" where
  "starts_with s p \<longleftrightarrow> take (length p) s = p"

text \<open>
  \<open>facts_schema_version\<close> is \<open>PNone\<close> when not given, \<open>supported\<close> is empty when not given.
\<close>

definition refuse_load_reason ::
    "pyval \<Rightarrow> pyval \<Rightarrow> string list \<Rightarrow> compat_exc + refuse_reason option" where
  "refuse_load_reason active facts_schema supported =
     (if active = PNone then Inr (Some UnknownIdentity)
      else if \<not> is_dict active then Inr (Some UnknownIdentity)
      else
        (let get = (\<lambda>l. dget (dict_of_val active) (layer_key l));
             formats = (if supported = [] then [FP32_ROW_MAJOR_LE] else supported) in
         if list_ex (\<lambda>l. missing_value (get l)) IDENTITY_LAYERS then Inr (Some MissingDeclaration)
         else if facts_schema \<noteq> PNone \<and> \<not> py_eq (get FactSchema) facts_schema then
           Inr (Some FactSchemaChanged)
         else if \<not> hashable (get VectorFormat) then Inl CompatTypeError
         else if get VectorFormat \<notin> PStr ` set formats then Inr (Some UnsupportedFormat)
         else if is_str (get IndexFingerprint) \<and>
                 \<not> starts_with (str_of_val (get IndexFingerprint)) (INDEX_FINGERPRINT_PREFIX @ '':'')
         then Inr (Some UnknownIdentity)
         else Inr None))"

datatype mismatch =
    RefusedLoad refuse_reason
  | LayerDiffers layer pyval pyval string

definition layer_label :: "layer \<Rightarrow> string" where
  "layer_label l =
     (case layer_action l of None \<Rightarrow> ''identity layer differs'' | Some a \<Rightarrow> action_label a)"

definition mismatch_reasons :: "pydict \<Rightarrow> pydict \<Rightarrow> mismatch list" where
  "mismatch_reasons desired active =
     map (\<lambda>l. LayerDiffers l (dget desired (layer_key l)) (dget active (layer_key l)) (layer_label l))
       (filter (\<lambda>l. \<not> py_eq (dget desired (layer_key l)) (dget active (layer_key l))) IDENTITY_LAYERS)"

subsection \<open>The subsumption collapse\<close>

text \<open>
  One pass of the outer \<open>for\<close>: the first argument is the snapshot \<open>list(working)\<close>, the second
  the working set in the order Python happens to enumerate it, the third \<open>changed\<close>.
\<close>

fun collapse_pass ::
    "compat_action list \<Rightarrow> compat_action list \<Rightarrow> bool \<Rightarrow> compat_action list \<times> bool" where
  "collapse_pass [] working changed = (working, changed)"
| "collapse_pass (a # as) working changed =
     (if list_ex (\<lambda>c. c \<noteq> a \<and> a \<in> set (action_implies c)) working
      then collapse_pass as (remove1 a working) True
      else collapse_pass as working changed)"

lemma collapse_pass_length:
  "length (fst (collapse_pass as w ch)) \<le> length w"
proof (induction as w ch rule: collapse_pass.induct)
  case (2 a as w ch)
  then show ?case
    by (cases "a \<in> set w") (auto simp: length_remove1 dest: le_trans [OF _ diff_le_self])
qed simp

lemma collapse_pass_shrinks:
  "collapse_pass as w False = (w', True) \<Longrightarrow> set as \<subseteq> set w \<Longrightarrow> length w' < length w"
proof (induction as arbitrary: w)
  case (Cons a as)
  show ?case
  proof (cases "list_ex (\<lambda>c. c \<noteq> a \<and> a \<in> set (action_implies c)) w")
    case True
    with Cons.prems have "collapse_pass as (remove1 a w) True = (w', True)" by simp
    then have "length w' \<le> length (remove1 a w)"
      using collapse_pass_length [of as "remove1 a w" True] by simp
    moreover have "length (remove1 a w) < length w"
      using Cons.prems(2) length_pos_if_in_set [of a w] by (simp add: length_remove1)
    ultimately show ?thesis by simp
  next
    case False
    with Cons show ?thesis by simp
  qed
qed simp

function collapse_union :: "compat_action list \<Rightarrow> compat_action list" where
  "collapse_union working =
     (case collapse_pass working working False of
        (w, changed) \<Rightarrow> if changed then collapse_union w else w)"
  by auto
termination
  by (relation "measure length") (auto dest!: sym [of "(_, _)"] collapse_pass_shrinks)

declare collapse_union.simps [simp del]

subsection \<open>The planner\<close>

datatype vector_reuse = ReuseByEventId | ReuseConvert | ReuseNone

definition vector_reuse_for :: "compat_action list \<Rightarrow> vector_reuse" where
  "vector_reuse_for actions =
     (if InvalidateAll \<in> set actions \<or> Reembed \<in> set actions then ReuseNone
      else if ConvertVectors \<in> set actions then ReuseConvert
      else if ReuseVectors \<in> set actions then ReuseByEventId
      else ReuseNone)"

record compat_plan =
  pl_actions :: "compat_action list"
  pl_mismatches :: "mismatch list"
  pl_vector_reuse :: vector_reuse
  pl_refuse_load :: bool
  pl_refuse_reason :: "refuse_reason option"
  pl_reason :: "string option"

text \<open>The actions one layer adds to \<open>raw\<close>.\<close>

definition layer_adds ::
    "'b converter_registry \<Rightarrow> pydict \<Rightarrow> pydict \<Rightarrow> layer \<Rightarrow> compat_exc + compat_action list" where
  "layer_adds reg desired active l =
     (if py_eq (dget desired (layer_key l)) (dget active (layer_key l)) then Inr []
      else
        (case layer_action l of
           Some InvalidateAll \<Rightarrow> Inr [InvalidateAll]
         | Some Reembed \<Rightarrow> Inr [Reembed]
         | Some ConvertVectors \<Rightarrow>
             (case find_converter (dget active (layer_key VectorFormat))
                     (dget desired (layer_key VectorFormat)) reg of
                Inl e \<Rightarrow> Inl e
              | Inr (Some _) \<Rightarrow> Inr [ConvertVectors]
              | Inr None \<Rightarrow> Inr [Reembed])
         | Some RebuildProjection \<Rightarrow>
             Inr (if py_eq (dget desired (layer_key Representation)) (dget active (layer_key Representation))
                  then [RebuildProjection, ReuseVectors] else [RebuildProjection])
         | Some RebuildIndex \<Rightarrow> Inr [RebuildIndex]
         | _ \<Rightarrow> Inr []))"

fun raw_actions ::
    "'b converter_registry \<Rightarrow> pydict \<Rightarrow> pydict \<Rightarrow> layer list \<Rightarrow> compat_exc + compat_action list" where
  "raw_actions reg desired active [] = Inr []"
| "raw_actions reg desired active (l # ls) =
     (case layer_adds reg desired active l of
        Inl e \<Rightarrow> Inl e
      | Inr as \<Rightarrow>
          (case raw_actions reg desired active ls of
             Inl e \<Rightarrow> Inl e
           | Inr bs \<Rightarrow> Inr (as @ bs)))"

text \<open>
  \<open>enum\<close> is the order in which Python enumerates the set \<open>raw\<close>; the result does not depend on
  it (\<open>plan_order_irrelevant\<close>). The second refusal branch of the code, a missing active identity,
  follows the first one and cannot be reached.
\<close>

definition plan_actions ::
    "(compat_action list \<Rightarrow> compat_action list) \<Rightarrow> 'b converter_registry \<Rightarrow> pyval \<Rightarrow> pyval \<Rightarrow> pyval
       \<Rightarrow> compat_exc + compat_plan" where
  "plan_actions enum reg facts_schema desired active =
     (if \<not> is_dict desired then Inl CompatValueError
      else if list_ex (\<lambda>l. \<not> has_key (dict_of_val desired) (layer_key l)) IDENTITY_LAYERS
      then Inl CompatValueError
      else
        (case refuse_load_reason active facts_schema [] of
           Inl e \<Rightarrow> Inl e
         | Inr (Some why) \<Rightarrow>
             Inr \<lparr>pl_actions = [], pl_mismatches = [RefusedLoad why], pl_vector_reuse = ReuseNone,
                  pl_refuse_load = True, pl_refuse_reason = Some why, pl_reason = None\<rparr>
         | Inr None \<Rightarrow>
             if active = PNone then
               Inr \<lparr>pl_actions = [Reembed], pl_mismatches = [], pl_vector_reuse = ReuseNone,
                    pl_refuse_load = False, pl_refuse_reason = None, pl_reason = None\<rparr>
             else
               (let d = dict_of_val desired; a = dict_of_val active in
                case raw_actions reg d a IDENTITY_LAYERS of
                  Inl e \<Rightarrow> Inl e
                | Inr raw \<Rightarrow>
                    (let working = (if raw = [] then [Noop] else enum (remdups raw));
                         actions = sort_key action_name (collapse_union working)
                     in Inr \<lparr>pl_actions = actions, pl_mismatches = mismatch_reasons d a,
                             pl_vector_reuse = vector_reuse_for actions,
                             pl_refuse_load = False, pl_refuse_reason = None,
                             pl_reason =
                               (if py_eq (dget d (layer_key IndexFingerprint))
                                     (dget a (layer_key IndexFingerprint))
                                then None else Some ''no_ann_sidecar'')\<rparr>))))"

subsection \<open>What the collapse computes\<close>

definition implied_in :: "compat_action set \<Rightarrow> compat_action \<Rightarrow> bool" where
  "implied_in S a \<longleftrightarrow> (\<exists>c\<in>S. c \<noteq> a \<and> a \<in> set (action_implies c))"

definition uncovered :: "compat_action set \<Rightarrow> compat_action set" where
  "uncovered S = {a \<in> S. \<not> implied_in S a}"

lemma implies_trans: "a \<in> set (action_implies c) \<Longrightarrow> b \<in> set (action_implies a) \<Longrightarrow> b \<in> set (action_implies c)"
  by (cases c; cases a) auto

lemma implies_irrefl: "a \<notin> set (action_implies a)"
  by (cases a) auto

lemma uncovered_remove:
  assumes "implied_in S a"
  shows "uncovered (S - {a}) = uncovered S"
proof -
  from assms obtain c where c: "c \<in> S" "c \<noteq> a" "a \<in> set (action_implies c)"
    by (auto simp: implied_in_def)
  have "implied_in (S - {a}) b" if "b \<in> S" "b \<noteq> a" "implied_in S b" for b
  proof -
    from that(3) obtain d where d: "d \<in> S" "d \<noteq> b" "b \<in> set (action_implies d)"
      by (auto simp: implied_in_def)
    show ?thesis
    proof (cases "d = a")
      case True
      with d(3) c implies_trans have "b \<in> set (action_implies c)" by blast
      moreover from this have "c \<noteq> b" using implies_irrefl by metis
      ultimately show ?thesis using c by (auto simp: implied_in_def)
    next
      case False
      with d show ?thesis by (auto simp: implied_in_def)
    qed
  qed
  moreover have "implied_in S b" if "implied_in (S - {a}) b" for b
    using that by (auto simp: implied_in_def)
  ultimately show ?thesis using assms by (auto simp: uncovered_def)
qed

lemma collapse_pass_changed: "collapse_pass as w True = (w', ch') \<Longrightarrow> ch'"
  by (induction as arbitrary: w) (auto split: if_splits)

lemma collapse_pass_uncovered:
  "distinct w \<Longrightarrow> collapse_pass as w ch = (w', ch') \<Longrightarrow>
     distinct w' \<and> uncovered (set w') = uncovered (set w) \<and>
     (\<not> ch' \<longrightarrow> w' = w \<and> (\<forall>a\<in>set as. \<not> implied_in (set w) a))"
proof (induction as arbitrary: w ch)
  case Nil
  then show ?case by simp
next
  case (Cons a as)
  have e: "list_ex (\<lambda>c. c \<noteq> a \<and> a \<in> set (action_implies c)) w = implied_in (set w) a"
    by (auto simp: list_ex_iff implied_in_def)
  show ?case
  proof (cases "implied_in (set w) a")
    case True
    with Cons.prems(2) e have p: "collapse_pass as (remove1 a w) True = (w', ch')" by simp
    have "uncovered (set (remove1 a w)) = uncovered (set w)"
      using uncovered_remove [OF True] Cons.prems(1) by simp
    with Cons.IH [OF _ p] Cons.prems(1) collapse_pass_changed [OF p] show ?thesis by simp
  next
    case False
    with Cons.prems(2) e have "collapse_pass as w ch = (w', ch')" by simp
    with Cons.IH [OF Cons.prems(1) this] False show ?thesis by simp
  qed
qed

lemma collapse_union_uncovered:
  "distinct w \<Longrightarrow> distinct (collapse_union w) \<and> set (collapse_union w) = uncovered (set w)"
proof (induction w rule: collapse_union.induct)
  case (1 w)
  obtain w' ch where p: "collapse_pass w w False = (w', ch)" by force
  note r = collapse_pass_uncovered [OF 1(2) p]
  show ?case
  proof (cases ch)
    case True
    with 1(1) p r show ?thesis by (subst (1 2) collapse_union.simps) auto
  next
    case False
    with p r show ?thesis
      by (subst (1 2) collapse_union.simps) (auto simp: uncovered_def)
  qed
qed

text \<open>Whatever is dropped from a set of actions is covered by something that stays.\<close>

definition covered_by :: "compat_action set \<Rightarrow> compat_action \<Rightarrow> bool" where
  "covered_by S x \<longleftrightarrow> (\<exists>c\<in>S. c = x \<or> x \<in> set (action_implies c))"

text \<open>How much an action covers; what is covered covers less.\<close>

lemma implies_shorter:
  "x \<in> set (action_implies c) \<Longrightarrow> length (action_implies x) < length (action_implies c)"
  by (cases c; cases x) auto

lemma implies_at_most: "length (action_implies c) \<le> 5"
  by (cases c) auto

lemma uncovered_covers: "x \<in> S \<Longrightarrow> covered_by (uncovered S) x"
proof (induction x rule: measure_induct_rule [where f = "\<lambda>x. 5 - length (action_implies x)"])
  case (less x)
  show ?case
  proof (cases "implied_in S x")
    case False
    with less.prems show ?thesis by (auto simp: covered_by_def uncovered_def)
  next
    case True
    then obtain c where c: "c \<in> S" "x \<in> set (action_implies c)"
      by (auto simp: implied_in_def)
    with implies_shorter [OF c(2)] implies_at_most [of c] less.IH [of c]
    have "covered_by (uncovered S) c" by auto
    then obtain b where "b \<in> uncovered S" "b = c \<or> c \<in> set (action_implies b)"
      by (auto simp: covered_by_def)
    with c(2) implies_trans show ?thesis unfolding covered_by_def by metis
  qed
qed

subsection \<open>Facts of the planner\<close>

lemma raw_actions_set:
  "raw_actions reg d a ls = Inr raw \<Longrightarrow>
     (\<forall>l\<in>set ls. \<exists>as. layer_adds reg d a l = Inr as \<and> set as \<subseteq> set raw) \<and>
     (\<forall>x\<in>set raw. \<exists>l\<in>set ls. \<exists>as. layer_adds reg d a l = Inr as \<and> x \<in> set as)"
proof (induction ls arbitrary: raw)
  case (Cons l ls)
  then obtain as bs where "layer_adds reg d a l = Inr as" "raw_actions reg d a ls = Inr bs"
    "raw = as @ bs"
    by (auto split: sum.splits)
  with Cons.IH [of bs] show ?case by fastforce
qed simp

text \<open>A plan that was not refused, taken apart.\<close>

definition enumerates :: "(compat_action list \<Rightarrow> compat_action list) \<Rightarrow> bool" where
  "enumerates enum \<longleftrightarrow> (\<forall>xs. distinct xs \<longrightarrow> distinct (enum xs) \<and> set (enum xs) = set xs)"

lemma plan_actions_built:
  assumes "plan_actions enum reg fs desired active = Inr p" "\<not> pl_refuse_load p" "enumerates enum"
  obtains raw where
    "raw_actions reg (dict_of_val desired) (dict_of_val active) IDENTITY_LAYERS = Inr raw"
    "set (pl_actions p) = uncovered (if raw = [] then {Noop} else set raw)"
    "distinct (pl_actions p)" "pl_vector_reuse p = vector_reuse_for (pl_actions p)"
    "pl_mismatches p = mismatch_reasons (dict_of_val desired) (dict_of_val active)"
    "refuse_load_reason active fs [] = Inr None"
    "pl_actions p = sort_key action_name
       (collapse_union (if raw = [] then [Noop] else enum (remdups raw)))"
proof -
  have a: "refuse_load_reason active fs [] = Inr None" "active \<noteq> PNone"
    using assms(1,2)
    by (auto simp: plan_actions_def refuse_load_reason_def split: if_splits sum.splits option.splits)
  from assms(1) a obtain raw where
    raw: "raw_actions reg (dict_of_val desired) (dict_of_val active) IDENTITY_LAYERS = Inr raw"
    by (auto simp: plan_actions_def Let_def split: if_splits sum.splits)
  define w where "w = (if raw = [] then [Noop] else enum (remdups raw))"
  have p: "pl_actions p = sort_key action_name (collapse_union w)"
    "pl_vector_reuse p = vector_reuse_for (pl_actions p)"
    "pl_mismatches p = mismatch_reasons (dict_of_val desired) (dict_of_val active)"
    using assms(1) a raw by (auto simp: plan_actions_def Let_def w_def split: if_splits)
  have w: "distinct w" "set w = (if raw = [] then {Noop} else set raw)"
    using assms(3) by (auto simp: w_def enumerates_def)
  from collapse_union_uncovered [OF w(1)] p a(1) raw w show ?thesis
    by (intro that [OF raw]) (auto simp: w_def)
qed

lemma implied_by_iff:
  "InvalidateAll \<notin> set (action_implies c)"
  "Reembed \<in> set (action_implies c) \<longleftrightarrow> c = InvalidateAll"
  "ConvertVectors \<in> set (action_implies c) \<longleftrightarrow> c = Reembed \<or> c = InvalidateAll"
  "Noop \<notin> set (action_implies c)"
  by (cases c; simp)+

lemma covered_by_simps:
  "covered_by S InvalidateAll \<longleftrightarrow> InvalidateAll \<in> S"
  "covered_by S Reembed \<longleftrightarrow> Reembed \<in> S \<or> InvalidateAll \<in> S"
  "covered_by S ConvertVectors \<longleftrightarrow> ConvertVectors \<in> S \<or> Reembed \<in> S \<or> InvalidateAll \<in> S"
  by (auto simp: covered_by_def implied_by_iff)

lemma inj_action_name: "inj_on action_name A"
proof (rule inj_onI)
  show "x = y" if "action_name x = action_name y" for x y
    using that by (cases x; cases y) simp_all
qed

definition same_layer :: "pyval \<Rightarrow> pyval \<Rightarrow> layer \<Rightarrow> bool" where
  "same_layer desired active l \<longleftrightarrow>
     py_eq (dget (dict_of_val desired) (layer_key l)) (dget (dict_of_val active) (layer_key l))"

lemma layer_adds_differs:
  "\<not> same_layer desired active StoreEpoch \<Longrightarrow>
     layer_adds reg (dict_of_val desired) (dict_of_val active) StoreEpoch = Inr [InvalidateAll]"
  "\<not> same_layer desired active Representation \<Longrightarrow>
     layer_adds reg (dict_of_val desired) (dict_of_val active) Representation = Inr [Reembed]"
  by (simp_all add: layer_adds_def same_layer_def)

lemma all_layers: "l \<in> set IDENTITY_LAYERS"
  by (cases l) (simp_all add: IDENTITY_LAYERS_def)

lemma plan_covers:
  assumes "plan_actions enum reg fs desired active = Inr p" "\<not> pl_refuse_load p" "enumerates enum"
    and "layer_adds reg (dict_of_val desired) (dict_of_val active) l = Inr as" "x \<in> set as"
  shows "covered_by (set (pl_actions p)) x"
proof -
  from plan_actions_built [OF assms(1-3)] obtain raw where
    raw: "raw_actions reg (dict_of_val desired) (dict_of_val active) IDENTITY_LAYERS = Inr raw"
    and acts: "set (pl_actions p) = uncovered (if raw = [] then {Noop} else set raw)" .
  from raw_actions_set [OF raw] all_layers [of l] assms(4,5) have "x \<in> set raw" by force
  with acts uncovered_covers [of x "set raw"] show ?thesis by auto
qed

lemma plan_layers_checked:
  assumes "plan_actions enum reg fs desired active = Inr p" "\<not> pl_refuse_load p" "enumerates enum"
  shows "\<exists>as. layer_adds reg (dict_of_val desired) (dict_of_val active) l = Inr as"
  using plan_actions_built [OF assms] raw_actions_set all_layers [of l] by metis

subsection \<open>Properties\<close>


text \<open>Concrete identities for the witnesses: the projection version and the fact schema vary.\<close>

definition demo_identity :: "int \<Rightarrow> string \<Rightarrow> pyval" where
  "demo_identity n pr =
     PDict [(''store_epoch'', PStr ''e1''), (''fact_schema_version'', PInt n),
       (''representation_id'', PStr ''r1''),
       (''vector_format_version'', PStr FP32_ROW_MAJOR_LE), (''projection_version'', PStr pr),
       (''index_fingerprint'', PStr ''index-fingerprint-v1:00'')]"

lemma demo_enumerates: "enumerates (\<lambda>xs. xs)" "enumerates rev"
  by (simp_all add: enumerates_def)

lemma demo_not_refused: "refuse_load_reason (demo_identity n pr) PNone [] = Inr None" if "pr \<noteq> []"
  using that
  by (simp add: refuse_load_reason_def demo_identity_def IDENTITY_LAYERS_def missing_value_def
      hashable_def starts_with_def INDEX_FINGERPRINT_PREFIX_def FP32_ROW_MAJOR_LE_def)

definition demo_plan :: compat_plan where
  "demo_plan = \<lparr>pl_actions = [RebuildProjection, ReuseVectors],
     pl_mismatches = [LayerDiffers Projection (PStr ''p2'') (PStr ''p1'') (action_label RebuildProjection)],
     pl_vector_reuse = ReuseByEventId, pl_refuse_load = False, pl_refuse_reason = None,
     pl_reason = None\<rparr>"

lemma demo_plan_eq:
  "plan_actions (\<lambda>xs. xs) (CONVERTER_REGISTRY :: nat converter_registry) PNone
     (demo_identity 1 ''p2'') (demo_identity 1 ''p1'') = Inr demo_plan"
proof -
  have "raw_actions (CONVERTER_REGISTRY :: nat converter_registry) (dict_of_val (demo_identity 1 ''p2''))
      (dict_of_val (demo_identity 1 ''p1'')) IDENTITY_LAYERS = Inr [RebuildProjection, ReuseVectors]"
    by (simp add: IDENTITY_LAYERS_def layer_adds_def demo_identity_def)
  moreover have "collapse_union [RebuildProjection, ReuseVectors] = [RebuildProjection, ReuseVectors]"
    by (simp add: collapse_union.simps)
  moreover have "demo_identity 1 ''p1'' \<noteq> PNone" "is_dict (demo_identity 1 ''p2'')"
    "\<not> list_ex (\<lambda>l. \<not> has_key (dict_of_val (demo_identity 1 ''p2'')) (layer_key l)) IDENTITY_LAYERS"
    "mismatch_reasons (dict_of_val (demo_identity 1 ''p2'')) (dict_of_val (demo_identity 1 ''p1'')) =
       pl_mismatches demo_plan"
    "py_eq (dget (dict_of_val (demo_identity 1 ''p2'')) (layer_key IndexFingerprint))
       (dget (dict_of_val (demo_identity 1 ''p1'')) (layer_key IndexFingerprint))"
    by (simp_all add: demo_identity_def has_key_def IDENTITY_LAYERS_def mismatch_reasons_def
        demo_plan_def layer_label_def)
  ultimately show ?thesis
    by (simp add: plan_actions_def demo_not_refused Let_def demo_plan_def vector_reuse_for_def)
qed


text \<open>
  Vectors are only reused when that is sound: reuse by event id needs the store epoch, the
  representation and the vector format unchanged, reuse through a converter needs the epoch
  and the representation unchanged and a converter registered for exactly the two formats.
\<close>

theorem vector_reuse_is_sound:
  assumes "plan_actions enum reg fs desired active = Inr p" "enumerates enum"
  shows "(pl_vector_reuse p = ReuseByEventId \<longrightarrow>
      same_layer desired active StoreEpoch \<and> same_layer desired active Representation \<and>
      same_layer desired active VectorFormat) \<and>
    (pl_vector_reuse p = ReuseConvert \<longrightarrow>
      same_layer desired active StoreEpoch \<and> same_layer desired active Representation \<and>
      (\<exists>c. find_converter (dget (dict_of_val active) (layer_key VectorFormat))
              (dget (dict_of_val desired) (layer_key VectorFormat)) reg = Inr (Some c)))"
proof (cases "pl_refuse_load p")
  case True
  then have "pl_vector_reuse p = ReuseNone"
    using assms(1)
    by (auto simp: plan_actions_def Let_def split: if_splits sum.splits option.splits)
  then show ?thesis by simp
next
  case False
  note cov = plan_covers [OF assms(1) False assms(2)]
  note chk = plan_layers_checked [OF assms(1) False assms(2)]
  from plan_actions_built [OF assms(1) False assms(2)] obtain raw where
    raw: "raw_actions reg (dict_of_val desired) (dict_of_val active) IDENTITY_LAYERS = Inr raw"
    and acts: "set (pl_actions p) = uncovered (if raw = [] then {Noop} else set raw)"
    and ru: "pl_vector_reuse p = vector_reuse_for (pl_actions p)" .
  have full: "pl_vector_reuse p = ReuseNone" if "covered_by (set (pl_actions p)) Reembed"
    using that by (auto simp: ru vector_reuse_for_def covered_by_simps)
  have ep: "same_layer desired active StoreEpoch" if "pl_vector_reuse p \<noteq> ReuseNone"
    using cov [OF layer_adds_differs(1)] that full by (auto simp: covered_by_simps)
  have rep: "same_layer desired active Representation" if "pl_vector_reuse p \<noteq> ReuseNone"
    using cov [OF layer_adds_differs(2)] that full by auto
  have vf: "same_layer desired active VectorFormat" if "pl_vector_reuse p = ReuseByEventId"
  proof (rule ccontr)
    assume d: "\<not> same_layer desired active VectorFormat"
    from chk [of VectorFormat] d obtain x where "layer_adds reg (dict_of_val desired)
        (dict_of_val active) VectorFormat = Inr [x]" "x = Reembed \<or> x = ConvertVectors"
      by (auto simp: layer_adds_def same_layer_def split: sum.splits option.splits)
    then have "covered_by (set (pl_actions p)) Reembed \<or> ConvertVectors \<in> set (pl_actions p)"
      using cov by (fastforce simp: covered_by_simps)
    with that full show False by (auto simp: ru vector_reuse_for_def split: if_splits)
  qed
  have cv: "\<exists>c. find_converter (dget (dict_of_val active) (layer_key VectorFormat))
              (dget (dict_of_val desired) (layer_key VectorFormat)) reg = Inr (Some c)"
    if "pl_vector_reuse p = ReuseConvert"
  proof -
    have "ConvertVectors \<in> set raw"
      using that acts by (auto simp: ru vector_reuse_for_def uncovered_def split: if_splits)
    then obtain l as where "layer_adds reg (dict_of_val desired) (dict_of_val active) l = Inr as"
        "ConvertVectors \<in> set as"
      using raw_actions_set [OF raw] by blast
    then show ?thesis
      by (cases l) (auto simp: layer_adds_def split: if_splits sum.splits option.splits)
  qed
  from ep rep vf cv show ?thesis by auto
qed

theorem vector_reuse_is_sound_witness:
  "pl_vector_reuse demo_plan = ReuseByEventId \<and>
   same_layer (demo_identity 1 ''p2'') (demo_identity 1 ''p1'') Representation"
  using vector_reuse_is_sound [OF demo_plan_eq demo_enumerates(1)] by (simp add: demo_plan_def)

text \<open>
  The explicit no-op: a plan that is not refused consists of \<open>noop\<close> exactly when the
  desired and the active identity agree on every layer other than the fact schema version.
\<close>

theorem noop_means_same_base:
  assumes "plan_actions enum reg fs desired active = Inr p" "\<not> pl_refuse_load p" "enumerates enum"
  shows "(pl_actions p = [Noop] \<longleftrightarrow> (\<forall>l. l \<noteq> FactSchema \<longrightarrow> same_layer desired active l)) \<and>
    (Noop \<in> set (pl_actions p) \<longrightarrow> pl_actions p = [Noop])"
proof -
  from plan_actions_built [OF assms] obtain raw where
    raw: "raw_actions reg (dict_of_val desired) (dict_of_val active) IDENTITY_LAYERS = Inr raw"
    and acts: "set (pl_actions p) = uncovered (if raw = [] then {Noop} else set raw)"
      "distinct (pl_actions p)"
      "pl_actions p = sort_key action_name
       (collapse_union (if raw = [] then [Noop] else enum (remdups raw)))" .
  let ?adds = "layer_adds reg (dict_of_val desired) (dict_of_val active)"
  have no: "?adds l = Inr as \<Longrightarrow> Noop \<notin> set as" for l as
    by (cases l) (auto simp: layer_adds_def split: if_splits sum.splits option.splits)
  have "Noop \<notin> set raw" using raw_actions_set [OF raw] no by blast
  then have "raw \<noteq> [] \<Longrightarrow> Noop \<notin> set (pl_actions p)"
    using acts(1) by (simp add: uncovered_def)
  moreover have "raw = [] \<Longrightarrow> pl_actions p = [Noop]"
    using acts(3) by (simp add: collapse_union.simps)
  moreover have "raw = [] \<longleftrightarrow> (\<forall>l. ?adds l = Inr [])"
    using raw_actions_set [OF raw] all_layers by fastforce
  moreover have "?adds l = Inr [] \<longleftrightarrow> l = FactSchema \<or> same_layer desired active l" for l
    by (cases l) (auto simp: layer_adds_def same_layer_def split: sum.splits option.splits)
  ultimately show ?thesis by (metis list.set_intros(1))
qed

theorem noop_means_same_base_witness:
  "pl_actions demo_plan \<noteq> [Noop] \<and>
   \<not> (\<forall>l. l \<noteq> FactSchema \<longrightarrow> same_layer (demo_identity 1 ''p2'') (demo_identity 1 ''p1'') l)"
  using noop_means_same_base [OF demo_plan_eq _ demo_enumerates(1)] by (simp add: demo_plan_def)

text \<open>
  What the no-op misses: for two identities that differ only in the fact schema version
  the planner, called without an expected fact schema, reports the mismatch and still answers
  \<open>noop\<close> without refusing the load; and with nothing active it refuses instead of building in
  full.
\<close>

theorem fact_schema_drift_is_a_noop:
  "\<exists>p. plan_actions (\<lambda>xs. xs) (CONVERTER_REGISTRY :: nat converter_registry) PNone
       (demo_identity 2 ''p1'') (demo_identity 1 ''p1'') = Inr p \<and>
     pl_actions p = [Noop] \<and> \<not> pl_refuse_load p \<and>
     pl_mismatches p = [LayerDiffers FactSchema (PInt 2) (PInt 1) ''identity layer differs''] \<and>
   plan_actions (\<lambda>xs. xs) (CONVERTER_REGISTRY :: nat converter_registry) PNone
       (demo_identity 2 ''p1'') PNone =
     Inr \<lparr>pl_actions = [], pl_mismatches = [RefusedLoad UnknownIdentity], pl_vector_reuse = ReuseNone,
          pl_refuse_load = True, pl_refuse_reason = Some UnknownIdentity, pl_reason = None\<rparr>"
proof -
  have "raw_actions (CONVERTER_REGISTRY :: nat converter_registry) (dict_of_val (demo_identity 2 ''p1''))
      (dict_of_val (demo_identity 1 ''p1'')) IDENTITY_LAYERS = Inr []"
    by (simp add: IDENTITY_LAYERS_def layer_adds_def demo_identity_def)
  moreover have "collapse_union [Noop] = [Noop]" by (simp add: collapse_union.simps)
  moreover have "demo_identity 1 ''p1'' \<noteq> PNone" "is_dict (demo_identity 2 ''p1'')"
    "\<not> list_ex (\<lambda>l. \<not> has_key (dict_of_val (demo_identity 2 ''p1'')) (layer_key l)) IDENTITY_LAYERS"
    "mismatch_reasons (dict_of_val (demo_identity 2 ''p1'')) (dict_of_val (demo_identity 1 ''p1'')) =
       [LayerDiffers FactSchema (PInt 2) (PInt 1) ''identity layer differs'']"
    by (simp_all add: demo_identity_def has_key_def IDENTITY_LAYERS_def mismatch_reasons_def
        layer_label_def)
  moreover have "refuse_load_reason PNone PNone [] = Inr (Some UnknownIdentity)"
    by (simp add: refuse_load_reason_def)
  ultimately show ?thesis
    by (simp add: plan_actions_def demo_not_refused Let_def vector_reuse_for_def)
qed

end
