(* ===== verification/Coordinator.thy ===== *)
theory Coordinator
  imports Py_Prelude
begin

text \<open>
  The daemon's maintenance state machine (daemon/coordinator.py) with the connection loop that
  drives it (daemon/control.py: _serve_connection). Every block guarded by the coordinator's
  condition variable is one atomic function on the record \<open>coord\<close>; the threads around it
  (scoring requests, fact-handle openers, builders, the one admitted \<open>prepare\<close>, the recovery
  of a lease, detached rebuilds, shutdown) are steps of \<open>csys\<close> that interleave freely. A fact
  handle holds a shared lease on the store from its opening to its close, and the store is
  replaced only by a process that holds the exclusive lease.
\<close>

subsection \<open>State\<close>

datatype coord_state = Serving | Preparing | Prepared | CBlocked | CatchingUp

record coord =
  c_state :: coord_state
  block_code :: "string option"
  c_closed :: bool
  prepare_active :: bool
  c_operation :: "string option"
  c_lease :: "nat option"
  requests :: nat
  n_opening :: nat
  c_handles :: "nat set"
  c_builders :: "nat set"
  prepared_epoch :: "string option"
  active_epoch :: "string option"
  target_epoch :: "string option"

definition coord_init :: coord where
  "coord_init = \<lparr>c_state = Serving, block_code = None, c_closed = False, prepare_active = False,
     c_operation = None, c_lease = None, requests = 0, n_opening = 0, c_handles = {},
     c_builders = {}, prepared_epoch = None, active_epoch = None, target_epoch = None\<rparr>"

definition EPOCH_CHARS :: string where
  "EPOCH_CHARS = ascii_lower @ ascii_upper @ ascii_digits @ ''-_''"

text \<open>\<open>_valid_identity\<close> on the value the reader returned.\<close>

definition valid_identity :: "pyval \<Rightarrow> bool" where
  "valid_identity v \<longleftrightarrow>
     is_dict v \<and>
     (let d = dict_of_val v; e = dget d ''store_epoch'' in
      is_str e \<and> 1 \<le> length (str_of_val e) \<and> length (str_of_val e) \<le> 64 \<and>
      all_in (str_of_val e) EPOCH_CHARS \<and>
      is_exact_int (dget d ''hlc_physical_ms'') \<and> 0 \<le> int_of_val (dget d ''hlc_physical_ms'') \<and>
      is_exact_int (dget d ''hlc_logical'') \<and> 0 \<le> int_of_val (dget d ''hlc_logical''))"

definition epoch_of :: "pyval \<Rightarrow> string" where
  "epoch_of v = str_of_val (dget (dict_of_val v) ''store_epoch'')"

text \<open>\<open>_valid_operation_id\<close> of the control socket, for ASCII identifiers.\<close>

definition control_operation_id :: "pyval \<Rightarrow> bool" where
  "control_operation_id v \<longleftrightarrow>
     is_str v \<and> 1 \<le> length (str_of_val v) \<and> length (str_of_val v) \<le> 64 \<and>
     all_in (str_of_val v) EPOCH_CHARS"

subsection \<open>Atomic sections\<close>

text \<open>\<open>_initialize_fact_epoch\<close> with the handle \<open>h\<close> it opened, or a failure.\<close>

datatype init_outcome = NoDatabase | HandleUnverifiable | InitFailed string | InitOpened nat pyval

definition initialize_fact_epoch :: "init_outcome \<Rightarrow> coord \<Rightarrow> coord" where
  "initialize_fact_epoch oc c =
     (case oc of
        NoDatabase \<Rightarrow> c
      | HandleUnverifiable \<Rightarrow> c\<lparr>c_state := CBlocked, block_code := Some ''fact_handle_unverifiable''\<rparr>
      | InitFailed code \<Rightarrow> c\<lparr>c_state := CBlocked, block_code := Some code\<rparr>
      | InitOpened h identity \<Rightarrow>
          if \<not> valid_identity identity
          then c\<lparr>c_state := CBlocked, block_code := Some ''epoch_unverifiable''\<rparr>
          else c\<lparr>c_handles := insert h (c_handles c), active_epoch := Some (epoch_of identity)\<rparr>)"

definition begin_request :: "coord \<Rightarrow> coord \<times> bool" where
  "begin_request c =
     (if c_closed c \<or> c_state c \<noteq> Serving then (c, False)
      else (c\<lparr>requests := requests c + 1\<rparr>, True))"

definition complete_request :: "coord \<Rightarrow> coord" where
  "complete_request c = (if requests c \<noteq> 0 then c\<lparr>requests := requests c - 1\<rparr> else c)"

definition handle_closed :: "nat \<Rightarrow> coord \<Rightarrow> coord" where
  "handle_closed h c = c\<lparr>c_handles := c_handles c - {h}\<rparr>"

definition assert_prepared :: "string \<Rightarrow> nat option \<Rightarrow> coord \<Rightarrow> bool" where
  "assert_prepared oid lease c \<longleftrightarrow>
     c_state c = Prepared \<and> c_operation c = Some oid \<and> c_lease c = lease"

text \<open>\<open>open_fact_handle\<close>: admission, the failing factory, registration, and the end of a rejection.\<close>

definition open_admit :: "coord \<Rightarrow> coord \<times> bool" where
  "open_admit c =
     (if c_closed c \<or> c_state c \<noteq> Serving then (c, False)
      else (c\<lparr>n_opening := n_opening c + 1\<rparr>, True))"

definition open_done :: "coord \<Rightarrow> coord" where
  "open_done c = c\<lparr>n_opening := n_opening c - 1\<rparr>"

definition open_register :: "nat \<Rightarrow> bool \<Rightarrow> coord \<Rightarrow> coord \<times> bool" where
  "open_register h lease_held c =
     (if c_state c = Serving \<and> lease_held
      then (c\<lparr>c_handles := insert h (c_handles c), n_opening := n_opening c - 1\<rparr>, True)
      else (c, False))"

definition register_builder :: "nat \<Rightarrow> coord \<Rightarrow> coord \<times> bool" where
  "register_builder b c =
     (if c_closed c \<or> c_state c \<noteq> Serving then (c, False)
      else (c\<lparr>c_builders := insert b (c_builders c)\<rparr>, True))"

definition unregister_builder :: "nat \<Rightarrow> coord \<Rightarrow> coord" where
  "unregister_builder b c = c\<lparr>c_builders := c_builders c - {b}\<rparr>"

definition block :: "string \<Rightarrow> coord \<Rightarrow> coord" where
  "block code c = c\<lparr>c_state := CBlocked, block_code := Some code\<rparr>"

text \<open>\<open>_prepare_failure\<close>: registered handles are closed, builders forgotten, the state blocked.\<close>

definition prepare_failure :: "string \<Rightarrow> coord \<Rightarrow> coord" where
  "prepare_failure code c = block code (c\<lparr>c_handles := {}, c_builders := {}\<rparr>)"

definition prepare_admit :: "string \<Rightarrow> nat option \<Rightarrow> coord \<Rightarrow> coord \<times> bool" where
  "prepare_admit oid lease c =
     (if c_closed c \<or> c_state c \<noteq> Serving then (c, False)
      else (c\<lparr>c_state := Preparing, c_operation := Some oid, c_lease := lease,
              prepare_active := True\<rparr>, True))"

definition prepare_exit :: "coord \<Rightarrow> coord" where
  "prepare_exit c = c\<lparr>prepare_active := False\<rparr>"

text \<open>The last section of \<open>prepare\<close>; \<open>identity\<close> is \<open>PNone\<close> when none was read.\<close>

definition prepare_finish :: "pyval \<Rightarrow> coord \<Rightarrow> coord \<times> bool" where
  "prepare_finish identity c =
     (if c_closed c \<or> c_state c \<noteq> Preparing then (c, False)
      else (c\<lparr>prepared_epoch := (if identity = PNone then None else Some (epoch_of identity)),
              c_state := Prepared\<rparr>, True))"

text \<open>
  Which identity \<open>prepare\<close> accepts. \<open>read\<close> is what the identity reader returned, \<open>PNone\<close> when it
  raised.
\<close>

definition prepare_identity :: "bool \<Rightarrow> bool \<Rightarrow> pyval \<Rightarrow> pyval option" where
  "prepare_identity expect_unreadable db_exists read =
     (if expect_unreadable then (if db_exists then Some PNone else None)
      else if read = PNone \<and> db_exists then None
      else if read \<noteq> PNone \<and> \<not> valid_identity read then None
      else Some read)"

definition clear_lease :: "coord \<Rightarrow> coord" where
  "clear_lease c = c\<lparr>c_operation := None, c_lease := None\<rparr>"

definition reopen_check :: "string \<Rightarrow> nat option \<Rightarrow> coord \<Rightarrow> bool" where
  "reopen_check oid lease c = assert_prepared oid lease c"

datatype lease_loss = LossIgnored | LossBlocks | LossRecovers

definition lease_lost_check :: "string \<Rightarrow> nat option \<Rightarrow> coord \<Rightarrow> lease_loss" where
  "lease_lost_check oid lease c =
     (if c_operation c \<noteq> Some oid \<or> c_lease c \<noteq> lease then LossIgnored
      else if c_state c = Preparing then LossBlocks
      else if c_state c \<noteq> Prepared then LossIgnored
      else LossRecovers)"

text \<open>
  \<open>_recover\<close>, the section after a handle (or, without a database, only an identity) was
  obtained: the flag says whether derived state has to be rebuilt.
\<close>

definition recover_commit :: "nat option \<Rightarrow> string \<Rightarrow> coord \<Rightarrow> coord \<times> bool" where
  "recover_commit handle target c =
     (let hs = (case handle of None \<Rightarrow> c_handles c | Some h \<Rightarrow> insert h (c_handles c)) in
      if c_closed c then (block ''coordinator_closed'' c, False)
      else if Some target = prepared_epoch c then
        (clear_lease (c\<lparr>c_handles := hs, active_epoch := Some target, target_epoch := None,
                        c_state := Serving\<rparr>), False)
      else
        (clear_lease (c\<lparr>c_handles := hs, active_epoch := None, target_epoch := Some target,
                        c_state := CatchingUp\<rparr>), True))"

text \<open>Recovery of an installation that never had a store.\<close>

definition recover_pristine :: "coord \<Rightarrow> coord" where
  "recover_pristine c =
     (if prepared_epoch c = None then
        (if c_closed c then block ''coordinator_closed'' c
         else clear_lease (c\<lparr>active_epoch := None, target_epoch := None, c_state := Serving\<rparr>))
      else block ''epoch_unverifiable'' c)"

text \<open>The commit section of \<open>complete_recovery\<close>.\<close>

definition complete_commit :: "string \<Rightarrow> pyval \<Rightarrow> coord \<Rightarrow> coord \<times> bool" where
  "complete_commit target identity c =
     (if c_closed c \<or> c_state c \<noteq> CatchingUp \<or> target_epoch c \<noteq> Some target then (c, False)
      else if \<not> valid_identity identity \<or> epoch_of identity \<noteq> target then
        (c\<lparr>c_state := CBlocked, block_code := Some ''epoch_changed_during_recovery'',
           c_handles := {}\<rparr>, False)
      else (c\<lparr>active_epoch := Some target, target_epoch := None, c_state := Serving\<rparr>, True))"

definition close_enter :: "coord \<Rightarrow> coord" where
  "close_enter c =
     (if c_closed c then c
      else clear_lease (c\<lparr>c_closed := True, c_state := CBlocked,
                          block_code := Some ''coordinator_closed''\<rparr>))"

record health_report =
  h_state :: coord_state
  h_open :: nat
  h_opening :: nat
  h_active :: "string option"
  h_target :: "string option"

definition health :: "coord \<Rightarrow> health_report" where
  "health c = \<lparr>h_state = c_state c, h_open = card (c_handles c), h_opening = n_opening c,
     h_active = active_epoch c, h_target = target_epoch c\<rparr>"

subsection \<open>The interleaved system\<close>

text \<open>Where the one admitted \<open>prepare\<close> and the recovery of its lease are.\<close>

datatype prep_pc =
    PIdle
  | PWait1
  | PBuilders "nat list"
  | PStopping nat "nat list"
  | PHandles "nat list"
  | PWait2
  | PReading
  | PFinish pyval

datatype recov_pc = QIdle | QStart | QOpening | QOpened nat pyval | QNoDb

text \<open>
  \<open>leases\<close> are the scoring requests in flight; \<open>op_wait\<close>, \<open>op_got\<close>, \<open>op_rej\<close> and \<open>op_closing\<close>
  are the \<open>open_fact_handle\<close> calls in the factory, before registration, being rejected, and
  after the close of a rejected handle; \<open>held\<close> are the handles whose shared lease is held;
  \<open>own\<close> is the handle the daemon opened for itself, which nobody else closes; \<open>store\<close> is the
  identity on disk, \<open>PNone\<close> without a database.
\<close>

record csys =
  co :: coord
  prep :: prep_pc
  recov :: recov_pc
  leases :: "nat set"
  op_wait :: nat
  op_got :: "nat set"
  op_rej :: "nat set"
  op_closing :: nat
  held :: "nat set"
  own :: "nat option"
  store :: pyval
  rebuilding :: nat

definition close_handles :: "csys \<Rightarrow> csys" where
  "close_handles s = s\<lparr>co := (co s)\<lparr>c_handles := {}\<rparr>, held := held s - c_handles (co s)\<rparr>"

text \<open>\<open>_prepare_failure\<close> and the \<open>finally\<close> of \<open>prepare\<close>.\<close>

definition prepare_fails :: "string \<Rightarrow> csys \<Rightarrow> csys" where
  "prepare_fails code s =
     s\<lparr>co := prepare_exit (prepare_failure code (co s)), held := held s - c_handles (co s),
       prep := PIdle\<rparr>"

definition prepare_returns :: "csys \<Rightarrow> csys" where
  "prepare_returns s = s\<lparr>co := prepare_exit (co s), prep := PIdle\<rparr>"

definition rec_handle :: "recov_pc \<Rightarrow> nat set" where
  "rec_handle p = (case p of QOpened h i \<Rightarrow> {h} | _ \<Rightarrow> {})"

fun rec_identity :: "recov_pc \<Rightarrow> pyval option" where
  "rec_identity (QOpened h i) = Some i"
| "rec_identity _ = None"

definition fresh :: "nat \<Rightarrow> csys \<Rightarrow> bool" where
  "fresh h s \<longleftrightarrow> h \<notin> held s \<and> h \<notin> c_handles (co s) \<and> own s \<noteq> Some h"

definition drained :: "coord \<Rightarrow> bool" where
  "drained c \<longleftrightarrow> requests c = 0 \<and> n_opening c = 0"

definition empty_registries :: "coord \<Rightarrow> bool" where
  "empty_registries c \<longleftrightarrow> drained c \<and> c_handles c = {} \<and> c_builders c = {}"

definition interrupted :: "coord \<Rightarrow> bool" where
  "interrupted c \<longleftrightarrow> c_state c \<noteq> Preparing \<or> c_closed c"

text \<open>Requests, openers and builders.\<close>

inductive client_step :: "csys \<Rightarrow> csys \<Rightarrow> bool" where
  request_begins: "begin_request (co s) = (c, True) \<Longrightarrow> i \<notin> leases s \<Longrightarrow>
     client_step s (s\<lparr>co := c, leases := insert i (leases s)\<rparr>)"
| request_completes: "i \<in> leases s \<Longrightarrow>
     client_step s (s\<lparr>co := complete_request (co s), leases := leases s - {i}\<rparr>)"
| open_begins: "open_admit (co s) = (c, True) \<Longrightarrow>
     client_step s (s\<lparr>co := c, op_wait := op_wait s + 1\<rparr>)"
| factory_raises: "0 < op_wait s \<Longrightarrow>
     client_step s (s\<lparr>co := open_done (co s), op_wait := op_wait s - 1\<rparr>)"
| factory_opens: "0 < op_wait s \<Longrightarrow> fresh h s \<Longrightarrow> h \<notin> op_got s \<union> op_rej s \<Longrightarrow> store s \<noteq> PNone \<Longrightarrow>
     client_step s (s\<lparr>held := insert h (held s), op_wait := op_wait s - 1,
                      op_got := insert h (op_got s)\<rparr>)"
| open_registers: "h \<in> op_got s \<Longrightarrow> open_register h b (co s) = (c, True) \<Longrightarrow>
     client_step s (s\<lparr>co := c, op_got := op_got s - {h}\<rparr>)"
| open_rejects: "h \<in> op_got s \<Longrightarrow> h \<notin> op_rej s \<Longrightarrow> open_register h b (co s) = (c, False) \<Longrightarrow>
     client_step s (s\<lparr>co := c, op_got := op_got s - {h}, op_rej := insert h (op_rej s)\<rparr>)"
| rejected_closes: "h \<in> op_rej s \<Longrightarrow>
     client_step s (s\<lparr>co := handle_closed h (co s), held := held s - {h}, op_rej := op_rej s - {h},
                      op_closing := op_closing s + 1\<rparr>)"
| rejected_close_raises: "h \<in> op_rej s \<Longrightarrow>
     client_step s (s\<lparr>co := block ''fact_handle_close_failed'' (handle_closed h (co s)),
                      held := held s - {h}, op_rej := op_rej s - {h},
                      op_closing := op_closing s + 1\<rparr>)"
| rejected_done: "0 < op_closing s \<Longrightarrow>
     client_step s (s\<lparr>co := open_done (co s), op_closing := op_closing s - 1\<rparr>)"
| user_closes: "h \<in> c_handles (co s) \<Longrightarrow> own s \<noteq> Some h \<Longrightarrow>
     client_step s (s\<lparr>co := handle_closed h (co s), held := held s - {h}\<rparr>)"
| builder_registers: "register_builder b (co s) = (c, True) \<Longrightarrow> client_step s (s\<lparr>co := c\<rparr>)"
| builder_unregisters: "client_step s (s\<lparr>co := unregister_builder b (co s)\<rparr>)"

text \<open>The maintenance lease: prepare.\<close>

inductive prepare_step :: "csys \<Rightarrow> csys \<Rightarrow> bool" where
  prepare_starts: "prepare_admit oid lease (co s) = (c, True) \<Longrightarrow>
     prepare_step s (s\<lparr>co := c, prep := PWait1\<rparr>)"
| wait1_leaves: "prep s = PWait1 \<Longrightarrow> drained (co s) \<Longrightarrow> set bs = c_builders (co s) \<Longrightarrow>
     prepare_step s (s\<lparr>prep := PBuilders bs\<rparr>)"
| wait1_returns: "prep s = PWait1 \<Longrightarrow> \<not> drained (co s) \<Longrightarrow> interrupted (co s) \<Longrightarrow>
     prepare_step s (prepare_returns s)"
| wait1_lease_lost: "prep s = PWait1 \<Longrightarrow> \<not> drained (co s) \<Longrightarrow> \<not> interrupted (co s) \<Longrightarrow>
     prepare_step s (prepare_fails ''control_lease_lost'' s)"
| builder_interrupted: "prep s = PBuilders (b # bs) \<Longrightarrow> interrupted (co s) \<Longrightarrow>
     prepare_step s (prepare_fails ''control_lease_lost'' s)"
| builder_stopping: "prep s = PBuilders (b # bs) \<Longrightarrow> \<not> interrupted (co s) \<Longrightarrow>
     prepare_step s (s\<lparr>prep := PStopping b bs\<rparr>)"
| builder_stops: "prep s = PStopping b bs \<Longrightarrow>
     prepare_step s (s\<lparr>co := unregister_builder b (co s), prep := PBuilders bs\<rparr>)"
| builder_fails: "prep s = PStopping b bs \<Longrightarrow>
     code \<in> {''builder_not_quiesceable'', ''builder_not_idle'', ''builder_quiesce_failed''} \<Longrightarrow>
     prepare_step s (prepare_fails code s)"
| builders_done: "prep s = PBuilders [] \<Longrightarrow> set hs = c_handles (co s) \<Longrightarrow>
     prepare_step s (s\<lparr>prep := PHandles hs\<rparr>)"
| handle_closes: "prep s = PHandles (h # hs) \<Longrightarrow>
     prepare_step s (s\<lparr>co := handle_closed h (co s), held := held s - ({h} \<inter> c_handles (co s)),
                       prep := PHandles hs\<rparr>)"
| handle_close_raises: "prep s = PHandles (h # hs) \<Longrightarrow>
     prepare_step s (prepare_fails ''fact_handle_close_failed'' s)"
| handles_done: "prep s = PHandles [] \<Longrightarrow> prepare_step s (s\<lparr>prep := PWait2\<rparr>)"
| wait2_leaves: "prep s = PWait2 \<Longrightarrow> empty_registries (co s) \<Longrightarrow>
     prepare_step s (s\<lparr>prep := PReading\<rparr>)"
| wait2_returns: "prep s = PWait2 \<Longrightarrow> \<not> empty_registries (co s) \<Longrightarrow> interrupted (co s) \<Longrightarrow>
     prepare_step s (prepare_returns s)"
| wait2_lease_lost: "prep s = PWait2 \<Longrightarrow> \<not> empty_registries (co s) \<Longrightarrow> \<not> interrupted (co s) \<Longrightarrow>
     prepare_step s (prepare_fails ''control_lease_lost'' s)"
| identity_read: "prep s = PReading \<Longrightarrow> r \<in> {PNone, store s} \<Longrightarrow>
     prepare_identity eu (store s \<noteq> PNone) r = Some i \<Longrightarrow>
     prepare_step s (s\<lparr>prep := PFinish i\<rparr>)"
| identity_refused: "prep s = PReading \<Longrightarrow> r \<in> {PNone, store s} \<Longrightarrow>
     prepare_identity eu (store s \<noteq> PNone) r = None \<Longrightarrow>
     prepare_step s (prepare_fails ''epoch_unverifiable'' s)"
| prepare_finishes: "prep s = PFinish i \<Longrightarrow> prepare_finish i (co s) = (c, ok) \<Longrightarrow>
     prepare_step s (s\<lparr>co := prepare_exit c, prep := PIdle\<rparr>)"

text \<open>
  The end of a lease: \<open>reopen\<close>, the loss of the control connection, recovery and the completion
  of a rebuild. One connection thread owns a lease, so its recoveries do not overlap.
\<close>

inductive recover_step :: "csys \<Rightarrow> csys \<Rightarrow> bool" where
  reopen_starts: "recov s = QIdle \<Longrightarrow> reopen_check oid lease (co s) \<Longrightarrow>
     recover_step s (s\<lparr>recov := QStart\<rparr>)"
| lease_loss_blocks: "lease_lost_check oid lease (co s) = LossBlocks \<Longrightarrow>
     recover_step s (s\<lparr>co := block ''control_lease_lost'' (co s)\<rparr>)"
| lease_loss_recovers: "recov s = QIdle \<Longrightarrow> lease_lost_check oid lease (co s) = LossRecovers \<Longrightarrow>
     recover_step s (s\<lparr>recov := QStart\<rparr>)"
| recover_closed: "recov s = QStart \<Longrightarrow> store s \<noteq> PNone \<Longrightarrow> c_closed (co s) \<Longrightarrow>
     recover_step s (s\<lparr>co := block ''coordinator_closed'' (co s), recov := QIdle\<rparr>)"
| recover_opening: "recov s = QStart \<Longrightarrow> store s \<noteq> PNone \<Longrightarrow> \<not> c_closed (co s) \<Longrightarrow>
     recover_step s (s\<lparr>co := (co s)\<lparr>n_opening := n_opening (co s) + 1\<rparr>, recov := QOpening\<rparr>)"
| recover_no_database: "recov s = QStart \<Longrightarrow> store s = PNone \<Longrightarrow>
     recover_step s (s\<lparr>recov := QNoDb\<rparr>)"
| recover_open_fails: "recov s = QOpening \<Longrightarrow>
     recover_step s (s\<lparr>co := block ''epoch_unverifiable'' (open_done (co s)), recov := QIdle\<rparr>)"
| recover_opens: "recov s = QOpening \<Longrightarrow> fresh h s \<Longrightarrow> h \<notin> op_got s \<union> op_rej s \<Longrightarrow>
     valid_identity (store s) \<Longrightarrow>
     recover_step s (s\<lparr>co := open_done (co s), held := insert h (held s),
                       recov := QOpened h (store s)\<rparr>)"
| recover_commits_closed: "recov s = QOpened h i \<Longrightarrow> c_closed (co s) \<Longrightarrow>
     recover_commit (Some h) (epoch_of i) (co s) = (c, rb) \<Longrightarrow>
     recover_step s (s\<lparr>co := c, held := held s - {h}, recov := QIdle\<rparr>)"
| recover_commits: "recov s = QOpened h i \<Longrightarrow> \<not> c_closed (co s) \<Longrightarrow>
     recover_commit (Some h) (epoch_of i) (co s) = (c, rb) \<Longrightarrow>
     recover_step s (s\<lparr>co := c, own := Some h, recov := QIdle,
                       rebuilding := rebuilding s + (if rb then 1 else 0)\<rparr>)"
| recover_pristine_step: "recov s = QNoDb \<Longrightarrow>
     recover_step s (s\<lparr>co := recover_pristine (co s), own := None, recov := QIdle\<rparr>)"
| recover_reader_invalid: "recov s = QNoDb \<Longrightarrow>
     recover_step s (s\<lparr>co := block ''epoch_unverifiable'' (co s), recov := QIdle\<rparr>)"
| recover_reader_commits: "recov s = QNoDb \<Longrightarrow> valid_identity i \<Longrightarrow>
     recover_commit None (epoch_of i) (co s) = (c, rb) \<Longrightarrow>
     recover_step s (s\<lparr>co := c, own := None, recov := QIdle,
                       rebuilding := rebuilding s + (if rb then 1 else 0)\<rparr>)"
| rebuild_completes: "complete_commit target i (co s) = (c, True) \<Longrightarrow>
     recover_step s (s\<lparr>co := c\<rparr>)"
| rebuild_refused: "complete_commit target i (co s) = (c, False) \<Longrightarrow>
     recover_step s (s\<lparr>co := c, held := held s - (c_handles (co s) - c_handles c)\<rparr>)"
| rebuild_after_close: "c_closed (co s) \<Longrightarrow> recover_step s (close_handles s)"
| rebuild_raises: "0 < rebuilding s \<Longrightarrow> t = close_handles s \<Longrightarrow>
     recover_step s (t\<lparr>co := block ''epoch_recovery_failed'' (co t), rebuilding := rebuilding s - 1\<rparr>)"
| rebuild_returns: "0 < rebuilding s \<Longrightarrow> recover_step s (s\<lparr>rebuilding := rebuilding s - 1\<rparr>)"

text \<open>Shutdown, and the only thing the rest of the machine may do: replace an unleased store.\<close>

inductive outer_step :: "csys \<Rightarrow> csys \<Rightarrow> bool" where
  shutdown: "outer_step s (s\<lparr>co := close_enter (co s)\<rparr>)"
| shutdown_closes: "c_closed (co s) \<Longrightarrow> \<not> prepare_active (co s) \<Longrightarrow> n_opening (co s) = 0 \<Longrightarrow>
     outer_step s (close_handles s)"
| replace_store: "held s = {} \<Longrightarrow> outer_step s (s\<lparr>store := i\<rparr>)"

definition csys_init :: "pyval \<Rightarrow> coord \<Rightarrow> nat set \<Rightarrow> nat option \<Rightarrow> csys" where
  "csys_init st c hs ow = \<lparr>co = c, prep = PIdle, recov = QIdle, leases = {}, op_wait = 0, op_got = {},
     op_rej = {}, op_closing = 0, held = hs, own = ow, store = st, rebuilding = 0\<rparr>"

inductive csys_reachable :: "csys \<Rightarrow> bool" where
  start_plain: "csys_reachable (csys_init st coord_init {} None)"
| start_failed: "oc \<in> {NoDatabase, HandleUnverifiable, InitFailed code, InitOpened h bad} \<Longrightarrow>
     \<not> valid_identity bad \<Longrightarrow>
     csys_reachable (csys_init st (initialize_fact_epoch oc coord_init) {} None)"
| start_opened: "valid_identity st \<Longrightarrow>
     csys_reachable (csys_init st (initialize_fact_epoch (InitOpened h st) coord_init) {h} (Some h))"
| client: "csys_reachable s \<Longrightarrow> client_step s t \<Longrightarrow> csys_reachable t"
| preparing: "csys_reachable s \<Longrightarrow> prepare_step s t \<Longrightarrow> csys_reachable t"
| recovering: "csys_reachable s \<Longrightarrow> recover_step s t \<Longrightarrow> csys_reachable t"
| outer: "csys_reachable s \<Longrightarrow> outer_step s t \<Longrightarrow> csys_reachable t"

subsection \<open>The invariant\<close>

text \<open>The counters count, and every held lease belongs to somebody.\<close>

definition inv_counts :: "csys \<Rightarrow> bool" where
  "inv_counts s \<longleftrightarrow>
     finite (leases s) \<and> requests (co s) = card (leases s) \<and> finite (op_got s) \<and> finite (op_rej s) \<and>
     n_opening (co s) = op_wait s + card (op_got s) + card (op_rej s) + op_closing s +
       (if recov s = QOpening then 1 else 0)"

definition inv_held :: "csys \<Rightarrow> bool" where
  "inv_held s \<longleftrightarrow> held s \<subseteq> c_handles (co s) \<union> op_got s \<union> op_rej s \<union> rec_handle (recov s)"

text \<open>Which threads may be running in which state.\<close>

definition inv_threads :: "csys \<Rightarrow> bool" where
  "inv_threads s \<longleftrightarrow>
     (c_closed (co s) \<longrightarrow> c_state (co s) = CBlocked) \<and>
     (prep s \<noteq> PIdle \<longrightarrow> c_state (co s) \<in> {Preparing, CBlocked} \<and> recov s = QIdle) \<and>
     (recov s \<noteq> QIdle \<longrightarrow> c_state (co s) \<in> {Prepared, CBlocked})"

fun past_wait2 :: "prep_pc \<Rightarrow> bool" where
  "past_wait2 PReading = True"
| "past_wait2 (PFinish i) = True"
| "past_wait2 _ = False"

text \<open>Nothing is open once \<open>prepare\<close> has left its second wait.\<close>

definition inv_quiet :: "csys \<Rightarrow> bool" where
  "inv_quiet s \<longleftrightarrow>
     (c_state (co s) = Preparing \<and> past_wait2 (prep s) \<longrightarrow>
        empty_registries (co s)) \<and>
     (c_state (co s) = Prepared \<longrightarrow>
        requests (co s) = 0 \<and> c_handles (co s) = {} \<and> c_builders (co s) = {} \<and>
        op_wait s = 0 \<and> op_got s = {} \<and> op_rej s = {} \<and> op_closing s = 0)"

text \<open>A handle is in one place at a time.\<close>

definition inv_places :: "csys \<Rightarrow> bool" where
  "inv_places s \<longleftrightarrow>
     op_got s \<union> op_rej s \<union> rec_handle (recov s) \<subseteq> held s \<and>
     op_got s \<inter> op_rej s = {} \<and> (op_got s \<union> op_rej s) \<inter> c_handles (co s) = {} \<and>
     rec_handle (recov s) \<inter> (c_handles (co s) \<union> op_got s \<union> op_rej s) = {} \<and>
     set_option (own s) \<inter> (op_got s \<union> op_rej s \<union> rec_handle (recov s)) = {}"

text \<open>The daemon's own handle pins the store whose epoch the derived state has.\<close>

definition inv_epoch :: "csys \<Rightarrow> bool" where
  "inv_epoch s \<longleftrightarrow>
     (c_state (co s) \<in> {Serving, CatchingUp} \<longrightarrow> set_option (own s) \<subseteq> c_handles (co s) \<inter> held s) \<and>
     (own s \<noteq> None \<and> c_state (co s) = Serving \<longrightarrow> active_epoch (co s) = Some (epoch_of (store s))) \<and>
     (own s \<noteq> None \<and> c_state (co s) = CatchingUp \<longrightarrow>
        active_epoch (co s) = None \<and> target_epoch (co s) = Some (epoch_of (store s))) \<and>
     set_option (rec_identity (recov s)) \<subseteq> {store s}"

definition cinv :: "csys \<Rightarrow> bool" where
  "cinv s \<longleftrightarrow> inv_counts s \<and> inv_held s \<and> inv_threads s \<and> inv_quiet s \<and> inv_places s \<and> inv_epoch s"

text \<open>What a successful admission tells.\<close>

lemma admitted [simp]:
  "begin_request c = (c', True) \<longleftrightarrow>
     \<not> c_closed c \<and> c_state c = Serving \<and> c' = c\<lparr>requests := requests c + 1\<rparr>"
  "open_admit c = (c', True) \<longleftrightarrow>
     \<not> c_closed c \<and> c_state c = Serving \<and> c' = c\<lparr>n_opening := n_opening c + 1\<rparr>"
  "open_register h b c = (c', True) \<longleftrightarrow>
     c_state c = Serving \<and> b \<and>
     c' = c\<lparr>c_handles := insert h (c_handles c), n_opening := n_opening c - 1\<rparr>"
  "open_register h b c = (c', False) \<longleftrightarrow> \<not> (c_state c = Serving \<and> b) \<and> c' = c"
  "register_builder x c = (c', True) \<longleftrightarrow>
     \<not> c_closed c \<and> c_state c = Serving \<and> c' = c\<lparr>c_builders := insert x (c_builders c)\<rparr>"
  "prepare_admit oid lease c = (c', True) \<longleftrightarrow>
     \<not> c_closed c \<and> c_state c = Serving \<and>
     c' = c\<lparr>c_state := Preparing, c_operation := Some oid, c_lease := lease, prepare_active := True\<rparr>"
  by (auto simp: begin_request_def open_admit_def open_register_def register_builder_def
      prepare_admit_def)

text \<open>Sections that only touch one field, and their effect on the invariant's fields.\<close>

lemmas plain_sections = handle_closed_def open_done_def unregister_builder_def block_def
  prepare_failure_def prepare_exit_def clear_lease_def close_handles_def prepare_fails_def
  prepare_returns_def rec_handle_def

lemma rec_handle_simps [simp]:
  "rec_handle QIdle = {}" "rec_handle QStart = {}" "rec_handle QOpening = {}" "rec_handle QNoDb = {}"
  "rec_handle (QOpened h i) = {h}"
  by (simp_all add: rec_handle_def)

lemma client_counts: "client_step s t \<Longrightarrow> inv_counts s \<Longrightarrow> inv_counts t"
proof (induction rule: client_step.induct)
  case (request_completes i s)
  then have "0 < card (leases s)" by (auto simp: inv_counts_def card_gt_0_iff)
  with request_completes show ?case by (simp add: inv_counts_def complete_request_def)
next
  case (factory_opens s h)
  then show ?case by (simp add: inv_counts_def)
next
  case (open_registers h s b c)
  then have "0 < card (op_got s)" by (auto simp: inv_counts_def card_gt_0_iff)
  with open_registers show ?case by (simp add: inv_counts_def)
next
  case (open_rejects h s b c)
  then have "0 < card (op_got s)" by (auto simp: inv_counts_def card_gt_0_iff)
  with open_rejects show ?case by (simp add: inv_counts_def)
next
  case (rejected_closes h s)
  then have "0 < card (op_rej s)" by (auto simp: inv_counts_def card_gt_0_iff)
  with rejected_closes show ?case by (simp add: inv_counts_def handle_closed_def)
next
  case (rejected_close_raises h s)
  then have "0 < card (op_rej s)" by (auto simp: inv_counts_def card_gt_0_iff)
  with rejected_close_raises show ?case by (simp add: inv_counts_def handle_closed_def block_def)
qed (simp_all add: inv_counts_def plain_sections)

lemma client_held: "client_step s t \<Longrightarrow> inv_held s \<Longrightarrow> inv_held t"
  by (induction rule: client_step.induct)
    (auto simp: inv_held_def plain_sections complete_request_def)

lemma client_threads: "client_step s t \<Longrightarrow> inv_threads s \<Longrightarrow> inv_threads t"
  by (induction rule: client_step.induct)
    (auto simp: inv_threads_def plain_sections complete_request_def)

lemma client_quiet: "client_step s t \<Longrightarrow> inv_counts s \<Longrightarrow> inv_quiet s \<Longrightarrow> inv_quiet t"
  by (induction rule: client_step.induct)
    (auto simp: inv_quiet_def inv_counts_def plain_sections complete_request_def
      empty_registries_def drained_def)

lemma client_places: "client_step s t \<Longrightarrow> inv_places s \<Longrightarrow> inv_places t"
proof (induction rule: client_step.induct)
  case (factory_opens s h)
  then show ?case unfolding inv_places_def fresh_def by auto
next
  case (open_registers h s b c)
  then show ?case unfolding inv_places_def by auto
next
  case (open_rejects h s b c)
  then show ?case unfolding inv_places_def by auto
next
  case (rejected_closes h s)
  then show ?case unfolding inv_places_def handle_closed_def by auto
next
  case (rejected_close_raises h s)
  then show ?case unfolding inv_places_def handle_closed_def block_def by auto
next
  case (user_closes h s)
  then show ?case unfolding inv_places_def handle_closed_def by auto
qed (simp_all add: inv_places_def plain_sections complete_request_def)

lemma client_epoch: "client_step s t \<Longrightarrow> inv_places s \<Longrightarrow> inv_epoch s \<Longrightarrow> inv_epoch t"
proof (induction rule: client_step.induct)
  case (factory_opens s h)
  then show ?case unfolding inv_epoch_def by auto
next
  case (open_registers h s b c)
  then show ?case unfolding inv_epoch_def by auto
next
  case (rejected_closes h s)
  then show ?case unfolding inv_epoch_def inv_places_def handle_closed_def by auto
next
  case (user_closes h s)
  then show ?case unfolding inv_epoch_def handle_closed_def by auto
qed (simp_all add: inv_epoch_def plain_sections complete_request_def)

lemma client_cinv: "client_step s t \<Longrightarrow> cinv s \<Longrightarrow> cinv t"
  using client_counts client_held client_threads client_quiet client_places client_epoch
  unfolding cinv_def by blast

lemma prepare_threads: "prepare_step s t \<Longrightarrow> inv_threads s \<Longrightarrow> inv_threads t"
  by (induction rule: prepare_step.induct)
    (auto simp: inv_threads_def plain_sections prepare_finish_def split: if_splits)

lemma prepare_counts: "prepare_step s t \<Longrightarrow> inv_counts s \<Longrightarrow> inv_counts t"
  by (induction rule: prepare_step.induct)
    (auto simp: inv_counts_def plain_sections prepare_finish_def split: if_splits)

lemma prepare_held: "prepare_step s t \<Longrightarrow> inv_held s \<Longrightarrow> inv_held t"
  by (induction rule: prepare_step.induct)
    (auto simp: inv_held_def plain_sections prepare_finish_def split: if_splits)

lemma prepare_places: "prepare_step s t \<Longrightarrow> inv_places s \<Longrightarrow> inv_places t"
proof (induction rule: prepare_step.induct)
  case (handle_closes s h hs)
  then show ?case unfolding inv_places_def handle_closed_def by auto
next
  case (prepare_finishes s i c ok)
  then show ?case
    unfolding inv_places_def prepare_finish_def prepare_exit_def by (auto split: if_splits)
qed (auto simp: inv_places_def plain_sections)

lemma quiet_registries:
  "empty_registries c \<Longrightarrow>
     requests c = 0 \<and> n_opening c = 0 \<and> c_handles c = {} \<and> c_builders c = {}"
  by (simp add: empty_registries_def drained_def)

lemma blocked_quiet: "c_state (co t) = CBlocked \<Longrightarrow> inv_quiet t"
  by (simp add: inv_quiet_def)

lemma prepare_fails_blocked: "c_state (co (prepare_fails code s)) = CBlocked"
  by (simp add: prepare_fails_def prepare_exit_def prepare_failure_def block_def)

lemma moved_quiet:
  "inv_quiet s \<Longrightarrow> past_wait2 p \<Longrightarrow> past_wait2 (prep s) \<or> empty_registries (co s) \<Longrightarrow>
     inv_quiet (s\<lparr>prep := p\<rparr>)"
  "inv_quiet s \<Longrightarrow> \<not> past_wait2 p \<Longrightarrow> inv_quiet (s\<lparr>prep := p\<rparr>)"
  by (auto simp: inv_quiet_def)

lemma prepare_quiet:
  "prepare_step s t \<Longrightarrow> inv_counts s \<Longrightarrow> inv_threads s \<Longrightarrow> inv_quiet s \<Longrightarrow> inv_quiet t"
proof (induction rule: prepare_step.induct)
  case (prepare_finishes s i c ok)
  show ?case
  proof (cases "c_closed (co s) \<or> c_state (co s) \<noteq> Preparing")
    case True
    with prepare_finishes show ?thesis
      by (auto simp: inv_quiet_def inv_threads_def prepare_finish_def prepare_exit_def)
  next
    case False
    with prepare_finishes have "empty_registries (co s)" by (simp add: inv_quiet_def)
    with False prepare_finishes quiet_registries [OF this] show ?thesis
      by (auto simp: inv_quiet_def inv_counts_def prepare_finish_def prepare_exit_def)
  qed
next
  case (builder_stops s b bs)
  then show ?case by (auto simp: inv_quiet_def unregister_builder_def)
next
  case (handle_closes s h hs)
  then show ?case by (auto simp: inv_quiet_def handle_closed_def)
next
  case (wait1_returns s)
  then show ?case by (auto simp: inv_quiet_def prepare_returns_def prepare_exit_def)
next
  case (wait2_returns s)
  then show ?case by (auto simp: inv_quiet_def prepare_returns_def prepare_exit_def)
next
  case (prepare_starts oid lease s c)
  then show ?case by (simp add: inv_quiet_def)
next
  case (wait1_leaves s bs)
  show ?case by (rule moved_quiet(2) [OF wait1_leaves(6)]) simp
next
  case (builder_stopping s b bs)
  show ?case by (rule moved_quiet(2) [OF builder_stopping(5)]) simp
next
  case (builders_done s hs)
  show ?case by (rule moved_quiet(2) [OF builders_done(5)]) simp
next
  case (handles_done s)
  show ?case by (rule moved_quiet(2) [OF handles_done(4)]) simp
next
  case (wait2_leaves s)
  show ?case by (rule moved_quiet(1) [OF wait2_leaves(5)]) (simp_all add: wait2_leaves(2))
next
  case (identity_read s r eu i)
  show ?case by (rule moved_quiet(1) [OF identity_read(6)]) (simp_all add: identity_read(1))
qed (rule blocked_quiet [OF prepare_fails_blocked])+

lemma quiet_epoch:
  "inv_epoch s \<Longrightarrow> c_state (co t) \<notin> {Serving, CatchingUp} \<Longrightarrow> recov t = recov s \<Longrightarrow> store t = store s
     \<Longrightarrow> inv_epoch t"
  by (simp add: inv_epoch_def)

lemma prepare_step_state:
  "prepare_step s t \<Longrightarrow> inv_threads s \<Longrightarrow>
     c_state (co t) \<notin> {Serving, CatchingUp} \<and> recov t = recov s \<and> store t = store s"
  by (induction rule: prepare_step.induct)
    (auto simp: inv_threads_def plain_sections prepare_finish_def split: if_splits)

lemma prepare_epoch: "prepare_step s t \<Longrightarrow> inv_threads s \<Longrightarrow> inv_epoch s \<Longrightarrow> inv_epoch t"
  using prepare_step_state quiet_epoch by blast

lemma prepare_cinv: "prepare_step s t \<Longrightarrow> cinv s \<Longrightarrow> cinv t"
  using prepare_counts prepare_held prepare_threads prepare_quiet prepare_places prepare_epoch
  unfolding cinv_def by blast

lemma lease_lost_cases [simp]:
  "lease_lost_check oid lease c = LossBlocks \<longleftrightarrow>
     c_operation c = Some oid \<and> c_lease c = lease \<and> c_state c = Preparing"
  "lease_lost_check oid lease c = LossRecovers \<longleftrightarrow>
     c_operation c = Some oid \<and> c_lease c = lease \<and> c_state c = Prepared"
  by (auto simp: lease_lost_check_def)

lemma complete_commit_cases:
  "complete_commit target i c = (c', True) \<longleftrightarrow>
     \<not> c_closed c \<and> c_state c = CatchingUp \<and> target_epoch c = Some target \<and>
     valid_identity i \<and> epoch_of i = target \<and>
     c' = c\<lparr>active_epoch := Some target, target_epoch := None, c_state := Serving\<rparr>"
  "complete_commit target i c = (c', False) \<longleftrightarrow>
     (c_closed c \<or> c_state c \<noteq> CatchingUp \<or> target_epoch c \<noteq> Some target) \<and> c' = c \<or>
     \<not> (c_closed c \<or> c_state c \<noteq> CatchingUp \<or> target_epoch c \<noteq> Some target) \<and>
     (\<not> valid_identity i \<or> epoch_of i \<noteq> target) \<and>
     c' = c\<lparr>c_state := CBlocked, block_code := Some ''epoch_changed_during_recovery'',
            c_handles := {}\<rparr>"
  by (auto simp: complete_commit_def)

lemmas recover_sections = plain_sections recover_commit_def recover_pristine_def Let_def
  reopen_check_def assert_prepared_def complete_commit_cases

lemma recover_counts: "recover_step s t \<Longrightarrow> inv_counts s \<Longrightarrow> inv_counts t"
  by (induction rule: recover_step.induct)
    (auto simp: inv_counts_def recover_sections split: if_splits option.splits)

lemma recover_threads: "recover_step s t \<Longrightarrow> inv_threads s \<Longrightarrow> inv_threads t"
  by (induction rule: recover_step.induct)
    (auto simp: inv_threads_def recover_sections split: if_splits option.splits)

lemma recover_held: "recover_step s t \<Longrightarrow> inv_held s \<Longrightarrow> inv_held t"
  by (induction rule: recover_step.induct)
    (auto simp: inv_held_def recover_sections split: if_splits option.splits)

lemma recover_quiet: "recover_step s t \<Longrightarrow> inv_threads s \<Longrightarrow> inv_quiet s \<Longrightarrow> inv_quiet t"
proof (induction rule: recover_step.induct)
  case (recover_commits s h i c rb)
  then show ?case
    by (cases "Some (epoch_of i) = prepared_epoch (co s)")
      (auto simp: inv_quiet_def recover_commit_def clear_lease_def Let_def)
next
  case (recover_reader_commits s i c rb)
  then show ?case
    by (cases "Some (epoch_of i) = prepared_epoch (co s)"; cases "c_closed (co s)")
      (auto simp: inv_quiet_def recover_commit_def clear_lease_def block_def Let_def)
next
  case (recover_pristine_step s)
  then show ?case
    by (simp add: inv_quiet_def recover_pristine_def clear_lease_def block_def)
next
  case (recover_commits_closed s h i c rb)
  then show ?case by (auto simp: recover_commit_def block_def Let_def intro!: blocked_quiet)
next
  case (rebuild_completes target i s c)
  then show ?case by (simp add: complete_commit_cases inv_quiet_def)
next
  case (rebuild_refused target i s c)
  then show ?case by (auto simp: complete_commit_cases inv_quiet_def)
next
  case (rebuild_after_close s)
  then show ?case
    by (auto simp: inv_threads_def close_handles_def intro!: blocked_quiet)
next
  case (recover_opening s)
  then show ?case by (auto simp: inv_quiet_def inv_threads_def)
next
  case (recover_opens s h)
  then show ?case by (auto simp: inv_quiet_def inv_threads_def open_done_def)
qed (simp_all add: inv_quiet_def block_def open_done_def)

lemma recover_places: "recover_step s t \<Longrightarrow> inv_places s \<Longrightarrow> inv_places t"
proof (induction rule: recover_step.induct)
  case (recover_opens s h)
  then show ?case unfolding inv_places_def fresh_def open_done_def by auto
next
  case (recover_commits s h i c rb)
  then have hs: "c_handles c = insert h (c_handles (co s))"
    by (auto simp: recover_commit_def clear_lease_def Let_def split: if_splits)
  from recover_commits show ?case unfolding inv_places_def by (auto simp: hs)
next
  case (recover_commits_closed s h i c rb)
  then have "c_handles c = c_handles (co s)"
    by (auto simp: recover_commit_def block_def Let_def)
  with recover_commits_closed show ?case unfolding inv_places_def by auto
next
  case (recover_reader_commits s i c rb)
  then have "c_handles c = c_handles (co s)"
    by (auto simp: recover_commit_def block_def clear_lease_def Let_def split: if_splits)
  with recover_reader_commits show ?case unfolding inv_places_def by simp
next
  case (rebuild_refused target i s c)
  then show ?case unfolding inv_places_def complete_commit_cases by auto
next
  case (rebuild_after_close s)
  then show ?case unfolding inv_places_def close_handles_def by auto
next
  case (rebuild_raises s t)
  then show ?case unfolding inv_places_def close_handles_def block_def by auto
qed (simp_all add: inv_places_def block_def open_done_def complete_commit_cases
    recover_pristine_def clear_lease_def)

lemma blocked_epoch:
  "c_state (co t) \<notin> {Serving, CatchingUp} \<Longrightarrow> rec_identity (recov t) = None \<Longrightarrow> inv_epoch t"
  by (simp add: inv_epoch_def)

lemma recover_epoch:
  "recover_step s t \<Longrightarrow> inv_threads s \<Longrightarrow> inv_places s \<Longrightarrow> inv_epoch s \<Longrightarrow> inv_epoch t"
proof (induction rule: recover_step.induct)
  case (recover_commits s h i c rb)
  then have hi: "i = store s" "h \<in> held s"
    by (auto simp: inv_epoch_def inv_places_def)
  show ?case
    using recover_commits(2,3)
    by (cases "Some (epoch_of i) = prepared_epoch (co s)")
      (auto simp: inv_epoch_def recover_commit_def clear_lease_def Let_def hi)
next
  case (recover_commits_closed s h i c rb)
  then show ?case by (auto simp: recover_commit_def block_def Let_def intro!: blocked_epoch)
next
  case (recover_reader_commits s i c rb)
  then show ?case by (simp add: inv_epoch_def)
next
  case (recover_pristine_step s)
  then show ?case by (simp add: inv_epoch_def)
next
  case (rebuild_completes target i s c)
  then show ?case by (auto simp: complete_commit_cases inv_epoch_def)
next
  case (rebuild_refused target i s c)
  show ?case
  proof (cases "c = co s")
    case True
    with rebuild_refused(4) show ?thesis by (simp add: inv_epoch_def)
  next
    case False
    with rebuild_refused(1) have "c_state c = CBlocked" "c_state (co s) = CatchingUp"
      by (auto simp: complete_commit_cases)
    with rebuild_refused(2) show ?thesis by (auto simp: inv_threads_def intro!: blocked_epoch)
  qed
next
  case (rebuild_after_close s)
  then have "c_state (co s) = CBlocked" by (simp add: inv_threads_def)
  then show ?case
    by (intro quiet_epoch [OF rebuild_after_close(4)]) (simp_all add: close_handles_def)
next
  case (rebuild_raises s t)
  show ?case
    by (rule quiet_epoch [OF rebuild_raises(5)]) (simp_all add: rebuild_raises(2) close_handles_def block_def)
next
  case (recover_opens s h)
  then have "c_state (co s) \<in> {Prepared, CBlocked}" by (simp add: inv_threads_def)
  then show ?case by (auto simp: inv_epoch_def open_done_def)
next
  case (recover_opening s)
  then have "c_state (co s) \<in> {Prepared, CBlocked}" by (simp add: inv_threads_def)
  then show ?case by (auto simp: inv_epoch_def)
next
  case (reopen_starts s oid lease)
  then show ?case by (simp add: inv_epoch_def)
next
  case (lease_loss_recovers s oid lease)
  then show ?case by (simp add: inv_epoch_def)
next
  case (recover_no_database s)
  then show ?case by (simp add: inv_epoch_def)
next
  case (rebuild_returns s)
  then show ?case by (simp add: inv_epoch_def)
next
  case (lease_loss_blocks oid lease s)
  show ?case by (rule quiet_epoch [OF lease_loss_blocks(4)]) (simp_all add: block_def)
qed (rule blocked_epoch; simp add: block_def)+

lemma recover_cinv: "recover_step s t \<Longrightarrow> cinv s \<Longrightarrow> cinv t"
  using recover_counts recover_held recover_threads recover_quiet recover_places recover_epoch
  unfolding cinv_def by blast

lemma outer_cinv: "outer_step s t \<Longrightarrow> cinv s \<Longrightarrow> cinv t"
proof (induction rule: outer_step.induct)
  case (shutdown s)
  show ?case
  proof (cases "c_closed (co s)")
    case True
    with shutdown show ?thesis by (simp add: close_enter_def)
  next
    case False
    let ?c = "close_enter (co s)"
    have c: "c_state ?c = CBlocked" "requests ?c = requests (co s)" "n_opening ?c = n_opening (co s)"
      "c_handles ?c = c_handles (co s)"
      using False by (simp_all add: close_enter_def clear_lease_def)
    with shutdown show ?thesis
      unfolding cinv_def inv_counts_def inv_held_def inv_threads_def inv_quiet_def inv_places_def
        inv_epoch_def
      by simp
  qed
next
  case (shutdown_closes s)
  then have I: "inv_counts s" "inv_held s" "inv_threads s" "inv_places s" "inv_epoch s"
    by (simp_all add: cinv_def)
  have c: "c_state (co s) = CBlocked" using I(3) shutdown_closes(1) by (simp add: inv_threads_def)
  have "inv_counts (close_handles s)" using I(1) by (simp add: inv_counts_def close_handles_def)
  moreover have "inv_held (close_handles s)" using I(2) unfolding inv_held_def close_handles_def by auto
  moreover have "inv_threads (close_handles s)" using I(3) by (simp add: inv_threads_def close_handles_def)
  moreover have "inv_quiet (close_handles s)" using c by (intro blocked_quiet) (simp add: close_handles_def)
  moreover have "inv_places (close_handles s)"
    using I(4) unfolding inv_places_def close_handles_def by auto
  moreover have "inv_epoch (close_handles s)"
    using c by (intro quiet_epoch [OF I(5)]) (simp_all add: close_handles_def)
  ultimately show ?case by (simp add: cinv_def)
next
  case (replace_store s i)
  have I: "inv_counts s" "inv_held s" "inv_threads s" "inv_quiet s" "inv_places s" "inv_epoch s"
    using replace_store by (simp_all add: cinv_def)
  note e = I(6) and p = I(5)
  have "rec_handle (recov s) = {}" using p replace_store(1) by (simp add: inv_places_def)
  then have r: "rec_identity (recov s) = None" by (cases "recov s") simp_all
  have "c_state (co s) \<in> {Serving, CatchingUp} \<Longrightarrow> own s = None"
    using e replace_store(1) unfolding inv_epoch_def by (cases "own s") simp_all
  with r have "inv_epoch (s\<lparr>store := i\<rparr>)" by (auto simp: inv_epoch_def)
  moreover have "inv_counts (s\<lparr>store := i\<rparr>)" "inv_held (s\<lparr>store := i\<rparr>)" "inv_threads (s\<lparr>store := i\<rparr>)"
    "inv_quiet (s\<lparr>store := i\<rparr>)" "inv_places (s\<lparr>store := i\<rparr>)"
    using I by (simp_all add: inv_counts_def inv_held_def inv_threads_def inv_places_def inv_quiet_def
        del: card_eq_0_iff)
  ultimately show ?case by (simp add: cinv_def)
qed

lemma csys_reachable_inv: "csys_reachable s \<Longrightarrow> cinv s"
proof (induction rule: csys_reachable.induct)
  case (start_plain st)
  then show ?case
    by (simp add: csys_init_def coord_init_def cinv_def inv_counts_def inv_held_def inv_threads_def
        inv_quiet_def inv_places_def inv_epoch_def)
next
  case (start_failed oc code h bad st)
  then show ?case
    by (auto simp: csys_init_def coord_init_def cinv_def inv_counts_def inv_held_def inv_threads_def
        inv_quiet_def inv_places_def inv_epoch_def initialize_fact_epoch_def)
next
  case (start_opened st h)
  then show ?case
    by (simp add: csys_init_def coord_init_def cinv_def inv_counts_def inv_held_def inv_threads_def
        inv_quiet_def inv_places_def inv_epoch_def initialize_fact_epoch_def)
qed (blast intro: client_cinv prepare_cinv recover_cinv outer_cinv)+

subsection \<open>Properties\<close>

text \<open>
  C9. What a maintenance lease is worth: when \<open>prepare\<close> has been acknowledged and no recovery is
  running, no scoring request is in flight, no fact handle is open or being opened, the daemon
  holds no shared lease on the store, and no builder is registered, whatever the interleaving
  of requests, openers, builders, lost control connections, rebuilds and shutdown was.
\<close>

theorem prepared_is_quiescent:
  assumes "csys_reachable s" "c_state (co s) = Prepared" "recov s = QIdle"
  shows "leases s = {} \<and> held s = {} \<and> c_handles (co s) = {} \<and> c_builders (co s) = {} \<and>
    requests (co s) = 0 \<and> n_opening (co s) = 0"
proof -
  from csys_reachable_inv [OF assms(1)]
  have I: "inv_counts s" "inv_held s" "inv_quiet s" by (simp_all add: cinv_def)
  from I(3) assms(2) have q: "requests (co s) = 0" "c_handles (co s) = {}" "c_builders (co s) = {}"
    "op_wait s = 0" "op_got s = {}" "op_rej s = {}" "op_closing s = 0"
    by (simp_all add: inv_quiet_def)
  with I(1,2) assms(3) show ?thesis by (auto simp: inv_counts_def inv_held_def)
qed

text \<open>
  Scoring never uses derived state of another store: while the daemon serves and has a fact
  handle of its own, that handle's shared lease is held, so the store cannot be replaced, and
  the epoch of the derived state is the epoch of the store on disk.
\<close>

theorem serving_epoch_is_current:
  assumes "csys_reachable s" "c_state (co s) = Serving" "own s = Some h"
  shows "active_epoch (co s) = Some (epoch_of (store s)) \<and> h \<in> held s \<and> h \<in> c_handles (co s) \<and>
    (\<forall>t. outer_step s t \<longrightarrow> store t = store s)"
proof -
  from csys_reachable_inv [OF assms(1)] have I: "inv_epoch s" by (simp add: cinv_def)
  with assms(2,3) have h: "active_epoch (co s) = Some (epoch_of (store s))" "h \<in> held s"
    "h \<in> c_handles (co s)"
    by (simp_all add: inv_epoch_def)
  moreover have "store t = store s" if "outer_step s t" for t
    using that h(2) by cases (auto simp: close_handles_def)
  ultimately show ?thesis by blast
qed

definition demo_store :: pyval where
  "demo_store = PDict [(''store_epoch'', PStr ''e-1''), (''hlc_physical_ms'', PInt 5),
     (''hlc_logical'', PInt 0)]"

lemma demo_store_valid: "valid_identity demo_store"
  by (simp add: valid_identity_def demo_store_def Let_def all_in_def EPOCH_CHARS_def ascii_lower_def
      ascii_upper_def ascii_digits_def)

lemma demo_epoch: "epoch_of demo_store = ''e-1''"
  by (simp add: epoch_of_def demo_store_def)

definition demo_prepared :: csys where
  "demo_prepared = (csys_init PNone (coord_init\<lparr>c_state := Prepared, c_operation := Some ''op'',
     c_lease := Some 1, prepare_active := False, prepared_epoch := None\<rparr>) {} None)"

lemma demo_prepared_reachable: "csys_reachable demo_prepared"
proof -
  let ?s = "\<lambda>p. (csys_init PNone (coord_init\<lparr>c_state := Preparing, c_operation := Some ''op'',
    c_lease := Some 1, prepare_active := True\<rparr>) {} None)\<lparr>prep := p\<rparr>"
  have fields: "drained (co (?s p))" "empty_registries (co (?s p))" "c_builders (co (?s p)) = {}"
    "c_handles (co (?s p)) = {}" "store (?s p) = PNone" for p
    by (simp_all add: csys_init_def coord_init_def drained_def empty_registries_def)
  have "prepare_step (csys_init PNone coord_init {} None) (?s PWait1)"
    using prepare_step.prepare_starts [of "''op''" "Some 1" "csys_init PNone coord_init {} None"]
    by (simp add: csys_init_def coord_init_def)
  then have "csys_reachable (?s PWait1)" using csys_reachable.start_plain csys_reachable.preparing by blast
  moreover have "prepare_step (?s PWait1) (?s (PBuilders []))"
    using prepare_step.wait1_leaves [of "?s PWait1" "[]"] fields by simp
  moreover have "prepare_step (?s (PBuilders [])) (?s (PHandles []))"
    using prepare_step.builders_done [of "?s (PBuilders [])" "[]"] fields by simp
  moreover have "prepare_step (?s (PHandles [])) (?s PWait2)"
    using prepare_step.handles_done [of "?s (PHandles [])"] by simp
  moreover have "prepare_step (?s PWait2) (?s PReading)"
    using prepare_step.wait2_leaves [of "?s PWait2"] fields by simp
  moreover have "prepare_step (?s PReading) (?s (PFinish PNone))"
    using prepare_step.identity_read [of "?s PReading" PNone False PNone] fields
    by (simp add: prepare_identity_def)
  moreover have "prepare_step (?s (PFinish PNone)) demo_prepared"
    using prepare_step.prepare_finishes [of "?s (PFinish PNone)" PNone]
    by (simp add: demo_prepared_def csys_init_def coord_init_def prepare_finish_def prepare_exit_def)
  ultimately show ?thesis using csys_reachable.preparing by blast
qed

theorem prepared_is_quiescent_witness:
  "c_state (co demo_prepared) = Prepared \<and> held demo_prepared = {}"
  using prepared_is_quiescent [OF demo_prepared_reachable]
  by (simp add: demo_prepared_def csys_init_def)

theorem serving_epoch_is_current_witness:
  "active_epoch (initialize_fact_epoch (InitOpened 7 demo_store) coord_init) = Some ''e-1''"
  using serving_epoch_is_current [OF csys_reachable.start_opened [OF demo_store_valid, of 7]]
  by (simp add: csys_init_def initialize_fact_epoch_def demo_store_valid coord_init_def demo_epoch)

end
