(* ===== verification/Manifests.thy ===== *)
theory Manifests
  imports Compat
begin

text \<open>
  The two durable pointers of the derived root: the active manifest (daemon/publish.py) and the
  rollback manifest (daemon/retention.py). Validation of the JSON value, composition from a
  verified generation, reading a file that may be absent, unreadable or unusable, and the
  layered identity the compatibility matrix compares. \<open>os.path.normpath\<close> and \<open>basename\<close> are
  modelled on POSIX path strings.
\<close>

subsection \<open>POSIX paths\<close>

fun split_slash :: "string \<Rightarrow> string list" where
  "split_slash [] = [[]]"
| "split_slash (c # cs) =
     (if c = CHR ''/'' then [] # split_slash cs
      else (case split_slash cs of [] \<Rightarrow> [[c]] | w # ws \<Rightarrow> (c # w) # ws))"

fun join_slash :: "string list \<Rightarrow> string" where
  "join_slash [] = []"
| "join_slash [w] = w"
| "join_slash (w # ws) = w @ CHR ''/'' # join_slash ws"

text \<open>The loop of \<open>posixpath.normpath\<close>; the accumulator is \<open>new_comps\<close> reversed.\<close>

fun norm_comps :: "bool \<Rightarrow> string list \<Rightarrow> string list \<Rightarrow> string list" where
  "norm_comps absolute acc [] = List.rev acc"
| "norm_comps absolute acc (c # cs) =
     (if c = '''' \<or> c = ''.'' then norm_comps absolute acc cs
      else if c \<noteq> ''..'' \<or> (\<not> absolute \<and> acc = []) \<or> (acc \<noteq> [] \<and> hd acc = ''..'')
      then norm_comps absolute (c # acc) cs
      else if acc \<noteq> [] then norm_comps absolute (tl acc) cs
      else norm_comps absolute acc cs)"

definition is_abs :: "string \<Rightarrow> bool" where
  "is_abs s \<longleftrightarrow> starts_with s ''/''"

definition leading_slashes :: "string \<Rightarrow> string" where
  "leading_slashes s =
     (if \<not> is_abs s then [] else if starts_with s ''//'' \<and> \<not> starts_with s ''///'' then ''//'' else ''/'')"

definition normpath :: "string \<Rightarrow> string" where
  "normpath s =
     (if s = [] then ''.''
      else
        (let p = leading_slashes s @ join_slash (norm_comps (is_abs s) [] (split_slash s))
         in if p = [] then ''.'' else p))"

definition basename :: "string \<Rightarrow> string" where
  "basename s = last (split_slash s)"

subsection \<open>Manifests\<close>

definition DELTA_FILENAME :: string where "DELTA_FILENAME = ''delta.sqlite3''"
definition ACTIVE_MANIFEST_VERSION :: string where "ACTIVE_MANIFEST_VERSION = ''active-manifest-v1''"
definition ROLLBACK_MANIFEST_VERSION :: string where
  "ROLLBACK_MANIFEST_VERSION = ''rollback-manifest-v1''"

definition STRING_KEYS :: "string list" where
  "STRING_KEYS = [''fact_schema_version'', ''representation_id'', ''vector_format_version'',
     ''projection_version'', ''index_fingerprint'', ''delta_checkpoint'', ''builder_version'']"

definition MANIFEST_KEYS :: "string \<Rightarrow> string list" where
  "MANIFEST_KEYS stamp = [''manifest_version'', ''generation_id'', ''store_epoch'', ''source_hlc'']
     @ STRING_KEYS @ [stamp]"

text \<open>The diagnoses, in the order of the checks.\<close>

datatype manifest_problem =
    NotAnObject | VersionUnsupported | KeyMissing string | SourceHlcMalformed | ValueMissing string
  | CheckpointEscapes | StampNotInteger

definition nonempty_str :: "pyval \<Rightarrow> bool" where
  "nonempty_str v \<longleftrightarrow> is_str v \<and> str_of_val v \<noteq> []"

text \<open>\<open>isinstance(value, int) and value >= 0\<close> is true of booleans.\<close>

definition valid_source_hlc :: "pyval \<Rightarrow> bool" where
  "valid_source_hlc v \<longleftrightarrow>
     is_list v \<and> length (list_of_val v) = 2 \<and>
     list_all (\<lambda>x. isinstance_int x \<and> 0 \<le> int_of_val x) (list_of_val v)"

text \<open>The checks the two validators share, up to the string fields.\<close>

definition common_problem :: "string \<Rightarrow> string \<Rightarrow> pyval \<Rightarrow> manifest_problem option" where
  "common_problem version stamp v =
     (if \<not> is_dict v then Some NotAnObject
      else
        (let d = dict_of_val v in
         if \<not> eq_str (dget d ''manifest_version'') version then Some VersionUnsupported
         else
           (case List.find (\<lambda>k. \<not> has_key d k) (MANIFEST_KEYS stamp) of
              Some k \<Rightarrow> Some (KeyMissing k)
            | None \<Rightarrow>
                if \<not> nonempty_str (dget d ''generation_id'') then Some (ValueMissing ''generation_id'')
                else if \<not> nonempty_str (dget d ''store_epoch'') then Some (ValueMissing ''store_epoch'')
                else if \<not> valid_source_hlc (dget d ''source_hlc'') then Some SourceHlcMalformed
                else map_option ValueMissing
                       (List.find (\<lambda>k. \<not> nonempty_str (dget d k)) STRING_KEYS))))"

definition validate_rollback_manifest :: "pyval \<Rightarrow> manifest_problem option" where
  "validate_rollback_manifest v =
     (case common_problem ROLLBACK_MANIFEST_VERSION ''registered_at_ms'' v of
        Some p \<Rightarrow> Some p
      | None \<Rightarrow>
          if \<not> isinstance_int (dget (dict_of_val v) ''registered_at_ms'') then Some StampNotInteger
          else None)"

definition checkpoint_escapes :: "string \<Rightarrow> bool" where
  "checkpoint_escapes s \<longleftrightarrow>
     is_abs (normpath s) \<or> starts_with (normpath s) ''..'' \<or>
     basename (normpath s) \<noteq> DELTA_FILENAME"

definition validate_active_manifest :: "pyval \<Rightarrow> manifest_problem option" where
  "validate_active_manifest v =
     (case common_problem ACTIVE_MANIFEST_VERSION ''published_at_ms'' v of
        Some p \<Rightarrow> Some p
      | None \<Rightarrow>
          (let d = dict_of_val v in
           if checkpoint_escapes (str_of_val (dget d ''delta_checkpoint'')) then Some CheckpointEscapes
           else if \<not> isinstance_int (dget d ''published_at_ms'') then Some StampNotInteger
           else None))"

text \<open>A manifest file: absent, present but unreadable or not JSON, or holding a JSON value.\<close>

datatype json_file = NoFile | Unreadable | JsonFile pyval

datatype file_problem = FileUnreadable | FileInvalid manifest_problem

definition read_manifest ::
    "(pyval \<Rightarrow> manifest_problem option) \<Rightarrow> json_file \<Rightarrow> pydict option \<times> file_problem option" where
  "read_manifest validate f =
     (case f of
        NoFile \<Rightarrow> (None, None)
      | Unreadable \<Rightarrow> (None, Some FileUnreadable)
      | JsonFile v \<Rightarrow>
          (case validate v of
             Some p \<Rightarrow> (None, Some (FileInvalid p))
           | None \<Rightarrow> (Some (dict_of_val v), None)))"

definition read_active_manifest :: "json_file \<Rightarrow> pydict option \<times> file_problem option" where
  "read_active_manifest = read_manifest validate_active_manifest"

definition read_rollback_manifest :: "json_file \<Rightarrow> pydict option \<times> file_problem option" where
  "read_rollback_manifest = read_manifest validate_rollback_manifest"

subsection \<open>Composition\<close>

text \<open>The identity of a generation that \<open>open_generation\<close> verified.\<close>

record gen_identity =
  gi_id :: string
  gi_store_epoch :: string
  gi_hlc :: "int \<times> int"
  gi_representation :: string
  gi_vector_format :: string
  gi_projection :: string
  gi_index :: string
  gi_retrieval :: pyval
  gi_builder :: string

definition hlc_value :: "int \<times> int \<Rightarrow> pyval" where
  "hlc_value h = PList [PInt (fst h), PInt (snd h)]"

definition compose_rollback_manifest :: "gen_identity \<Rightarrow> string \<Rightarrow> string \<Rightarrow> int \<Rightarrow> pydict" where
  "compose_rollback_manifest g checkpoint fact_schema now_ms =
     [(''manifest_version'', PStr ROLLBACK_MANIFEST_VERSION), (''generation_id'', PStr (gi_id g)),
      (''store_epoch'', PStr (gi_store_epoch g)), (''source_hlc'', hlc_value (gi_hlc g)),
      (''fact_schema_version'', PStr fact_schema), (''representation_id'', PStr (gi_representation g)),
      (''vector_format_version'', PStr (gi_vector_format g)),
      (''projection_version'', PStr (gi_projection g)), (''index_fingerprint'', PStr (gi_index g)),
      (''delta_checkpoint'', PStr checkpoint), (''builder_version'', PStr (gi_builder g)),
      (''registered_at_ms'', PInt now_ms)]"

definition compose_active_manifest :: "gen_identity \<Rightarrow> string \<Rightarrow> string \<Rightarrow> int \<Rightarrow> pydict" where
  "compose_active_manifest g checkpoint fact_schema now_ms =
     [(''manifest_version'', PStr ACTIVE_MANIFEST_VERSION), (''generation_id'', PStr (gi_id g)),
      (''store_epoch'', PStr (gi_store_epoch g)), (''source_hlc'', hlc_value (gi_hlc g)),
      (''fact_schema_version'', PStr fact_schema), (''representation_id'', PStr (gi_representation g)),
      (''vector_format_version'', PStr (gi_vector_format g)),
      (''projection_version'', PStr (gi_projection g)), (''index_fingerprint'', PStr (gi_index g)),
      (''retrieval_params'', gi_retrieval g),
      (''delta_checkpoint'', PStr checkpoint), (''builder_version'', PStr (gi_builder g)),
      (''published_at_ms'', PInt now_ms)]"

definition write_manifest :: "pydict \<Rightarrow> json_file" where
  "write_manifest m = JsonFile (PDict m)"

text \<open>\<open>os.path.join("delta", id, DELTA_FILENAME)\<close> for an id that does not start with a slash.\<close>

definition checkpoint_path :: "string \<Rightarrow> string" where
  "checkpoint_path gid = ''delta/'' @ gid @ ''/'' @ DELTA_FILENAME"

subsection \<open>The active identity\<close>

definition active_identity_from_manifest :: "pydict \<Rightarrow> pydict" where
  "active_identity_from_manifest m =
     map (\<lambda>l. (layer_key l, dget m (layer_key l)))
       [StoreEpoch, FactSchema, Representation, VectorFormat, Projection, IndexFingerprint]"

datatype resolve_problem = ManifestProblem file_problem | CompatRefuses refuse_reason

definition resolve_active_identity ::
    "json_file \<Rightarrow> pyval \<Rightarrow> compat_exc + (pydict option \<times> resolve_problem option)" where
  "resolve_active_identity f facts_schema =
     (case read_active_manifest f of
        (None, Some p) \<Rightarrow> Inr (None, Some (ManifestProblem p))
      | (None, None) \<Rightarrow> Inr (None, None)
      | (Some m, _) \<Rightarrow>
          (case refuse_load_reason (PDict (active_identity_from_manifest m)) facts_schema [] of
             Inl e \<Rightarrow> Inl e
           | Inr (Some why) \<Rightarrow> Inr (None, Some (CompatRefuses why))
           | Inr None \<Rightarrow> Inr (Some (active_identity_from_manifest m), None)))"

subsection \<open>Normalised paths\<close>

lemma split_slash_nonempty [simp]: "split_slash s \<noteq> []"
  by (induction s rule: split_slash.induct) (auto split: list.splits)

lemma split_slash_clean: "w \<in> set (split_slash s) \<Longrightarrow> CHR ''/'' \<notin> set w"
  by (induction s arbitrary: w rule: split_slash.induct) (auto split: list.splits if_splits)

lemma split_slash_word:
  "CHR ''/'' \<notin> set w \<Longrightarrow> split_slash w = [w]"
  by (induction w) auto

lemma split_slash_append:
  "CHR ''/'' \<notin> set w \<Longrightarrow> split_slash (w @ CHR ''/'' # s) = w # split_slash s"
  by (induction w) auto

lemma split_join:
  "ws \<noteq> [] \<Longrightarrow> \<forall>w\<in>set ws. CHR ''/'' \<notin> set w \<Longrightarrow> split_slash (join_slash ws) = ws"
  by (induction ws rule: join_slash.induct) (auto simp: split_slash_word split_slash_append)

lemma norm_comps_clean:
  "\<forall>w\<in>set acc \<union> set cs. P w \<Longrightarrow> w \<in> set (norm_comps absolute acc cs) \<Longrightarrow> P w"
  by (induction absolute acc cs rule: norm_comps.induct) (auto split: if_splits dest: list.set_sel(2))

text \<open>A normalised path climbs first and then descends.\<close>

definition climb_then_descend :: "string list \<Rightarrow> bool" where
  "climb_then_descend ws \<longleftrightarrow>
     (\<exists>k xs. ws = replicate k ''..'' @ xs \<and> (\<forall>x\<in>set xs. x \<noteq> ''..'' \<and> x \<noteq> '''' \<and> x \<noteq> ''.''))"

lemma climb_then_descend_snoc:
  assumes "climb_then_descend ws" "w \<noteq> ''''" "w \<noteq> ''.''" "w = ''..'' \<Longrightarrow> set ws \<subseteq> {''..''}"
  shows "climb_then_descend (ws @ [w])"
proof -
  from assms(1) obtain k xs where ws: "ws = replicate k ''..'' @ xs"
    "\<forall>x\<in>set xs. x \<noteq> ''..'' \<and> x \<noteq> '''' \<and> x \<noteq> ''.''"
    by (auto simp: climb_then_descend_def)
  show ?thesis
  proof (cases "w = ''..''")
    case True
    with assms(4) ws have "xs = []" by (cases xs) auto
    with ws True have "ws @ [w] = replicate (Suc k) ''..'' @ []"
      by (simp add: replicate_append_same)
    then show ?thesis unfolding climb_then_descend_def
      by (intro exI [of _ "Suc k"] exI [of _ "[]"]) simp
  next
    case False
    with ws assms(2,3) show ?thesis unfolding climb_then_descend_def
      by (intro exI [of _ k] exI [of _ "xs @ [w]"]) auto
  qed
qed

lemma climb_last:
  assumes "climb_then_descend (ws @ [''..''])"
  shows "set ws \<subseteq> {''..''}"
proof -
  from assms obtain k xs where e: "ws @ [''..''] = replicate k ''..'' @ xs"
    "\<forall>x\<in>set xs. x \<noteq> ''..''" by (auto simp: climb_then_descend_def)
  then have "xs = []" by (cases xs rule: rev_cases) auto
  with e have "set (ws @ [''..'']) = set (replicate k ''..'')" by simp
  then show ?thesis by (auto split: if_splits)
qed

lemma climb_butlast:
  assumes "climb_then_descend ws"
  shows "climb_then_descend (butlast ws)"
proof -
  from assms obtain k xs where ws: "ws = replicate k ''..'' @ xs"
    "\<forall>x\<in>set xs. x \<noteq> ''..'' \<and> x \<noteq> '''' \<and> x \<noteq> ''.''"
    by (auto simp: climb_then_descend_def)
  show ?thesis
  proof (cases "xs = []")
    case True
    then have "butlast ws = replicate (k - 1) ''..'' @ []"
      using ws(1) by (simp add: butlast_conv_take)
    then show ?thesis unfolding climb_then_descend_def
      by (intro exI [of _ "k - 1"] exI [of _ "[]"]) simp
  next
    case False
    then have "butlast ws = replicate k ''..'' @ butlast xs" using ws(1) by (simp add: butlast_append)
    with ws(2) show ?thesis unfolding climb_then_descend_def
      by (intro exI [of _ k] exI [of _ "butlast xs"]) (auto dest: in_set_butlastD)
  qed
qed

lemma norm_comps_shape:
  "climb_then_descend (List.rev acc) \<Longrightarrow> climb_then_descend (norm_comps False acc cs)"
proof (induction cs arbitrary: acc)
  case (Cons c cs)
  have tl: "climb_then_descend (List.rev (tl acc))" if "acc \<noteq> []"
    using climb_butlast [OF Cons.prems] by (cases acc) simp_all
  have up: "set (List.rev acc) \<subseteq> {''..''}" if "acc = [] \<or> hd acc = ''..''"
    using that Cons.prems climb_last [of "List.rev (tl acc)"] by (cases acc) auto
  show ?case
  proof (cases "c = '''' \<or> c = ''.''")
    case True
    with Cons show ?thesis by simp
  next
    case False
    show ?thesis
    proof (cases "c \<noteq> ''..'' \<or> acc = [] \<or> hd acc = ''..''")
      case True
      have "climb_then_descend (List.rev acc @ [c])"
        by (rule climb_then_descend_snoc [OF Cons.prems]) (use False True up in auto)
      with Cons.IH [of "c # acc"] False True show ?thesis by auto
    next
      case push: False
      with Cons.IH [OF tl] False show ?thesis by auto
    qed
  qed
qed simp

lemma join_starts: "starts_with (join_slash (w # ws)) w"
  by (cases ws) (simp_all add: starts_with_def)

lemma dot_escapes: "checkpoint_escapes s" if "normpath s = ''.''"
  using that by (simp add: checkpoint_escapes_def basename_def DELTA_FILENAME_def)

text \<open>What the accepted checkpoint paths are.\<close>

lemma checkpoint_inside:
  assumes "\<not> checkpoint_escapes s"
  shows "\<exists>ws. normpath s = join_slash ws \<and> ws \<noteq> [] \<and> last ws = DELTA_FILENAME \<and>
    (\<forall>w\<in>set ws. w \<noteq> ''..'' \<and> w \<noteq> '''' \<and> w \<noteq> ''.'' \<and> CHR ''/'' \<notin> set w)"
proof -
  define ws where "ws = norm_comps (is_abs s) [] (split_slash s)"
  have s: "s \<noteq> []" using assms dot_escapes [of s] by (auto simp: normpath_def)
  have rel: "\<not> is_abs s"
  proof
    assume a: "is_abs s"
    then have "is_abs (normpath s)"
      using s by (auto simp: normpath_def Let_def leading_slashes_def is_abs_def starts_with_def)
    with assms show False by (simp add: checkpoint_escapes_def)
  qed
  have nonempty: "join_slash ws \<noteq> []" "ws \<noteq> []"
    using assms dot_escapes [of s] s rel
    by (auto simp: normpath_def Let_def leading_slashes_def ws_def)
  have n: "normpath s = join_slash ws"
    using s rel nonempty(1) by (simp add: normpath_def Let_def leading_slashes_def ws_def)
  have clean: "\<forall>w\<in>set ws. CHR ''/'' \<notin> set w"
    using norm_comps_clean [of "[]" "split_slash s" "\<lambda>w. CHR ''/'' \<notin> set w"] split_slash_clean
    by (auto simp: ws_def)
  have "basename (normpath s) = last ws"
    using split_join [OF nonempty(2) clean] by (simp add: basename_def n)
  then have last: "last ws = DELTA_FILENAME" using assms by (simp add: checkpoint_escapes_def)
  have "climb_then_descend ws"
    using norm_comps_shape [of "[]" "split_slash s"] rel
    by (simp add: ws_def climb_then_descend_def)
  then obtain k xs where ks: "ws = replicate k ''..'' @ xs"
    "\<forall>x\<in>set xs. x \<noteq> ''..'' \<and> x \<noteq> '''' \<and> x \<noteq> ''.''"
    by (auto simp: climb_then_descend_def)
  have "k = 0"
  proof (rule ccontr)
    assume "k \<noteq> 0"
    then obtain k' where "ws = ''..'' # replicate k' ''..'' @ xs"
      using ks(1) by (cases k) simp_all
    then have "starts_with (normpath s) ''..''" using join_starts n by metis
    with assms show False by (simp add: checkpoint_escapes_def)
  qed
  with ks clean n nonempty(2) last show ?thesis by auto
qed

subsection \<open>Composed manifests\<close>

definition complete_identity :: "gen_identity \<Rightarrow> bool" where
  "complete_identity g \<longleftrightarrow>
     gi_id g \<noteq> [] \<and> gi_store_epoch g \<noteq> [] \<and> 0 \<le> fst (gi_hlc g) \<and> 0 \<le> snd (gi_hlc g) \<and>
     gi_representation g \<noteq> [] \<and> gi_vector_format g \<noteq> [] \<and> gi_projection g \<noteq> [] \<and>
     gi_index g \<noteq> [] \<and> gi_builder g \<noteq> []"

lemma compose_rollback_valid:
  "complete_identity g \<Longrightarrow> cp \<noteq> [] \<Longrightarrow> fs \<noteq> [] \<Longrightarrow>
     validate_rollback_manifest (PDict (compose_rollback_manifest g cp fs t)) = None"
  by (simp add: validate_rollback_manifest_def common_problem_def compose_rollback_manifest_def
      complete_identity_def eq_str_def has_key_def MANIFEST_KEYS_def STRING_KEYS_def nonempty_str_def
      valid_source_hlc_def hlc_value_def)

lemma compose_active_valid:
  "complete_identity g \<Longrightarrow> \<not> checkpoint_escapes cp \<Longrightarrow> cp \<noteq> [] \<Longrightarrow> fs \<noteq> [] \<Longrightarrow>
     validate_active_manifest (PDict (compose_active_manifest g cp fs t)) = None"
  by (simp add: validate_active_manifest_def common_problem_def compose_active_manifest_def
      complete_identity_def eq_str_def has_key_def MANIFEST_KEYS_def STRING_KEYS_def nonempty_str_def
      valid_source_hlc_def hlc_value_def)

lemma checkpoint_path_inside:
  assumes "CHR ''/'' \<notin> set gid" "gid \<noteq> []" "gid \<noteq> ''.''" "gid \<noteq> ''..''"
  shows "\<not> checkpoint_escapes (checkpoint_path gid)" "checkpoint_path gid \<noteq> []"
proof -
  let ?ws = "[''delta'', gid, DELTA_FILENAME]"
  have d: "CHR ''/'' \<notin> set ''delta''" "CHR ''/'' \<notin> set DELTA_FILENAME" "DELTA_FILENAME \<noteq> []"
    "DELTA_FILENAME \<noteq> ''.''" "DELTA_FILENAME \<noteq> ''..''"
    by (simp_all add: DELTA_FILENAME_def)
  have j: "join_slash ?ws = checkpoint_path gid"
    by (simp add: checkpoint_path_def)
  then have sp: "split_slash (checkpoint_path gid) = ?ws"
    using split_join [of ?ws] assms(1) d by simp
  have "norm_comps False [] ?ws = ?ws" using assms d by simp
  then have "normpath (checkpoint_path gid) = checkpoint_path gid"
    using sp j by (simp add: normpath_def is_abs_def starts_with_def leading_slashes_def
        checkpoint_path_def)
  then show "\<not> checkpoint_escapes (checkpoint_path gid)"
    using sp by (simp add: checkpoint_escapes_def basename_def is_abs_def starts_with_def
        checkpoint_path_def)
  show "checkpoint_path gid \<noteq> []" by (simp add: checkpoint_path_def)
qed

subsection \<open>Properties\<close>

text \<open>
  A manifest that passes validation cannot point outside the derived root: its checkpoint
  path normalises to a relative path whose components are all proper names, none of them a
  parent reference, the last one the delta database.
\<close>

theorem valid_checkpoint_stays_inside:
  assumes "validate_active_manifest v = None"
  shows "\<exists>ws. normpath (str_of_val (dget (dict_of_val v) ''delta_checkpoint'')) = join_slash ws \<and>
    ws \<noteq> [] \<and> last ws = DELTA_FILENAME \<and>
    (\<forall>w\<in>set ws. w \<noteq> ''..'' \<and> w \<noteq> '''' \<and> w \<noteq> ''.'' \<and> CHR ''/'' \<notin> set w)"
  using assms
  by (intro checkpoint_inside)
    (auto simp: validate_active_manifest_def Let_def split: option.splits if_splits)

text \<open>
  Publish round trip: the active manifest composed over a complete generation identity and
  written to disk is read back unchanged, and at the next start it resolves to exactly the
  identity layers of that generation, so a published generation is never refused for its own
  manifest.
\<close>

theorem published_manifest_resolves:
  fixes t :: int
  assumes "complete_identity g" "fs \<noteq> []" "gi_vector_format g = FP32_ROW_MAJOR_LE"
    and "starts_with (gi_index g) (INDEX_FINGERPRINT_PREFIX @ '':'')"
    and "CHR ''/'' \<notin> set (gi_id g)" "gi_id g \<noteq> ''.''" "gi_id g \<noteq> ''..''"
  defines "m \<equiv> compose_active_manifest g (checkpoint_path (gi_id g)) fs t"
  shows "read_active_manifest (write_manifest m) = (Some m, None) \<and>
    resolve_active_identity (write_manifest m) (PStr fs) =
      Inr (Some [(''store_epoch'', PStr (gi_store_epoch g)), (''fact_schema_version'', PStr fs),
        (''representation_id'', PStr (gi_representation g)),
        (''vector_format_version'', PStr (gi_vector_format g)),
        (''projection_version'', PStr (gi_projection g)),
        (''index_fingerprint'', PStr (gi_index g))], None)"
proof -
  have g: "gi_id g \<noteq> []" using assms(1) by (simp add: complete_identity_def)
  note cp = checkpoint_path_inside [OF assms(5) g assms(6,7)]
  have "validate_active_manifest (PDict m) = None"
    unfolding m_def by (rule compose_active_valid [OF assms(1) cp assms(2)])
  then have r: "read_active_manifest (write_manifest m) = (Some m, None)"
    by (simp add: read_active_manifest_def read_manifest_def write_manifest_def)
  have i: "active_identity_from_manifest m =
      [(''store_epoch'', PStr (gi_store_epoch g)), (''fact_schema_version'', PStr fs),
        (''representation_id'', PStr (gi_representation g)),
        (''vector_format_version'', PStr (gi_vector_format g)),
        (''projection_version'', PStr (gi_projection g)),
        (''index_fingerprint'', PStr (gi_index g))]"
    by (simp add: active_identity_from_manifest_def m_def compose_active_manifest_def)
  have "refuse_load_reason (PDict (active_identity_from_manifest m)) (PStr fs) [] = Inr None"
    using assms(1-4) unfolding i
    by (simp add: refuse_load_reason_def IDENTITY_LAYERS_def missing_value_def complete_identity_def
        hashable_def)
  with r i show ?thesis by (simp add: resolve_active_identity_def)
qed

definition demo_generation :: gen_identity where
  "demo_generation = \<lparr>gi_id = ''gen-1'', gi_store_epoch = ''e1'', gi_hlc = (5, 0),
     gi_representation = ''r1'', gi_vector_format = FP32_ROW_MAJOR_LE, gi_projection = ''p1'',
     gi_index = ''index-fingerprint-v1:00'', gi_retrieval = PNone, gi_builder = ''b1''\<rparr>"

lemma demo_generation_complete:
  "complete_identity demo_generation"
  "starts_with (gi_index demo_generation) (INDEX_FINGERPRINT_PREFIX @ '':'')"
  by (simp_all add: complete_identity_def demo_generation_def FP32_ROW_MAJOR_LE_def starts_with_def
      INDEX_FINGERPRINT_PREFIX_def)

theorem published_manifest_resolves_witness:
  "resolve_active_identity (write_manifest
      (compose_active_manifest demo_generation (checkpoint_path ''gen-1'') ''1'' 7)) (PStr ''1'') =
    Inr (Some [(''store_epoch'', PStr ''e1''), (''fact_schema_version'', PStr ''1''),
        (''representation_id'', PStr ''r1''), (''vector_format_version'', PStr FP32_ROW_MAJOR_LE),
        (''projection_version'', PStr ''p1''), (''index_fingerprint'', PStr ''index-fingerprint-v1:00'')],
      None)"
  using published_manifest_resolves [OF demo_generation_complete(1) _ _ demo_generation_complete(2),
      of "''1''" 7]
  by (simp add: demo_generation_def)

theorem valid_checkpoint_stays_inside_witness:
  "\<exists>ws. normpath (checkpoint_path ''gen-1'') = join_slash ws \<and> last ws = DELTA_FILENAME"
proof -
  let ?m = "compose_active_manifest demo_generation (checkpoint_path ''gen-1'') ''1'' 7"
  have "validate_active_manifest (PDict ?m) = None"
    by (rule compose_active_valid [OF demo_generation_complete(1) checkpoint_path_inside]) simp_all
  from valid_checkpoint_stays_inside [OF this] show ?thesis
    by (auto simp: compose_active_manifest_def)
qed

end
