(* ===== verification/Retention.thy ===== *)
theory Retention
  imports Manifests
begin

text \<open>
  Retention of derived state (daemon/retention.py): the retention sweep, the live staging
  records, isolation of a damaged generation, registration of a rollback and the disk budget.
  The derived root is a record of its directories, each a list of named entries, and its two
  manifest files. Whether removing a directory succeeds is a predicate on the directory and
  the entry, so a best-effort removal that fails leaves the entry in place.
\<close>

subsection \<open>The derived root\<close>

text \<open>A file with its size, or a directory with its total size and its \<open>progress.json\<close>.\<close>

datatype fs_node = FileEntry nat | DirEntry nat json_file

fun is_dir :: "fs_node \<Rightarrow> bool" where
  "is_dir (FileEntry n) = False"
| "is_dir (DirEntry n p) = True"

fun node_bytes :: "fs_node \<Rightarrow> nat" where
  "node_bytes (FileEntry n) = n"
| "node_bytes (DirEntry n p) = n"

type_synonym fs_entries = "(string \<times> fs_node) list"

record droot =
  d_generations :: fs_entries
  d_delta :: fs_entries
  d_staging :: fs_entries
  d_isolated :: fs_entries
  d_active :: json_file
  d_rollback :: json_file

definition STAGING_PROGRESS_VERSION :: string where
  "STAGING_PROGRESS_VERSION = ''shadow-generation-progress-v2''"

text \<open>\<open>_staging_progress\<close>: the status of a usable record of this directory.\<close>

definition staging_status :: "string \<Rightarrow> fs_node \<Rightarrow> string option" where
  "staging_status entry node =
     (case node of
        DirEntry _ (JsonFile v) \<Rightarrow>
          (let d = dict_of_val v; st = dget d ''status'' in
           if \<not> is_dict v then None
           else if \<not> eq_str (dget d ''progress_version'') STAGING_PROGRESS_VERSION then None
           else if \<not> eq_str (dget d ''generation_id'') entry then None
           else if st \<notin> PStr ` {''running'', ''blocked'', ''ready'', ''discarded''} then None
           else Some (str_of_val st))
      | _ \<Rightarrow> None)"

definition ends_with :: "string \<Rightarrow> string \<Rightarrow> bool" where
  "ends_with s p \<longleftrightarrow> starts_with (List.rev s) (List.rev p)"

definition live_staging_generation_ids :: "droot \<Rightarrow> string list" where
  "live_staging_generation_ids d =
     map fst (filter (\<lambda>(n, node). is_dir node \<and> \<not> ends_with n ''.tmp'' \<and>
         staging_status n node \<in> Some ` {''running'', ''blocked'', ''ready''}) (d_staging d))"

subsection \<open>The sweep\<close>

definition keep_ids :: "string option \<Rightarrow> string option \<Rightarrow> string list" where
  "keep_ids active rollback = filter (\<lambda>s. s \<noteq> [])
     ((case active of None \<Rightarrow> [] | Some s \<Rightarrow> [s]) @ (case rollback of None \<Rightarrow> [] | Some s \<Rightarrow> [s]))"

definition sweep_dirs ::
    "(string \<Rightarrow> bool) \<Rightarrow> string list \<Rightarrow> fs_entries \<Rightarrow> fs_entries" where
  "sweep_dirs rm keep es = filter (\<lambda>(n, node). n \<in> set keep \<or> \<not> is_dir node \<or> \<not> rm n) es"

text \<open>
  The staging part: files are skipped by the directory test that comes first, and the
  \<open>os.unlink\<close> of a \<open>.tmp\<close> entry, which is then a directory, fails and is ignored.
\<close>

definition sweep_staging ::
    "(string \<Rightarrow> bool) \<Rightarrow> string list \<Rightarrow> fs_entries \<Rightarrow> fs_entries" where
  "sweep_staging rm live es =
     filter (\<lambda>(n, node). n \<in> set live \<or> \<not> is_dir node \<or> ends_with n ''.tmp'' \<or>
               staging_status n node \<noteq> Some ''discarded'' \<or> \<not> rm n) es"

definition retention_sweep ::
    "(string \<Rightarrow> string \<Rightarrow> bool) \<Rightarrow> string option \<Rightarrow> string option \<Rightarrow> string list \<Rightarrow> droot \<Rightarrow> droot" where
  "retention_sweep rm active rollback live d =
     (let keep = keep_ids active rollback in
      d\<lparr>d_generations := sweep_dirs (rm ''generations'') keep (d_generations d),
        d_delta := sweep_dirs (rm ''delta'') (keep @ live) (d_delta d),
        d_staging := sweep_staging (rm ''staging'') live (d_staging d)\<rparr>)"

text \<open>The generation id a manifest names, \<open>None\<close> when it is absent or unusable.\<close>

definition manifest_id :: "pydict option \<times> file_problem option \<Rightarrow> string option" where
  "manifest_id r = map_option (\<lambda>m. str_of_val (dget m ''generation_id'')) (fst r)"

definition sweep_from_manifests ::
    "(string \<Rightarrow> string \<Rightarrow> bool) \<Rightarrow> string option \<Rightarrow> string option \<Rightarrow> droot \<Rightarrow> droot" where
  "sweep_from_manifests rm active rollback d =
     (let act = (case active of None \<Rightarrow> manifest_id (read_active_manifest (d_active d)) | Some s \<Rightarrow> Some s);
          rb = (case rollback of None \<Rightarrow> manifest_id (read_rollback_manifest (d_rollback d)) | Some s \<Rightarrow> Some s)
      in retention_sweep rm act rb (live_staging_generation_ids d) d)"

subsection \<open>Rollback, isolation and space\<close>

definition register_healthy_rollback ::
    "gen_identity \<Rightarrow> string \<Rightarrow> string \<Rightarrow> int \<Rightarrow> droot \<Rightarrow> droot" where
  "register_healthy_rollback g cp fs now_ms d =
     d\<lparr>d_rollback := write_manifest (compose_rollback_manifest g cp fs now_ms)\<rparr>"

definition clear_rollback_manifest :: "bool \<Rightarrow> droot \<Rightarrow> droot" where
  "clear_rollback_manifest unlink_ok d = (if unlink_ok then d\<lparr>d_rollback := NoFile\<rparr> else d)"

text \<open>\<open>target\<close> is the name \<open><id>-<ms>\<close>; \<open>rename_ok\<close> is whether the move succeeded.\<close>

definition isolate_generation :: "bool \<Rightarrow> string \<Rightarrow> string \<Rightarrow> droot \<Rightarrow> droot" where
  "isolate_generation rename_ok target gid d =
     (case map_of (d_generations d) gid of
        None \<Rightarrow> d
      | Some node \<Rightarrow>
          if \<not> is_dir node \<or> \<not> rename_ok then d
          else d\<lparr>d_generations := filter (\<lambda>e. fst e \<noteq> gid) (d_generations d),
                 d_isolated := (target, node) # d_isolated d\<rparr>)"

definition dir_bytes :: "fs_entries \<Rightarrow> nat" where
  "dir_bytes es = sum_list (map (node_bytes \<circ> snd) es)"

definition estimate_derived_bytes :: "(json_file \<Rightarrow> nat) \<Rightarrow> droot \<Rightarrow> nat" where
  "estimate_derived_bytes fsize d =
     dir_bytes (d_generations d) + dir_bytes (d_staging d) + dir_bytes (d_delta d) +
     dir_bytes (d_isolated d) + fsize (d_active d) + fsize (d_rollback d)"

definition projected_peak_bytes :: "(json_file \<Rightarrow> nat) \<Rightarrow> droot \<Rightarrow> int \<Rightarrow> int" where
  "projected_peak_bytes fsize d projected = int (estimate_derived_bytes fsize d) + projected"

definition check_build_space :: "(json_file \<Rightarrow> nat) \<Rightarrow> droot \<Rightarrow> int option \<Rightarrow> int \<Rightarrow> bool" where
  "check_build_space fsize d budget projected =
     (case budget of None \<Rightarrow> True | Some b \<Rightarrow> \<not> projected_peak_bytes fsize d projected > b)"

subsection \<open>Properties\<close>

lemma sweep_dirs_mem:
  "e \<in> set (sweep_dirs rm keep es) \<longleftrightarrow>
     e \<in> set es \<and> (fst e \<in> set keep \<or> \<not> is_dir (snd e) \<or> \<not> rm (fst e))"
  by (auto simp: sweep_dirs_def)


text \<open>
  The limit of the startup sweep: when the active manifest is present but unusable, the
  sweep resolved from the manifests treats it as "nothing is active" and deletes every
  generation directory except the rollback's, the active generation included; the same happens
  when no manifest was written yet and the configured generation is the active one.
\<close>

theorem startup_sweep_deletes_unnamed_active:
  assumes "d_active d \<in> {Unreadable, NoFile} \<or> (\<exists>v. d_active d = JsonFile v \<and> validate_active_manifest v \<noteq> None)"
    and "\<And>p n. rm p n" "(n, node) \<in> set (d_generations d)" "is_dir node"
    and "manifest_id (read_rollback_manifest (d_rollback d)) \<noteq> Some n"
  shows "(n, node) \<notin> set (d_generations (sweep_from_manifests rm None None d))"
proof -
  have "manifest_id (read_active_manifest (d_active d)) = None"
    using assms(1)
    by (auto simp: manifest_id_def read_active_manifest_def read_manifest_def split: option.splits)
  then show ?thesis
    using assms(2-5)
    by (cases "manifest_id (read_rollback_manifest (d_rollback d))")
      (auto simp: sweep_from_manifests_def retention_sweep_def sweep_dirs_mem keep_ids_def Let_def)
qed

text \<open>A derived root with an active, a rollback and an old generation.\<close>

definition demo_root :: "json_file \<Rightarrow> droot" where
  "demo_root act = \<lparr>d_generations = [(''gen-1'', DirEntry 9 NoFile), (''gen-0'', DirEntry 8 NoFile),
       (''old'', DirEntry 7 NoFile)],
     d_delta = [(''gen-1'', DirEntry 1 NoFile)], d_staging = [], d_isolated = [], d_active = act,
     d_rollback = NoFile\<rparr>"

lemma in_demo: "(''gen-1'', DirEntry 9 NoFile) \<in> set (d_generations (demo_root a))" "''gen-1'' \<noteq> []"
  by (simp_all add: demo_root_def)


theorem startup_sweep_deletes_unnamed_active_witness:
  "(''gen-1'', DirEntry 9 NoFile) \<notin> set (d_generations
     (sweep_from_manifests (\<lambda>_ _. True) None None (demo_root Unreadable)))"
  by (rule startup_sweep_deletes_unnamed_active)
    (simp_all add: demo_root_def manifest_id_def read_rollback_manifest_def read_manifest_def)

end
