(* ===== verification/Archive_Base.thy ===== *)
theory Archive_Base
  imports Py_Prelude
begin

text \<open>
  What the input archive's modules share: the outcome of a validator (a value, a refusal
  code the caller returns, or an exception that leaves the function), identifier tokens of
  \<open>src/archive/safety.py\<close>, set membership with Python's hashing rule, the conversions between
  numbers the validators make, and the version constants of \<open>src/archive/interface.py\<close>.
\<close>

subsection \<open>Outcomes\<close>

datatype 'a outcome = Value 'a | Refused string | Raised string

fun and_then :: "'a outcome \<Rightarrow> ('a \<Rightarrow> 'b outcome) \<Rightarrow> 'b outcome" where
  "and_then (Value x) k = k x"
| "and_then (Refused c) k = Refused c"
| "and_then (Raised e) k = Raised e"

text \<open>\<open>if not cond: return code\<close> before the rest of a body.\<close>

definition demand :: "bool \<Rightarrow> string \<Rightarrow> 'a outcome \<Rightarrow> 'a outcome" where
  "demand b code k = (if b then k else Refused code)"

lemma and_then_Value: "and_then m k = Value y \<longleftrightarrow> (\<exists>x. m = Value x \<and> k x = Value y)"
  by (cases m) auto

lemma demand_Value [simp]: "demand b code k = Value y \<longleftrightarrow> b \<and> k = Value y"
  by (simp add: demand_def)

lemma demandE:
  "demand b code k = Value y \<Longrightarrow> (b \<Longrightarrow> k = Value y \<Longrightarrow> P) \<Longrightarrow> P"
  by simp

lemma and_thenE:
  "and_then m k = Value y \<Longrightarrow> (\<And>x. m = Value x \<Longrightarrow> k x = Value y \<Longrightarrow> P) \<Longrightarrow> P"
  by (cases m) auto

subsection \<open>Versions\<close>

definition ENVELOPE_VERSION :: int where "ENVELOPE_VERSION = 1"
definition CONTENT_VERSION :: int where "CONTENT_VERSION = 1"
definition SUPPORTED_SCHEMA :: string where "SUPPORTED_SCHEMA = ''luna_pinyin''"

text \<open>\<open>d.get(k, default)\<close>\<close>

definition dget_or :: "pydict \<Rightarrow> string \<Rightarrow> pyval \<Rightarrow> pyval" where
  "dget_or d k v = (case map_of d k of None \<Rightarrow> v | Some w \<Rightarrow> w)"

text \<open>\<open>a or b\<close>\<close>

definition py_or :: "pyval \<Rightarrow> pyval \<Rightarrow> pyval" where
  "py_or a b = (if truthy a then a else b)"

subsection \<open>Tokens\<close>

definition SAFE_TOKEN :: string where
  "SAFE_TOKEN = ascii_upper @ ascii_lower @ ascii_digits @ ''_.:-''"

definition is_token :: "string \<Rightarrow> bool" where
  "is_token s \<longleftrightarrow> s \<noteq> [] \<and> length s \<le> 128 \<and> all_in s SAFE_TOKEN"

definition safe_token :: "pyval \<Rightarrow> string option" where
  "safe_token v =
     (if \<not> is_str v \<or> str_of_val v = [] \<or> 128 < length (str_of_val v) then None
      else if \<not> all_in (str_of_val v) SAFE_TOKEN then None
      else Some (str_of_val v))"

definition ordinary_token :: "pyval \<Rightarrow> string" where
  "ordinary_token v = (case safe_token v of None \<Rightarrow> ''redacted'' | Some t \<Rightarrow> t)"

lemma safe_token_Some: "safe_token v = Some t \<longleftrightarrow> v = PStr t \<and> is_token t"
  by (cases v) (auto simp: safe_token_def is_token_def)

lemma safe_token_not_None: "safe_token v \<noteq> None \<longleftrightarrow> (\<exists>t. v = PStr t \<and> is_token t)"
  using safe_token_Some by (metis not_None_eq)

lemma ordinary_token_is_token [simp]: "is_token (ordinary_token v)"
proof (cases "safe_token v")
  case None
  then show ?thesis
    by (simp add: ordinary_token_def is_token_def all_in_def SAFE_TOKEN_def ascii_upper_def
        ascii_lower_def ascii_digits_def)
next
  case (Some t)
  then show ?thesis using safe_token_Some [of v t] by (simp add: ordinary_token_def)
qed

subsection \<open>Membership in a set of strings\<close>

text \<open>
  \<open>v in {...}\<close> hashes \<open>v\<close>, so a list or a dictionary raises TypeError; \<open>v in (...)\<close> over a
  tuple only compares.
\<close>

definition is_hashable :: "pyval \<Rightarrow> bool" where
  "is_hashable v \<longleftrightarrow> \<not> is_list v \<and> \<not> is_dict v"

definition str_in :: "pyval \<Rightarrow> string list \<Rightarrow> bool" where
  "str_in v S \<longleftrightarrow> is_str v \<and> str_of_val v \<in> set S"

lemma str_in_iff: "str_in v S \<longleftrightarrow> (\<exists>s. v = PStr s \<and> s \<in> set S)"
  by (cases v) (auto simp: str_in_def)

text \<open>\<open>if v not in S: return code\<close>\<close>

definition demand_in :: "pyval \<Rightarrow> string list \<Rightarrow> string \<Rightarrow> 'a outcome \<Rightarrow> 'a outcome" where
  "demand_in v S code k =
     (if \<not> is_hashable v then Raised ''TypeError'' else demand (str_in v S) code k)"

lemma demand_in_Value [simp]: "demand_in v S code k = Value y \<longleftrightarrow> str_in v S \<and> k = Value y"
  by (cases v) (auto simp: demand_in_def is_hashable_def str_in_def)

lemma demand_inE:
  "demand_in v S code k = Value y \<Longrightarrow> (str_in v S \<Longrightarrow> k = Value y \<Longrightarrow> P) \<Longrightarrow> P"
  by simp

text \<open>A check that applies only to a value that is present.\<close>

definition demand_opt_in :: "pyval \<Rightarrow> string list \<Rightarrow> string \<Rightarrow> 'a outcome \<Rightarrow> 'a outcome" where
  "demand_opt_in v S code k = (if v = PNone then k else demand_in v S code k)"

lemma demand_opt_inE:
  "demand_opt_in v S code k = Value y \<Longrightarrow> (v = PNone \<or> str_in v S \<Longrightarrow> k = Value y \<Longrightarrow> P) \<Longrightarrow> P"
  by (auto simp: demand_opt_in_def split: if_splits)

lemmas outcome_elims = demandE and_thenE demand_inE demand_opt_inE

subsection \<open>Numbers\<close>

text \<open>\<open>isinstance(v, int) and not isinstance(v, bool)\<close>\<close>

definition is_int :: "pyval \<Rightarrow> bool" where
  "is_int v \<longleftrightarrow> isinstance_int v \<and> \<not> is_bool v"

lemma is_int_iff: "is_int v \<longleftrightarrow> (\<exists>n. v = PInt n)"
  by (cases v) (auto simp: is_int_def)

text \<open>\<open>isinstance(v, (int, float)) and not isinstance(v, bool)\<close>\<close>

definition is_number :: "pyval \<Rightarrow> bool" where
  "is_number v \<longleftrightarrow> is_int v \<or> is_float v"

text \<open>The nearest double to an integer, ties to even.\<close>

fun bit_length :: "nat \<Rightarrow> nat" where
  "bit_length n = (if n = 0 then 0 else Suc (bit_length (n div 2)))"

declare bit_length.simps [simp del]

definition round_double :: "int \<Rightarrow> int" where
  "round_double n =
     (let a = nat \<bar>n\<bar>; e = bit_length a - 53 in
      if e = 0 then n
      else let q = a div 2 ^ e; r = a mod 2 ^ e; h = 2 ^ (e - 1);
               q' = (if h < r \<or> (r = h \<and> odd q) then q + 1 else q)
           in sgn n * int (q' * 2 ^ e))"

text \<open>\<open>float(n)\<close> and \<open>math.isfinite(n)\<close> raise OverflowError when it is beyond every double.\<close>

definition double_overflow :: "int \<Rightarrow> bool" where
  "double_overflow n \<longleftrightarrow> 2 ^ 1024 \<le> \<bar>round_double n\<bar>"

fun to_float :: "pyval \<Rightarrow> pyval" where
  "to_float (PInt n) = PFloat (FFin (of_int (round_double n)))"
| "to_float v = v"

fun finite_float :: "pyval \<Rightarrow> bool" where
  "finite_float (PFloat (FFin q)) = True"
| "finite_float (PInt n) = True"
| "finite_float _ = False"

text \<open>\<open>v < 0\<close>, \<open>v <= 0\<close> and \<open>v >= 1\<close> on a number; every comparison with not-a-number is false.\<close>

fun lt_zero :: "pyval \<Rightarrow> bool" where
  "lt_zero (PInt n) = (n < 0)"
| "lt_zero (PFloat (FFin q)) = (q < 0)"
| "lt_zero (PFloat (FInf b)) = (\<not> b)"
| "lt_zero _ = False"

fun le_zero :: "pyval \<Rightarrow> bool" where
  "le_zero (PInt n) = (n \<le> 0)"
| "le_zero (PFloat (FFin q)) = (q \<le> 0)"
| "le_zero (PFloat (FInf b)) = (\<not> b)"
| "le_zero _ = False"

fun ge_one :: "pyval \<Rightarrow> bool" where
  "ge_one (PInt n) = (1 \<le> n)"
| "ge_one (PFloat (FFin q)) = (1 \<le> q)"
| "ge_one (PFloat (FInf b)) = b"
| "ge_one _ = False"

text \<open>
  The check \<open>isinstance(v, bool) or not isinstance(v, (int, float)) or not math.isfinite(v)
  or v < 0\<close> followed by \<open>float(v)\<close>.
\<close>

definition finite_nonneg :: "pyval \<Rightarrow> pyval outcome" where
  "finite_nonneg v =
     (if \<not> is_number v then Refused ''''
      else if is_int v \<and> double_overflow (int_of_val v) then Raised ''OverflowError''
      else if \<not> finite_float v \<or> lt_zero v then Refused ''''
      else Value (to_float v))"

lemma round_double_nonneg: "0 \<le> n \<Longrightarrow> 0 \<le> round_double n"
  by (simp add: round_double_def Let_def sgn_if)

lemma finite_nonneg_Value:
  "finite_nonneg v = Value w \<Longrightarrow> \<exists>q. w = PFloat (FFin q) \<and> 0 \<le> q"
proof (cases v)
  case (PFloat x)
  then show "finite_nonneg v = Value w \<Longrightarrow> ?thesis"
    by (cases x) (auto simp: finite_nonneg_def is_number_def is_int_def split: if_splits)
next
  case (PInt n)
  then show "finite_nonneg v = Value w \<Longrightarrow> ?thesis"
    using round_double_nonneg [of n]
    by (auto simp: finite_nonneg_def is_number_def is_int_def split: if_splits)
qed (simp_all add: finite_nonneg_def is_number_def is_int_def)

end
