(* ===== verification/Archive_Limits.thy ===== *)
theory Archive_Limits
  imports Archive_Base
begin

text \<open>
  The configurable limits of the input archive (\<open>src/archive/limits.py\<close>) and the content
  gate (\<open>src/archive/management_gate.py\<close>): shared leases against one exclusive transition.
\<close>

subsection \<open>Limits\<close>

definition DEFAULTS :: pydict where
  "DEFAULTS =
    [(''producer_queue_count'', PInt 256),
     (''producer_queue_bytes'', PInt 1048576),
     (''collector_queue_count'', PInt 256),
     (''collector_queue_bytes'', PInt 1048576),
     (''max_event_bytes'', PInt 65536),
     (''archive_capacity_bytes'', PInt 67108864),
     (''warning_ratio'', PFloat (FFin (8 / 10))),
     (''page_size_default'', PInt 20),
     (''page_size_max'', PInt 50),
     (''checkpoint_interval_ms'', PInt 250),
     (''freshness_window_ms'', PInt 2000),
     (''heartbeat_interval_ms'', PInt 500),
     (''max_frame_bytes'', PInt 4194304),
     (''batch_size'', PInt 64),
     (''connect_timeout_ms'', PInt 1000),
     (''management_timeout_ms'', PInt 5000),
     (''query_page_bytes_max'', PInt 1048576),
     (''query_timing_rows_max'', PInt 4096),
     (''query_group_members_max'', PInt 256),
     (''query_choice_groups_max'', PInt 64),
     (''query_high_fanout_updates_max'', PInt 512)]"

definition positive_ints :: "string list" where
  "positive_ints =
    [''producer_queue_count'', ''producer_queue_bytes'', ''collector_queue_count'',
     ''collector_queue_bytes'', ''max_event_bytes'', ''archive_capacity_bytes'',
     ''page_size_default'', ''page_size_max'', ''freshness_window_ms'',
     ''heartbeat_interval_ms'', ''max_frame_bytes'', ''batch_size'', ''connect_timeout_ms'',
     ''management_timeout_ms'', ''query_page_bytes_max'', ''query_timing_rows_max'',
     ''query_group_members_max'', ''query_choice_groups_max'',
     ''query_high_fanout_updates_max'']"

fun first_bad :: "pydict \<Rightarrow> string list \<Rightarrow> string option" where
  "first_bad l [] = None"
| "first_bad l (k # ks) =
     (if is_bool (dget l k) \<or> \<not> isinstance_int (dget l k) \<or> int_of_val (dget l k) \<le> 0
      then Some k else first_bad l ks)"

text \<open>The exception is a pair of its class and its argument.\<close>

definition validate_limits :: "pydict \<Rightarrow> (string \<times> string) option" where
  "validate_limits l =
     (case first_bad l positive_ints of
        Some k \<Rightarrow> Some (''ValueError'', k)
      | None \<Rightarrow>
          if int_of_val (dget l ''page_size_max'') < int_of_val (dget l ''page_size_default'')
          then Some (''ValueError'', ''page_size_default'')
          else if 100 < int_of_val (dget l ''page_size_max'')
          then Some (''ValueError'', ''page_size_max'')
          else if is_bool (dget l ''warning_ratio'') \<or>
                  \<not> (isinstance_int (dget l ''warning_ratio'') \<or> is_float (dget l ''warning_ratio''))
          then Some (''ValueError'', ''warning_ratio'')
          else if le_zero (dget l ''warning_ratio'') \<or> ge_one (dget l ''warning_ratio'')
          then Some (''ValueError'', ''warning_ratio'')
          else if is_bool (dget l ''checkpoint_interval_ms'') \<or>
                  \<not> isinstance_int (dget l ''checkpoint_interval_ms'') \<or>
                  int_of_val (dget l ''checkpoint_interval_ms'') < 0
          then Some (''ValueError'', ''checkpoint_interval_ms'')
          else None)"

fun apply_overrides :: "pydict \<Rightarrow> pydict \<Rightarrow> (string \<times> string) + pydict" where
  "apply_overrides l [] = Inr l"
| "apply_overrides l ((k, v) # ovs) =
     (if \<not> has_key DEFAULTS k then Inl (''KeyError'', k) else apply_overrides (dset k v l) ovs)"

definition resolve_limits :: "pydict \<Rightarrow> (string \<times> string) + pydict" where
  "resolve_limits ovs =
     (case apply_overrides DEFAULTS ovs of
        Inl e \<Rightarrow> Inl e
      | Inr l \<Rightarrow> (case validate_limits l of Some e \<Rightarrow> Inl e | None \<Rightarrow> Inr l))"

text \<open>A limit read as a number by the code that uses it.\<close>

definition limit_of :: "pydict \<Rightarrow> string \<Rightarrow> int" where
  "limit_of l k = int_of_val (dget l k)"

lemma first_bad_None:
  "first_bad l ks = None \<longleftrightarrow> (\<forall>k\<in>set ks. \<exists>n. dget l k = PInt n \<and> 0 < n)"
proof (induction ks)
  case (Cons k ks)
  then show ?case by (cases "dget l k") auto
qed simp

lemma apply_overrides_keys:
  "apply_overrides l ovs = Inr l' \<Longrightarrow> has_key l k \<Longrightarrow> has_key l' k"
  by (induction l ovs rule: apply_overrides.induct) (auto simp: has_key_def split: if_splits)

lemma apply_overrides_only:
  "apply_overrides l ovs = Inr l' \<Longrightarrow> set (map fst l) \<subseteq> set (map fst DEFAULTS) \<Longrightarrow>
   set (map fst l') \<subseteq> set (map fst DEFAULTS)"
  by (induction l ovs rule: apply_overrides.induct) (auto simp: has_key_def split: if_splits)

lemma apply_overrides_last:
  "apply_overrides l ovs = Inr l' \<Longrightarrow> distinct (map fst ovs) \<Longrightarrow>
   map_of l' k = (case map_of ovs k of Some v \<Rightarrow> Some v | None \<Rightarrow> map_of l k)"
proof (induction l ovs arbitrary: l' rule: apply_overrides.induct)
  case (2 l k' v ovs)
  then have "map_of l' k = (case map_of ovs k of Some v \<Rightarrow> Some v | None \<Rightarrow> map_of (dset k' v l) k)"
    by (auto split: if_splits)
  moreover have "map_of ovs k' = None" using "2.prems"(2) by (simp add: map_of_eq_None_iff)
  ultimately show ?case by (auto split: option.splits)
qed simp

lemma resolved_positive:
  assumes "resolve_limits ovs = Inr l" and "k \<in> set positive_ints"
  shows "0 < limit_of l k"
proof -
  have "validate_limits l = None"
    using assms(1) by (auto simp: resolve_limits_def split: sum.splits option.splits)
  then have "first_bad l positive_ints = None"
    by (auto simp: validate_limits_def split: option.splits)
  then show ?thesis using assms(2) by (auto simp: first_bad_None limit_of_def)
qed

lemma resolved_sizes:
  assumes "resolve_limits ovs = Inr l"
  shows "0 < limit_of l ''producer_queue_count''" "0 < limit_of l ''producer_queue_bytes''"
    "0 < limit_of l ''collector_queue_count''" "0 < limit_of l ''collector_queue_bytes''"
    "0 < limit_of l ''max_event_bytes''" "0 < limit_of l ''archive_capacity_bytes''"
    "0 < limit_of l ''batch_size''"
  using resolved_positive [OF assms] by (simp_all add: positive_ints_def)

subsection \<open>The content gate\<close>

text \<open>
  \<open>_readers\<close> and \<open>_writer\<close> (a thread identifier). Every method runs under the gate's lock, so
  it is one step. The exceptions are \<open>content_lease_not_held\<close> and
  \<open>content_transition_not_exclusive\<close>.
\<close>

record gate =
  readers :: int
  writer :: "nat option"

definition gate_init :: gate where
  "gate_init = \<lparr>readers = 0, writer = None\<rparr>"

definition gate_acquire :: "nat \<Rightarrow> gate \<Rightarrow> bool \<times> gate" where
  "gate_acquire me g =
     (if writer g \<noteq> None \<and> writer g \<noteq> Some me then (False, g)
      else (True, g\<lparr>readers := readers g + 1\<rparr>))"

definition gate_release :: "gate \<Rightarrow> string + gate" where
  "gate_release g =
     (if readers g \<le> 0 then Inl ''content_lease_not_held''
      else Inr (g\<lparr>readers := readers g - 1\<rparr>))"

definition begin_transition :: "nat \<Rightarrow> gate \<Rightarrow> bool \<times> gate" where
  "begin_transition me g =
     (if writer g \<noteq> None \<or> readers g \<noteq> 0 then (False, g)
      else (True, g\<lparr>writer := Some me\<rparr>))"

definition end_transition :: "nat \<Rightarrow> gate \<Rightarrow> string + gate" where
  "end_transition me g =
     (if writer g \<noteq> Some me \<or> readers g \<noteq> 0 then Inl ''content_transition_not_exclusive''
      else Inr (g\<lparr>writer := None\<rparr>))"

text \<open>
  The gate with its users. \<open>leases\<close> lists, as a ghost, the threads that hold a lease: a
  thread releases only after an acquire of its own, which is how every caller in the
  collector and in \<open>__enter__\<close>/\<open>__exit__\<close> uses the gate.
\<close>

inductive gate_reach :: "gate \<Rightarrow> nat list \<Rightarrow> bool" where
  start: "gate_reach gate_init []"
| acquire: "gate_reach g ls \<Longrightarrow> gate_acquire me g = (True, g') \<Longrightarrow> gate_reach g' (me # ls)"
| release: "gate_reach g ls \<Longrightarrow> me \<in> set ls \<Longrightarrow> gate_release g = Inr g' \<Longrightarrow>
    gate_reach g' (remove1 me ls)"
| open_switch: "gate_reach g ls \<Longrightarrow> begin_transition me g = (True, g') \<Longrightarrow> gate_reach g' ls"
| close_switch: "gate_reach g ls \<Longrightarrow> end_transition me g = Inr g' \<Longrightarrow> gate_reach g' ls"

lemma gate_counts: "gate_reach g ls \<Longrightarrow> readers g = int (length ls)"
proof (induction rule: gate_reach.induct)
  case (release g ls me g')
  from \<open>me \<in> set ls\<close> have "0 < length ls" by (rule length_pos_if_in_set)
  then have "int (length ls - 1) = int (length ls) - 1" by (simp add: Suc_leI of_nat_diff)
  with release show ?case
    by (auto simp: gate_release_def length_remove1 split: if_splits)
qed (auto simp: gate_init_def gate_acquire_def begin_transition_def end_transition_def
      split: if_splits)

text \<open>
  The content gate excludes readers from the serving switch: in every reachable state
  the lease counter equals the number of held leases; while a transition is open, every
  lease is held by the switching thread itself, a lease request of any other thread is
  refused, and a second transition is refused; and a release by a holder never raises.
\<close>

theorem content_gate_excludes:
  assumes "gate_reach g ls"
  shows "readers g = int (length ls) \<and>
    (\<forall>w. writer g = Some w \<longrightarrow> set ls \<subseteq> {w} \<and>
       (\<forall>me. me \<noteq> w \<longrightarrow> \<not> fst (gate_acquire me g)) \<and>
       (\<forall>me. \<not> fst (begin_transition me g))) \<and>
    (\<forall>me\<in>set ls. \<exists>g'. gate_release g = Inr g')"
proof -
  have only: "\<forall>w. writer g = Some w \<longrightarrow> set ls \<subseteq> {w}"
    using assms
  proof (induction rule: gate_reach.induct)
    case (open_switch g ls me g')
    then have "readers g = 0" by (auto simp: begin_transition_def split: if_splits)
    then have "ls = []" using gate_counts [OF open_switch.hyps(1)] by simp
    then show ?case by simp
  next
    case (release g ls me g')
    then show ?case
      using set_remove1_subset [of me ls]
      by (fastforce simp: gate_release_def split: if_splits)
  qed (auto simp: gate_init_def gate_acquire_def end_transition_def split: if_splits)
  have "\<exists>g'. gate_release g = Inr g'" if "me \<in> set ls" for me
    using gate_counts [OF assms] length_pos_if_in_set [OF that] by (simp add: gate_release_def)
  then show ?thesis
    using only gate_counts [OF assms] by (auto simp: gate_acquire_def begin_transition_def)
qed

theorem content_gate_excludes_witness:
  "set [] \<subseteq> {7::nat} \<and> \<not> fst (gate_acquire 3 \<lparr>readers = 0, writer = Some 7\<rparr>)"
proof -
  have "gate_reach \<lparr>readers = 0, writer = Some 7\<rparr> []"
    using open_switch [OF start, of 7] by (simp add: begin_transition_def gate_init_def)
  from content_gate_excludes [OF this] show ?thesis by simp
qed

text \<open>
  A resolved limit map is complete and bounded: every key is a default's key and every
  default's key is present; each size, count and timeout is a positive integer (a boolean is
  refused); the default page is at most the largest page, which is at most 100; the warning
  ratio is strictly between zero and one, or not-a-number, which the two comparisons of the
  check let pass; and an overridden key has the caller's value.
\<close>

theorem resolved_limits_are_bounded:
  assumes "resolve_limits ovs = Inr l" and "distinct (map fst ovs)"
  shows "set (map fst l) = set (map fst DEFAULTS) \<and>
    (\<forall>k\<in>set positive_ints. \<exists>n. dget l k = PInt n \<and> 0 < n) \<and>
    limit_of l ''page_size_default'' \<le> limit_of l ''page_size_max'' \<and>
    limit_of l ''page_size_max'' \<le> 100 \<and>
    (dget l ''warning_ratio'' = PFloat FNaN \<or>
     (\<exists>q. dget l ''warning_ratio'' = PFloat (FFin q) \<and> 0 < q \<and> q < 1)) \<and>
    (\<forall>k v. map_of ovs k = Some v \<longrightarrow> dget l k = v)"
proof -
  have ap: "apply_overrides DEFAULTS ovs = Inr l" and ok: "validate_limits l = None"
    using assms(1) by (auto simp: resolve_limits_def split: sum.splits option.splits)
  have bad: "first_bad l positive_ints = None"
    using ok by (auto simp: validate_limits_def split: option.splits)
  have keys: "set (map fst l) = set (map fst DEFAULTS)"
    using apply_overrides_only [OF ap order_refl] apply_overrides_keys [OF ap]
    unfolding has_key_def by blast
  have ratio: "\<not> is_bool (dget l ''warning_ratio'')"
    "isinstance_int (dget l ''warning_ratio'') \<or> is_float (dget l ''warning_ratio'')"
    "\<not> le_zero (dget l ''warning_ratio'')" "\<not> ge_one (dget l ''warning_ratio'')"
    and pages: "limit_of l ''page_size_default'' \<le> limit_of l ''page_size_max''"
    "limit_of l ''page_size_max'' \<le> 100"
    using ok bad by (simp_all add: validate_limits_def limit_of_def split: if_splits)
  have "dget l ''warning_ratio'' = PFloat FNaN \<or>
     (\<exists>q. dget l ''warning_ratio'' = PFloat (FFin q) \<and> 0 < q \<and> q < 1)"
  proof (cases "dget l ''warning_ratio''")
    case (PFloat x)
    then show ?thesis using ratio by (cases x) auto
  qed (use ratio in auto)
  moreover have "dget l k = v" if "map_of ovs k = Some v" for k v
    using apply_overrides_last [OF ap assms(2), of k] that by (simp add: dget_def)
  ultimately show ?thesis
    using keys bad pages by (simp add: first_bad_None)
qed

theorem resolved_limits_are_bounded_witness:
  "\<exists>l. resolve_limits [(''batch_size'', PInt 8)] = Inr l \<and> dget l ''batch_size'' = PInt 8 \<and>
       limit_of l ''page_size_max'' \<le> 100"
proof -
  obtain l where l: "resolve_limits [(''batch_size'', PInt 8)] = Inr l"
    by (simp add: resolve_limits_def DEFAULTS_def has_key_def validate_limits_def
        positive_ints_def)
  have "distinct (map fst [(''batch_size'', PInt 8)])" by simp
  from resolved_limits_are_bounded [OF l this] l show ?thesis by simp
qed

end
