(* ===== verification/Archive_Queue.thy ===== *)
theory Archive_Queue
  imports Archive_Base "HOL-Library.Multiset"
begin

text \<open>
  The contract of the two bounded admission queues of the input archive, the producer's
  (\<open>src/archive/producer.py\<close>) and the collector's (\<open>src/archive/collector.py\<close>): an item is
  appended when both the count and the byte limit leave room, otherwise an urgent item takes
  the place of the first displaceable one, otherwise it is refused; a batch leaves at the
  front. The displacement does not look at the byte limit again, and the contract says so.
\<close>

definition sizes :: "('i \<Rightarrow> nat) \<Rightarrow> 'i list \<Rightarrow> int" where
  "sizes f xs = int (sum_list (map f xs))"

lemma sizes_simps [simp]:
  "sizes f [] = 0" "sizes f (x # xs) = int (f x) + sizes f xs"
  "sizes f (xs @ ys) = sizes f xs + sizes f ys"
  by (simp_all add: sizes_def)

lemma sizes_nonneg [simp]: "0 \<le> sizes f xs"
  by (simp add: sizes_def)

lemma sizes_bound: "\<forall>x\<in>set xs. f x \<le> m \<Longrightarrow> sizes f xs \<le> int (length xs) * int m"
  by (induction xs) (auto simp: algebra_simps)

lemma sizes_take_drop: "sizes f (take n xs) + sizes f (drop n xs) = sizes f xs"
  by (metis append_take_drop_id sizes_simps(3))

lemma first_victim_split:
  "\<exists>x\<in>set xs. P x \<Longrightarrow> \<exists>ys v zs. xs = ys @ v # zs \<and> P v \<and> (\<forall>y\<in>set ys. \<not> P y)"
  using split_list_first_prop [of xs P] by metis

text \<open>\<open>for index, old in enumerate(queue): if P(old): ... pop(index)\<close>, the queue without it and it.\<close>

fun pop_first :: "('i \<Rightarrow> bool) \<Rightarrow> 'i list \<Rightarrow> ('i \<times> 'i list) option" where
  "pop_first P [] = None"
| "pop_first P (x # xs) =
     (if P x then Some (x, xs)
      else case pop_first P xs of None \<Rightarrow> None | Some (v, r) \<Rightarrow> Some (v, x # r))"

lemma pop_first_None: "pop_first P xs = None \<longleftrightarrow> (\<forall>x\<in>set xs. \<not> P x)"
  by (induction xs) (auto split: option.splits)

lemma pop_first_split:
  "\<forall>y\<in>set ys. \<not> P y \<Longrightarrow> P v \<Longrightarrow> pop_first P (ys @ v # zs) = Some (v, ys @ zs)"
  by (induction ys) auto

lemma pop_first_Some:
  "pop_first P xs = Some (v, r) \<Longrightarrow>
   \<exists>ys zs. xs = ys @ v # zs \<and> r = ys @ zs \<and> P v \<and> (\<forall>y\<in>set ys. \<not> P y)"
proof (induction xs arbitrary: v r)
  case (Cons x xs)
  show ?case
  proof (cases "P x")
    case True
    with Cons.prems have "x # xs = [] @ v # r \<and> P v" by simp
    then show ?thesis by (metis append_Nil empty_iff list.set(1))
  next
    case False
    with Cons.prems obtain r' where "pop_first P xs = Some (v, r')" "r = x # r'"
      by (auto split: option.splits)
    with Cons.IH obtain ys zs where
      "xs = ys @ v # zs" "r' = ys @ zs" "P v" "\<forall>y\<in>set ys. \<not> P y" by blast
    then have "x # xs = (x # ys) @ v # zs \<and> r = (x # ys) @ zs \<and> P v \<and>
      (\<forall>y\<in>set (x # ys). \<not> P y)" using False \<open>r = x # r'\<close> by simp
    then show ?thesis by blast
  qed
qed simp

subsection \<open>The contract\<close>

locale bounded_queue =
  fixes contents :: "'s \<Rightarrow> 'i list" and held :: "'s \<Rightarrow> int" and sz :: "'i \<Rightarrow> nat"
    and urgent :: "'i \<Rightarrow> bool" and victim :: "'i \<Rightarrow> bool"
    and cap :: int and capb :: int
    and offer :: "'i \<Rightarrow> 's \<Rightarrow> bool \<times> 's" and leave :: "nat \<Rightarrow> 's \<Rightarrow> 's"
  assumes offer_room:
      "int (length (contents s)) + 1 \<le> cap \<Longrightarrow> held s + int (sz i) \<le> capb \<Longrightarrow>
       fst (offer i s) \<and> contents (snd (offer i s)) = contents s @ [i] \<and>
       held (snd (offer i s)) = held s + int (sz i)"
    and offer_displaces:
      "\<not> (int (length (contents s)) + 1 \<le> cap \<and> held s + int (sz i) \<le> capb) \<Longrightarrow> urgent i \<Longrightarrow>
       contents s = ys @ v # zs \<Longrightarrow> victim v \<Longrightarrow> \<forall>y\<in>set ys. \<not> victim y \<Longrightarrow>
       fst (offer i s) \<and> contents (snd (offer i s)) = ys @ zs @ [i] \<and>
       held (snd (offer i s)) = held s - int (sz v) + int (sz i)"
    and offer_refuses:
      "\<not> (int (length (contents s)) + 1 \<le> cap \<and> held s + int (sz i) \<le> capb) \<Longrightarrow>
       \<not> (urgent i \<and> (\<exists>v\<in>set (contents s). victim v)) \<Longrightarrow>
       \<not> fst (offer i s) \<and> contents (snd (offer i s)) = contents s \<and>
       held (snd (offer i s)) = held s"
    and leave_front:
      "contents (leave n s) = drop n (contents s)"
      "held (leave n s) = held s - sizes sz (take n (contents s))"
begin

lemma offer_cases:
  obtains (room) "int (length (contents s)) + 1 \<le> cap" "held s + int (sz i) \<le> capb"
      "fst (offer i s)" "contents (snd (offer i s)) = contents s @ [i]"
      "held (snd (offer i s)) = held s + int (sz i)"
  | (displaces) ys v zs where
      "urgent i" "contents s = ys @ v # zs" "victim v" "\<forall>y\<in>set ys. \<not> victim y"
      "fst (offer i s)" "contents (snd (offer i s)) = ys @ zs @ [i]"
      "held (snd (offer i s)) = held s - int (sz v) + int (sz i)"
  | (refuses) "\<not> (int (length (contents s)) + 1 \<le> cap \<and> held s + int (sz i) \<le> capb)"
      "\<not> urgent i \<or> (\<forall>v\<in>set (contents s). \<not> victim v)"
      "\<not> fst (offer i s)" "contents (snd (offer i s)) = contents s"
      "held (snd (offer i s)) = held s"
proof -
  consider (a) "int (length (contents s)) + 1 \<le> cap \<and> held s + int (sz i) \<le> capb"
    | (b) "\<not> (int (length (contents s)) + 1 \<le> cap \<and> held s + int (sz i) \<le> capb)"
          "urgent i \<and> (\<exists>v\<in>set (contents s). victim v)"
    | (c) "\<not> (int (length (contents s)) + 1 \<le> cap \<and> held s + int (sz i) \<le> capb)"
          "\<not> (urgent i \<and> (\<exists>v\<in>set (contents s). victim v))"
    by blast
  then show thesis
  proof cases
    case a
    then show thesis using offer_room [of s i] room by blast
  next
    case b
    then obtain ys v zs where sp: "contents s = ys @ v # zs" "victim v" "\<forall>y\<in>set ys. \<not> victim y"
      using first_victim_split [of "contents s" victim] by blast
    then show thesis using displaces b offer_displaces [OF b(1) _ sp] by blast
  next
    case c
    then show thesis using offer_refuses [OF c] refuses by blast
  qed
qed

lemma offer_exact:
  assumes "held s = sizes sz (contents s)"
  shows "held (snd (offer i s)) = sizes sz (contents (snd (offer i s)))"
  using assms by (cases rule: offer_cases [of s i]) auto

lemma leave_exact:
  assumes "held s = sizes sz (contents s)"
  shows "held (leave n s) = sizes sz (contents (leave n s))"
  using assms sizes_take_drop [of sz n "contents s"] by (simp add: leave_front)

lemma offer_count:
  assumes "int (length (contents s)) \<le> cap"
  shows "int (length (contents (snd (offer i s)))) \<le> cap"
  using assms by (cases rule: offer_cases [of s i]) auto

lemma leave_count:
  assumes "int (length (contents s)) \<le> cap"
  shows "int (length (contents (leave n s))) \<le> cap"
  using assms by (simp add: leave_front)

lemma offer_sizes:
  assumes "\<forall>x\<in>set (contents s). sz x \<le> m" and "sz i \<le> m"
  shows "\<forall>x\<in>set (contents (snd (offer i s))). sz x \<le> m"
  using assms by (cases rule: offer_cases [of s i]) auto

lemma leave_sizes:
  assumes "\<forall>x\<in>set (contents s). sz x \<le> m"
  shows "\<forall>x\<in>set (contents (leave n s)). sz x \<le> m"
  using assms by (auto simp: leave_front dest: in_set_dropD)

text \<open>The bytes held are bounded by the count limit and the largest item, not by \<open>capb\<close>.\<close>

lemma held_bound:
  assumes "held s = sizes sz (contents s)" and "int (length (contents s)) \<le> cap"
    and "\<forall>x\<in>set (contents s). sz x \<le> m"
  shows "held s \<le> cap * int m"
proof -
  have "held s \<le> int (length (contents s)) * int m"
    using sizes_bound [OF assms(3)] assms(1) by simp
  also have "\<dots> \<le> cap * int m" using assms(2) by (intro mult_right_mono) auto
  finally show ?thesis .
qed

text \<open>The bytes stay below their limit as long as no urgent item displaces a smaller one.\<close>

lemma offer_bytes:
  assumes "held s \<le> capb"
    and "\<forall>v\<in>set (contents s). victim v \<and> urgent i \<longrightarrow> sz i \<le> sz v"
  shows "held (snd (offer i s)) \<le> capb"
  using assms by (cases rule: offer_cases [of s i]) auto

text \<open>Items that no displacement may take stay, in order; an admitted one joins them last.\<close>

lemma offer_keeps:
  "filter (\<lambda>x. \<not> victim x) (contents (snd (offer i s))) =
   filter (\<lambda>x. \<not> victim x) (contents s) @
     (if fst (offer i s) \<and> \<not> victim i then [i] else [])"
  by (cases rule: offer_cases [of s i]) auto

lemma offer_admitted_last:
  "fst (offer i s) \<Longrightarrow> contents (snd (offer i s)) \<noteq> [] \<and> last (contents (snd (offer i s))) = i"
  by (cases rule: offer_cases [of s i]) auto

lemma offer_urgent_refused:
  "\<not> fst (offer i s) \<Longrightarrow> urgent i \<Longrightarrow> \<forall>v\<in>set (contents s). \<not> victim v"
  by (cases rule: offer_cases [of s i]) auto

lemma offer_mset:
  obtains "fst (offer i s)" "mset (contents (snd (offer i s))) = add_mset i (mset (contents s))"
  | v where "fst (offer i s)" "urgent i" "victim v"
      "add_mset v (mset (contents (snd (offer i s)))) = add_mset i (mset (contents s))"
  | "\<not> fst (offer i s)" "contents (snd (offer i s)) = contents s"
  by (cases rule: offer_cases [of s i]) (auto intro: that)

end

subsection \<open>Putting a batch back\<close>

text \<open>
  The producer's queue also takes a batch back at the front when its transmission failed;
  an item that no longer fits is dropped.
\<close>

locale requeue_queue = bounded_queue +
  fixes put_back :: "'b \<Rightarrow> 'a \<Rightarrow> 'a"
  assumes put_back_room:
      "int (length (contents s)) + 1 \<le> cap \<Longrightarrow> held s + int (sz i) \<le> capb \<Longrightarrow>
       contents (put_back i s) = i # contents s \<and> held (put_back i s) = held s + int (sz i)"
    and put_back_drops:
      "\<not> (int (length (contents s)) + 1 \<le> cap \<and> held s + int (sz i) \<le> capb) \<Longrightarrow>
       contents (put_back i s) = contents s \<and> held (put_back i s) = held s"
begin

lemma put_back_exact:
  "held s = sizes sz (contents s) \<Longrightarrow>
   held (put_back i s) = sizes sz (contents (put_back i s))"
  using put_back_room [of s i] put_back_drops [of s i]
  by (cases "int (length (contents s)) + 1 \<le> cap \<and> held s + int (sz i) \<le> capb") auto

lemma put_back_count:
  "int (length (contents s)) \<le> cap \<Longrightarrow> int (length (contents (put_back i s))) \<le> cap"
  using put_back_room [of s i] put_back_drops [of s i]
  by (cases "int (length (contents s)) + 1 \<le> cap \<and> held s + int (sz i) \<le> capb") auto

lemma put_back_sizes:
  "\<forall>x\<in>set (contents s). sz x \<le> m \<Longrightarrow> sz i \<le> m \<Longrightarrow>
   \<forall>x\<in>set (contents (put_back i s)). sz x \<le> m"
  using put_back_room [of s i] put_back_drops [of s i]
  by (cases "int (length (contents s)) + 1 \<le> cap \<and> held s + int (sz i) \<le> capb") auto

lemma put_back_all:
  "int (length (contents s)) + int (length xs) \<le> cap \<Longrightarrow> held s + sizes sz xs \<le> capb \<Longrightarrow>
   contents (foldr put_back xs s) = xs @ contents s \<and>
   held (foldr put_back xs s) = held s + sizes sz xs"
proof (induction xs)
  case (Cons x xs)
  then have IH: "contents (foldr put_back xs s) = xs @ contents s"
    "held (foldr put_back xs s) = held s + sizes sz xs" by auto
  show ?case
    using put_back_room [of "foldr put_back xs s" x] Cons.prems by (simp add: IH)
qed simp

text \<open>A batch that comes back before anything else happened restores the queue.\<close>

lemma leave_put_back:
  assumes "int (length (contents s)) \<le> cap" and "held s \<le> capb"
  shows "contents (foldr put_back (take n (contents s)) (leave n s)) = contents s"
    and "held (foldr put_back (take n (contents s)) (leave n s)) = held s"
proof -
  let ?b = "take n (contents s)"
  have "int (length (contents (leave n s))) + int (length ?b) \<le> cap"
    using assms(1) by (simp add: leave_front)
  moreover have "held (leave n s) + sizes sz ?b \<le> capb"
    using assms(2) by (simp add: leave_front)
  ultimately show "contents (foldr put_back ?b (leave n s)) = contents s"
    and "held (foldr put_back ?b (leave n s)) = held s"
    using put_back_all [of "leave n s" ?b] by (simp_all add: leave_front)
qed

end

end
