(* ===== verification/Archive_Producer.thy ===== *)
theory Archive_Producer
  imports Archive_Limits Archive_Queue "HOL-Library.Sublist"
begin

text \<open>
  The producer side of the input archive (\<open>src/archive/producer.py\<close>): the owned snapshot and
  its size budget, local validation, the policy cache, the bounded queue with displacement,
  and the sender's drain, transmission and requeue. A reply of the collector is an input of
  the step that reads it, and so is the clock; every method body under the lock is one step.
\<close>

subsection \<open>Snapshot and size budget\<close>

text \<open>\<open>_owned_snapshot\<close>: values nested deeper than eight levels become \<open>None\<close>.\<close>

fun owned_snapshot :: "nat \<Rightarrow> pyval \<Rightarrow> pyval" where
  "owned_snapshot depth (PList xs) =
     (if 8 < depth then PNone else PList (map (owned_snapshot (depth + 1)) xs))"
| "owned_snapshot depth (PDict d) =
     (if 8 < depth then PNone
      else PDict (map (\<lambda>kv. (fst kv, owned_snapshot (depth + 1) (snd kv))) d))"
| "owned_snapshot depth v = (if 8 < depth then PNone else v)"

text \<open>The length of a string in UTF-8; a character of the model is a code point below 256.\<close>

definition utf8_len :: "string \<Rightarrow> int" where
  "utf8_len s = sum_list (map (\<lambda>c. if of_char c < (128::nat) then 1 else 2) s)"

lemma utf8_len_nonneg [simp]: "0 \<le> utf8_len s"
  by (induction s) (auto simp: utf8_len_def)

text \<open>\<open>_budget_bytes\<close>, its accumulator passed along; the loops stop once it passes the limit.\<close>

fun budget :: "int \<Rightarrow> pyval \<Rightarrow> int \<Rightarrow> int"
  and budget_list :: "int \<Rightarrow> pyval list \<Rightarrow> int \<Rightarrow> int"
  and budget_dict :: "int \<Rightarrow> (string \<times> pyval) list \<Rightarrow> int \<Rightarrow> int" where
  "budget lm v acc =
     (if lm < acc then acc
      else case v of
        PStr s \<Rightarrow> acc + utf8_len s
      | PDict d \<Rightarrow> budget_dict lm d acc
      | PList xs \<Rightarrow> budget_list lm xs acc
      | _ \<Rightarrow> acc + 8)"
| "budget_list lm [] acc = acc"
| "budget_list lm (x # xs) acc =
     (if lm < budget lm x acc then budget lm x acc else budget_list lm xs (budget lm x acc))"
| "budget_dict lm [] acc = acc"
| "budget_dict lm ((k, x) # d) acc =
     (if lm < budget lm x (acc + utf8_len k) then budget lm x (acc + utf8_len k)
      else budget_dict lm d (budget lm x (acc + utf8_len k)))"

text \<open>The size the budget stands for, without early returns.\<close>

fun content_size :: "pyval \<Rightarrow> int" where
  "content_size (PStr s) = utf8_len s"
| "content_size (PList xs) = sum_list (map content_size xs)"
| "content_size (PDict d) = sum_list (map (\<lambda>kv. utf8_len (fst kv) + content_size (snd kv)) d)"
| "content_size _ = 8"

lemma sum_list_nonneg_int: "(\<And>x. x \<in> set xs \<Longrightarrow> 0 \<le> f x) \<Longrightarrow> 0 \<le> sum_list (map f xs)"
  for f :: "'a \<Rightarrow> int"
  by (induction xs) auto

lemma content_size_nonneg [simp]: "0 \<le> content_size v"
proof (induction v rule: content_size.induct)
  case (2 xs)
  then show ?case by (simp add: sum_list_nonneg_int)
next
  case (3 d)
  then have "0 \<le> utf8_len (fst kv) + content_size (snd kv)" if "kv \<in> set d" for kv
    using that by (metis add_nonneg_nonneg utf8_len_nonneg)
  then show ?case by (simp only: content_size.simps) (rule sum_list_nonneg_int)
qed auto

lemma content_sum_nonneg [simp]:
  "0 \<le> sum_list (map content_size xs)"
  "0 \<le> sum_list (map (\<lambda>kv. utf8_len (fst kv) + content_size (snd kv)) d)"
  by (rule sum_list_nonneg_int, simp)+

lemma budget_spec:
  fixes v :: pyval and xs :: "pyval list" and d :: "(string \<times> pyval) list" and acc :: int
  shows "acc \<le> lm \<Longrightarrow>
     (acc + content_size v \<le> lm \<longrightarrow> budget lm v acc = acc + content_size v) \<and>
     (lm < acc + content_size v \<longrightarrow> lm < budget lm v acc)"
  and "acc \<le> lm \<Longrightarrow>
     (acc + sum_list (map content_size xs) \<le> lm \<longrightarrow>
        budget_list lm xs acc = acc + sum_list (map content_size xs)) \<and>
     (lm < acc + sum_list (map content_size xs) \<longrightarrow> lm < budget_list lm xs acc)"
  and "acc \<le> lm \<Longrightarrow>
     (acc + sum_list (map (\<lambda>kv. utf8_len (fst kv) + content_size (snd kv)) d) \<le> lm \<longrightarrow>
        budget_dict lm d acc =
          acc + sum_list (map (\<lambda>kv. utf8_len (fst kv) + content_size (snd kv)) d)) \<and>
     (lm < acc + sum_list (map (\<lambda>kv. utf8_len (fst kv) + content_size (snd kv)) d) \<longrightarrow>
        lm < budget_dict lm d acc)"
proof (induction lm v acc and lm xs acc and lm d acc rule: budget_budget_list_budget_dict.induct)
  case (1 lm v acc)
  then show ?case by (cases v) auto
next
  case (3 lm x xs acc)
  show ?case
  proof (cases "acc + content_size x \<le> lm")
    case True
    with 3 have "budget lm x acc = acc + content_size x" by blast
    with True 3 show ?thesis by (simp add: algebra_simps)
  next
    case False
    with 3 have "lm < budget lm x acc" by auto
    moreover have "lm < acc + sum_list (map content_size (x # xs))"
      using False content_sum_nonneg(1) [of xs] by (simp del: content_sum_nonneg)
    ultimately show ?thesis by simp
  qed
next
  case (5 lm k x d acc)
  let ?r = "sum_list (map (\<lambda>kv. utf8_len (fst kv) + content_size (snd kv)) d)"
  have r: "0 \<le> ?r" by (rule content_sum_nonneg(2))
  show ?case
  proof (cases "acc + utf8_len k + content_size x \<le> lm")
    case True
    then have a: "acc + utf8_len k \<le> lm" using content_size_nonneg [of x] by linarith
    with 5 True have b: "budget lm x (acc + utf8_len k) = acc + utf8_len k + content_size x"
      by blast
    with True 5 show ?thesis by (simp add: algebra_simps)
  next
    case False
    have "lm < budget lm x (acc + utf8_len k)"
    proof (cases "acc + utf8_len k \<le> lm")
      case True
      with 5 False show ?thesis by auto
    next
      case False
      then show ?thesis by simp
    qed
    moreover have "lm < acc + (utf8_len k + content_size x + ?r)"
      using False r by linarith
    ultimately show ?thesis by simp
  qed
qed auto

text \<open>The budget in closed form: exact up to the limit, above the limit exactly when the size is.\<close>

lemma budget_exact:
  assumes "0 \<le> lm"
  shows "lm < budget lm v 0 \<longleftrightarrow> lm < content_size v"
    and "content_size v \<le> lm \<Longrightarrow> budget lm v 0 = content_size v"
  using budget_spec(1) [of 0 lm v] assms by auto

subsection \<open>Local validation\<close>

definition HIGH_KINDS :: "string list" where
  "HIGH_KINDS =
    [''start'', ''commit_attempt'', ''raw_finalization'', ''cancellation'',
     ''unavailable_client'', ''unknown_outcome'', ''loss_notice'', ''exclusion_notice'',
     ''provenance'']"

definition high_kind :: "string \<Rightarrow> bool" where
  "high_kind k \<longleftrightarrow> k \<in> set HIGH_KINDS"

definition locally_invalid :: "pyval \<Rightarrow> bool" where
  "locally_invalid v =
     (if \<not> is_dict v then True
      else let s = dict_of_val v in
        if safe_token (dget s ''source_instance_id'') = None then True
        else if safe_token (dget s ''process_id'') = None then True
        else if \<not> has_key s ''source_local_sequence'' then True
        else if is_bool (dget s ''source_local_sequence'') \<or>
                \<not> isinstance_int (dget s ''source_local_sequence'') \<or>
                int_of_val (dget s ''source_local_sequence'') < 0 then True
        else if \<not> is_str (dget s ''observation_kind'') \<or> dget s ''observation_kind'' = PStr ''''
        then True
        else False)"

lemma valid_kind: "\<not> locally_invalid (PDict s) \<Longrightarrow> \<exists>k. dget s ''observation_kind'' = PStr k \<and> k \<noteq> []"
  by (cases "dget s ''observation_kind''") (auto simp: locally_invalid_def Let_def split: if_splits)

subsection \<open>State\<close>

record p_item =
  p_seq :: int
  p_kind :: string
  p_high :: bool
  p_snapshot :: pydict
  p_size :: nat

record producer =
  source_id :: string
  queue :: "p_item list"
  queued_bytes :: int
  capture_seq :: int
  known_refused :: int
  known_dropped :: int
  local_losses :: "pydict list"
  observed_revision :: pyval
  observed_desired :: pyval
  observed_at :: "rat option"
  collector_unavailable :: bool
  last_poll :: "rat option"

definition producer_init :: "string \<Rightarrow> producer" where
  "producer_init src =
     \<lparr>source_id = src, queue = [], queued_bytes = 0, capture_seq = 0, known_refused = 0,
      known_dropped = 0, local_losses = [], observed_revision = PNone,
      observed_desired = PNone, observed_at = None, collector_unavailable = True,
      last_poll = None\<rparr>"

record admission =
  a_admitted :: bool
  a_code :: string
  a_seq :: "int option"
  a_high :: bool

definition refusal :: "string \<Rightarrow> admission" where
  "refusal code = \<lparr>a_admitted = False, a_code = code, a_seq = None, a_high = False\<rparr>"

definition admission_as_dict :: "admission \<Rightarrow> pydict" where
  "admission_as_dict a =
     [(''admitted'', PBool (a_admitted a)), (''code'', PStr (a_code a)),
      (''capture_seq'', case a_seq a of None \<Rightarrow> PNone | Some n \<Rightarrow> PInt n),
      (''durable'', PBool False), (''priority'', PStr (if a_high a then ''high'' else ''low'')),
      (''interface_version'', PStr ''input-archive-v1''), (''content_included'', PBool False)]"

definition cache_fresh :: "pydict \<Rightarrow> rat \<Rightarrow> producer \<Rightarrow> bool" where
  "cache_fresh l now s =
     (case observed_at s of
        None \<Rightarrow> False
      | Some t \<Rightarrow> observed_revision s \<noteq> PNone \<and>
                 now - t \<le> of_int (limit_of l ''freshness_window_ms'') / 1000)"

definition local_status :: "pydict \<Rightarrow> rat \<Rightarrow> producer \<Rightarrow> pydict" where
  "local_status l now s =
     [(''interface_version'', PStr ''input-archive-v1''),
      (''source_instance_id'', PStr (source_id s)),
      (''observed_revision'', observed_revision s), (''observed_desired'', observed_desired s),
      (''fresh'', PBool (cache_fresh l now s)),
      (''collector_unavailable'', PBool (collector_unavailable s)),
      (''queued'', PInt (int (length (queue s)))),
      (''known_refused'', PInt (known_refused s)), (''known_dropped'', PInt (known_dropped s)),
      (''content_included'', PBool False)]"

subsection \<open>The queue\<close>

definition p_fits :: "pydict \<Rightarrow> nat \<Rightarrow> producer \<Rightarrow> bool" where
  "p_fits l n s \<longleftrightarrow>
     int (length (queue s)) + 1 \<le> limit_of l ''producer_queue_count'' \<and>
     queued_bytes s + int n \<le> limit_of l ''producer_queue_bytes''"

definition loss_notice :: "producer \<Rightarrow> p_item \<Rightarrow> string \<Rightarrow> pydict" where
  "loss_notice s i reason =
     [(''observation_kind'', PStr ''loss_notice''),
      (''source_instance_id'', py_or (dget (p_snapshot i) ''source_instance_id'') (PStr (source_id s))),
      (''source_local_sequence'', dget (p_snapshot i) ''source_local_sequence''),
      (''process_id'', dget (p_snapshot i) ''process_id''),
      (''dropped_kind'', PStr (p_kind i)),
      (''reason'', PStr reason),
      (''payload'', PNone),
      (''schema_id'', PStr ''unknown''),
      (''envelope_version'', PInt ENVELOPE_VERSION),
      (''content_version'', PInt CONTENT_VERSION)]"

text \<open>\<open>self._local_losses[-64:]\<close> once there are more than 64.\<close>

definition remember_loss :: "p_item \<Rightarrow> string \<Rightarrow> producer \<Rightarrow> producer" where
  "remember_loss i reason s =
     (let ls = local_losses s @ [loss_notice s i reason] in
      s\<lparr>local_losses := (if 64 < length ls then drop (length ls - 64) ls else ls)\<rparr>)"

text \<open>\<open>_drop_locked\<close> on the queue without the item \<open>v\<close> that was popped.\<close>

definition p_drop :: "p_item \<Rightarrow> p_item list \<Rightarrow> producer \<Rightarrow> producer" where
  "p_drop v rest s =
     remember_loss v ''displaced_for_priority''
       (s\<lparr>queue := rest, queued_bytes := queued_bytes s - int (p_size v),
          known_dropped := known_dropped s + 1\<rparr>)"

definition p_append :: "p_item \<Rightarrow> producer \<Rightarrow> producer" where
  "p_append i s = s\<lparr>queue := queue s @ [i], queued_bytes := queued_bytes s + int (p_size i)\<rparr>"

definition p_offer :: "pydict \<Rightarrow> p_item \<Rightarrow> producer \<Rightarrow> bool \<times> producer" where
  "p_offer l i s =
     (if p_fits l (p_size i) s then (True, p_append i s)
      else case (if p_high i then pop_first (\<lambda>j. \<not> p_high j) (queue s) else None) of
        Some (v, rest) \<Rightarrow> (True, p_append i (p_drop v rest s))
      | None \<Rightarrow>
          (False, remember_loss i ''queue_saturated'' (s\<lparr>known_refused := known_refused s + 1\<rparr>)))"

definition p_enqueue :: "pydict \<Rightarrow> pydict \<Rightarrow> string \<Rightarrow> nat \<Rightarrow> producer \<Rightarrow> admission \<times> producer" where
  "p_enqueue l snap kind n s =
     (let seq = capture_seq s + 1;
          i = \<lparr>p_seq = seq, p_kind = kind, p_high = high_kind kind, p_snapshot = snap, p_size = n\<rparr>;
          r = p_offer l i (s\<lparr>capture_seq := seq\<rparr>)
      in (\<lparr>a_admitted = fst r, a_code = (if fst r then ''admitted'' else ''queue_saturated''),
           a_seq = Some seq, a_high = high_kind kind\<rparr>, snd r))"

definition p_take :: "nat \<Rightarrow> producer \<Rightarrow> producer" where
  "p_take n s =
     s\<lparr>queue := drop n (queue s),
       queued_bytes := queued_bytes s - sizes p_size (take n (queue s))\<rparr>"

text \<open>\<open>_drain\<close>: the batch, the losses, the state without both.\<close>

definition p_drain :: "nat \<Rightarrow> producer \<Rightarrow> p_item list \<times> pydict list \<times> producer" where
  "p_drain n s = (take n (queue s), local_losses s, (p_take n s)\<lparr>local_losses := []\<rparr>)"

definition p_put_back :: "pydict \<Rightarrow> p_item \<Rightarrow> producer \<Rightarrow> producer" where
  "p_put_back l i s =
     (if p_fits l (p_size i) s
      then s\<lparr>queue := i # queue s, queued_bytes := queued_bytes s + int (p_size i)\<rparr>
      else remember_loss i ''requeue_saturated'' (s\<lparr>known_dropped := known_dropped s + 1\<rparr>))"

text \<open>\<open>_requeue\<close>: \<open>for item in reversed(items)\<close>.\<close>

definition p_requeue :: "pydict \<Rightarrow> p_item list \<Rightarrow> producer \<Rightarrow> producer" where
  "p_requeue l items s = foldr (p_put_back l) items s"

subsection \<open>Admission\<close>

definition exclusion_notice :: "producer \<Rightarrow> pydict \<Rightarrow> pydict" where
  "exclusion_notice s snap =
     [(''envelope_version'', PInt ENVELOPE_VERSION),
      (''content_version'', PInt CONTENT_VERSION),
      (''source_instance_id'', py_or (dget snap ''source_instance_id'') (PStr (source_id s))),
      (''source_local_sequence'', dget snap ''source_local_sequence''),
      (''observation_kind'', PStr ''exclusion_notice''),
      (''process_id'', dget snap ''process_id''),
      (''schema_id'', PStr ''unknown''),
      (''reason'', PStr ''deliberate_exclusion''),
      (''eligibility'', PStr ''excluded''),
      (''payload'', PNone)]"

definition budget_of :: "pydict \<Rightarrow> int" where
  "budget_of d = budget 1000000 (PDict d) 0"

definition is_excluded :: "pydict \<Rightarrow> bool" where
  "is_excluded d \<longleftrightarrow> eq_str (dget d ''eligibility'') ''excluded'' \<or> dget d ''excluded'' = PBool True"

definition refuse_invalid :: "producer \<Rightarrow> admission outcome \<times> producer" where
  "refuse_invalid s =
     (Value (refusal ''invalid_request''), s\<lparr>known_refused := known_refused s + 1\<rparr>)"

text \<open>
  \<open>admit\<close>. The clock reading \<open>now\<close> is taken inside the call. The last test hashes the cached
  policy word, which is whatever the collector replied.
\<close>

definition admit :: "pydict \<Rightarrow> rat \<Rightarrow> pyval \<Rightarrow> producer \<Rightarrow> admission outcome \<times> producer" where
  "admit l now obs s =
     (if \<not> is_dict obs then (Value (refusal ''invalid_request''), s)
      else if \<not> eq_int (dget_or (dict_of_val obs) ''envelope_version'' (PInt ENVELOPE_VERSION)) ENVELOPE_VERSION \<or>
              \<not> eq_int (dget_or (dict_of_val obs) ''content_version'' (PInt CONTENT_VERSION)) CONTENT_VERSION
      then (Value (refusal ''unsupported_version''), s)
      else let snap = owned_snapshot 0 obs; d = dict_of_val snap;
               acc = budget (limit_of l ''max_event_bytes'') snap 0 in
        if \<not> is_dict snap then (Value (refusal ''invalid_request''), s)
        else if limit_of l ''max_event_bytes'' < acc
        then (Value (refusal ''event_too_large''), s\<lparr>known_refused := known_refused s + 1\<rparr>)
        else if locally_invalid snap then refuse_invalid s
        else if is_excluded d then
          (let notice = exclusion_notice s d in
           if locally_invalid (PDict notice) then refuse_invalid s
           else let r = p_enqueue l notice ''exclusion_notice'' (nat (budget_of notice)) s
                in (Value (fst r), snd r))
        else if \<not> eq_str (dget d ''observation_kind'') ''loss_notice'' \<and>
                \<not> str_in (dget_or d ''schema_id'' (PStr ''unknown'')) [SUPPORTED_SCHEMA, ''unknown'']
        then (Value (refusal ''unsupported_schema''), s)
        else if \<not> cache_fresh l now s \<or> \<not> eq_str (observed_desired s) ''enabled'' then
          (if cache_fresh l now s \<and> \<not> is_hashable (observed_desired s) then (Raised ''TypeError'', s)
           else (Value (refusal
                   (if cache_fresh l now s \<and> str_in (observed_desired s) [''off'', ''paused'']
                    then ''capture_disabled'' else ''policy_not_effective'')), s))
        else let r = p_enqueue l d
                       (str_of_val (py_or (dget d ''observation_kind'') (PStr ''unknown_outcome'')))
                       (nat acc) s
             in (Value (fst r), snd r))"

subsection \<open>The sender\<close>

text \<open>
  \<open>(d.get(k) or {})\<close> of a reply, used as a dictionary: any other true value has no \<open>get\<close> and
  raises AttributeError, which ends the sender thread.
\<close>

definition sub_dict :: "pydict \<Rightarrow> string \<Rightarrow> pydict outcome" where
  "sub_dict d k =
     (case py_or (dget d k) (PDict []) of PDict x \<Rightarrow> Value x | _ \<Rightarrow> Raised ''AttributeError'')"

definition poll_policy ::
  "pydict \<Rightarrow> rat \<Rightarrow> rat \<Rightarrow> pydict \<Rightarrow> producer \<Rightarrow> unit outcome \<times> producer" where
  "poll_policy l now0 now1 resp s =
     (if (case last_poll s of None \<Rightarrow> False
          | Some t \<Rightarrow> now0 - t < of_int (limit_of l ''heartbeat_interval_ms'') / 1000)
      then (Value (), s)
      else let s = s\<lparr>last_poll := Some now0\<rparr> in
        if \<not> truthy (dget resp ''ok'') then (Value (), s\<lparr>collector_unavailable := True\<rparr>)
        else case sub_dict resp ''body'' of
          Value body \<Rightarrow>
            (Value (), s\<lparr>collector_unavailable := False,
                         observed_revision := dget body ''desired_revision'',
                         observed_desired := dget body ''desired_policy'',
                         observed_at := Some now1\<rparr>)
        | Refused c \<Rightarrow> (Refused c, s)
        | Raised e \<Rightarrow> (Raised e, s))"

definition ACCOUNTED_RESULTS :: "string list" where
  "ACCOUNTED_RESULTS =
    [''admitted'', ''duplicate'', ''identity_conflict'', ''queue_saturated'',
     ''capture_disabled'', ''capacity_stop'', ''storage_failure'', ''event_too_large'',
     ''unsupported_version'', ''unsupported_schema'', ''unsupported_plugin_observation'',
     ''unsupported_daemon_observation'', ''invalid_request'', ''excluded'']"

definition note_unaccounted :: "pydict \<Rightarrow> nat \<Rightarrow> producer \<Rightarrow> unit outcome \<times> producer" where
  "note_unaccounted resp cnt s =
     (case sub_dict resp ''body'' of
        Raised e \<Rightarrow> (Raised e, s)
      | Refused c \<Rightarrow> (Refused c, s)
      | Value body \<Rightarrow>
          if \<not> is_list (dget body ''codes'')
          then (Value (), s\<lparr>known_refused := known_refused s + int cnt\<rparr>)
          else let codes = list_of_val (dget body ''codes'') in
            if \<not> list_all is_hashable codes then (Raised ''TypeError'', s)
            else (Value (), s\<lparr>known_refused := known_refused s
                    + max 0 (int cnt - int (length codes))
                    + int (length (filter (\<lambda>c. \<not> str_in c ACCOUNTED_RESULTS) codes))\<rparr>))"

text \<open>\<open>_send_batch\<close>: true when the batch was handed over and must not be put back.\<close>

definition send_batch :: "pydict \<Rightarrow> nat \<Rightarrow> producer \<Rightarrow> bool outcome \<times> producer" where
  "send_batch resp cnt s =
     (case (if truthy (dget resp ''ok'') then Value []
            else sub_dict resp ''error'') of
        Raised e \<Rightarrow> (Raised e, s)
      | Refused c \<Rightarrow> (Refused c, s)
      | Value err \<Rightarrow>
          if \<not> truthy (dget resp ''ok'') \<and> eq_str (dget err ''code'') ''collector_unavailable''
          then (Value False, s\<lparr>collector_unavailable := True\<rparr>)
          else let r = note_unaccounted resp cnt s in
            (case fst r of Value _ \<Rightarrow> (Value True, snd r)
             | Refused c \<Rightarrow> (Refused c, snd r) | Raised e \<Rightarrow> (Raised e, snd r)))"

text \<open>
  One turn of \<open>_sender_loop\<close> with the replies to its calls. \<open>_send_losses\<close> reads nothing of
  its reply, so the losses are an output of the turn.
\<close>

definition sender_turn ::
  "pydict \<Rightarrow> rat \<Rightarrow> rat \<Rightarrow> pydict \<Rightarrow> pydict \<Rightarrow> producer \<Rightarrow> bool outcome \<times> pydict list \<times> producer"
  where
  "sender_turn l now0 now1 poll_resp send_resp s =
     (case poll_policy l now0 now1 poll_resp s of
        (Raised e, s1) \<Rightarrow> (Raised e, [], s1)
      | (Refused c, s1) \<Rightarrow> (Refused c, [], s1)
      | (Value _, s1) \<Rightarrow>
          (case p_drain (nat (limit_of l ''batch_size'')) s1 of
             (batch, losses, s2) \<Rightarrow>
               if batch = [] then (Value True, losses, s2)
               else (case send_batch send_resp (length batch) s2 of
                 (Value True, s3) \<Rightarrow> (Value True, losses, s3)
               | (Value False, s3) \<Rightarrow> (Value False, losses, p_requeue l batch s3)
               | (r, s3) \<Rightarrow> (r, losses, s3))))"

subsection \<open>The queue's contract\<close>

lemma remember_loss_frame [simp]:
  "queue (remember_loss i r s) = queue s" "queued_bytes (remember_loss i r s) = queued_bytes s"
  "capture_seq (remember_loss i r s) = capture_seq s"
  "known_refused (remember_loss i r s) = known_refused s"
  "known_dropped (remember_loss i r s) = known_dropped s"
  "observed_desired (remember_loss i r s) = observed_desired s"
  by (simp_all add: remember_loss_def Let_def)

lemmas p_queue_defs = p_offer_def p_append_def p_drop_def p_fits_def p_take_def p_put_back_def

lemma p_offer_displaces:
  assumes "\<not> p_fits l (p_size i) s" and "p_high i" and "queue s = ys @ v # zs"
    and "\<not> p_high v" and "\<forall>y\<in>set ys. p_high y"
  shows "p_offer l i s = (True, p_append i (p_drop v (ys @ zs) s))"
proof -
  have "pop_first (\<lambda>j. \<not> p_high j) (queue s) = Some (v, ys @ zs)"
    unfolding assms(3) by (rule pop_first_split) (use assms in auto)
  then show ?thesis using assms by (simp add: p_offer_def)
qed

lemma p_offer_refuses:
  assumes "\<not> p_fits l (p_size i) s" and "\<not> (p_high i \<and> (\<exists>v\<in>set (queue s). \<not> p_high v))"
  shows "p_offer l i s =
    (False, remember_loss i ''queue_saturated'' (s\<lparr>known_refused := known_refused s + 1\<rparr>))"
proof -
  have "(if p_high i then pop_first (\<lambda>j. \<not> p_high j) (queue s) else None) = None"
    using assms(2) by (auto simp: pop_first_None)
  then show ?thesis using assms(1) by (simp add: p_offer_def)
qed

interpretation pq: requeue_queue queue queued_bytes p_size p_high "\<lambda>i. \<not> p_high i"
  "limit_of l ''producer_queue_count''" "limit_of l ''producer_queue_bytes''"
  "p_offer l" p_take "p_put_back l" for l :: pydict
proof unfold_locales
  fix s :: producer and i v :: p_item and ys zs :: "p_item list"
  assume a: "\<not> (int (length (queue s)) + 1 \<le> limit_of l ''producer_queue_count'' \<and>
    queued_bytes s + int (p_size i) \<le> limit_of l ''producer_queue_bytes'')"
  then have nf: "\<not> p_fits l (p_size i) s" by (simp add: p_fits_def)
  { assume "p_high i" "queue s = ys @ v # zs" "\<not> p_high v" "\<forall>y\<in>set ys. \<not> \<not> p_high y"
    then show "fst (p_offer l i s) \<and> queue (snd (p_offer l i s)) = ys @ zs @ [i] \<and>
      queued_bytes (snd (p_offer l i s)) = queued_bytes s - int (p_size v) + int (p_size i)"
      using p_offer_displaces [OF nf] by (simp add: p_append_def p_drop_def) }
  { assume "\<not> (p_high i \<and> (\<exists>v\<in>set (queue s). \<not> p_high v))"
    then show "\<not> fst (p_offer l i s) \<and> queue (snd (p_offer l i s)) = queue s \<and>
      queued_bytes (snd (p_offer l i s)) = queued_bytes s"
      using p_offer_refuses [OF nf] by simp }
  show "queue (p_put_back l i s) = queue s \<and> queued_bytes (p_put_back l i s) = queued_bytes s"
    using a by (simp add: p_put_back_def p_fits_def)
qed (simp_all add: p_queue_defs)

subsection \<open>Counting and order\<close>

lemma p_offer_counts:
  "int (length (queue (snd (p_offer l i s)))) + known_dropped (snd (p_offer l i s)) +
     (if fst (p_offer l i s) then 0 else 1) = int (length (queue s)) + known_dropped s + 1"
  "known_refused (snd (p_offer l i s)) =
     known_refused s + (if fst (p_offer l i s) then 0 else 1)"
  "capture_seq (snd (p_offer l i s)) = capture_seq s"
  "known_dropped s \<le> known_dropped (snd (p_offer l i s))"
  by (auto simp: p_offer_def p_append_def p_drop_def split: option.splits dest!: pop_first_Some)

lemma subseq_drop_one: "subseq (ys @ zs) (ys @ v # zs)"
  by (rule list_emb_append_mono) (simp_all add: list_emb_Cons)

lemma p_offer_subseq:
  "\<exists>q. subseq q (queue s) \<and>
       queue (snd (p_offer l i s)) = (if fst (p_offer l i s) then q @ [i] else queue s)"
proof (cases rule: pq.offer_cases [where s = s and i = i and l = l])
  case room
  then have "subseq (queue s) (queue s) \<and>
    queue (snd (p_offer l i s)) = (if fst (p_offer l i s) then queue s @ [i] else queue s)" by simp
  then show ?thesis by blast
next
  case (displaces ys v zs)
  then have "subseq (ys @ zs) (queue s) \<and>
    queue (snd (p_offer l i s)) = (if fst (p_offer l i s) then (ys @ zs) @ [i] else queue s)"
    using subseq_drop_one [of ys zs v] by simp
  then show ?thesis by blast
qed auto

lemma p_put_back_counts:
  "int (length (queue (p_put_back l i s))) + known_dropped (p_put_back l i s) =
     int (length (queue s)) + known_dropped s + 1"
  "known_refused (p_put_back l i s) = known_refused s"
  "capture_seq (p_put_back l i s) = capture_seq s"
  by (auto simp: p_put_back_def)

lemma p_requeue_counts:
  "int (length (queue (p_requeue l xs s))) + known_dropped (p_requeue l xs s) =
     int (length (queue s)) + known_dropped s + int (length xs)"
  "known_refused (p_requeue l xs s) = known_refused s"
  "capture_seq (p_requeue l xs s) = capture_seq s"
proof (induction xs)
  case (Cons x xs)
  { case 1 show ?case using Cons(1) p_put_back_counts(1) [of l x "p_requeue l xs s"]
      by (simp add: p_requeue_def)
  next
    case 2 show ?case using Cons(2) by (simp add: p_requeue_def p_put_back_counts)
  next
    case 3 show ?case using Cons(3) by (simp add: p_requeue_def p_put_back_counts) }
qed (simp_all add: p_requeue_def)

lemma p_requeue_subseq: "\<exists>q. subseq q xs \<and> queue (p_requeue l xs s) = q @ queue s"
proof (induction xs)
  case (Cons x xs)
  then obtain q where q: "subseq q xs" "queue (p_requeue l xs s) = q @ queue s" by blast
  show ?case
  proof (cases "p_fits l (p_size x) (p_requeue l xs s)")
    case True
    then have "subseq (x # q) (x # xs) \<and> queue (p_requeue l (x # xs) s) = (x # q) @ queue s"
      using q by (simp add: p_requeue_def p_put_back_def)
    then show ?thesis by blast
  next
    case False
    then have "queue (p_requeue l (x # xs) s) = q @ queue s"
      using q by (simp add: p_requeue_def p_put_back_def)
    moreover have "subseq q (x # xs)" using q(1) by (rule list_emb_Cons)
    ultimately show ?thesis by blast
  qed
qed (simp add: p_requeue_def)

lemma subseq_set: "subseq xs ys \<Longrightarrow> set xs \<subseteq> set ys"
proof
  fix x assume "subseq xs ys" and "x \<in> set xs"
  then obtain y where "y \<in> set ys" "x = y" by (rule list_emb_set)
  then show "x \<in> set ys" by simp
qed

lemma sorted_wrt_subseq:
  "subseq xs ys \<Longrightarrow> sorted_wrt R (map f ys) \<Longrightarrow> sorted_wrt R (map f xs)"
proof (induction ys arbitrary: xs)
  case (Cons y ys)
  show ?case
  proof (cases "subseq xs ys")
    case True
    then show ?thesis using Cons by simp
  next
    case False
    then obtain xs' where "xs = y # xs'" "subseq xs' ys"
      using Cons.prems(1) by (cases xs) (simp_all add: subseq_Cons2_iff split: if_splits)
    moreover from this have "set xs' \<subseteq> set ys" by (intro subseq_set)
    ultimately show ?thesis using Cons.IH [of xs'] Cons.prems(2) by auto
  qed
qed (auto dest: list_emb_Nil2)

subsection \<open>The producer and its sender\<close>

text \<open>
  The admitting threads and the sender thread interleave. Beside the producer's state: the
  batch the sender holds between its drain and its reply, and as ghosts the number of
  observations handed over and the number refused for saturation.
\<close>

inductive psys :: "pydict \<Rightarrow> producer \<Rightarrow> p_item list \<Rightarrow> int \<Rightarrow> int \<Rightarrow> bool" for l where
  start: "psys l (producer_init src) [] 0 0"
| admits: "psys l s fl d r \<Longrightarrow> admit l now obs s = (Value a, s') \<Longrightarrow>
    psys l s' fl d (if a_code a = ''queue_saturated'' then r + 1 else r)"
| polls: "psys l s fl d r \<Longrightarrow> psys l (snd (poll_policy l t0 t1 resp s)) fl d r"
| drains: "psys l s [] d r \<Longrightarrow>
    psys l (snd (snd (p_drain (nat (limit_of l ''batch_size'')) s)))
      (fst (p_drain (nat (limit_of l ''batch_size'')) s)) d r"
| sends: "psys l s fl d r \<Longrightarrow> fst (send_batch resp (length fl) s) = Value True \<Longrightarrow>
    psys l (snd (send_batch resp (length fl) s)) [] (d + int (length fl)) r"
| fails: "psys l s fl d r \<Longrightarrow> fst (send_batch resp (length fl) s) = Value False \<Longrightarrow>
    psys l (snd (send_batch resp (length fl) s)) fl d r"
| requeues: "psys l s fl d r \<Longrightarrow> psys l (p_requeue l fl s) [] d r"

text \<open>What a queued item's snapshot may be: content, or an exclusion without its payload.\<close>

definition item_ok :: "p_item \<Rightarrow> bool" where
  "item_ok i \<longleftrightarrow>
     (is_excluded (p_snapshot i) \<longrightarrow>
        p_kind i = ''exclusion_notice'' \<and> dget (p_snapshot i) ''payload'' = PNone \<and>
        dget (p_snapshot i) ''schema_id'' = PStr ''unknown'')"

declare budget.simps [simp del]

lemma refusal_simps [simp]:
  "\<not> a_admitted (refusal c)" "a_code (refusal c) = c"
  by (simp_all add: refusal_def)

lemma admit_cases:
  assumes "admit l now obs s = (Value a, s')"
  obtains (refused) "\<not> a_admitted a" "a_code a \<noteq> ''queue_saturated''"
      "s' = s \<or> s' = s\<lparr>known_refused := known_refused s + 1\<rparr>"
  | (notice) n where "is_excluded (dict_of_val (owned_snapshot 0 obs))"
      "p_enqueue l (exclusion_notice s (dict_of_val (owned_snapshot 0 obs)))
         ''exclusion_notice'' n s = (a, s')"
  | (content) n k where "\<not> is_excluded (dict_of_val (owned_snapshot 0 obs))"
      "cache_fresh l now s" "observed_desired s = PStr ''enabled''"
      "p_enqueue l (dict_of_val (owned_snapshot 0 obs)) k n s = (a, s')"
proof -
  let ?d = "dict_of_val (owned_snapshot 0 obs)"
  let ?acc = "budget (limit_of l ''max_event_bytes'') (owned_snapshot 0 obs) 0"
  let ?q = "p_enqueue l (exclusion_notice s ?d) ''exclusion_notice''
       (nat (budget_of (exclusion_notice s ?d))) s"
  let ?p = "p_enqueue l ?d
       (str_of_val (py_or (dget ?d ''observation_kind'') (PStr ''unknown_outcome''))) (nat ?acc) s"
  have sel: "(if b then x else y) = z \<Longrightarrow> (b \<Longrightarrow> x = z \<Longrightarrow> P) \<Longrightarrow> (\<not> b \<Longrightarrow> y = z \<Longrightarrow> P) \<Longrightarrow> P"
    for b P and x y z :: "admission outcome \<times> producer"
    by (cases b) auto
  have ref: "(Value (refusal c), t) = (Value a, s') \<Longrightarrow> c \<noteq> ''queue_saturated'' \<Longrightarrow>
      t = s \<or> t = s\<lparr>known_refused := known_refused s + 1\<rparr> \<Longrightarrow> thesis" for c t
    by (intro refused) auto
  have enq: "(Value (fst r), snd r) = (Value a, s') \<Longrightarrow> r = (a, s')" for r :: "admission \<times> producer"
    by (cases r) auto
  from assms show thesis
    unfolding admit_def Let_def refuse_invalid_def
  proof (elim sel)
    assume "is_excluded ?d" "(Value (fst ?q), snd ?q) = (Value a, s')"
    then show thesis using notice enq by blast
  next
    assume "\<not> is_excluded ?d" "(Value (fst ?p), snd ?p) = (Value a, s')"
      "\<not> (\<not> cache_fresh l now s \<or> \<not> eq_str (observed_desired s) ''enabled'')"
    then show thesis using content [OF _ _ _ enq [of ?p]] by (simp add: eq_str_def)
  next
    assume "(Raised ''TypeError'', s) = (Value a, s')"
    then show thesis by simp
  qed (rule ref, assumption, simp, simp)+
qed

lemma admit_raises: "admit l now obs s = (x, s') \<Longrightarrow> (\<nexists>a. x = Value a) \<Longrightarrow> s' = s"
  by (auto simp: admit_def refuse_invalid_def Let_def split: if_splits)

lemma p_enqueue_spec:
  assumes "(a, s') = p_enqueue l d k n s"
  shows "a_seq a = Some (capture_seq s + 1)"
    and "capture_seq s' = capture_seq s + 1"
    and "a_code a = (if a_admitted a then ''admitted'' else ''queue_saturated'')"
    and "int (length (queue s')) + known_dropped s' + (if a_admitted a then 0 else 1) =
      int (length (queue s)) + known_dropped s + 1"
    and "known_refused s' = known_refused s + (if a_admitted a then 0 else 1)"
    and "\<exists>q. subseq q (queue s) \<and> queue s' =
      (if a_admitted a then q @ [\<lparr>p_seq = capture_seq s + 1, p_kind = k,
         p_high = high_kind k, p_snapshot = d, p_size = n\<rparr>] else queue s)"
    and "queued_bytes s = sizes p_size (queue s) \<Longrightarrow> queued_bytes s' = sizes p_size (queue s')"
    and "int (length (queue s)) \<le> limit_of l ''producer_queue_count'' \<Longrightarrow>
      int (length (queue s')) \<le> limit_of l ''producer_queue_count''"
proof -
  let ?i = "\<lparr>p_seq = capture_seq s + 1, p_kind = k, p_high = high_kind k, p_snapshot = d,
    p_size = n\<rparr>"
  let ?s = "s\<lparr>capture_seq := capture_seq s + 1\<rparr>"
  have a: "a_admitted a = fst (p_offer l ?i ?s)" "s' = snd (p_offer l ?i ?s)"
    "a_seq a = Some (capture_seq s + 1)"
    "a_code a = (if a_admitted a then ''admitted'' else ''queue_saturated'')"
    using assms by (simp_all add: p_enqueue_def Let_def)
  have qs: "queue ?s = queue s" by simp
  show "a_seq a = Some (capture_seq s + 1)"
    and "a_code a = (if a_admitted a then ''admitted'' else ''queue_saturated'')" by (fact a)+
  show "capture_seq s' = capture_seq s + 1" using a p_offer_counts(3) [of l ?i ?s] by simp
  show "int (length (queue s')) + known_dropped s' + (if a_admitted a then 0 else 1) =
      int (length (queue s)) + known_dropped s + 1"
    using a p_offer_counts(1) [of l ?i ?s] by simp
  show "known_refused s' = known_refused s + (if a_admitted a then 0 else 1)"
    using a p_offer_counts(2) [of l ?i ?s] by simp
  show "\<exists>q. subseq q (queue s) \<and> queue s' = (if a_admitted a then q @ [?i] else queue s)"
    using p_offer_subseq [of ?s l ?i] unfolding a(1,2) qs .
  show "queued_bytes s = sizes p_size (queue s) \<Longrightarrow> queued_bytes s' = sizes p_size (queue s')"
    using a pq.offer_exact [of ?s l ?i] by simp
  show "int (length (queue s)) \<le> limit_of l ''producer_queue_count'' \<Longrightarrow>
      int (length (queue s')) \<le> limit_of l ''producer_queue_count''"
    using a pq.offer_count [of ?s l ?i] by simp
qed

lemma poll_policy_frame:
  "queue (snd (poll_policy l t0 t1 resp s)) = queue s"
  "queued_bytes (snd (poll_policy l t0 t1 resp s)) = queued_bytes s"
  "capture_seq (snd (poll_policy l t0 t1 resp s)) = capture_seq s"
  "known_refused (snd (poll_policy l t0 t1 resp s)) = known_refused s"
  "known_dropped (snd (poll_policy l t0 t1 resp s)) = known_dropped s"
  by (simp_all add: poll_policy_def Let_def split: outcome.split option.split)

lemma send_batch_frame:
  "queue (snd (send_batch resp n s)) = queue s"
  "queued_bytes (snd (send_batch resp n s)) = queued_bytes s"
  "capture_seq (snd (send_batch resp n s)) = capture_seq s"
  "known_dropped (snd (send_batch resp n s)) = known_dropped s"
  "known_refused s \<le> known_refused (snd (send_batch resp n s))"
  by (auto simp: send_batch_def note_unaccounted_def Let_def split: outcome.split)

text \<open>An admission either queues nothing, or is one \<open>_enqueue\<close> of content or of a notice.\<close>

definition content_ok :: "pydict \<Rightarrow> string \<Rightarrow> bool" where
  "content_ok d k \<longleftrightarrow>
     (is_excluded d \<longrightarrow>
        k = ''exclusion_notice'' \<and> dget d ''payload'' = PNone \<and>
        dget d ''schema_id'' = PStr ''unknown'')"

lemma notice_content_ok: "content_ok (exclusion_notice s d) ''exclusion_notice''"
  by (simp add: content_ok_def exclusion_notice_def)

lemma admit_effect:
  assumes "admit l now obs s = (Value a, s')"
  obtains (refused) "a_code a \<noteq> ''queue_saturated''" "queue s' = queue s"
      "queued_bytes s' = queued_bytes s" "capture_seq s' = capture_seq s"
      "known_dropped s' = known_dropped s" "known_refused s \<le> known_refused s'"
  | (enqueued) d k n where "(a, s') = p_enqueue l d k n s" "content_ok d k"
  using assms
proof (cases rule: admit_cases)
  case refused
  then show thesis by (intro that(1)) auto
next
  case (notice n)
  then show thesis using that(2) [OF notice(2) [symmetric] notice_content_ok] by blast
next
  case (content n k)
  then have "content_ok (dict_of_val (owned_snapshot 0 obs)) k" by (simp add: content_ok_def)
  from that(2) [OF content(4) [symmetric] this] show thesis .
qed

lemma drain_frame:
  "fst (p_drain n s) = take n (queue s)"
  "queue (snd (snd (p_drain n s))) = drop n (queue s)"
  "queued_bytes (snd (snd (p_drain n s))) = queued_bytes (p_take n s)"
  "capture_seq (snd (snd (p_drain n s))) = capture_seq s"
  "known_dropped (snd (snd (p_drain n s))) = known_dropped s"
  "known_refused (snd (snd (p_drain n s))) = known_refused s"
  by (simp_all add: p_drain_def p_take_def)

lemma psys_bytes: "psys l s fl d r \<Longrightarrow> queued_bytes s = sizes p_size (queue s)"
proof (induction rule: psys.induct)
  case (admits s fl d r now obs a s')
  from admits.hyps(2) show ?case
    by (cases rule: admit_effect) (use admits.IH p_enqueue_spec(7) in auto)
next
  case (drains s d r)
  then show ?case
    using pq.leave_exact [of s "nat (limit_of l ''batch_size'')"] by (simp add: drain_frame p_take_def)
next
  case (requeues s fl d r)
  have "queued_bytes (foldr (p_put_back l) fl s) = sizes p_size (queue (foldr (p_put_back l) fl s))"
    using requeues.IH by (induction fl) (simp_all add: pq.put_back_exact)
  then show ?case by (simp add: p_requeue_def)
qed (auto simp: producer_init_def poll_policy_frame send_batch_frame)

lemma psys_count:
  assumes "psys l s fl d r" and "0 \<le> limit_of l ''producer_queue_count''"
  shows "int (length (queue s)) \<le> limit_of l ''producer_queue_count''"
  using assms
proof (induction rule: psys.induct)
  case (admits s fl d r now obs a s')
  from admits.hyps(2) show ?case
    by (cases rule: admit_effect) (use admits.IH admits.prems p_enqueue_spec(8) in auto)
next
  case (requeues s fl d r)
  have "int (length (queue (foldr (p_put_back l) fl s))) \<le> limit_of l ''producer_queue_count''"
    using requeues.IH [OF requeues.prems]
    by (induction fl) (simp_all add: pq.put_back_count)
  then show ?case by (simp add: p_requeue_def)
qed (auto simp: producer_init_def poll_policy_frame drain_frame send_batch_frame)

lemma psys_conserves:
  "psys l s fl d r \<Longrightarrow>
   capture_seq s = int (length (queue s)) + int (length fl) + d + known_dropped s + r"
proof (induction rule: psys.induct)
  case (admits s fl d r now obs a s')
  from admits.hyps(2) show ?case
  proof (cases rule: admit_effect)
    case refused
    then show ?thesis using admits.IH by simp
  next
    case (enqueued dd k n)
    show ?thesis
      using admits.IH p_enqueue_spec(2,3,4) [OF enqueued(1)] by (simp split: if_splits)
  qed
next
  case (requeues s fl d r)
  then show ?case using p_requeue_counts(1,3) [of l fl s] by simp
next
  case (drains s d r)
  then show ?case by (simp add: drain_frame)
qed (auto simp: producer_init_def poll_policy_frame send_batch_frame)

lemma psys_refused: "psys l s fl d r \<Longrightarrow> 0 \<le> r \<and> r \<le> known_refused s"
proof (induction rule: psys.induct)
  case (admits s fl d r now obs a s')
  from admits.hyps(2) show ?case
  proof (cases rule: admit_effect)
    case refused
    then show ?thesis using admits.IH by simp
  next
    case (enqueued dd k n)
    show ?thesis
      using admits.IH p_enqueue_spec(3,5) [OF enqueued(1)] by (simp split: if_splits)
  qed
next
  case (sends s fl d r resp)
  then show ?case using send_batch_frame(5) [of s resp "length fl"] by linarith
next
  case (fails s fl d r resp)
  then show ?case using send_batch_frame(5) [of s resp "length fl"] by linarith
qed (auto simp: producer_init_def poll_policy_frame drain_frame p_requeue_counts)

lemma order_append:
  fixes f :: "'a \<Rightarrow> int"
  assumes "sorted_wrt (<) (map f (xs @ ys))" and "\<forall>j\<in>set (xs @ ys). f j \<le> c"
    and "subseq q ys" and "f i = c + 1"
  shows "sorted_wrt (<) (map f (xs @ q @ [i]))" and "\<forall>j\<in>set (xs @ q @ [i]). f j \<le> c + 1"
proof -
  have sub: "subseq (xs @ q) (xs @ ys)"
    by (rule list_emb_append_mono [OF subseq_order.order_refl assms(3)])
  have b: "\<forall>j\<in>set (xs @ q). f j \<le> c" using subseq_set [OF sub] assms(2) by blast
  then have lt: "\<forall>j\<in>set (xs @ q). f j < f i" using assms(4) by fastforce
  have "sorted_wrt (<) (map f (xs @ q) @ [f i])"
    unfolding sorted_wrt_append [of _ "map f (xs @ q)"]
    using sorted_wrt_subseq [OF sub assms(1)] lt by auto
  then show "sorted_wrt (<) (map f (xs @ q @ [i]))" by simp
  have "f j \<le> c + 1" if "j \<in> set (xs @ q @ [i])" for j
  proof (cases "j = i")
    case False
    then have "f j \<le> c" using b that by auto
    then show ?thesis by simp
  qed (simp add: assms(4))
  then show "\<forall>j\<in>set (xs @ q @ [i]). f j \<le> c + 1" by blast
qed

lemma psys_order:
  "psys l s fl d r \<Longrightarrow>
   sorted_wrt (<) (map p_seq (fl @ queue s)) \<and> (\<forall>i\<in>set (fl @ queue s). p_seq i \<le> capture_seq s)"
proof (induction rule: psys.induct)
  case (admits s fl d r now obs a s')
  from admits.hyps(2) show ?case
  proof (cases rule: admit_effect)
    case refused
    then show ?thesis using admits.IH by simp
  next
    case (enqueued dd k n)
    obtain q where q: "subseq q (queue s)"
      "queue s' = (if a_admitted a then q @ [\<lparr>p_seq = capture_seq s + 1, p_kind = k,
         p_high = high_kind k, p_snapshot = dd, p_size = n\<rparr>] else queue s)"
      using p_enqueue_spec(6) [OF enqueued(1)] by blast
    show ?thesis
    proof (cases "a_admitted a")
      case True
      then show ?thesis
        using order_append [OF conjunct1 [OF admits.IH] conjunct2 [OF admits.IH] q(1),
            of "\<lparr>p_seq = capture_seq s + 1, p_kind = k, p_high = high_kind k,
              p_snapshot = dd, p_size = n\<rparr>"] q(2)
          p_enqueue_spec(2) [OF enqueued(1)] by simp
    next
      case False
      have "\<forall>i\<in>set (fl @ queue s). p_seq i \<le> capture_seq s + 1"
        using admits.IH by (meson zle_add1_eq_le order.strict_implies_order)
      then show ?thesis using False admits.IH q(2) p_enqueue_spec(2) [OF enqueued(1)] by simp
    qed
  qed
next
  case (requeues s fl d r)
  obtain q where q: "subseq q fl" "queue (p_requeue l fl s) = q @ queue s"
    using p_requeue_subseq by blast
  have "subseq (q @ queue s) (fl @ queue s)" using q(1) by (simp add: list_emb_append_mono)
  from sorted_wrt_subseq [OF this] subseq_set [OF this] show ?case
    using requeues.IH q(2) by (auto simp: p_requeue_counts)
next
  case (drains s d r)
  then show ?case by (simp add: drain_frame)
next
  case (sends s fl d r resp)
  then show ?case by (simp add: sorted_wrt_append send_batch_frame)
qed (auto simp: producer_init_def poll_policy_frame send_batch_frame)

lemma psys_items: "psys l s fl d r \<Longrightarrow> \<forall>i\<in>set (fl @ queue s). item_ok i"
proof (induction rule: psys.induct)
  case (admits s fl d r now obs a s')
  from admits.hyps(2) show ?case
  proof (cases rule: admit_effect)
    case refused
    then show ?thesis using admits.IH by simp
  next
    case (enqueued dd k n)
    obtain q where q: "subseq q (queue s)"
      "queue s' = (if a_admitted a then q @ [\<lparr>p_seq = capture_seq s + 1, p_kind = k,
         p_high = high_kind k, p_snapshot = dd, p_size = n\<rparr>] else queue s)"
      using p_enqueue_spec(6) [OF enqueued(1)] by blast
    then show ?thesis
      using admits.IH subseq_set [OF q(1)] enqueued(2) by (auto simp: item_ok_def content_ok_def)
  qed
next
  case (requeues s fl d r)
  obtain q where q: "subseq q fl" "queue (p_requeue l fl s) = q @ queue s"
    using p_requeue_subseq by blast
  then show ?case using requeues.IH subseq_set [OF q(1)] by auto
next
  case (drains s d r)
  then show ?case using set_take_subset set_drop_subset by (fastforce simp: drain_frame)
qed (auto simp: producer_init_def poll_policy_frame send_batch_frame)

lemma default_limits: "resolve_limits [] = Inr DEFAULTS"
  by (simp add: resolve_limits_def validate_limits_def positive_ints_def DEFAULTS_def)

lemma default_sizes:
  "limit_of DEFAULTS ''producer_queue_count'' = 256"
  "limit_of DEFAULTS ''producer_queue_bytes'' = 1048576"
  "limit_of DEFAULTS ''max_event_bytes'' = 65536"
  "limit_of DEFAULTS ''batch_size'' = 64"
  "limit_of DEFAULTS ''freshness_window_ms'' = 2000"
  "limit_of DEFAULTS ''heartbeat_interval_ms'' = 500"
  by (simp_all add: limit_of_def DEFAULTS_def)

subsection \<open>Properties\<close>

text \<open>
  C23. No observation that got a capture sequence disappears unnoticed: with any
  interleaving of admissions, policy polls, drains, transmissions and requeues, the sequence
  counter equals the observations queued, plus those the sender holds, plus those handed
  over, plus those counted as dropped, plus those refused for saturation, and the latter are
  counted in \<open>known_refused\<close>. What the sender holds and what is queued is in capture order,
  the queue respects its count limit and the byte counter is exact.
\<close>

theorem every_capture_is_accounted:
  assumes "psys l s fl d r" and "resolve_limits ovs = Inr l"
  shows "capture_seq s = int (length (queue s)) + int (length fl) + d + known_dropped s + r \<and>
    0 \<le> r \<and> r \<le> known_refused s \<and>
    sorted_wrt (<) (map p_seq (fl @ queue s)) \<and>
    int (length (queue s)) \<le> limit_of l ''producer_queue_count'' \<and>
    queued_bytes s = sizes p_size (queue s)"
  using psys_conserves [OF assms(1)] psys_refused [OF assms(1)] psys_order [OF assms(1)]
    psys_count [OF assms(1)] psys_bytes [OF assms(1)] resolved_sizes(1) [OF assms(2)]
  by simp

definition obs_excluded :: pyval where
  "obs_excluded = PDict
     [(''source_instance_id'', PStr ''s''), (''process_id'', PStr ''p''),
      (''source_local_sequence'', PInt 4), (''observation_kind'', PStr ''input_change''),
      (''eligibility'', PStr ''excluded''), (''payload'', PStr ''secret'')]"

lemma admit_excluded_example:
  "\<exists>a s'. admit DEFAULTS 0 obs_excluded (producer_init ''s'') = (Value a, s') \<and>
     a_admitted a \<and> capture_seq s' = 1 \<and> length (queue s') = 1 \<and> queued_bytes s' \<le> 1000"
proof -
  have ok: "\<not> locally_invalid obs_excluded"
    by (simp add: obs_excluded_def locally_invalid_def Let_def safe_token_def all_in_def
        SAFE_TOKEN_def ascii_upper_def ascii_lower_def ascii_digits_def has_key_def)
  have snap: "owned_snapshot 0 obs_excluded = obs_excluded"
    by (simp add: obs_excluded_def)
  have cs: "content_size obs_excluded \<le> 65536"
    by (simp add: obs_excluded_def utf8_len_def)
  have small: "\<not> 65536 < budget 65536 obs_excluded 0"
    using budget_exact(1) [of 65536 obs_excluded] cs by simp
  let ?n = "exclusion_notice (producer_init ''s'') (dict_of_val obs_excluded)"
  have n: "\<not> locally_invalid (PDict ?n)"
    by (simp add: obs_excluded_def exclusion_notice_def locally_invalid_def Let_def
        safe_token_def all_in_def SAFE_TOKEN_def ascii_upper_def ascii_lower_def
        ascii_digits_def has_key_def py_or_def)
  have v: "is_dict obs_excluded" "is_excluded (dict_of_val obs_excluded)"
    "dget_or (dict_of_val obs_excluded) ''envelope_version'' (PInt ENVELOPE_VERSION) = PInt 1"
    "dget_or (dict_of_val obs_excluded) ''content_version'' (PInt CONTENT_VERSION) = PInt 1"
    by (simp_all add: obs_excluded_def is_excluded_def eq_str_def dget_or_def
        ENVELOPE_VERSION_def CONTENT_VERSION_def)
  have cn: "content_size (PDict ?n) \<le> 1000"
    by (simp add: obs_excluded_def exclusion_notice_def utf8_len_def py_or_def SUPPORTED_SCHEMA_def)
  have bn: "budget_of ?n \<le> 1000"
    using budget_exact(2) [of 1000000 "PDict ?n"] cn by (simp add: budget_of_def)
  let ?i = "\<lparr>p_seq = 1, p_kind = ''exclusion_notice'', p_high = True, p_snapshot = ?n,
      p_size = nat (budget_of ?n)\<rparr>"
  have fits: "p_fits DEFAULTS (nat (budget_of ?n)) ((producer_init ''s'')\<lparr>capture_seq := 1\<rparr>)"
    using bn by (simp add: p_fits_def default_sizes producer_init_def)
  have "admit DEFAULTS 0 obs_excluded (producer_init ''s'') =
    (let r = p_enqueue DEFAULTS ?n ''exclusion_notice'' (nat (budget_of ?n)) (producer_init ''s'')
     in (Value (fst r), snd r))"
    using ok small n v
    by (simp add: admit_def snap Let_def default_sizes ENVELOPE_VERSION_def CONTENT_VERSION_def)
  then show ?thesis
    using fits bn
    by (simp add: p_enqueue_def Let_def p_offer_def p_append_def producer_init_def high_kind_def
        HIGH_KINDS_def)
qed

lemma psys_example:
  "\<exists>s. psys DEFAULTS s [] 0 0 \<and> capture_seq s = 1 \<and> length (queue s) = 1 \<and>
       queued_bytes s \<le> 1000"
proof -
  obtain a s' where a: "admit DEFAULTS 0 obs_excluded (producer_init ''s'') = (Value a, s')"
    "a_admitted a" "capture_seq s' = 1" "length (queue s') = 1" "queued_bytes s' \<le> 1000"
    using admit_excluded_example by blast
  have "a_code a \<noteq> ''queue_saturated''"
    using a(1)
  proof (cases rule: admit_effect)
    case (enqueued d k n)
    then show ?thesis using p_enqueue_spec(3) [OF enqueued(1)] a(2) by simp
  qed
  then show ?thesis using admits [OF start a(1)] a by auto
qed

theorem every_capture_is_accounted_witness:
  "\<exists>s. psys DEFAULTS s [] 0 0 \<and> capture_seq s = 1 \<and>
       capture_seq s = int (length (queue s)) + known_dropped s \<and>
       queued_bytes s = sizes p_size (queue s)"
proof -
  obtain s where s: "psys DEFAULTS s [] 0 0" "capture_seq s = 1" using psys_example by blast
  show ?thesis
    using every_capture_is_accounted [OF s(1) default_limits] s by auto
qed

text \<open>
  C24. Admission respects the policy and exclusions: in every reachable state, an
  observation marked excluded that is queued or in the sender's hands is an exclusion notice
  without payload and schema; and an observation that is not marked excluded is admitted
  only while the producer holds an enabled policy that it observed within the freshness
  window.
\<close>

theorem admission_respects_policy:
  assumes "psys l s fl d r"
  shows "(\<forall>i\<in>set (fl @ queue s). is_excluded (p_snapshot i) \<longrightarrow>
       p_kind i = ''exclusion_notice'' \<and> dget (p_snapshot i) ''payload'' = PNone \<and>
       dget (p_snapshot i) ''schema_id'' = PStr ''unknown'') \<and>
    (\<forall>now obs a s'. admit l now obs s = (Value a, s') \<longrightarrow> a_admitted a \<longrightarrow>
       \<not> is_excluded (dict_of_val (owned_snapshot 0 obs)) \<longrightarrow>
       observed_desired s = PStr ''enabled'' \<and>
       (\<exists>t. observed_at s = Some t \<and>
            now - t \<le> of_int (limit_of l ''freshness_window_ms'') / 1000))"
proof -
  have "observed_desired s = PStr ''enabled'' \<and> cache_fresh l now s"
    if "admit l now obs s = (Value a, s')" "a_admitted a"
      "\<not> is_excluded (dict_of_val (owned_snapshot 0 obs))" for now obs a s'
    using that(1) by (cases rule: admit_cases) (use that in auto)
  moreover have "\<exists>t. observed_at s = Some t \<and>
      now - t \<le> of_int (limit_of l ''freshness_window_ms'') / 1000" if "cache_fresh l now s" for now
    using that by (auto simp: cache_fresh_def split: option.splits)
  ultimately show ?thesis
    using psys_items [OF assms] unfolding item_ok_def by blast
qed

theorem admission_respects_policy_witness:
  "\<exists>s i. psys DEFAULTS s [] 0 0 \<and> queue s = [i] \<and>
     (is_excluded (p_snapshot i) \<longrightarrow> dget (p_snapshot i) ''payload'' = PNone)"
proof -
  obtain s where s: "psys DEFAULTS s [] 0 0" "length (queue s) = 1" using psys_example by blast
  then obtain i where "queue s = [i]" by (cases "queue s") auto
  then show ?thesis using admission_respects_policy [OF s(1)] s(1) by auto
qed

lemma p_requeue_fits:
  "int (length (queue s)) + int (length xs) \<le> limit_of l ''producer_queue_count'' \<Longrightarrow>
   queued_bytes s + sizes p_size xs \<le> limit_of l ''producer_queue_bytes'' \<Longrightarrow>
   p_requeue l xs s = s\<lparr>queue := xs @ queue s, queued_bytes := queued_bytes s + sizes p_size xs\<rparr>"
proof (induction xs)
  case (Cons x xs)
  then have IH: "foldr (p_put_back l) xs s =
    s\<lparr>queue := xs @ queue s, queued_bytes := queued_bytes s + sizes p_size xs\<rparr>"
    by (simp add: p_requeue_def)
  show ?case using Cons.prems by (simp add: p_requeue_def IH p_put_back_def p_fits_def)
qed (simp add: p_requeue_def)

text \<open>The reply of \<open>Client.call\<close> when the collector cannot be reached.\<close>

definition is_unavailable :: "pydict \<Rightarrow> bool" where
  "is_unavailable resp \<longleftrightarrow>
     \<not> truthy (dget resp ''ok'') \<and>
     (\<exists>err. dget resp ''error'' = PDict err \<and> dget err ''code'' = PStr ''collector_unavailable'')"

lemma poll_unavailable:
  assumes "is_unavailable resp"
  shows "\<exists>s'. poll_policy l t0 t1 resp s = (Value (), s') \<and> queue s' = queue s \<and>
    queued_bytes s' = queued_bytes s \<and> local_losses s' = local_losses s \<and>
    known_dropped s' = known_dropped s \<and> known_refused s' = known_refused s"
  using assms by (simp add: poll_policy_def is_unavailable_def Let_def)

lemma send_unavailable:
  assumes "is_unavailable resp"
  shows "send_batch resp n s = (Value False, s\<lparr>collector_unavailable := True\<rparr>)"
proof -
  obtain err where err: "\<not> truthy (dget resp ''ok'')" "dget resp ''error'' = PDict err"
    "dget err ''code'' = PStr ''collector_unavailable''"
    using assms by (auto simp: is_unavailable_def)
  then have "err \<noteq> []" by auto
  then show ?thesis using err by (simp add: send_batch_def sub_dict_def py_or_def eq_str_def)
qed

text \<open>
  A failed transmission returns the queue to what it was: from any reachable state that
  respects the byte limit, a turn of the sender whose calls find no collector leaves every
  queued observation in place and in order, with the byte counter and the drop and refusal
  counters unchanged. The loss notices held at that moment leave the producer in that turn
  and none is kept for a later one.
\<close>

theorem failed_transmission_keeps_queue:
  assumes "psys l s [] d r" and "resolve_limits ovs = Inr l" and "queue s \<noteq> []"
    and "queued_bytes s \<le> limit_of l ''producer_queue_bytes''" and "is_unavailable resp"
  shows "\<exists>s'. sender_turn l t0 t1 resp resp s = (Value False, local_losses s, s') \<and>
    queue s' = queue s \<and> queued_bytes s' = queued_bytes s \<and>
    known_dropped s' = known_dropped s \<and> known_refused s' = known_refused s \<and>
    local_losses s' = []"
proof -
  let ?n = "nat (limit_of l ''batch_size'')"
  have n: "0 < ?n" using resolved_sizes(7) [OF assms(2)] by simp
  obtain s1 where s1: "poll_policy l t0 t1 resp s = (Value (), s1)" "queue s1 = queue s"
    "queued_bytes s1 = queued_bytes s" "local_losses s1 = local_losses s"
    "known_dropped s1 = known_dropped s" "known_refused s1 = known_refused s"
    using poll_unavailable [OF assms(5)] by blast
  define s2 where "s2 = (p_take ?n s1)\<lparr>local_losses := [], collector_unavailable := True\<rparr>"
  let ?b = "take ?n (queue s)"
  have cnt: "int (length (queue s)) \<le> limit_of l ''producer_queue_count''"
    using psys_count [OF assms(1)] resolved_sizes(1) [OF assms(2)] by simp
  have fit: "p_requeue l ?b s2 =
      s2\<lparr>queue := ?b @ queue s2, queued_bytes := queued_bytes s2 + sizes p_size ?b\<rparr>"
    by (rule p_requeue_fits) (use cnt assms(4) s1 in \<open>simp_all add: s2_def p_take_def\<close>)
  have ne: "?b \<noteq> []" using assms(3) n by (cases "queue s") auto
  have "sender_turn l t0 t1 resp resp s = (Value False, local_losses s, p_requeue l ?b s2)"
    using ne s1 by (simp add: sender_turn_def p_drain_def send_unavailable [OF assms(5)] s2_def)
  moreover have "queue s2 = drop ?n (queue s)" "known_dropped s2 = known_dropped s"
    "queued_bytes s2 = queued_bytes s - sizes p_size (take ?n (queue s))"
    "known_refused s2 = known_refused s" "local_losses s2 = []"
    using s1 by (simp_all add: s2_def p_take_def)
  ultimately show ?thesis by (simp add: fit)
qed

definition down_reply :: pydict where
  "down_reply = [(''ok'', PBool False),
     (''error'', PDict [(''code'', PStr ''collector_unavailable'')])]"

theorem failed_transmission_keeps_queue_witness:
  "\<exists>s s'. psys DEFAULTS s [] 0 0 \<and> queue s \<noteq> [] \<and> queue s' = queue s \<and>
     sender_turn DEFAULTS 1 1 down_reply down_reply s = (Value False, local_losses s, s')"
proof -
  obtain s where s: "psys DEFAULTS s [] 0 0" "length (queue s) = 1"
    "queued_bytes s \<le> 1000" using psys_example by blast
  have "is_unavailable down_reply" by (simp add: is_unavailable_def down_reply_def)
  moreover have "queue s \<noteq> []" using s(2) by auto
  moreover have "queued_bytes s \<le> limit_of DEFAULTS ''producer_queue_bytes''"
    using s(3) by (simp add: default_sizes)
  ultimately show ?thesis
    using failed_transmission_keeps_queue [OF s(1) default_limits, of down_reply 1 1] s(1) by blast
qed

text \<open>An observation whose owned snapshot is within the limit is never refused as too large.\<close>

lemma small_code:
  assumes "admit l now obs s = (Value a, s')"
    and "\<not> limit_of l ''max_event_bytes'' < budget (limit_of l ''max_event_bytes'') (owned_snapshot 0 obs) 0"
  shows "a_code a \<noteq> ''event_too_large''"
proof -
  let ?d = "dict_of_val (owned_snapshot 0 obs)"
  have sel: "(if b then x else y) = z \<Longrightarrow> (b \<Longrightarrow> x = z \<Longrightarrow> P) \<Longrightarrow> (\<not> b \<Longrightarrow> y = z \<Longrightarrow> P) \<Longrightarrow> P"
    for b P and x y z :: "admission outcome \<times> producer"
    by (cases b) auto
  have ref: "(Value (refusal c), t) = (Value a, s') \<Longrightarrow> c \<noteq> ''event_too_large'' \<Longrightarrow>
      a_code a \<noteq> ''event_too_large''" for c t by auto
  have enq: "(Value (fst r), snd r) = (Value a, s') \<Longrightarrow> r = p_enqueue l d k n s \<Longrightarrow>
      a_code a \<noteq> ''event_too_large''" for r d k n
    using p_enqueue_spec(3) [of a s' l d k n s] by (cases r) (auto split: if_splits)
  from assms show ?thesis
    unfolding admit_def Let_def refuse_invalid_def
  proof (elim sel)
    assume "is_excluded ?d"
      "(Value (fst (p_enqueue l (exclusion_notice s ?d) ''exclusion_notice''
          (nat (budget_of (exclusion_notice s ?d))) s)),
        snd (p_enqueue l (exclusion_notice s ?d) ''exclusion_notice''
          (nat (budget_of (exclusion_notice s ?d))) s)) = (Value a, s')"
    from enq [OF this(2) refl] show ?thesis .
  next
    assume "(Raised ''TypeError'', s) = (Value a, s')"
    then show ?thesis by simp
  next
    assume "\<not> is_excluded ?d"
      "(Value (fst (p_enqueue l ?d (str_of_val (py_or (dget ?d ''observation_kind'')
          (PStr ''unknown_outcome'')))
          (nat (budget (limit_of l ''max_event_bytes'') (owned_snapshot 0 obs) 0)) s)),
        snd (p_enqueue l ?d (str_of_val (py_or (dget ?d ''observation_kind'')
          (PStr ''unknown_outcome'')))
          (nat (budget (limit_of l ''max_event_bytes'') (owned_snapshot 0 obs) 0)) s)) = (Value a, s')"
    from enq [OF this(2) refl] show ?thesis .
  qed (blast | (rule ref, assumption, simp))+
qed

text \<open>
  The size check of an admission is exact although it stops early: for an observation of
  the supported versions the answer is \<open>event_too_large\<close> exactly when the size of its owned
  snapshot (the UTF-8 bytes of every string and key, eight for any other scalar) is above
  the limit, and below the limit the early-stopping count is that size.
\<close>

theorem event_size_check_is_exact:
  assumes "resolve_limits ovs = Inr l" and "is_dict obs"
    and "eq_int (dget_or (dict_of_val obs) ''envelope_version'' (PInt 1)) 1"
    and "eq_int (dget_or (dict_of_val obs) ''content_version'' (PInt 1)) 1"
  shows "((\<exists>a s'. admit l now obs s = (Value a, s') \<and> a_code a = ''event_too_large'') \<longleftrightarrow>
      limit_of l ''max_event_bytes'' < content_size (owned_snapshot 0 obs)) \<and>
    (content_size (owned_snapshot 0 obs) \<le> limit_of l ''max_event_bytes'' \<longrightarrow>
      budget (limit_of l ''max_event_bytes'') (owned_snapshot 0 obs) 0 =
      content_size (owned_snapshot 0 obs))"
proof -
  let ?m = "limit_of l ''max_event_bytes''"
  have m: "0 \<le> ?m" using resolved_sizes(5) [OF assms(1)] by simp
  have "is_dict (owned_snapshot 0 obs)" using assms(2) by (cases obs) auto
  then have big: "admit l now obs s =
      (Value (refusal ''event_too_large''), s\<lparr>known_refused := known_refused s + 1\<rparr>)"
    if "?m < budget ?m (owned_snapshot 0 obs) 0"
    using assms that by (simp add: admit_def Let_def ENVELOPE_VERSION_def CONTENT_VERSION_def)
  show ?thesis
    using big small_code [of l now obs s] budget_exact [OF m, of "owned_snapshot 0 obs"] by auto
qed

theorem event_size_check_is_exact_witness:
  "budget 65536 (owned_snapshot 0 (PDict [(''a'', PStr ''bc'')])) 0 = 3"
proof -
  have v: "eq_int (dget_or (dict_of_val (PDict [(''a'', PStr ''bc'')])) ''envelope_version'' (PInt 1)) 1"
    "eq_int (dget_or (dict_of_val (PDict [(''a'', PStr ''bc'')])) ''content_version'' (PInt 1)) 1"
    by (simp_all add: dget_or_def)
  show ?thesis
    using event_size_check_is_exact [OF default_limits _ v] default_sizes(3)
    by (simp add: utf8_len_def)
qed

subsection \<open>Displacement and the byte limit\<close>

definition small_limits :: pydict where
  "small_limits = dset ''producer_queue_bytes'' (PInt 200) DEFAULTS"

definition low_obs :: pyval where
  "low_obs = PDict
     [(''source_instance_id'', PStr ''s''), (''process_id'', PStr ''p''),
      (''source_local_sequence'', PInt 1), (''observation_kind'', PStr ''input_change'')]"

definition high_obs :: pyval where
  "high_obs = PDict
     [(''source_instance_id'', PStr ''s''), (''process_id'', PStr ''p''),
      (''source_local_sequence'', PInt 2), (''observation_kind'', PStr ''commit_attempt''),
      (''payload'', PStr (replicate 400 (CHR ''x'')))]"

definition enabled_reply :: pydict where
  "enabled_reply = [(''ok'', PBool True),
     (''body'', PDict [(''desired_revision'', PInt 1), (''desired_policy'', PStr ''enabled'')])]"

lemma small_limits_resolve:
  "resolve_limits [(''producer_queue_bytes'', PInt 200)] = Inr small_limits"
  by (simp add: resolve_limits_def validate_limits_def positive_ints_def DEFAULTS_def
      small_limits_def has_key_def)


lemma small_sizes:
  "limit_of small_limits ''producer_queue_count'' = 256"
  "limit_of small_limits ''producer_queue_bytes'' = 200"
  "limit_of small_limits ''max_event_bytes'' = 65536"
  "limit_of small_limits ''freshness_window_ms'' = 2000"
  "limit_of small_limits ''heartbeat_interval_ms'' = 500"
  by (simp_all add: limit_of_def small_limits_def DEFAULTS_def)

lemma obs_facts:
  "owned_snapshot 0 low_obs = low_obs" "owned_snapshot 0 high_obs = high_obs"
  "\<not> locally_invalid low_obs" "\<not> locally_invalid high_obs"
  "content_size low_obs = 87" "content_size high_obs = 496"
  "\<not> is_excluded (dict_of_val low_obs)" "\<not> is_excluded (dict_of_val high_obs)"
  by (simp_all add: low_obs_def high_obs_def locally_invalid_def Let_def safe_token_def
      all_in_def SAFE_TOKEN_def ascii_upper_def ascii_lower_def ascii_digits_def has_key_def
      is_excluded_def eq_str_def utf8_len_def sum_list_replicate)

lemma obs_budget:
  "budget 65536 low_obs 0 = 87" "budget 65536 high_obs 0 = 496"
  using budget_exact(2) [of 65536 low_obs] budget_exact(2) [of 65536 high_obs]
  by (simp_all add: obs_facts)

text \<open>The producer after it observed the enabled policy at time zero.\<close>

definition enabled_producer :: producer where
  "enabled_producer = snd (poll_policy small_limits 0 0 enabled_reply (producer_init ''s''))"

lemma enabled_producer_fields:
  "queue enabled_producer = []" "queued_bytes enabled_producer = 0"
  "capture_seq enabled_producer = 0" "observed_desired enabled_producer = PStr ''enabled''"
  "cache_fresh small_limits 0 enabled_producer"
  "observed_at enabled_producer = Some 0" "observed_revision enabled_producer = PInt 1"
  by (simp_all add: enabled_producer_def poll_policy_def producer_init_def enabled_reply_def
      sub_dict_def py_or_def cache_fresh_def small_sizes)

definition after_low :: producer where
  "after_low = snd (p_enqueue small_limits (dict_of_val low_obs) ''input_change'' 87 enabled_producer)"

definition after_high :: producer where
  "after_high = snd (p_enqueue small_limits (dict_of_val high_obs) ''commit_attempt'' 496 after_low)"

lemma admit_content:
  assumes "is_dict obs" and "owned_snapshot 0 obs = obs"
    and "eq_int (dget_or (dict_of_val obs) ''envelope_version'' (PInt 1)) 1"
    and "eq_int (dget_or (dict_of_val obs) ''content_version'' (PInt 1)) 1"
    and "budget (limit_of l ''max_event_bytes'') obs 0 \<le> limit_of l ''max_event_bytes''"
    and "\<not> locally_invalid obs" and "\<not> is_excluded (dict_of_val obs)"
    and "dget_or (dict_of_val obs) ''schema_id'' (PStr ''unknown'') = PStr ''unknown''"
    and "cache_fresh l now s" and "observed_desired s = PStr ''enabled''"
    and "dget (dict_of_val obs) ''observation_kind'' = PStr k" and "k \<noteq> []"
  shows "admit l now obs s =
    (Value (fst (p_enqueue l (dict_of_val obs) k
        (nat (budget (limit_of l ''max_event_bytes'') obs 0)) s)),
     snd (p_enqueue l (dict_of_val obs) k
        (nat (budget (limit_of l ''max_event_bytes'') obs 0)) s))"
  using assms
  by (simp add: admit_def Let_def ENVELOPE_VERSION_def CONTENT_VERSION_def str_in_def eq_str_def
      py_or_def)

lemma admit_low:
  "\<exists>a. admit small_limits 0 low_obs enabled_producer = (Value a, after_low) \<and>
       a_code a \<noteq> ''queue_saturated''"
proof -
  have "admit small_limits 0 low_obs enabled_producer =
    (Value (fst (p_enqueue small_limits (dict_of_val low_obs) ''input_change'' 87 enabled_producer)),
     after_low)"
    by (subst admit_content [where k = "''input_change''"])
      (simp_all add: obs_facts obs_budget small_sizes enabled_producer_fields after_low_def,
       simp_all add: low_obs_def dget_or_def)
  moreover have "a_code (fst (p_enqueue small_limits (dict_of_val low_obs) ''input_change'' 87
      enabled_producer)) \<noteq> ''queue_saturated''"
    by (simp add: p_enqueue_def Let_def p_offer_def p_fits_def enabled_producer_fields small_sizes)
  ultimately show ?thesis by blast
qed

lemma after_low_fields:
  "\<exists>i. queue after_low = [i] \<and> p_size i = 87 \<and> \<not> p_high i" "queued_bytes after_low = 87"
  "cache_fresh small_limits 0 after_low" "observed_desired after_low = PStr ''enabled''"
  by (simp_all add: after_low_def p_enqueue_def Let_def p_offer_def p_fits_def p_append_def
      enabled_producer_fields small_sizes high_kind_def HIGH_KINDS_def cache_fresh_def)

lemma admit_high:
  "\<exists>a. admit small_limits 0 high_obs after_low = (Value a, after_high) \<and>
       a_code a \<noteq> ''queue_saturated'' \<and> queued_bytes after_high = 496"
proof -
  obtain i where i: "queue after_low = [i]" "p_size i = 87" "\<not> p_high i"
    using after_low_fields(1) by blast
  have "admit small_limits 0 high_obs after_low =
    (Value (fst (p_enqueue small_limits (dict_of_val high_obs) ''commit_attempt'' 496 after_low)),
     after_high)"
    by (subst admit_content [where k = "''commit_attempt''"])
      (simp_all add: obs_facts obs_budget small_sizes after_low_fields after_high_def,
       simp_all add: high_obs_def dget_or_def)
  moreover have "a_code (fst (p_enqueue small_limits (dict_of_val high_obs) ''commit_attempt'' 496
      after_low)) \<noteq> ''queue_saturated'' \<and> queued_bytes after_high = 496"
    using i by (simp add: after_high_def p_enqueue_def Let_def p_offer_def p_fits_def after_low_fields
        small_sizes high_kind_def HIGH_KINDS_def p_append_def p_drop_def)
  ultimately show ?thesis by blast
qed

text \<open>
  The displacement of a low-priority observation does not look at the byte limit again:
  with the byte limit set to 200, one policy poll and two admissions of a fresh producer lead
  to a queue that holds 496 bytes, while the count limit is respected.
\<close>

theorem displacement_passes_byte_limit:
  "\<exists>l s. resolve_limits [(''producer_queue_bytes'', PInt 200)] = Inr l \<and> psys l s [] 0 0 \<and>
     int (length (queue s)) \<le> limit_of l ''producer_queue_count'' \<and>
     limit_of l ''producer_queue_bytes'' = 200 \<and> queued_bytes s = 496"
proof -
  have s0: "psys small_limits enabled_producer [] 0 0"
    unfolding enabled_producer_def by (rule polls [OF start])
  obtain a where a: "admit small_limits 0 low_obs enabled_producer = (Value a, after_low)"
    "a_code a \<noteq> ''queue_saturated''" using admit_low by blast
  have s1: "psys small_limits after_low [] 0 0" using admits [OF s0 a(1)] a(2) by simp
  obtain b where b: "admit small_limits 0 high_obs after_low = (Value b, after_high)"
    "a_code b \<noteq> ''queue_saturated''" "queued_bytes after_high = 496" using admit_high by blast
  have s2: "psys small_limits after_high [] 0 0" using admits [OF s1 b(1)] b(2) by simp
  show ?thesis
    using small_limits_resolve s2 b(3) small_sizes psys_count [OF s2] by auto
qed

end
