(* ===== verification/Archive_Validate.thy ===== *)
theory Archive_Validate
  imports Archive_Base
begin

text \<open>
  The validators of observer observations in \<open>src/archive/collector.py\<close>: the daemon's and the
  plugin's declarations are reduced to dictionaries of tokens, numbers and flags, or refused,
  and the query side's reading of a stored plugin dictionary.
\<close>

subsection \<open>Vocabulary\<close>

definition DAEMON_STAGES :: "string list" where
  "DAEMON_STAGES = [''request'', ''scoring'', ''load'', ''unload'']"

definition DAEMON_OUTCOME_CODES :: "string list" where
  "DAEMON_OUTCOME_CODES =
    [''ok'', ''inference_failed'', ''identity_mismatch'', ''token_attribution_failed'',
     ''non_finite_score'', ''invalid_score_result'', ''score_count_mismatch'']"

definition DAEMON_ERROR_PHASES :: "string list" where
  "DAEMON_ERROR_PHASES = [''validate'', ''score'', ''transport'']"

definition DAEMON_LOAD_OUTCOMES :: "string list" where
  "DAEMON_LOAD_OUTCOMES = [''completed'', ''failed'']"

definition DAEMON_UNLOAD_REASONS :: "string list" where
  "DAEMON_UNLOAD_REASONS = [''identity_change'', ''identity_invalid'', ''unspecified'']"

definition DAEMON_STRATEGIES :: "string list" where
  "DAEMON_STRATEGIES = [''mean_token'', ''legacy_sum'']"

definition DAEMON_EDGE_NAMES :: "(string \<times> string list) list" where
  "DAEMON_EDGE_NAMES =
    [(''request'', [''request_accepted'']),
     (''scoring'', [''request_accepted'', ''scoring_started'', ''scoring_completed'', ''outcome_decided'']),
     (''load'', [''load_started'', ''load_completed'']),
     (''unload'', [''unload_started'', ''unload_completed''])]"

definition DAEMON_RUNTIME_DISTRIBUTIONS :: "string list" where
  "DAEMON_RUNTIME_DISTRIBUTIONS = [''mlx'', ''mlx-lm'', ''numpy'']"

definition PLUGIN_STAGES :: "string list" where
  "PLUGIN_STAGES =
    [''competition'', ''emission'', ''temporary_selection'', ''commit'', ''cancellation'',
     ''retraction'', ''loss'', ''exclusion'']"

definition PLUGIN_HIGH_STAGES :: "string list" where
  "PLUGIN_HIGH_STAGES = [''commit'', ''cancellation'', ''retraction'', ''loss'', ''exclusion'']"

definition PLUGIN_ROLES :: "string list" where
  "PLUGIN_ROLES = [''engine_entry_context'', ''absent'', ''invalid'', ''unknown'']"

definition PLUGIN_READS :: "string list" where
  "PLUGIN_READS = [''claimed_valid'', ''absent'', ''invalid'', ''malformed'', ''unknown'']"

definition PLUGIN_COVERAGE :: "string list" where
  "PLUGIN_COVERAGE = [''complete'', ''incomplete'', ''unknown'']"

definition PLUGIN_COMPLETE_BASIS :: string where
  "PLUGIN_COMPLETE_BASIS = ''captured_group_members_and_target''"

definition PLUGIN_LM :: "string list" where
  "PLUGIN_LM = [''issued_succeeded'', ''issued_failed'', ''no_request'']"

definition PLUGIN_APPLY :: "string list" where
  "PLUGIN_APPLY = [''applied'', ''unchanged'', ''fallback'', ''not_applicable'', ''unknown'']"

definition PLUGIN_SUBMISSION :: "string list" where
  "PLUGIN_SUBMISSION = [''explicit'', ''default'', ''unknown'', ''not_applicable'']"

definition PLUGIN_TARGET :: "string list" where
  "PLUGIN_TARGET = [''present'', ''absent'', ''unknown'']"

definition PLUGIN_SCORE :: "string list" where
  "PLUGIN_SCORE = [''observed'', ''unknown'']"

definition PLUGIN_TOKENS :: "string list" where
  "PLUGIN_TOKENS =
    [''window_id'', ''group_id'', ''plan_identity'', ''referenced_source_id'',
     ''referenced_process_id'', ''referenced_update_id'', ''referenced_segment_id'']"

subsection \<open>Field helpers\<close>

text \<open>
  These return \<open>None\<close> for an absent value, \<open>False\<close> for a bad one and the value otherwise; the
  callers test with \<open>is False\<close>, so a zero is not mistaken for a refusal.
\<close>

definition hex_digest :: "pyval \<Rightarrow> pyval" where
  "hex_digest v =
     (if v = PNone then PNone
      else if \<not> is_str v \<or> length (str_of_val v) \<noteq> 64 \<or> \<not> all_in (str_of_val v) lower_hex
      then PBool False else v)"

definition optional_count :: "pyval \<Rightarrow> pyval" where
  "optional_count v =
     (if v = PNone then PNone
      else if is_bool v \<or> \<not> isinstance_int v \<or> int_of_val v < 0 then PBool False else v)"

definition optional_duration :: "pyval \<Rightarrow> pyval outcome" where
  "optional_duration v =
     (if v = PNone then Value PNone
      else case finite_nonneg v of
        Value w \<Rightarrow> Value w | Refused _ \<Rightarrow> Value (PBool False) | Raised e \<Rightarrow> Raised e)"

definition optional_token :: "pyval \<Rightarrow> pyval" where
  "optional_token v = (case safe_token v of None \<Rightarrow> PNone | Some t \<Rightarrow> PStr t)"

definition token_or_unknown :: "pyval \<Rightarrow> pyval" where
  "token_or_unknown v = (case safe_token v of None \<Rightarrow> PStr ''unknown'' | Some t \<Rightarrow> PStr t)"

text \<open>\<open>value is not None and safe_token(value) is None\<close> refuses.\<close>

definition token_or_none :: "pyval \<Rightarrow> bool" where
  "token_or_none v \<longleftrightarrow> v = PNone \<or> safe_token v \<noteq> None"

subsection \<open>Daemon observations\<close>

abbreviation (input) INVALID :: string where "INVALID \<equiv> ''invalid_request''"

fun canonical_edges :: "pydict \<Rightarrow> pydict outcome" where
  "canonical_edges [] = Value []"
| "canonical_edges ((k, v) # d) =
     (case finite_nonneg v of
        Refused _ \<Rightarrow> Refused INVALID
      | Raised e \<Rightarrow> Raised e
      | Value w \<Rightarrow> and_then (canonical_edges d) (\<lambda>r. Value ((k, w) # r)))"

definition version_ok :: "pydict \<Rightarrow> string \<Rightarrow> bool" where
  "version_ok obs k \<longleftrightarrow>
     (is_dict (dget obs ''payload'') \<and> has_key (dict_of_val (dget obs ''payload'')) k \<longrightarrow>
        py_eq (dget (dict_of_val (dget obs ''payload'')) k) (dget obs k)) \<and>
     dget obs k = PInt 1"

definition daemon_header :: "pydict \<Rightarrow> pydict outcome" where
  "daemon_header obs =
     (let stage = dget obs ''daemon_stage''; seen = dget obs ''observed_at_wall_ms'';
          edges = dget obs ''edges'' in
      demand (version_ok obs ''daemon_observation_version'') ''unsupported_daemon_observation''
     (demand_in stage DAEMON_STAGES INVALID
     (demand (is_int seen \<and> 0 < int_of_val seen \<and> int_of_val seen < 4102444800000) INVALID
     (demand (is_dict edges \<and> dict_of_val edges \<noteq> [] \<and>
              set (map fst (dict_of_val edges)) \<subseteq>
                set (the (map_of DAEMON_EDGE_NAMES (str_of_val stage)))) INVALID
     (and_then (canonical_edges (dict_of_val edges)) (\<lambda>es.
      Value
        [(''daemon_observation_version'', PInt 1), (''daemon_stage'', stage),
         (''observed_at_wall_ms'', seen), (''clock_domain'', PStr ''system_wall_utc_ms''),
         (''monotonic_domain'', PStr ''daemon_process_relative_ms''), (''edges'', PDict es)]))))))"

definition daemon_request :: "pydict \<Rightarrow> pydict \<Rightarrow> pydict outcome" where
  "daemon_request obs base =
     (let window = optional_count (dget obs ''context_window_chars'');
          requested = optional_count (dget obs ''requested_context_chars'');
          effective = optional_count (dget obs ''effective_context_chars'');
          candidates = optional_count (dget obs ''candidate_count'');
          chars = optional_count (dget obs ''candidate_chars'');
          policy = safe_token (dget obs ''effective_policy_id'');
          digest = hex_digest (dget obs ''declared_policy_digest'');
          adapter = hex_digest (dget obs ''adapter_digest'') in
      demand (token_or_none (dget obs ''request_id'')) INVALID
     (demand (token_or_none (dget obs ''plan_identity'')) INVALID
     (demand (policy \<noteq> None) INVALID
     (demand (digest \<noteq> PBool False) INVALID
     (demand (is_bool (dget obs ''declared_policy_exact'')) INVALID
     (demand_in (dget obs ''scoring_strategy'') DAEMON_STRATEGIES INVALID
     (demand (eq_str (dget obs ''context_window_rule'') ''unicode_char_tail'') INVALID
     (demand (eq_str (dget obs ''attribution_rule'') ''decode_prefix_reconstruction'') INVALID
     (demand (window \<noteq> PBool False \<and> truthy window) INVALID
     (demand (requested \<noteq> PBool False \<and> effective \<noteq> PBool False \<and>
              candidates \<noteq> PBool False \<and> chars \<noteq> PBool False) INVALID
     (demand (requested \<noteq> PNone \<and> effective \<noteq> PNone) INVALID
     (demand (int_of_val effective \<le> int_of_val requested) INVALID
     (demand (candidates \<noteq> PNone \<and> chars \<noteq> PNone) INVALID
     (demand (is_bool (dget obs ''context_truncated'')) INVALID
     (demand (token_or_none (dget obs ''model_identity'')) INVALID
     (demand (is_bool (dget obs ''adapter_present'')) INVALID
     (demand (adapter \<noteq> PBool False) INVALID
     (Value (base @
        [(''request_id'', dget obs ''request_id''), (''plan_identity'', dget obs ''plan_identity''),
         (''effective_policy_id'', optional_token (dget obs ''effective_policy_id'')), (''declared_policy_digest'', digest),
         (''declared_policy_exact'', dget obs ''declared_policy_exact''),
         (''scoring_strategy'', dget obs ''scoring_strategy''),
         (''context_window_rule'', PStr ''unicode_char_tail''),
         (''attribution_rule'', PStr ''decode_prefix_reconstruction''),
         (''context_window_chars'', window), (''requested_context_chars'', requested),
         (''effective_context_chars'', effective),
         (''context_truncated'', dget obs ''context_truncated''),
         (''candidate_count'', candidates), (''candidate_chars'', chars),
         (''model_identity'', dget obs ''model_identity''),
         (''adapter_present'', dget obs ''adapter_present''), (''adapter_digest'', adapter),
         (''model_identity_basis'', PStr ''daemon_model_path_basename_unverified_content'')])))))))))))))))))))"

text \<open>A duration that is present exactly when its flag is set.\<close>

definition flag_matches :: "pyval \<Rightarrow> pyval \<Rightarrow> bool" where
  "flag_matches flag ms \<longleftrightarrow> (if truthy flag then ms \<noteq> PNone else ms = PNone)"

text \<open>The error phase: none with the outcome ok, one of the phases otherwise.\<close>

definition scoring_phase :: "pyval \<Rightarrow> pyval \<Rightarrow> pyval outcome" where
  "scoring_phase code phase =
     (if eq_str code ''ok'' then demand (phase = PNone) INVALID (Value PNone)
      else demand_in phase DAEMON_ERROR_PHASES INVALID (Value phase))"

definition daemon_scoring :: "pydict \<Rightarrow> pydict \<Rightarrow> pydict outcome" where
  "daemon_scoring obs base =
     (let code = dget obs ''outcome_code''; phase = dget obs ''error_phase'';
          started = dget obs ''scoring_started''; included = dget obs ''load_included'';
          returned = optional_count (dget obs ''scores_returned'') in
      demand (token_or_none (dget obs ''request_id'')) INVALID
     (demand_in code DAEMON_OUTCOME_CODES INVALID
     (and_then (scoring_phase code phase) (\<lambda>error_phase.
      demand (is_bool started) INVALID
     (demand (is_bool included) INVALID
     (and_then (optional_duration (dget obs ''scoring_ms'')) (\<lambda>sms.
      and_then (optional_duration (dget obs ''load_ms'')) (\<lambda>lms.
      demand (sms \<noteq> PBool False \<and> lms \<noteq> PBool False) INVALID
     (demand (flag_matches started sms) INVALID
     (demand (flag_matches included lms) INVALID
     (demand (returned \<noteq> PBool False) INVALID
     (demand (eq_str (dget obs ''decomposition'') ''combined_tokenize_forward_scalar_extraction'') INVALID
     (Value (base @
        [(''request_id'', dget obs ''request_id''), (''outcome_code'', code),
         (''error_phase'', error_phase),
         (''scoring_started'', started), (''load_included'', included),
         (''scoring_ms'', sms), (''load_ms'', lms), (''scores_returned'', returned),
         (''decomposition'', PStr ''combined_tokenize_forward_scalar_extraction'')]))))))))))))))"

fun canonical_versions :: "pydict \<Rightarrow> pydict outcome" where
  "canonical_versions [] = Value []"
| "canonical_versions ((k, v) # d) =
     demand (k \<in> set DAEMON_RUNTIME_DISTRIBUTIONS) INVALID
    (demand (token_or_none v) INVALID
    (and_then (canonical_versions d) (\<lambda>r. Value ((k, v) # r))))"

definition runtime_versions :: "pyval \<Rightarrow> pyval outcome" where
  "runtime_versions v =
     (if v = PNone then Value PNone
      else demand (is_dict v \<and> length (dict_of_val v) \<le> length DAEMON_RUNTIME_DISTRIBUTIONS) INVALID
          (and_then (canonical_versions (dict_of_val v)) (\<lambda>d. Value (PDict d))))"

definition daemon_load :: "pydict \<Rightarrow> pydict \<Rightarrow> pydict outcome" where
  "daemon_load obs base =
     (let adapter = hex_digest (dget obs ''adapter_digest'');
          weights = hex_digest (dget obs ''model_weights_sha256'') in
      demand_in (dget obs ''load_outcome'') DAEMON_LOAD_OUTCOMES INVALID
     (and_then (optional_duration (dget obs ''load_ms'')) (\<lambda>lms.
      demand (lms \<noteq> PBool False \<and> lms \<noteq> PNone) INVALID
     (demand (token_or_none (dget obs ''model_identity'')) INVALID
     (demand (token_or_none (dget obs ''tokenizer_identity'')) INVALID
     (demand (is_bool (dget obs ''adapter_present'')) INVALID
     (demand (adapter \<noteq> PBool False) INVALID
     (demand (weights \<noteq> PBool False) INVALID
     (and_then (runtime_versions (dget obs ''runtime_versions'')) (\<lambda>versions.
      Value (base @
        [(''load_outcome'', dget obs ''load_outcome''), (''load_ms'', lms),
         (''model_identity'', dget obs ''model_identity''),
         (''tokenizer_identity'', dget obs ''tokenizer_identity''),
         (''tokenizer_identity_basis'', PStr ''unverified_from_scoring_process''),
         (''adapter_present'', dget obs ''adapter_present''), (''adapter_digest'', adapter),
         (''model_weights_sha256'', weights), (''runtime_versions'', versions)])))))))))))"

definition daemon_unload :: "pydict \<Rightarrow> pydict \<Rightarrow> pydict outcome" where
  "daemon_unload obs base =
     demand_in (dget obs ''unload_reason'') DAEMON_UNLOAD_REASONS INVALID
    (and_then (optional_duration (dget obs ''unload_ms'')) (\<lambda>ms.
     demand (ms \<noteq> PBool False) INVALID
    (Value (base @ [(''unload_reason'', dget obs ''unload_reason''), (''unload_ms'', ms)]))))"

definition validate_daemon :: "pydict \<Rightarrow> pydict outcome" where
  "validate_daemon obs =
     and_then (daemon_header obs) (\<lambda>base.
       let stage = dget obs ''daemon_stage'' in
       if eq_str stage ''request'' then daemon_request obs base
       else if eq_str stage ''scoring'' then daemon_scoring obs base
       else if eq_str stage ''load'' then daemon_load obs base
       else if eq_str stage ''unload'' then daemon_unload obs base
       else Value base)"

subsection \<open>Plugin observations\<close>

text \<open>The counts a complete coverage needs.\<close>

definition complete_counts :: "pyval \<Rightarrow> pyval \<Rightarrow> bool" where
  "complete_counts captured members \<longleftrightarrow>
     captured \<noteq> PNone \<and> members \<noteq> PNone \<and> 1 \<le> int_of_val captured \<and>
     int_of_val captured = int_of_val members"

fun plugin_scores :: "pydict \<Rightarrow> string list \<Rightarrow> pydict outcome" where
  "plugin_scores obs [] = Value []"
| "plugin_scores obs (k # ks) =
     (let v = py_or (dget obs k) (PStr ''unknown'') in
      demand_in v PLUGIN_SCORE INVALID
     (and_then (plugin_scores obs ks) (\<lambda>r. Value ((k, v) # r))))"

fun plugin_tokens :: "pydict \<Rightarrow> string list \<Rightarrow> pydict outcome" where
  "plugin_tokens obs [] = Value []"
| "plugin_tokens obs (k # ks) =
     (let v = dget obs k in
      if v = PNone \<or> v = PStr ''''
      then and_then (plugin_tokens obs ks) (\<lambda>r. Value ((k, PNone) # r))
      else demand (safe_token v \<noteq> None) INVALID
          (and_then (plugin_tokens obs ks) (\<lambda>r. Value ((k, v) # r))))"

definition plugin_request :: "pyval \<Rightarrow> pyval \<Rightarrow> pyval outcome" where
  "plugin_request lm request_id =
     (if eq_str lm ''no_request''
      then demand (\<not> truthy request_id) INVALID (Value PNone)
      else demand (safe_token request_id \<noteq> None) INVALID (Value request_id))"

definition plugin_dict :: "pydict \<Rightarrow> pyval \<Rightarrow> pydict \<Rightarrow> pydict \<Rightarrow> pydict" where
  "plugin_dict obs request_id scores tokens =
     (let captured = optional_count (dget obs ''captured_candidate_count'');
          members = optional_count (dget obs ''group_member_count'') in
      [(''plugin_observation_version'', PInt 1), (''plugin_stage'', dget obs ''plugin_stage''),
       (''association_role'', py_or (dget obs ''association_role'') (PStr ''unknown'')),
       (''association_read'', py_or (dget obs ''association_read'') (PStr ''unknown'')),
       (''coverage'', py_or (dget obs ''coverage'') (PStr ''unknown'')),
       (''coverage_basis'', py_or (dget obs ''coverage_basis'') (PStr ''unspecified'')),
       (''target_membership'', py_or (dget obs ''target_membership'') (PStr ''unknown'')),
       (''lm_request_state'', py_or (dget obs ''lm_request_state'') (PStr ''no_request'')),
       (''lm_request_id'', request_id),
       (''apply_state'', py_or (dget obs ''apply_state'') (PStr ''unknown'')),
       (''submission'', py_or (dget obs ''submission'') (PStr ''not_applicable'')),
       (''truncated'', PBool (dget obs ''truncated'' = PBool True)),
       (''frontend_terminal'', PStr ''unknown''),
       (''proves_current_frontend_result'', PBool False),
       (''order_changed'', PBool (dget obs ''order_changed'' = PBool True)),
       (''emission_matches_upstream'', PBool (dget obs ''emission_matches_upstream'' \<noteq> PBool False))]
      @ (if captured \<noteq> PNone then [(''captured_candidate_count'', captured)] else [])
      @ (if members \<noteq> PNone then [(''group_member_count'', members)] else [])
      @ scores @ tokens)"

definition validate_plugin :: "pydict \<Rightarrow> pydict outcome" where
  "validate_plugin obs =
     (let coverage = py_or (dget obs ''coverage'') (PStr ''unknown'');
          basis = py_or (dget obs ''coverage_basis'') (PStr ''unspecified'');
          target = py_or (dget obs ''target_membership'') (PStr ''unknown'');
          captured = optional_count (dget obs ''captured_candidate_count'');
          members = optional_count (dget obs ''group_member_count'');
          lm = py_or (dget obs ''lm_request_state'') (PStr ''no_request'');
          truncated = dget obs ''truncated'' in
      demand (version_ok obs ''plugin_observation_version'') ''unsupported_plugin_observation''
     (demand_in (dget obs ''plugin_stage'') PLUGIN_STAGES INVALID
     (demand_in (py_or (dget obs ''association_role'') (PStr ''unknown'')) PLUGIN_ROLES INVALID
     (demand_in (py_or (dget obs ''association_read'') (PStr ''unknown'')) PLUGIN_READS INVALID
     (demand_in coverage PLUGIN_COVERAGE INVALID
     (demand (safe_token basis \<noteq> None) INVALID
     (demand_in target PLUGIN_TARGET INVALID
     (demand (captured \<noteq> PBool False \<and> members \<noteq> PBool False) INVALID
     (demand (eq_str coverage ''complete'' \<longrightarrow>
                eq_str basis PLUGIN_COMPLETE_BASIS \<and> str_in target [''present'', ''absent''] \<and>
                complete_counts captured members) INVALID
     (demand_in lm PLUGIN_LM INVALID
     (and_then (plugin_request lm (dget obs ''lm_request_id'')) (\<lambda>request_id.
      demand_in (py_or (dget obs ''apply_state'') (PStr ''unknown'')) PLUGIN_APPLY INVALID
     (demand_in (py_or (dget obs ''submission'') (PStr ''not_applicable'')) PLUGIN_SUBMISSION INVALID
     (demand (truncated = PNone \<or> is_bool truncated) INVALID
     (demand (\<not> (truncated = PBool True \<and> eq_str coverage ''complete'')) INVALID
     (and_then (plugin_scores obs
        [''score_weight_state'', ''score_quality_state'', ''score_lm_state'', ''score_evidence_state''])
        (\<lambda>scores.
      and_then (plugin_tokens obs PLUGIN_TOKENS) (\<lambda>tokens.
      Value (plugin_dict obs request_id scores tokens)))))))))))))))))))"

text \<open>The query side: the coverage it reports and whether it counts as complete.\<close>

definition accept_plugin_coverage :: "pyval \<Rightarrow> pyval \<times> bool" where
  "accept_plugin_coverage v =
     (let p = dict_of_val v; captured = dget p ''captured_candidate_count'' in
      if \<not> is_dict v then (PStr ''unknown'', False)
      else if \<not> eq_str (dget p ''coverage'') ''complete''
      then (py_or (dget p ''coverage'') (PStr ''unknown''), False)
      else if \<not> eq_str (dget p ''coverage_basis'') PLUGIN_COMPLETE_BASIS then (PStr ''unknown'', False)
      else if dget p ''truncated'' = PBool True then (PStr ''unknown'', False)
      else if \<not> str_in (dget p ''target_membership'') [''present'', ''absent'']
      then (PStr ''unknown'', False)
      else if \<not> is_int captured \<or> int_of_val captured < 1 \<or>
              \<not> py_eq captured (dget p ''group_member_count'')
      then (PStr ''unknown'', False)
      else (PStr ''complete'', True))"

definition interpret_association ::
  "pyval \<Rightarrow> (pyval \<times> pyval \<times> pyval \<Rightarrow> bool) \<Rightarrow> (pyval \<Rightarrow> bool) \<Rightarrow> pyval \<times> pyval" where
  "interpret_association v known_refs known_processes =
     (let p = dict_of_val v;
          role = py_or (dget p ''association_role'') (PStr ''unknown'');
          reading = py_or (dget p ''association_read'') (PStr ''unknown'') in
      if \<not> is_dict v then (PStr ''unknown'', PStr ''unknown'')
      else if \<not> eq_str reading ''claimed_valid'' then
        (if str_in role PLUGIN_ROLES then role else PStr ''unknown'',
         if str_in reading PLUGIN_READS then reading else PStr ''unknown'')
      else if known_refs (dget p ''referenced_source_id'', dget p ''referenced_process_id'',
                          dget p ''referenced_update_id'')
      then (PStr ''engine_entry_context'', PStr ''valid_reference'')
      else if known_processes (dget p ''referenced_process_id'')
      then (PStr ''engine_entry_context'', PStr ''stale'')
      else (PStr ''engine_entry_context'', PStr ''unmatched''))"

subsection \<open>Content-free dictionaries\<close>

text \<open>Every string, key or value at any depth, is a token; no list; every float is finite.\<close>

fun token_only :: "pyval \<Rightarrow> bool" where
  "token_only (PStr s) = is_token s"
| "token_only (PList xs) = False"
| "token_only (PDict d) = list_all (\<lambda>kv. is_token (fst kv) \<and> token_only (snd kv)) d"
| "token_only (PFloat x) = (case x of FFin _ \<Rightarrow> True | _ \<Rightarrow> False)"
| "token_only _ = True"

lemma token_only_append [simp]:
  "token_only (PDict (d @ e)) \<longleftrightarrow> token_only (PDict d) \<and> token_only (PDict e)"
  by simp

lemma token_check: "is_token s \<longleftrightarrow> s \<noteq> [] \<and> length s \<le> 128 \<and> list_all (\<lambda>c. c \<in> set SAFE_TOKEN) s"
  by (simp add: is_token_def all_in_def)

lemma lower_hex_safe: "c \<in> set lower_hex \<Longrightarrow> c \<in> set SAFE_TOKEN"
  by (auto simp: lower_hex_def SAFE_TOKEN_def ascii_lower_def ascii_digits_def)

lemma hex_digest_token: "hex_digest v \<noteq> PBool False \<Longrightarrow> token_only (hex_digest v)"
  by (cases v) (auto simp: hex_digest_def token_check all_in_def list_all_iff lower_hex_safe)

lemma optional_count_token: "token_only (optional_count v)"
  by (cases v) (auto simp: optional_count_def)

lemma optional_duration_token: "optional_duration v = Value w \<Longrightarrow> token_only w"
  by (auto simp: optional_duration_def split: if_splits outcome.splits dest!: finite_nonneg_Value)

lemma token_or_none_token: "token_or_none v \<Longrightarrow> token_only v"
  by (cases v) (auto simp: token_or_none_def safe_token_def is_token_def split: if_splits)

lemma safe_token_token: "safe_token v \<noteq> None \<Longrightarrow> token_only v"
  using token_or_none_token by (simp add: token_or_none_def)

lemma is_bool_token: "is_bool v \<Longrightarrow> token_only v"
  by (cases v) auto

lemma is_int_token: "is_int v \<Longrightarrow> token_only v"
  by (auto simp: is_int_iff)

lemma str_in_token: "str_in v S \<Longrightarrow> list_all is_token S \<Longrightarrow> token_only v"
  by (auto simp: str_in_iff list_all_iff)

lemmas vocabulary_defs =
  DAEMON_STAGES_def DAEMON_OUTCOME_CODES_def DAEMON_ERROR_PHASES_def DAEMON_LOAD_OUTCOMES_def
  DAEMON_UNLOAD_REASONS_def DAEMON_STRATEGIES_def DAEMON_RUNTIME_DISTRIBUTIONS_def
  PLUGIN_STAGES_def PLUGIN_ROLES_def PLUGIN_READS_def PLUGIN_COVERAGE_def PLUGIN_LM_def
  PLUGIN_APPLY_def PLUGIN_SUBMISSION_def PLUGIN_TARGET_def PLUGIN_SCORE_def PLUGIN_TOKENS_def

lemmas safe_token_chars = SAFE_TOKEN_def ascii_upper_def ascii_lower_def ascii_digits_def

lemma vocabulary_tokens:
  "list_all is_token DAEMON_STAGES" "list_all is_token DAEMON_OUTCOME_CODES"
  "list_all is_token DAEMON_ERROR_PHASES" "list_all is_token DAEMON_LOAD_OUTCOMES"
  "list_all is_token DAEMON_UNLOAD_REASONS" "list_all is_token DAEMON_STRATEGIES"
  "list_all is_token DAEMON_RUNTIME_DISTRIBUTIONS" "list_all is_token PLUGIN_STAGES"
  "list_all is_token PLUGIN_ROLES" "list_all is_token PLUGIN_READS"
  "list_all is_token PLUGIN_COVERAGE" "list_all is_token PLUGIN_LM"
  "list_all is_token PLUGIN_APPLY" "list_all is_token PLUGIN_SUBMISSION"
  "list_all is_token PLUGIN_TARGET" "list_all is_token PLUGIN_SCORE"
  "list_all is_token PLUGIN_TOKENS"
  by (simp_all only: vocabulary_defs; simp add: token_check safe_token_chars)+

text \<open>The literals of the validators.\<close>

lemma literal_tokens:
  "is_token ''daemon_stage''"
  "is_token ''observed_at_wall_ms''"
  "is_token ''edges''"
  "is_token ''daemon_observation_version''"
  "is_token ''unsupported_daemon_observation''"
  "is_token ''clock_domain''"
  "is_token ''system_wall_utc_ms''"
  "is_token ''monotonic_domain''"
  "is_token ''daemon_process_relative_ms''"
  "is_token ''context_window_chars''"
  "is_token ''requested_context_chars''"
  "is_token ''effective_context_chars''"
  "is_token ''candidate_count''"
  "is_token ''candidate_chars''"
  "is_token ''effective_policy_id''"
  "is_token ''declared_policy_digest''"
  "is_token ''adapter_digest''"
  "is_token ''request_id''"
  "is_token ''plan_identity''"
  "is_token ''declared_policy_exact''"
  "is_token ''scoring_strategy''"
  "is_token ''context_window_rule''"
  "is_token ''unicode_char_tail''"
  "is_token ''attribution_rule''"
  "is_token ''decode_prefix_reconstruction''"
  "is_token ''context_truncated''"
  "is_token ''model_identity''"
  "is_token ''adapter_present''"
  "is_token ''model_identity_basis''"
  "is_token ''daemon_model_path_basename_unverified_content''"
  "is_token ''outcome_code''"
  "is_token ''error_phase''"
  "is_token ''scoring_started''"
  "is_token ''load_included''"
  "is_token ''scores_returned''"
  "is_token ''ok''"
  "is_token ''scoring_ms''"
  "is_token ''load_ms''"
  "is_token ''decomposition''"
  "is_token ''combined_tokenize_forward_scalar_extraction''"
  "is_token ''model_weights_sha256''"
  "is_token ''load_outcome''"
  "is_token ''tokenizer_identity''"
  "is_token ''runtime_versions''"
  "is_token ''tokenizer_identity_basis''"
  "is_token ''unverified_from_scoring_process''"
  "is_token ''unload_reason''"
  "is_token ''unload_ms''"
  "is_token ''plugin_stage''"
  "is_token ''association_role''"
  "is_token ''unknown''"
  "is_token ''association_read''"
  "is_token ''coverage''"
  "is_token ''coverage_basis''"
  "is_token ''unspecified''"
  "is_token ''target_membership''"
  "is_token ''captured_candidate_count''"
  "is_token ''group_member_count''"
  "is_token ''lm_request_state''"
  "is_token ''no_request''"
  "is_token ''apply_state''"
  "is_token ''submission''"
  "is_token ''not_applicable''"
  "is_token ''truncated''"
  "is_token ''plugin_observation_version''"
  "is_token ''unsupported_plugin_observation''"
  "is_token ''complete''"
  "is_token ''present''"
  "is_token ''absent''"
  "is_token ''lm_request_id''"
  "is_token ''score_weight_state''"
  "is_token ''score_quality_state''"
  "is_token ''score_lm_state''"
  "is_token ''score_evidence_state''"
  "is_token ''frontend_terminal''"
  "is_token ''proves_current_frontend_result''"
  "is_token ''order_changed''"
  "is_token ''emission_matches_upstream''"
  by (simp_all add: token_check safe_token_chars)

lemma edge_name_tokens: "list_all (\<lambda>ks. list_all is_token (snd ks)) DAEMON_EDGE_NAMES"
  by (simp add: DAEMON_EDGE_NAMES_def token_check safe_token_chars)

lemma edge_names_token:
  assumes "stage \<in> set DAEMON_STAGES" and "k \<in> set (the (map_of DAEMON_EDGE_NAMES stage))"
  shows "is_token k"
proof -
  have "map_of DAEMON_EDGE_NAMES stage \<noteq> None"
    using assms(1) by (auto simp: DAEMON_STAGES_def DAEMON_EDGE_NAMES_def)
  then obtain ks where "map_of DAEMON_EDGE_NAMES stage = Some ks" by blast
  then show ?thesis
    using assms(2) edge_name_tokens by (auto simp: list_all_iff dest!: map_of_SomeD)
qed

lemma canonical_edges_token:
  "canonical_edges d = Value r \<Longrightarrow> \<forall>k\<in>set (map fst d). is_token k \<Longrightarrow> token_only (PDict r)"
proof (induction d arbitrary: r)
  case (Cons kv d)
  obtain k v where kv: "kv = (k, v)" by (cases kv)
  with Cons.prems obtain w r' where w: "finite_nonneg v = Value w" "canonical_edges d = Value r'"
    "r = (k, w) # r'"
    by (auto simp: and_then_Value split: outcome.splits)
  then show ?case
    using Cons kv finite_nonneg_Value [OF w(1)] by auto
qed simp

lemma canonical_versions_token:
  "canonical_versions d = Value r \<Longrightarrow> token_only (PDict r)"
proof (induction d arbitrary: r)
  case (Cons kv d)
  obtain k v where kv: "kv = (k, v)" by (cases kv)
  with Cons.prems obtain r' where r: "k \<in> set DAEMON_RUNTIME_DISTRIBUTIONS" "token_or_none v"
    "canonical_versions d = Value r'" "r = (k, v) # r'"
    by (auto simp: and_then_Value)
  then show ?case
    using Cons vocabulary_tokens(7) token_or_none_token [OF r(2)] by (auto simp: list_all_iff)
qed simp

lemma runtime_versions_token: "runtime_versions v = Value w \<Longrightarrow> token_only w"
  using canonical_versions_token
  by (auto simp: runtime_versions_def and_then_Value split: if_splits simp del: token_only.simps(3))

lemmas token_facts =
  hex_digest_token optional_count_token optional_duration_token token_or_none_token
  safe_token_token is_bool_token is_int_token runtime_versions_token

lemma header_token:
  assumes "daemon_header obs = Value base"
  shows "token_only (PDict base)"
  using assms unfolding daemon_header_def Let_def
proof (elim outcome_elims)
  fix es
  assume a: "str_in (dget obs ''daemon_stage'') DAEMON_STAGES"
    "is_int (dget obs ''observed_at_wall_ms'') \<and> 0 < int_of_val (dget obs ''observed_at_wall_ms'') \<and>
       int_of_val (dget obs ''observed_at_wall_ms'') < 4102444800000"
    "is_dict (dget obs ''edges'') \<and> dict_of_val (dget obs ''edges'') \<noteq> [] \<and>
       set (map fst (dict_of_val (dget obs ''edges'')))
       \<subseteq> set (the (map_of DAEMON_EDGE_NAMES (str_of_val (dget obs ''daemon_stage''))))"
    "canonical_edges (dict_of_val (dget obs ''edges'')) = Value es"
    and b: "Value [(''daemon_observation_version'', PInt 1), (''daemon_stage'', dget obs ''daemon_stage''),
       (''observed_at_wall_ms'', dget obs ''observed_at_wall_ms''),
       (''clock_domain'', PStr ''system_wall_utc_ms''),
       (''monotonic_domain'', PStr ''daemon_process_relative_ms''), (''edges'', PDict es)] = Value base"
  have "str_of_val (dget obs ''daemon_stage'') \<in> set DAEMON_STAGES" using a(1) by (auto simp: str_in_def)
  then have "token_only (PDict es)"
    using canonical_edges_token [OF a(4)] a(3) edge_names_token by blast
  moreover have "token_only (dget obs ''daemon_stage'')"
    using str_in_token [OF a(1) vocabulary_tokens(1)] .
  moreover have "token_only (dget obs ''observed_at_wall_ms'')" using a(2) is_int_token by blast
  ultimately show ?thesis using b by (auto simp: literal_tokens)
qed

lemma optional_token_token: "token_only (optional_token v)"
  by (cases v) (auto simp: optional_token_def safe_token_def is_token_def)

lemmas scoring_token_facts =
  str_in_token [OF _ vocabulary_tokens(2)] str_in_token [OF _ vocabulary_tokens(3)]
  str_in_token [OF _ vocabulary_tokens(4)] str_in_token [OF _ vocabulary_tokens(5)]
  str_in_token [OF _ vocabulary_tokens(6)]

lemma request_token:
  assumes "daemon_request obs base = Value d" and "token_only (PDict base)"
  shows "token_only (PDict d)"
  using assms unfolding daemon_request_def Let_def
  by (elim outcome_elims)
    (auto simp: literal_tokens optional_token_token
      optional_count_token intro: token_facts scoring_token_facts)

lemma scoring_phase_token: "scoring_phase code phase = Value w \<Longrightarrow> token_only w"
  by (auto simp: scoring_phase_def intro: scoring_token_facts split: if_splits)

lemma scoring_token:
  assumes "daemon_scoring obs base = Value d" and "token_only (PDict base)"
  shows "token_only (PDict d)"
  using assms unfolding daemon_scoring_def Let_def
  by (elim outcome_elims)
    (auto simp: literal_tokens optional_count_token
      intro: token_facts scoring_token_facts scoring_phase_token)

lemma load_token:
  assumes "daemon_load obs base = Value d" and "token_only (PDict base)"
  shows "token_only (PDict d)"
  using assms unfolding daemon_load_def Let_def
  by (elim outcome_elims)
    (auto simp: literal_tokens intro: token_facts scoring_token_facts)

lemma unload_token:
  assumes "daemon_unload obs base = Value d" and "token_only (PDict base)"
  shows "token_only (PDict d)"
  using assms unfolding daemon_unload_def Let_def
  by (elim outcome_elims)
    (auto simp: literal_tokens intro: token_facts scoring_token_facts)

lemma daemon_token: "validate_daemon obs = Value d \<Longrightarrow> token_only (PDict d)"
  unfolding validate_daemon_def Let_def
  by (elim outcome_elims)
    (auto dest!: header_token dest: request_token scoring_token load_token unload_token
      simp del: token_only.simps split: if_splits)

lemma plugin_scores_token:
  "plugin_scores obs ks = Value r \<Longrightarrow> list_all is_token ks \<Longrightarrow> token_only (PDict r)"
proof (induction ks arbitrary: r)
  case (Cons k ks)
  then obtain r' where r: "plugin_scores obs ks = Value r'"
    "str_in (py_or (dget obs k) (PStr ''unknown'')) PLUGIN_SCORE"
    "r = (k, py_or (dget obs k) (PStr ''unknown'')) # r'"
    by (auto simp: Let_def and_then_Value)
  then show ?case using Cons str_in_token [OF r(2) vocabulary_tokens(16)] by auto
qed simp

lemma safe_token_Some_token: "safe_token v = Some t \<Longrightarrow> token_only v"
  by (rule safe_token_token) simp

lemma plugin_tokens_token:
  "plugin_tokens obs ks = Value r \<Longrightarrow> list_all is_token ks \<Longrightarrow> token_only (PDict r)"
proof (induction ks arbitrary: r)
  case (Cons k ks)
  then obtain r' v where r: "plugin_tokens obs ks = Value r'" "r = (k, v) # r'" "token_only v"
    by (auto simp: Let_def and_then_Value split: if_splits intro: safe_token_Some_token)
  then show ?case using Cons by auto
qed simp

lemma plugin_request_token: "plugin_request lm v = Value w \<Longrightarrow> token_only w"
  by (auto simp: plugin_request_def split: if_splits intro: safe_token_Some_token)

lemmas plugin_token_facts =
  str_in_token [OF _ vocabulary_tokens(8)] str_in_token [OF _ vocabulary_tokens(9)]
  str_in_token [OF _ vocabulary_tokens(10)] str_in_token [OF _ vocabulary_tokens(11)]
  str_in_token [OF _ vocabulary_tokens(12)] str_in_token [OF _ vocabulary_tokens(13)]
  str_in_token [OF _ vocabulary_tokens(14)] str_in_token [OF _ vocabulary_tokens(15)]
  plugin_request_token


lemma plugin_token:
  assumes "validate_plugin obs = Value p"
  shows "token_only (PDict p)"
  using assms unfolding validate_plugin_def Let_def
proof (elim outcome_elims)
  fix req scores tokens
  assume a: "str_in (dget obs ''plugin_stage'') PLUGIN_STAGES"
    "str_in (py_or (dget obs ''association_role'') (PStr ''unknown'')) PLUGIN_ROLES"
    "str_in (py_or (dget obs ''association_read'') (PStr ''unknown'')) PLUGIN_READS"
    "str_in (py_or (dget obs ''coverage'') (PStr ''unknown'')) PLUGIN_COVERAGE"
    "safe_token (py_or (dget obs ''coverage_basis'') (PStr ''unspecified'')) \<noteq> None"
    "str_in (py_or (dget obs ''target_membership'') (PStr ''unknown'')) PLUGIN_TARGET"
    "str_in (py_or (dget obs ''lm_request_state'') (PStr ''no_request'')) PLUGIN_LM"
    "str_in (py_or (dget obs ''apply_state'') (PStr ''unknown'')) PLUGIN_APPLY"
    "str_in (py_or (dget obs ''submission'') (PStr ''not_applicable'')) PLUGIN_SUBMISSION"
    and r: "plugin_request (py_or (dget obs ''lm_request_state'') (PStr ''no_request''))
       (dget obs ''lm_request_id'') = Value req"
    and s: "plugin_scores obs [''score_weight_state'', ''score_quality_state'', ''score_lm_state'',
       ''score_evidence_state''] = Value scores"
    and t: "plugin_tokens obs PLUGIN_TOKENS = Value tokens"
    and v: "Value (plugin_dict obs req scores tokens) = Value p"
  have st: "token_only (PDict scores)" "token_only (PDict tokens)"
    using plugin_scores_token [OF s] plugin_tokens_token [OF t vocabulary_tokens(17)]
    by (simp_all add: literal_tokens)
  have b: "token_only (py_or (dget obs ''coverage_basis'') (PStr ''unspecified''))"
    by (rule safe_token_token [OF a(5)])
  show ?thesis
    using v st b plugin_request_token [OF r]
    by (auto simp: plugin_dict_def Let_def literal_tokens optional_count_token
        plugin_token_facts(1) [OF a(1)] plugin_token_facts(2) [OF a(2)] plugin_token_facts(3) [OF a(3)]
        plugin_token_facts(4) [OF a(4)] plugin_token_facts(8) [OF a(6)] plugin_token_facts(5) [OF a(7)]
        plugin_token_facts(6) [OF a(8)] plugin_token_facts(7) [OF a(9)])
qed

subsection \<open>Properties\<close>

text \<open>
  C25. What an observer declares reaches the archive only as tokens, flags and finite numbers:
  every string in an accepted daemon or plugin dictionary, key or value at any depth, is an
  identifier of at most 128 characters of the token alphabet, there are no lists, and no float
  is infinite or not-a-number.
\<close>

theorem validated_observation_is_content_free:
  "(\<forall>d. validate_daemon obs = Value d \<longrightarrow> token_only (PDict d)) \<and>
   (\<forall>p. validate_plugin obs = Value p \<longrightarrow> token_only (PDict p))"
  using daemon_token plugin_token by blast

subsection \<open>Relations between the fields\<close>

lemma has_key_iff: "has_key d k \<longleftrightarrow> map_of d k \<noteq> None"
  by (auto simp: has_key_def map_of_eq_None_iff)

lemma dget_append_keys: "dget (a @ b) k = (if has_key a k then dget a k else dget b k)"
  by (auto simp: dget_def has_key_iff map_add_def split: option.split)

lemma optional_count_int: "optional_count v \<noteq> PNone \<Longrightarrow> optional_count v \<noteq> PBool False \<Longrightarrow>
   \<exists>n. optional_count v = PInt n \<and> 0 \<le> n"
  by (cases v) (auto simp: optional_count_def)

lemma plugin_parts:
  assumes "validate_plugin obs = Value p"
  obtains req scores tokens where "p = plugin_dict obs req scores tokens"
    "str_in (py_or (dget obs ''coverage'') (PStr ''unknown'')) PLUGIN_COVERAGE"
    "optional_count (dget obs ''captured_candidate_count'') \<noteq> PBool False"
    "optional_count (dget obs ''group_member_count'') \<noteq> PBool False"
    "eq_str (py_or (dget obs ''coverage'') (PStr ''unknown'')) ''complete'' \<longrightarrow>
       eq_str (py_or (dget obs ''coverage_basis'') (PStr ''unspecified'')) PLUGIN_COMPLETE_BASIS \<and>
       str_in (py_or (dget obs ''target_membership'') (PStr ''unknown'')) [''present'', ''absent''] \<and>
       complete_counts (optional_count (dget obs ''captured_candidate_count''))
         (optional_count (dget obs ''group_member_count'')) \<and> dget obs ''truncated'' \<noteq> PBool True"
  using assms unfolding validate_plugin_def Let_def
  by (elim outcome_elims) (rule that [OF sym], simp only: outcome.inject, assumption, blast+)

lemma plugin_dict_fields:
  "dget (plugin_dict obs req scores tokens) ''coverage'' = py_or (dget obs ''coverage'') (PStr ''unknown'')"
  "dget (plugin_dict obs req scores tokens) ''coverage_basis'' =
     py_or (dget obs ''coverage_basis'') (PStr ''unspecified'')"
  "dget (plugin_dict obs req scores tokens) ''target_membership'' =
     py_or (dget obs ''target_membership'') (PStr ''unknown'')"
  "dget (plugin_dict obs req scores tokens) ''truncated'' = PBool (dget obs ''truncated'' = PBool True)"
  "optional_count (dget obs ''captured_candidate_count'') \<noteq> PNone \<Longrightarrow>
   dget (plugin_dict obs req scores tokens) ''captured_candidate_count'' =
     optional_count (dget obs ''captured_candidate_count'')"
  "optional_count (dget obs ''captured_candidate_count'') \<noteq> PNone \<Longrightarrow>
   optional_count (dget obs ''group_member_count'') \<noteq> PNone \<Longrightarrow>
   dget (plugin_dict obs req scores tokens) ''group_member_count'' =
     optional_count (dget obs ''group_member_count'')"
  by (simp_all add: plugin_dict_def Let_def)

text \<open>
  Admission and query agree on completeness: for every accepted plugin dictionary the
  query side reports exactly the declared coverage, as complete exactly when complete was
  declared; and then the basis is the group basis, the target's membership is known, the
  window was not truncated, and the captured and the group's counts are the same positive
  number.
\<close>

theorem complete_coverage_is_consistent:
  assumes "validate_plugin obs = Value p"
  shows "accept_plugin_coverage (PDict p) =
      (dget p ''coverage'', eq_str (dget p ''coverage'') ''complete'') \<and>
    (eq_str (dget p ''coverage'') ''complete'' \<longrightarrow>
      eq_str (dget p ''coverage_basis'') PLUGIN_COMPLETE_BASIS \<and>
      str_in (dget p ''target_membership'') [''present'', ''absent''] \<and>
      dget p ''truncated'' = PBool False \<and>
      (\<exists>n. 1 \<le> n \<and> dget p ''captured_candidate_count'' = PInt n \<and>
           dget p ''group_member_count'' = PInt n))"
proof -
  obtain req scores tokens where p: "p = plugin_dict obs req scores tokens"
    and cov: "str_in (py_or (dget obs ''coverage'') (PStr ''unknown'')) PLUGIN_COVERAGE"
    and counts: "optional_count (dget obs ''captured_candidate_count'') \<noteq> PBool False"
    "optional_count (dget obs ''group_member_count'') \<noteq> PBool False"
    and full: "eq_str (py_or (dget obs ''coverage'') (PStr ''unknown'')) ''complete'' \<longrightarrow>
       eq_str (py_or (dget obs ''coverage_basis'') (PStr ''unspecified'')) PLUGIN_COMPLETE_BASIS \<and>
       str_in (py_or (dget obs ''target_membership'') (PStr ''unknown'')) [''present'', ''absent''] \<and>
       complete_counts (optional_count (dget obs ''captured_candidate_count''))
         (optional_count (dget obs ''group_member_count'')) \<and> dget obs ''truncated'' \<noteq> PBool True"
    using plugin_parts [OF assms] by metis
  show ?thesis
  proof (cases "eq_str (dget p ''coverage'') ''complete''")
    case True
    then have c: "complete_counts (optional_count (dget obs ''captured_candidate_count''))
         (optional_count (dget obs ''group_member_count''))"
      using full by (simp add: p plugin_dict_fields)
    then obtain n m where nm: "optional_count (dget obs ''captured_candidate_count'') = PInt n"
      "optional_count (dget obs ''group_member_count'') = PInt m"
      using optional_count_int counts unfolding complete_counts_def by metis
    with c have "m = n" "1 \<le> n" by (auto simp: complete_counts_def)
    then show ?thesis
      using True full nm
      by (simp add: accept_plugin_coverage_def Let_def p plugin_dict_fields is_int_iff eq_str_def)
  next
    case False
    moreover have "py_or (dget p ''coverage'') (PStr ''unknown'') = dget p ''coverage''"
      using cov by (auto simp: p plugin_dict_fields py_or_def str_in_iff PLUGIN_COVERAGE_def
          split: if_splits)
    ultimately show ?thesis by (simp add: accept_plugin_coverage_def Let_def)
  qed
qed

definition sample_plugin :: pydict where
  "sample_plugin =
     [(''plugin_observation_version'', PInt 1), (''plugin_stage'', PStr ''competition''),
      (''coverage'', PStr ''complete''), (''coverage_basis'', PStr PLUGIN_COMPLETE_BASIS),
      (''target_membership'', PStr ''present''), (''captured_candidate_count'', PInt 3),
      (''group_member_count'', PInt 3)]"

lemma sample_plugin_valid: "\<exists>p. validate_plugin sample_plugin = Value p"
  by (simp add: validate_plugin_def Let_def sample_plugin_def demand_def demand_in_def is_hashable_def
      version_ok_def str_in_def py_or_def vocabulary_defs PLUGIN_COMPLETE_BASIS_def safe_token_def
      all_in_def safe_token_chars optional_count_def eq_str_def complete_counts_def
      plugin_request_def)

theorem complete_coverage_is_consistent_witness:
  "\<exists>p. validate_plugin sample_plugin = Value p \<and>
       accept_plugin_coverage (PDict p) = (PStr ''complete'', True)"
proof -
  obtain p where p: "validate_plugin sample_plugin = Value p" using sample_plugin_valid by blast
  then have "dget p ''coverage'' = PStr ''complete''"
    by (auto elim!: plugin_parts simp: plugin_dict_fields sample_plugin_def py_or_def)
  then show ?thesis
    using complete_coverage_is_consistent [OF p] p by (simp add: eq_str_def)
qed


lemma header_shape:
  assumes "daemon_header obs = Value base"
  shows "\<exists>es. base =
      [(''daemon_observation_version'', PInt 1), (''daemon_stage'', dget obs ''daemon_stage''),
       (''observed_at_wall_ms'', dget obs ''observed_at_wall_ms''),
       (''clock_domain'', PStr ''system_wall_utc_ms''),
       (''monotonic_domain'', PStr ''daemon_process_relative_ms''), (''edges'', PDict es)] \<and>
    es \<noteq> [] \<and> str_in (dget obs ''daemon_stage'') DAEMON_STAGES \<and>
    set (map fst es) \<subseteq> set (the (map_of DAEMON_EDGE_NAMES (str_of_val (dget obs ''daemon_stage'')))) \<and>
    (\<forall>v\<in>set (map snd es). \<exists>q. v = PFloat (FFin q) \<and> 0 \<le> q)"
proof -
  have e: "canonical_edges d = Value es \<Longrightarrow> fst ` set es = fst ` set d \<and> (es = []) = (d = []) \<and>
      (\<forall>v\<in>snd ` set es. \<exists>q. v = PFloat (FFin q) \<and> 0 \<le> q)" for d es
  proof (induction d arbitrary: es)
    case (Cons kv d)
    obtain k v where kv: "kv = (k, v)" by (cases kv)
    with Cons.prems obtain w r where "finite_nonneg v = Value w" "canonical_edges d = Value r"
      "es = (k, w) # r" by (auto simp: and_then_Value split: outcome.splits)
    then show ?case using Cons.IH [of r] kv finite_nonneg_Value [of v w] by auto
  qed simp
  show ?thesis
    using assms unfolding daemon_header_def Let_def
    apply (elim outcome_elims)
    subgoal for es
      using e [of "dict_of_val (dget obs ''edges'')" es]
      by (intro exI [of _ es]) simp
    done
qed

definition daemon_consistent :: "pydict \<Rightarrow> bool" where
  "daemon_consistent d \<longleftrightarrow>
     (eq_str (dget d ''daemon_stage'') ''request'' \<longrightarrow>
        0 < int_of_val (dget d ''context_window_chars'') \<and>
        0 \<le> int_of_val (dget d ''effective_context_chars'') \<and>
        int_of_val (dget d ''effective_context_chars'') \<le> int_of_val (dget d ''requested_context_chars'')) \<and>
     (eq_str (dget d ''daemon_stage'') ''scoring'' \<longrightarrow>
        (dget d ''error_phase'' = PNone \<longleftrightarrow> eq_str (dget d ''outcome_code'') ''ok'') \<and>
        (dget d ''scoring_started'' = PBool True \<longleftrightarrow> dget d ''scoring_ms'' \<noteq> PNone) \<and>
        (dget d ''load_included'' = PBool True \<longleftrightarrow> dget d ''load_ms'' \<noteq> PNone)) \<and>
     (eq_str (dget d ''daemon_stage'') ''load'' \<longrightarrow> dget d ''load_ms'' \<noteq> PNone)"

lemma is_bool_cases: "is_bool v \<Longrightarrow> v = PBool True \<or> v = PBool False"
  by (cases v) auto

lemma stage_lookup:
  assumes "base = [(''daemon_observation_version'', PInt 1), (''daemon_stage'', PStr stage),
       (''observed_at_wall_ms'', x), (''clock_domain'', y), (''monotonic_domain'', z), (''edges'', w)]"
  shows "dget (base @ r) ''daemon_stage'' = PStr stage"
    "k \<notin> {''daemon_observation_version'', ''daemon_stage'', ''observed_at_wall_ms'', ''clock_domain'',
      ''monotonic_domain'', ''edges''} \<Longrightarrow> dget (base @ r) k = dget r k"
  by (auto simp: assms)

lemma request_consistent:
  assumes "daemon_request obs base = Value d"
    and "base = [(''daemon_observation_version'', PInt 1), (''daemon_stage'', PStr ''request''),
       (''observed_at_wall_ms'', x), (''clock_domain'', y), (''monotonic_domain'', z), (''edges'', w)]"
  shows "\<exists>r. d = base @ r \<and> daemon_consistent (base @ r)"
proof -
  have c: "optional_count v \<noteq> PBool False \<Longrightarrow> 0 \<le> int_of_val (optional_count v)" for v
    by (cases v) (auto simp: optional_count_def)
  have t: "optional_count v \<noteq> PBool False \<Longrightarrow> truthy (optional_count v) \<Longrightarrow>
      0 < int_of_val (optional_count v)" for v
    by (cases v) (auto simp: optional_count_def)
  from assms(1) show ?thesis
    unfolding daemon_request_def Let_def
    by (elim outcome_elims)
      (auto simp: daemon_consistent_def stage_lookup [OF assms(2)] eq_str_def intro: c t)
qed

lemma optional_duration_cases:
  "optional_duration v = Value w \<Longrightarrow> w \<noteq> PBool False \<Longrightarrow> w = PNone \<or> (\<exists>q. w = PFloat (FFin q))"
  by (auto simp: optional_duration_def split: if_splits outcome.splits dest!: finite_nonneg_Value)

lemma scoring_consistent:
  assumes "daemon_scoring obs base = Value d"
    and "base = [(''daemon_observation_version'', PInt 1), (''daemon_stage'', PStr ''scoring''),
       (''observed_at_wall_ms'', x), (''clock_domain'', y), (''monotonic_domain'', z), (''edges'', w)]"
  shows "\<exists>r. d = base @ r \<and> daemon_consistent (base @ r)"
proof -
  have ph: "scoring_phase c p = Value e \<Longrightarrow> (e = PNone) = eq_str c ''ok''" for c p e
    by (auto simp: scoring_phase_def str_in_iff split: if_splits)
  have fl: "is_bool v \<Longrightarrow> flag_matches v ms \<Longrightarrow> (v = PBool True) = (ms \<noteq> PNone)" for v ms
    by (auto simp: flag_matches_def dest!: is_bool_cases split: if_splits)
  from assms(1) show ?thesis
    unfolding daemon_scoring_def Let_def
    by (elim outcome_elims)
      (auto simp: daemon_consistent_def stage_lookup [OF assms(2)] eq_str_def fl
        dest: ph [unfolded eq_str_def])
qed

lemma load_consistent:
  assumes "daemon_load obs base = Value d"
    and "base = [(''daemon_observation_version'', PInt 1), (''daemon_stage'', PStr ''load''),
       (''observed_at_wall_ms'', x), (''clock_domain'', y), (''monotonic_domain'', z), (''edges'', w)]"
  shows "\<exists>r. d = base @ r \<and> daemon_consistent (base @ r)"
  using assms(1) unfolding daemon_load_def Let_def
  by (elim outcome_elims)
    (auto simp: daemon_consistent_def stage_lookup [OF assms(2)] eq_str_def)

lemma unload_consistent:
  assumes "daemon_unload obs base = Value d"
    and "base = [(''daemon_observation_version'', PInt 1), (''daemon_stage'', PStr ''unload''),
       (''observed_at_wall_ms'', x), (''clock_domain'', y), (''monotonic_domain'', z), (''edges'', w)]"
  shows "\<exists>r. d = base @ r \<and> daemon_consistent (base @ r)"
  using assms(1) unfolding daemon_unload_def Let_def
  by (elim outcome_elims)
    (auto simp: daemon_consistent_def stage_lookup [OF assms(2)] eq_str_def)

text \<open>
  The fields of an accepted daemon dictionary agree with each other: its stage is known
  and its edges are a nonempty set of that stage's edge names with finite nonnegative times; a
  request's context window is positive and its effective context is not longer than the
  requested one; a scoring outcome names an error phase exactly when it is not ok, carries a
  scoring time exactly when scoring started and a load time exactly when a load was included;
  a load carries its time.
\<close>

theorem validated_daemon_is_consistent:
  assumes "validate_daemon obs = Value d"
  shows "daemon_consistent d \<and>
    (\<exists>stage es. dget d ''daemon_stage'' = PStr stage \<and> dget d ''edges'' = PDict es \<and> es \<noteq> [] \<and>
       set (map fst es) \<subseteq> set (the (map_of DAEMON_EDGE_NAMES stage)) \<and>
       (\<forall>v\<in>set (map snd es). \<exists>q. v = PFloat (FFin q) \<and> 0 \<le> q))"
proof -
  obtain base where base: "daemon_header obs = Value base"
    and rest: "(if eq_str (dget obs ''daemon_stage'') ''request'' then daemon_request obs base
       else if eq_str (dget obs ''daemon_stage'') ''scoring'' then daemon_scoring obs base
       else if eq_str (dget obs ''daemon_stage'') ''load'' then daemon_load obs base
       else if eq_str (dget obs ''daemon_stage'') ''unload'' then daemon_unload obs base
       else Value base) = Value d"
    using assms unfolding validate_daemon_def Let_def by (elim outcome_elims)
  obtain es where b: "base =
      [(''daemon_observation_version'', PInt 1), (''daemon_stage'', dget obs ''daemon_stage''),
       (''observed_at_wall_ms'', dget obs ''observed_at_wall_ms''),
       (''clock_domain'', PStr ''system_wall_utc_ms''),
       (''monotonic_domain'', PStr ''daemon_process_relative_ms''), (''edges'', PDict es)]"
    and es: "es \<noteq> []" "str_in (dget obs ''daemon_stage'') DAEMON_STAGES"
    "set (map fst es) \<subseteq> set (the (map_of DAEMON_EDGE_NAMES (str_of_val (dget obs ''daemon_stage''))))"
    "\<forall>v\<in>set (map snd es). \<exists>q. v = PFloat (FFin q) \<and> 0 \<le> q"
    using header_shape [OF base] by blast
  obtain stage where st: "dget obs ''daemon_stage'' = PStr stage" "stage \<in> set DAEMON_STAGES"
    using es(2) by (auto simp: str_in_iff)
  have lit: "base = [(''daemon_observation_version'', PInt 1), (''daemon_stage'', PStr stage),
       (''observed_at_wall_ms'', dget obs ''observed_at_wall_ms''),
       (''clock_domain'', PStr ''system_wall_utc_ms''),
       (''monotonic_domain'', PStr ''daemon_process_relative_ms''), (''edges'', PDict es)]"
    unfolding b st(1) ..
  consider "stage = ''request''" | "stage = ''scoring''" | "stage = ''load''" | "stage = ''unload''"
    using st(2) unfolding DAEMON_STAGES_def by auto
  then have "\<exists>x. d = base @ x \<and> daemon_consistent (base @ x)"
  proof cases
    case 1
    with rest st have "daemon_request obs base = Value d" by (simp add: eq_str_def)
    from request_consistent [OF this lit [unfolded 1]] show ?thesis .
  next
    case 2
    with rest st have "daemon_scoring obs base = Value d" by (simp add: eq_str_def)
    from scoring_consistent [OF this lit [unfolded 2]] show ?thesis .
  next
    case 3
    with rest st have "daemon_load obs base = Value d" by (simp add: eq_str_def)
    from load_consistent [OF this lit [unfolded 3]] show ?thesis .
  next
    case 4
    with rest st have "daemon_unload obs base = Value d" by (simp add: eq_str_def)
    from unload_consistent [OF this lit [unfolded 4]] show ?thesis .
  qed
  then obtain x where x: "d = base @ x" "daemon_consistent d" by blast
  have "dget d ''daemon_stage'' = PStr stage" "dget d ''edges'' = PDict es"
    using st by (simp_all add: x b)
  then show ?thesis using x(2) es st by auto
qed

definition sample_daemon :: pydict where
  "sample_daemon =
     [(''daemon_observation_version'', PInt 1), (''daemon_stage'', PStr ''unload''),
      (''observed_at_wall_ms'', PInt 1700000000000),
      (''edges'', PDict [(''unload_started'', PFloat (FFin 5))]),
      (''unload_reason'', PStr ''unspecified'')]"

lemma sample_daemon_valid: "\<exists>d. validate_daemon sample_daemon = Value d"
  by (simp add: validate_daemon_def daemon_header_def daemon_unload_def Let_def sample_daemon_def
      demand_def demand_in_def is_hashable_def version_ok_def str_in_def eq_str_def
      DAEMON_STAGES_def DAEMON_EDGE_NAMES_def DAEMON_UNLOAD_REASONS_def is_int_def
      finite_nonneg_def is_number_def optional_duration_def)

theorem validated_daemon_is_consistent_witness:
  "\<exists>d stage. validate_daemon sample_daemon = Value d \<and> dget d ''daemon_stage'' = PStr stage \<and>
     daemon_consistent d"
proof -
  obtain d where d: "validate_daemon sample_daemon = Value d" using sample_daemon_valid by blast
  show ?thesis using validated_daemon_is_consistent [OF d] d by blast
qed

theorem validated_observation_is_content_free_witness:
  "\<exists>d. validate_daemon sample_daemon = Value d \<and> token_only (PDict d)"
  using validated_observation_is_content_free [of sample_daemon] sample_daemon_valid by blast

end
