(* ===== verification/Archive_Authority.thy ===== *)
theory Archive_Authority
  imports Archive_Base
begin

text \<open>
  The serving authority of the input archive (\<open>src/archive/management_authority.py\<close>): the
  registry of source incarnations, the serving generation that a restoration advances, and
  the fence that keeps every source registered before a restoration from being served again.
  The control document on disk is part of the state: a publication may fail after or before
  the document was replaced, and a restart reads what is there.
\<close>

definition MAX_SOURCES :: nat where "MAX_SOURCES = 8192"
definition MAX_AUTHORITY_BYTES :: nat where "MAX_AUTHORITY_BYTES = 2 * 1048576"

text \<open>The control document; \<open>sources\<close> maps the digest of a source id to a generation.\<close>

record control =
  generation :: int
  serving_job :: "string option"
  sources :: "(string \<times> int) list"
  committed :: "(string \<times> int) list"

definition fresh_control :: control where
  "fresh_control = \<lparr>generation = 0, serving_job = None, sources = [], committed = []\<rparr>"

definition is_identifier :: "nat \<Rightarrow> string \<Rightarrow> bool" where
  "is_identifier n s \<longleftrightarrow> length s = n \<and> all_in s lower_hex"

text \<open>The checks of \<open>_prepare\<close> on a control document it has read.\<close>

definition valid_control :: "control \<Rightarrow> bool" where
  "valid_control v \<longleftrightarrow>
     0 \<le> generation v \<and> length (sources v) \<le> MAX_SOURCES \<and>
     list_all (\<lambda>(k, g). is_identifier 64 k \<and> 0 \<le> g \<and> g \<le> generation v) (sources v) \<and>
     length (committed v) \<le> 128 \<and>
     list_all (\<lambda>(j, g). is_identifier 64 j \<and> 1 \<le> g \<and> g \<le> generation v) (committed v) \<and>
     (\<forall>j. serving_job v = Some j \<longrightarrow> is_identifier 64 j \<and> j \<in> set (map fst (committed v))) \<and>
     ((serving_job v = None) = (generation v = 0))"

record authority =
  auth_value :: control
  auth_failed :: bool
  auth_disk :: control

text \<open>How a call to \<open>publish\<close> ends: the document replaced, or an error before or after the replace.\<close>

datatype publication = Published | Failed_before | Failed_after

definition auth_write ::
  "(control \<Rightarrow> nat) \<Rightarrow> publication \<Rightarrow> control \<Rightarrow> authority \<Rightarrow> unit outcome \<times> authority" where
  "auth_write clen io v a =
     (if MAX_AUTHORITY_BYTES < clen v then (Refused ''management_bound'', a)
      else case io of
        Published \<Rightarrow> (Value (), a\<lparr>auth_disk := v, auth_value := v\<rparr>)
      | Failed_before \<Rightarrow> (Raised ''OSError'', a\<lparr>auth_failed := True\<rparr>)
      | Failed_after \<Rightarrow> (Raised ''OSError'', a\<lparr>auth_disk := v, auth_failed := True\<rparr>))"

text \<open>\<open>key\<close>: the digest of a source id, a parameter; a source that is no token is refused.\<close>

definition auth_allowed :: "(string \<Rightarrow> string) \<Rightarrow> pyval \<Rightarrow> authority \<Rightarrow> bool outcome" where
  "auth_allowed key src a =
     (if auth_failed a then Value False
      else case safe_token src of
        None \<Rightarrow> Refused ''invalid_request''
      | Some s \<Rightarrow> Value (map_of (sources (auth_value a)) (key s) = Some (generation (auth_value a))))"

definition auth_register ::
  "(string \<Rightarrow> string) \<Rightarrow> (control \<Rightarrow> nat) \<Rightarrow> publication \<Rightarrow> pyval \<Rightarrow> authority \<Rightarrow>
   bool outcome \<times> authority" where
  "auth_register key clen io src a =
     (case safe_token src of
        None \<Rightarrow> (Refused ''invalid_request'', a)
      | Some s \<Rightarrow>
          if auth_failed a then (Refused ''management_authority_unavailable'', a)
          else if map_of (sources (auth_value a)) (key s) \<noteq> None then (auth_allowed key src a, a)
          else if MAX_SOURCES \<le> length (sources (auth_value a)) then (Refused ''management_bound'', a)
          else let v = auth_value a;
                   r = auth_write clen io (v\<lparr>sources := sources v @ [(key s, generation v)]\<rparr>) a
               in (and_then (fst r) (\<lambda>_. Value True), snd r))"

definition auth_refusal :: "(string \<Rightarrow> string) \<Rightarrow> string \<Rightarrow> authority \<Rightarrow> string" where
  "auth_refusal key s a =
     (if auth_failed a then ''management_authority_unavailable''
      else if map_of (sources (auth_value a)) (key s) \<noteq> None then ''source_recreation_required''
      else ''source_unregistered'')"

text \<open>\<open>seed_history\<close> on the keys of the indexed rows: unknown ones are registered, fenced if restored.\<close>

definition seed_history ::
  "(control \<Rightarrow> nat) \<Rightarrow> publication \<Rightarrow> string list \<Rightarrow> authority \<Rightarrow> unit outcome \<times> authority" where
  "seed_history clen io keys a =
     (let v = auth_value a;
          missing = remdups (filter (\<lambda>k. map_of (sources v) k = None) keys);
          g = (if generation v \<noteq> 0 then generation v - 1 else 0) in
      if missing = [] then (Value (), a)
      else if MAX_SOURCES < length missing + length (sources v) then (Refused ''management_bound'', a)
      else auth_write clen io (v\<lparr>sources := sources v @ map (\<lambda>k. (k, g)) missing\<rparr>) a)"

definition auth_switch ::
  "(control \<Rightarrow> nat) \<Rightarrow> publication \<Rightarrow> string \<Rightarrow> authority \<Rightarrow> unit outcome \<times> authority" where
  "auth_switch clen io job a =
     (let v = auth_value a in
      auth_write clen io
        (v\<lparr>generation := generation v + 1, serving_job := Some job,
           committed := dset job (generation v + 1) (committed v)\<rparr>) a)"

text \<open>A restart reads the document that is on disk and refuses one that is not valid.\<close>

definition auth_restart :: "authority \<Rightarrow> authority option" where
  "auth_restart a =
     (if valid_control (auth_disk a)
      then Some \<lparr>auth_value = auth_disk a, auth_failed = False, auth_disk = auth_disk a\<rparr>
      else None)"

definition auth_summary :: "authority \<Rightarrow> pydict" where
  "auth_summary a =
     (let v = auth_value a;
          fenced = length (filter (\<lambda>(k, g). g < generation v) (sources v)) in
      [(''serving_generation'', PInt (generation v)), (''authority_available'', PBool (\<not> auth_failed a)),
       (''registered_sources'', PInt (int (length (sources v)))),
       (''fenced_sources'', PInt (int fenced)), (''source_bound'', PInt (int MAX_SOURCES)),
       (''authority_bytes_bound'', PInt (int MAX_AUTHORITY_BYTES)),
       (''producer_recreation_required'', PBool (fenced \<noteq> 0)),
       (''capture_recovery'',
          PStr (if fenced \<noteq> 0 then ''producer_recreation_new_source_identity_required''
                else ''current_registration_required''))])"

subsection \<open>Steps\<close>

text \<open>
  One step of the authority over its life: a registration, a cutover of historical sources, a
  restoration's switch to a job that was not committed before, and a restart. The calls that
  write are refused by \<open>register\<close> and by the management layer once the authority failed.
\<close>

inductive auth_step :: "(string \<Rightarrow> string) \<Rightarrow> (control \<Rightarrow> nat) \<Rightarrow> authority \<Rightarrow> authority \<Rightarrow> bool"
  for key clen where
  registers: "auth_step key clen a (snd (auth_register key clen io src a))"
| seeds: "\<not> auth_failed a \<Longrightarrow> auth_step key clen a (snd (seed_history clen io keys a))"
| switches: "\<not> auth_failed a \<Longrightarrow> auth_step key clen a (snd (auth_switch clen io job a))"
| restarts: "auth_restart a = Some a' \<Longrightarrow> auth_step key clen a a'"

inductive_cases auth_stepE: "auth_step key clen a b"

text \<open>Memory and disk agree until a publication fails.\<close>

definition auth_inv :: "authority \<Rightarrow> bool" where
  "auth_inv a \<longleftrightarrow>
     (\<not> auth_failed a \<longrightarrow> auth_value a = auth_disk a) \<and>
     (\<forall>k g. map_of (sources (auth_disk a)) k = Some g \<longrightarrow> g \<le> generation (auth_disk a))"

text \<open>What a document that replaces another keeps: every source's generation, and its own only grows.\<close>

definition extends_control :: "control \<Rightarrow> control \<Rightarrow> bool" where
  "extends_control v w \<longleftrightarrow>
     generation v \<le> generation w \<and>
     (\<forall>k g. map_of (sources v) k = Some g \<longrightarrow> map_of (sources w) k = Some g) \<and>
     (\<forall>k g. map_of (sources w) k = Some g \<longrightarrow>
        map_of (sources v) k = Some g \<or> g \<le> generation v)"

lemma extends_refl [simp]: "extends_control v v"
  by (simp add: extends_control_def)

lemma auth_write_step:
  assumes "auth_inv a" and "\<not> auth_failed a" and "extends_control (auth_value a) v"
  shows "auth_inv (snd (auth_write clen io v a))"
    and "extends_control (auth_disk a) (auth_disk (snd (auth_write clen io v a)))"
proof -
  have vd: "auth_value a = auth_disk a" using assms by (simp add: auth_inv_def)
  have "g \<le> generation v" if "map_of (sources v) k = Some g" for k g
    using that assms(1,3) unfolding auth_inv_def extends_control_def vd by fastforce
  then show "auth_inv (snd (auth_write clen io v a))"
    using assms(1,2) by (auto simp: auth_inv_def auth_write_def split: publication.split)
  show "extends_control (auth_disk a) (auth_disk (snd (auth_write clen io v a)))"
    using assms(3) by (auto simp: auth_write_def vd split: publication.split)
qed

lemma extends_append:
  assumes "\<forall>(k, g)\<in>set new. map_of (sources v) k = None \<and> g \<le> generation v"
  shows "extends_control v (v\<lparr>sources := sources v @ new\<rparr>)"
proof -
  have "map_of new k = None" if "map_of (sources v) k = Some g" for k g
  proof (rule ccontr)
    assume "map_of new k \<noteq> None"
    then obtain h where "(k, h) \<in> set new" by (auto dest: map_of_SomeD)
    with assms that show False by auto
  qed
  moreover have "g \<le> generation v" if "map_of new k = Some g" for k g
    using assms map_of_SomeD [OF that] by auto
  ultimately show ?thesis
    by (fastforce simp: extends_control_def map_add_def split: option.splits)
qed

lemma extends_switch: "extends_control v (v\<lparr>generation := generation v + 1, serving_job := j, committed := c\<rparr>)"
  by (simp add: extends_control_def)

lemma auth_step_extends:
  assumes "auth_step key clen a b" and "auth_inv a"
  shows "auth_inv b \<and> extends_control (auth_disk a) (auth_disk b)"
  using assms(1)
proof (cases rule: auth_step.cases)
  case (registers io src)
  let ?v = "auth_value a"
  show ?thesis
  proof (cases "safe_token src = None \<or> auth_failed a \<or>
      map_of (sources ?v) (key (the (safe_token src))) \<noteq> None \<or> MAX_SOURCES \<le> length (sources ?v)")
    case True
    then have "b = a" using registers by (auto simp: auth_register_def split: option.splits)
    then show ?thesis using assms(2) by simp
  next
    case False
    then obtain s where s: "safe_token src = Some s" by auto
    with False have b: "b = snd (auth_write clen io (?v\<lparr>sources := sources ?v @ [(key s, generation ?v)]\<rparr>) a)"
      using registers by (simp add: auth_register_def Let_def)
    have "extends_control ?v (?v\<lparr>sources := sources ?v @ [(key s, generation ?v)]\<rparr>)"
      by (rule extends_append) (use False s in simp)
    then show ?thesis unfolding b using auth_write_step [OF assms(2)] False by blast
  qed
next
  case (seeds io keys)
  let ?v = "auth_value a"
  let ?m = "remdups (filter (\<lambda>k. map_of (sources ?v) k = None) keys)"
  let ?g = "if generation ?v \<noteq> 0 then generation ?v - 1 else 0"
  show ?thesis
  proof (cases "?m = [] \<or> MAX_SOURCES < length ?m + length (sources ?v)")
    case True
    then have "b = a" using seeds by (auto simp: seed_history_def Let_def)
    then show ?thesis using assms(2) by simp
  next
    case False
    then have b: "b = snd (auth_write clen io (?v\<lparr>sources := sources ?v @ map (\<lambda>k. (k, ?g)) ?m\<rparr>) a)"
      using seeds by (auto simp: seed_history_def Let_def)
    have "extends_control ?v (?v\<lparr>sources := sources ?v @ map (\<lambda>k. (k, ?g)) ?m\<rparr>)"
      by (rule extends_append) auto
    then show ?thesis unfolding b using auth_write_step [OF assms(2) seeds(2)] by blast
  qed
next
  case (switches io job)
  then show ?thesis
    using auth_write_step [OF assms(2) switches(2) extends_switch]
    by (simp add: auth_switch_def Let_def)
next
  case restarts
  then show ?thesis
    using assms(2) by (auto simp: auth_restart_def auth_inv_def split: if_splits)
qed

lemma auth_steps_extend:
  assumes "(auth_step key clen)\<^sup>*\<^sup>* a b" and "auth_inv a"
  shows "auth_inv b \<and> generation (auth_disk a) \<le> generation (auth_disk b) \<and>
    (\<forall>k g. map_of (sources (auth_disk a)) k = Some g \<longrightarrow> map_of (sources (auth_disk b)) k = Some g)"
  using assms
proof (induction rule: rtranclp_induct)
  case (step b c)
  then have "auth_inv c \<and> extends_control (auth_disk b) (auth_disk c)"
    using auth_step_extends by blast
  with step show ?case unfolding extends_control_def by force
qed simp

lemma fresh_inv: "auth_inv \<lparr>auth_value = fresh_control, auth_failed = False, auth_disk = fresh_control\<rparr>"
  by (simp add: auth_inv_def fresh_control_def)

text \<open>
  A restoration fences every source it has not seen in its own generation, for good: from
  a consistent state in which a source is registered under a generation below the one on
  disk, no sequence of registrations, cutovers, further restorations, failed publications and
  restarts ever makes the authority allow that source again; and whenever a source is allowed,
  it is recorded on disk under the current generation.
\<close>

theorem fenced_source_stays_fenced:
  assumes "auth_inv a" and "(auth_step key clen)\<^sup>*\<^sup>* a b"
    and "map_of (sources (auth_disk a)) (key s) = Some g" and "g < generation (auth_disk a)"
  shows "auth_allowed key (PStr s) b \<noteq> Value True \<and>
    (\<forall>src. auth_allowed key src b = Value True \<longrightarrow>
       (\<exists>t. src = PStr t \<and> map_of (sources (auth_disk b)) (key t) = Some (generation (auth_disk b))))"
proof -
  have b: "auth_inv b" "generation (auth_disk a) \<le> generation (auth_disk b)"
    "map_of (sources (auth_disk b)) (key s) = Some g"
    using auth_steps_extend [OF assms(2,1)] assms(3) by blast+
  have al: "\<exists>t. src = PStr t \<and> map_of (sources (auth_disk b)) (key t) = Some (generation (auth_disk b))"
    if "auth_allowed key src b = Value True" for src
    using that b(1)
    by (auto simp: auth_allowed_def auth_inv_def safe_token_Some split: if_splits option.splits)
  then have "auth_allowed key (PStr s) b \<noteq> Value True"
    using b(2,3) assms(4) by fastforce
  then show ?thesis using al by blast
qed

definition sample_authority :: authority where
  "sample_authority =
     \<lparr>auth_value = \<lparr>generation = 1, serving_job = Some ''j'', sources = [(''k'', 0)], committed = [(''j'', 1)]\<rparr>,
      auth_failed = False,
      auth_disk = \<lparr>generation = 1, serving_job = Some ''j'', sources = [(''k'', 0)], committed = [(''j'', 1)]\<rparr>\<rparr>"

theorem fenced_source_stays_fenced_witness:
  "auth_allowed (\<lambda>s. s) (PStr ''k'')
     (snd (auth_register (\<lambda>s. s) (\<lambda>v. 100) Published (PStr ''k'') sample_authority)) \<noteq> Value True"
proof -
  have "auth_inv sample_authority" by (simp add: auth_inv_def sample_authority_def)
  moreover have "(auth_step (\<lambda>s. s) (\<lambda>v. 100))\<^sup>*\<^sup>* sample_authority
      (snd (auth_register (\<lambda>s. s) (\<lambda>v. 100) Published (PStr ''k'') sample_authority))"
    by (rule r_into_rtranclp) (rule registers)
  moreover have "map_of (sources (auth_disk sample_authority)) ''k'' = Some 0"
    "0 < generation (auth_disk sample_authority)" by (simp_all add: sample_authority_def)
  ultimately show ?thesis using fenced_source_stays_fenced by blast
qed

end
