(* ===== verification/Frontend_Timing.thy ===== *)
theory Frontend_Timing
  imports Archive_Base "HOL-Library.Multiset"
begin

text \<open>
  The numeric part of the query layer (\<open>src/archive/querying.py\<close>): tick conversion, the
  canonical form of a frontend timing object with the classification of its primary
  interval, and the percentile block of the reports.
\<close>

subsection \<open>Tick conversion\<close>

definition TIMEBASE_MAX :: int where "TIMEBASE_MAX = 2 ^ 64 - 1"

text \<open>On integers; the type tests of the code are those of its callers' values.\<close>

definition conversion_ns :: "int \<Rightarrow> int \<Rightarrow> int \<Rightarrow> int option" where
  "conversion_ns ticks numer denom =
     (if ticks < 0 \<or> numer \<le> 0 \<or> denom \<le> 0 then None
      else if TIMEBASE_MAX * denom < ticks * numer then None
      else Some (ticks * numer div denom))"

definition conversion_val :: "pyval \<Rightarrow> pyval \<Rightarrow> pyval \<Rightarrow> int option" where
  "conversion_val ticks numer denom =
     (if \<not> is_int ticks \<or> \<not> is_int numer \<or> \<not> is_int denom then None
      else conversion_ns (int_of_val ticks) (int_of_val numer) (int_of_val denom))"

definition interval_ns :: "pyval \<Rightarrow> pyval \<Rightarrow> pyval \<Rightarrow> pyval \<Rightarrow> int option" where
  "interval_ns a b numer denom =
     (if \<not> is_int a \<or> \<not> is_int b \<or> \<not> is_int numer \<or> \<not> is_int denom then None
      else if int_of_val a \<le> 0 \<or> int_of_val b \<le> int_of_val a then None
      else conversion_val (PInt (int_of_val b - int_of_val a)) numer denom)"

lemma conversion_Some:
  assumes "conversion_ns t n d = Some x"
  shows "x = t * n div d" and "0 \<le> x" and "x \<le> TIMEBASE_MAX" and "0 \<le> t" and "0 < n" and "0 < d"
proof -
  have h: "0 \<le> t" "0 < n" "0 < d" "t * n \<le> TIMEBASE_MAX * d" "x = t * n div d"
    using assms by (auto simp: conversion_ns_def split: if_splits)
  then show "x = t * n div d" "0 \<le> t" "0 < n" "0 < d" by blast+
  show "0 \<le> x" using h by (simp add: pos_imp_zdiv_nonneg_iff)
  have "t * n div d \<le> TIMEBASE_MAX * d div d" by (rule zdiv_mono1 [OF h(4,3)])
  then show "x \<le> TIMEBASE_MAX" using h by simp
qed

subsection \<open>The commit call\<close>

definition VALIDITY_VALUES :: "string list" where
  "VALIDITY_VALUES = [''valid'', ''invalid'', ''unknown'']"

definition ENDPOINT_VALUES :: "string list" where
  "ENDPOINT_VALUES = [''unavailable'', ''marked_text'', ''panel_update'']"

definition TIMING_COMMIT_CALL_KEYS :: "string list" where
  "TIMING_COMMIT_CALL_KEYS =
    [''endpoint'', ''start_ticks'', ''end_ticks'', ''duration_ns'', ''validity'', ''unknown_reason'']"

definition only_keys :: "pydict \<Rightarrow> string list \<Rightarrow> bool" where
  "only_keys d ks \<longleftrightarrow> set (map fst d) \<subseteq> set ks"

definition opt_int :: "pyval \<Rightarrow> int option" where
  "opt_int v = (if is_int v then Some (int_of_val v) else None)"

record commit_call =
  cc_start :: "int option"
  cc_end :: "int option"
  cc_duration :: "int option"
  cc_validity :: string
  cc_reason :: "string option"
  cc_computed :: "int option"

text \<open>The classification of a call whose fields have been checked.\<close>

definition classify_call :: "int option \<Rightarrow> int option \<Rightarrow> int option \<Rightarrow> int \<Rightarrow> int \<Rightarrow> commit_call" where
  "classify_call a b decl numer denom =
     (let c = \<lparr>cc_start = a, cc_end = b, cc_duration = decl, cc_validity = ''unknown'',
               cc_reason = None, cc_computed = None\<rparr> in
      case (a, b) of
        (Some x, Some y) \<Rightarrow>
          if x \<le> 0 \<or> y \<le> x
          then c\<lparr>cc_validity := ''invalid'', cc_reason := Some ''nonmonotone_commit_call''\<rparr>
          else (case conversion_ns (y - x) numer denom of
            None \<Rightarrow> c\<lparr>cc_validity := ''invalid'', cc_reason := Some ''unrepresentable_commit_call''\<rparr>
          | Some ns \<Rightarrow>
              (case decl of
                 None \<Rightarrow> c\<lparr>cc_validity := ''invalid'', cc_reason := Some ''declared_duration_absent'',
                          cc_computed := Some ns\<rparr>
               | Some d \<Rightarrow>
                   if d \<noteq> ns
                   then c\<lparr>cc_validity := ''invalid'', cc_reason := Some ''declared_duration_mismatch'',
                          cc_computed := Some ns\<rparr>
                   else c\<lparr>cc_validity := ''valid''\<rparr>))
      | _ \<Rightarrow> c\<lparr>cc_reason := Some ''commit_call_missing_endpoint_or_duration''\<rparr>)"

definition canonical_call :: "pyval \<Rightarrow> int \<Rightarrow> int \<Rightarrow> commit_call outcome" where
  "canonical_call v numer denom =
     (let d = dict_of_val v; a = dget d ''start_ticks''; b = dget d ''end_ticks'';
          decl = dget d ''duration_ns'' in
      demand (is_dict v) ''commit_call_not_object''
     (demand (only_keys d TIMING_COMMIT_CALL_KEYS) ''commit_call_unknown_field''
     (demand (str_in (dget d ''endpoint'') [''insert_text'']) ''commit_call_endpoint''
     (demand_opt_in (dget d ''validity'') VALIDITY_VALUES ''commit_call_validity''
     (demand (dget d ''unknown_reason'' = PNone \<or> is_str (dget d ''unknown_reason''))
        ''commit_call_unknown_reason''
     (demand (a = PNone \<or> (is_int a \<and> 0 \<le> int_of_val a)) ''commit_call_start_ticks''
     (demand (b = PNone \<or> (is_int b \<and> 0 < int_of_val b)) ''commit_call_end_ticks''
     (demand (decl = PNone \<or> (is_int decl \<and> 0 < int_of_val decl)) ''commit_call_duration_ns''
     (Value (classify_call (opt_int a) (opt_int b) (opt_int decl) numer denom))))))))))"

subsection \<open>The timing object\<close>

definition TIMING_OBJECT_KEYS :: "string list" where
  "TIMING_OBJECT_KEYS =
    [''version'', ''action_id'', ''action'', ''operation'', ''clock'', ''event_queue_wait'',
     ''nested_actions'', ''continuity_cut'', ''association'', ''update_calls'', ''endpoint'',
     ''entry_ticks'', ''endpoint_ticks'', ''duration_ns'', ''validity'', ''unknown_reason'',
     ''commit_call'']"

definition TIMING_CLOCK_KEYS :: "string list" where
  "TIMING_CLOCK_KEYS = [''domain'', ''unit'', ''timebase_numer'', ''timebase_denom'']"

definition TIMING_ASSOCIATION_KEYS :: "string list" where
  "TIMING_ASSOCIATION_KEYS =
    [''source_instance_id'', ''process_id'', ''continuity_segment_id'', ''update_id'',
     ''terminal_update_id'', ''commit_id'']"

definition TIMING_UPDATE_CALL_KEYS :: "string list" where
  "TIMING_UPDATE_CALL_KEYS = [''endpoint'', ''ticks'']"

record timing =
  t_action_id :: string
  t_action :: pyval
  t_operation :: pyval
  t_numer :: int
  t_denom :: int
  t_nested :: int
  t_cut :: bool
  t_calls :: "(string \<times> int) list"
  t_endpoint :: string
  t_entry :: "int option"
  t_endpoint_ticks :: "int option"
  t_declared :: "int option"
  t_validity :: string
  t_reason :: "string option"
  t_commit :: "commit_call option"
  t_association :: pydict
  t_computed :: "int option"

fun update_calls :: "pyval list \<Rightarrow> (string \<times> int) list outcome" where
  "update_calls [] = Value []"
| "update_calls (c # cs) =
     (let d = dict_of_val c in
      demand (is_dict c \<and> only_keys d TIMING_UPDATE_CALL_KEYS) ''timing_update_call''
     (demand (str_in (dget d ''endpoint'') [''marked_text'', ''panel_update''])
        ''timing_update_call_endpoint''
     (demand (is_int (dget d ''ticks'') \<and> 0 < int_of_val (dget d ''ticks''))
        ''timing_update_call_ticks''
     (and_then (update_calls cs) (\<lambda>r.
        Value ((str_of_val (dget d ''endpoint''), int_of_val (dget d ''ticks'')) # r))))))"

fun association_fields :: "pydict \<Rightarrow> string list \<Rightarrow> pydict outcome" where
  "association_fields d [] = Value []"
| "association_fields d (k # ks) =
     (demand (dget d k = PNone \<or> (is_str (dget d k) \<and> str_of_val (dget d k) \<noteq> []))
        (''timing_association_'' @ k)
     (and_then (association_fields d ks) (\<lambda>r. Value ((k, dget d k) # r))))"

text \<open>The last completed call of an endpoint, as the dictionary comprehension keeps it.\<close>

definition last_call :: "(string \<times> int) list \<Rightarrow> string \<Rightarrow> int option" where
  "last_call calls e = map_of (rev calls) e"

definition last_call0 :: "(string \<times> int) list \<Rightarrow> string \<Rightarrow> int" where
  "last_call0 calls e = (case last_call calls e of None \<Rightarrow> 0 | Some t \<Rightarrow> t)"

definition primary_mismatch :: "(string \<times> int) list \<Rightarrow> string \<Rightarrow> int option \<Rightarrow> string option" where
  "primary_mismatch calls e ticks =
     (if e = ''unavailable'' then
        (if calls \<noteq> [] then Some ''endpoint_unavailable_with_completed_calls'' else None)
      else if e = ''marked_text'' then
        (case last_call calls ''marked_text'' of
           None \<Rightarrow> Some ''missing_primary_completion_call''
         | Some t \<Rightarrow>
             if ticks \<noteq> Some t then Some ''primary_endpoint_not_completed_call''
             else if t \<le> last_call0 calls ''panel_update''
             then Some ''primary_endpoint_not_last_completed_call'' else None)
      else if e = ''panel_update'' then
        (case last_call calls ''panel_update'' of
           None \<Rightarrow> Some ''missing_primary_completion_call''
         | Some t \<Rightarrow>
             if ticks \<noteq> Some t then Some ''primary_endpoint_not_completed_call''
             else if t < last_call0 calls ''marked_text''
             then Some ''primary_endpoint_not_last_completed_call'' else None)
      else None)"

text \<open>Validity, reason and computed duration of the primary interval.\<close>

definition classify_primary ::
  "(string \<times> int) list \<Rightarrow> string \<Rightarrow> int option \<Rightarrow> int option \<Rightarrow> int option \<Rightarrow> int \<Rightarrow> int \<Rightarrow>
   string \<times> string option \<times> int option" where
  "classify_primary calls e entry ticks decl numer denom =
     (case primary_mismatch calls e ticks of
        Some r \<Rightarrow> (''invalid'', Some r, None)
      | None \<Rightarrow>
          if e = ''unavailable'' then (''unknown'', Some ''no_update_call'', None)
          else (case entry of
            None \<Rightarrow> (''invalid'', Some ''missing_entry'', None)
          | Some a \<Rightarrow>
              if a = 0 then (''invalid'', Some ''missing_entry'', None) else
              (case ticks of
                 None \<Rightarrow> (''invalid'', Some ''missing_endpoint'', None)
               | Some b \<Rightarrow>
                   if b = 0 then (''invalid'', Some ''missing_endpoint'', None)
                   else if b \<le> a then (''invalid'', Some ''nonmonotone_endpoint'', None)
                   else (case conversion_ns (b - a) numer denom of
                     None \<Rightarrow> (''invalid'', Some ''unrepresentable_endpoint'', None)
                   | Some ns \<Rightarrow>
                       (case decl of
                          None \<Rightarrow> (''invalid'', Some ''declared_duration_absent'', Some ns)
                        | Some d \<Rightarrow>
                            if d \<noteq> ns then (''invalid'', Some ''declared_duration_mismatch'', Some ns)
                            else (''valid'', None, Some ns))))))"

text \<open>The checks of a positive optional integer.\<close>

definition opt_positive :: "pyval \<Rightarrow> bool" where
  "opt_positive v \<longleftrightarrow> v = PNone \<or> (is_int v \<and> 0 < int_of_val v)"

text \<open>\<open>event_queue_wait\<close>: a finite nonnegative number, \<open>None\<close> or the word unknown.\<close>

definition check_queue_wait :: "pyval \<Rightarrow> unit outcome" where
  "check_queue_wait v =
     (if is_number v then
        (case finite_nonneg v of Value _ \<Rightarrow> Value ()
         | Refused _ \<Rightarrow> Refused ''timing_event_queue_wait'' | Raised e \<Rightarrow> Raised e)
      else if v \<noteq> PNone \<and> \<not> eq_str v ''unknown'' then Refused ''timing_event_queue_wait''
      else Value ())"

definition check_clock :: "pyval \<Rightarrow> (int \<times> int) outcome" where
  "check_clock v =
     (let c = dict_of_val v; n = dget c ''timebase_numer''; m = dget c ''timebase_denom'' in
      demand (is_dict v) ''timing_clock''
     (demand (only_keys c TIMING_CLOCK_KEYS) ''timing_clock''
     (demand (eq_str (dget c ''domain'') ''mach_absolute_time'') ''timing_clock_domain''
     (demand (eq_str (dget c ''unit'') ''nanoseconds'') ''timing_clock_unit''
     (demand (is_int n \<and> is_int m \<and> 0 < int_of_val n \<and> 0 < int_of_val m) ''timing_timebase''
     (Value (int_of_val n, int_of_val m)))))))"

definition check_endpoint :: "pyval \<Rightarrow> string outcome" where
  "check_endpoint v =
     (demand (is_str v \<and> str_of_val v \<noteq> []) ''timing_endpoint_missing''
     (demand (str_of_val v \<in> set ENDPOINT_VALUES) ''unsupported_frontend_endpoint''
     (Value (str_of_val v))))"

definition check_nested :: "pyval \<Rightarrow> int outcome" where
  "check_nested v =
     (demand (is_int v \<and> 0 \<le> int_of_val v) ''timing_nested_actions''
     (demand (int_of_val v \<le> 255) ''timing_nested_actions_bound''
     (Value (int_of_val v))))"

definition check_calls :: "pydict \<Rightarrow> (string \<times> int) list outcome" where
  "check_calls d =
     (let v = dget_or d ''update_calls'' (PList []); w = (if v = PNone then PList [] else v) in
      demand (is_list w) ''timing_update_calls'' (update_calls (list_of_val w)))"

definition check_association :: "pyval \<Rightarrow> pydict outcome" where
  "check_association v =
     (if v = PNone then Value []
      else demand (is_dict v) ''timing_association''
          (demand (only_keys (dict_of_val v) TIMING_ASSOCIATION_KEYS) ''timing_association''
          (association_fields (dict_of_val v) TIMING_ASSOCIATION_KEYS)))"

definition opt_text :: "pydict \<Rightarrow> string \<Rightarrow> bool" where
  "opt_text d k \<longleftrightarrow> has_key d k \<longrightarrow> is_str (dget d k)"

definition str_or_none :: "pyval \<Rightarrow> pyval" where
  "str_or_none v = (if is_str v then v else PNone)"

text \<open>\<open>reason or declared_reason or "declared_unknown"\<close>, the declared one being any string.\<close>

definition final_reason :: "string \<Rightarrow> string option \<Rightarrow> pyval \<Rightarrow> string option" where
  "final_reason validity reason declared =
     (if validity = ''valid'' then None
      else case reason of
        Some r \<Rightarrow> Some r
      | None \<Rightarrow> if is_str declared \<and> str_of_val declared \<noteq> [] then Some (str_of_val declared)
                else Some ''declared_unknown'')"

definition build_timing ::
  "pydict \<Rightarrow> int \<times> int \<Rightarrow> string \<Rightarrow> int \<Rightarrow> (string \<times> int) list \<Rightarrow> pydict \<Rightarrow> timing" where
  "build_timing d nd e nested calls assoc =
     (let entry = opt_int (dget d ''entry_ticks''); ticks = opt_int (dget d ''endpoint_ticks'');
          decl = opt_int (dget d ''duration_ns'');
          c = classify_primary calls e entry ticks decl (fst nd) (snd nd) in
      \<lparr>t_action_id = str_of_val (dget d ''action_id''),
       t_action = str_or_none (dget d ''action''), t_operation = str_or_none (dget d ''operation''),
       t_numer = fst nd, t_denom = snd nd, t_nested = nested,
       t_cut = (dget d ''continuity_cut'' = PBool True), t_calls = calls, t_endpoint = e,
       t_entry = entry, t_endpoint_ticks = ticks, t_declared = decl, t_validity = fst c,
       t_reason = final_reason (fst c) (fst (snd c)) (dget d ''unknown_reason''),
       t_commit = None, t_association = assoc, t_computed = snd (snd c)\<rparr>)"

definition canonical_frontend_timing :: "pyval \<Rightarrow> timing outcome" where
  "canonical_frontend_timing v =
     (let d = dict_of_val v in
      demand (v \<noteq> PNone) ''timing_absent''
     (demand (is_dict v) ''timing_not_object''
     (demand (only_keys d TIMING_OBJECT_KEYS) ''timing_unknown_field''
     (demand (dget d ''version'' = PInt 1) ''unsupported_frontend_timing_version''
     (demand (is_str (dget d ''action_id'') \<and> str_of_val (dget d ''action_id'') \<noteq> [])
        ''timing_action_identity''
     (demand (opt_text d ''action'') ''timing_action_type''
     (demand (opt_text d ''operation'') ''timing_operation_type''
     (and_then (check_clock (dget d ''clock'')) (\<lambda>nd.
      demand (opt_positive (dget d ''entry_ticks'')) ''timing_entry_ticks''
     (and_then (check_endpoint (dget d ''endpoint'')) (\<lambda>e.
      demand (opt_positive (dget d ''endpoint_ticks'')) ''timing_endpoint_ticks''
     (demand (opt_positive (dget d ''duration_ns'')) ''timing_duration_ns''
     (demand_opt_in (dget d ''validity'') VALIDITY_VALUES ''timing_validity''
     (and_then (check_nested (dget_or d ''nested_actions'' (PInt 0))) (\<lambda>nested.
      demand (dget d ''continuity_cut'' = PNone \<or> is_bool (dget d ''continuity_cut''))
        ''timing_continuity_cut''
     (and_then (check_queue_wait (dget d ''event_queue_wait'')) (\<lambda>_.
      and_then (check_calls d) (\<lambda>calls.
      and_then (check_association (dget d ''association'')) (\<lambda>assoc.
      let t = build_timing d nd e nested calls assoc in
      if dget d ''commit_call'' = PNone then Value t
      else and_then (canonical_call (dget d ''commit_call'') (fst nd) (snd nd)) (\<lambda>c.
        Value (t\<lparr>t_commit := Some c\<rparr>)))))))))))))))))))))"

text \<open>\<open>canonicalize_timing_payload\<close>: no timing object declared, a canonical one, or a refusal.\<close>

definition canonicalize_timing_payload :: "pyval \<Rightarrow> timing option outcome" where
  "canonicalize_timing_payload v =
     (if \<not> is_dict v \<or> \<not> has_key (dict_of_val v) ''frontend_timing'' then Value None
      else and_then (canonical_frontend_timing (dget (dict_of_val v) ''frontend_timing''))
             (\<lambda>t. Value (Some t)))"

subsection \<open>What a canonical object says\<close>

lemma opt_int_positive: "opt_positive v \<Longrightarrow> opt_int v = Some n \<Longrightarrow> 0 < n"
  by (auto simp: opt_positive_def opt_int_def is_int_iff split: if_splits)

lemma check_clock_Value: "check_clock v = Value nd \<Longrightarrow> 0 < fst nd \<and> 0 < snd nd"
  by (auto simp: check_clock_def Let_def)

lemma check_endpoint_Value: "check_endpoint v = Value e \<Longrightarrow> e \<in> set ENDPOINT_VALUES"
  by (auto simp: check_endpoint_def)

lemma canonical_build:
  assumes "canonical_frontend_timing v = Value t"
  shows "\<exists>nd e nested calls assoc c.
    0 < fst nd \<and> 0 < snd nd \<and> e \<in> set ENDPOINT_VALUES \<and>
    opt_positive (dget (dict_of_val v) ''entry_ticks'') \<and>
    opt_positive (dget (dict_of_val v) ''endpoint_ticks'') \<and>
    opt_positive (dget (dict_of_val v) ''duration_ns'') \<and>
    t = (build_timing (dict_of_val v) nd e nested calls assoc)\<lparr>t_commit := c\<rparr>"
proof -
  have none: "(build_timing d nd e nested calls assoc)\<lparr>t_commit := None\<rparr> =
      build_timing d nd e nested calls assoc" for d nd e nested calls assoc
    by (simp add: build_timing_def Let_def)
  have fin: "(if b then Value u else and_then m (\<lambda>c. Value (u\<lparr>t_commit := Some c\<rparr>))) = Value t \<Longrightarrow>
      u\<lparr>t_commit := None\<rparr> = u \<Longrightarrow> \<exists>c. t = u\<lparr>t_commit := c\<rparr>"
    for b and u :: timing and m :: "commit_call outcome"
    by (cases m; cases b) (auto intro: exI [of _ None])
  show ?thesis
    using assms unfolding canonical_frontend_timing_def Let_def
  proof (elim outcome_elims)
    fix nd e nested u calls assoc
    assume h: "check_clock (dget (dict_of_val v) ''clock'') = Value nd"
      "opt_positive (dget (dict_of_val v) ''entry_ticks'')"
      "check_endpoint (dget (dict_of_val v) ''endpoint'') = Value e"
      "opt_positive (dget (dict_of_val v) ''endpoint_ticks'')"
      "opt_positive (dget (dict_of_val v) ''duration_ns'')"
      and t: "(if dget (dict_of_val v) ''commit_call'' = PNone
        then Value (build_timing (dict_of_val v) nd e nested calls assoc)
        else and_then (canonical_call (dget (dict_of_val v) ''commit_call'') (fst nd) (snd nd))
          (\<lambda>c. Value ((build_timing (dict_of_val v) nd e nested calls assoc)\<lparr>t_commit := Some c\<rparr>)))
        = Value t"
    from fin [OF t none] obtain c where
      "t = (build_timing (dict_of_val v) nd e nested calls assoc)\<lparr>t_commit := c\<rparr>" by blast
    then show ?thesis
      using h check_clock_Value [OF h(1)] check_endpoint_Value [OF h(3)] by blast
  qed
qed

lemma classify_valid:
  assumes "classify_primary calls e entry ticks decl numer denom = (''valid'', r, cmp)"
    and "e \<in> set ENDPOINT_VALUES"
  obtains a b d where "entry = Some a" "ticks = Some b" "decl = Some d" "a < b"
    "conversion_ns (b - a) numer denom = Some d" "cmp = Some d" "r = None"
    "e = ''marked_text'' \<or> e = ''panel_update''" "last_call calls e = Some b"
    "\<And>e' t. e' \<in> set ENDPOINT_VALUES \<Longrightarrow> e' \<noteq> ''unavailable'' \<Longrightarrow>
       last_call calls e' = Some t \<Longrightarrow> t \<le> b"
proof -
  have pm: "primary_mismatch calls e ticks = None"
    using assms(1) by (cases "primary_mismatch calls e ticks") (auto simp: classify_primary_def)
  have "e \<noteq> ''unavailable''" using assms(1) pm by (auto simp: classify_primary_def)
  with assms(2) have e: "e = ''marked_text'' \<or> e = ''panel_update''"
    by (auto simp: ENDPOINT_VALUES_def)
  then have "\<exists>b. last_call calls e = Some b \<and> ticks = Some b \<and>
      (\<forall>x. last_call calls ''marked_text'' = Some x \<longrightarrow> x \<le> b) \<and>
      (\<forall>x. last_call calls ''panel_update'' = Some x \<longrightarrow> x \<le> b)"
    using pm
    by (auto simp: primary_mismatch_def last_call0_def split: option.splits if_splits)
  then obtain b where b: "last_call calls e = Some b" "ticks = Some b"
    "\<And>e' t. e' \<in> set ENDPOINT_VALUES \<Longrightarrow> e' \<noteq> ''unavailable'' \<Longrightarrow>
       last_call calls e' = Some t \<Longrightarrow> t \<le> b"
    by (auto simp: ENDPOINT_VALUES_def)
  obtain a where a: "entry = Some a" "a < b"
    using assms(1) pm \<open>e \<noteq> ''unavailable''\<close> b(2)
    by (auto simp: classify_primary_def split: option.splits if_splits)
  obtain ns where ns: "conversion_ns (b - a) numer denom = Some ns"
    using assms(1) pm \<open>e \<noteq> ''unavailable''\<close> b(2) a
    by (auto simp: classify_primary_def split: option.splits if_splits)
  have "decl = Some ns" "cmp = Some ns" "r = None"
    using assms(1) pm \<open>e \<noteq> ''unavailable''\<close> b(2) a ns
    by (auto simp: classify_primary_def split: option.splits if_splits)
  then show thesis using that a b ns e by blast
qed

text \<open>
  A frontend sample is called valid only when it was measured: its entry and endpoint
  ticks are present with the endpoint strictly later, the endpoint is the last completed call
  of its kind and no completed call of another kind is later, the object's own timebase is
  positive, and the declared duration is exactly the converted tick difference, a positive
  number of nanoseconds that fits 64 bits. A valid sample carries no unknown reason, and
  every other sample carries one.
\<close>

theorem valid_timing_is_measured:
  assumes "canonical_frontend_timing v = Value t"
  shows "(t_validity t = ''valid'' \<longrightarrow>
      (\<exists>a b d. t_entry t = Some a \<and> t_endpoint_ticks t = Some b \<and> t_declared t = Some d \<and>
         0 < a \<and> a < b \<and> last_call (t_calls t) (t_endpoint t) = Some b \<and>
         (\<forall>e\<in>{''marked_text'', ''panel_update''}. \<forall>x. last_call (t_calls t) e = Some x \<longrightarrow> x \<le> b) \<and>
         0 < t_numer t \<and> 0 < t_denom t \<and> d = (b - a) * t_numer t div t_denom t \<and>
         0 < d \<and> d \<le> 2 ^ 64 - 1 \<and> t_computed t = Some d)) \<and>
    (t_reason t = None \<longleftrightarrow> t_validity t = ''valid'')"
proof -
  obtain nd e nested calls assoc c where h: "0 < fst nd" "0 < snd nd" "e \<in> set ENDPOINT_VALUES"
    "opt_positive (dget (dict_of_val v) ''entry_ticks'')"
    "opt_positive (dget (dict_of_val v) ''endpoint_ticks'')"
    "opt_positive (dget (dict_of_val v) ''duration_ns'')"
    and t: "t = (build_timing (dict_of_val v) nd e nested calls assoc)\<lparr>t_commit := c\<rparr>"
    using canonical_build [OF assms] by blast
  let ?d = "dict_of_val v"
  let ?c = "classify_primary calls e (opt_int (dget ?d ''entry_ticks''))
    (opt_int (dget ?d ''endpoint_ticks'')) (opt_int (dget ?d ''duration_ns'')) (fst nd) (snd nd)"
  have f: "t_validity t = fst ?c" "t_computed t = snd (snd ?c)" "t_endpoint t = e"
    "t_calls t = calls" "t_numer t = fst nd" "t_denom t = snd nd"
    "t_entry t = opt_int (dget ?d ''entry_ticks'')"
    "t_endpoint_ticks t = opt_int (dget ?d ''endpoint_ticks'')"
    "t_declared t = opt_int (dget ?d ''duration_ns'')"
    "t_reason t = final_reason (fst ?c) (fst (snd ?c)) (dget ?d ''unknown_reason'')"
    by (simp_all add: t build_timing_def Let_def)
  have "t_reason t = None \<longleftrightarrow> t_validity t = ''valid''"
    unfolding f by (auto simp: final_reason_def split: option.splits)
  moreover have "\<exists>a b d. t_entry t = Some a \<and> t_endpoint_ticks t = Some b \<and> t_declared t = Some d \<and>
         0 < a \<and> a < b \<and> last_call (t_calls t) (t_endpoint t) = Some b \<and>
         (\<forall>e\<in>{''marked_text'', ''panel_update''}. \<forall>x. last_call (t_calls t) e = Some x \<longrightarrow> x \<le> b) \<and>
         0 < t_numer t \<and> 0 < t_denom t \<and> d = (b - a) * t_numer t div t_denom t \<and>
         0 < d \<and> d \<le> 2 ^ 64 - 1 \<and> t_computed t = Some d"
    if "t_validity t = ''valid''"
  proof -
    have "?c = (''valid'', fst (snd ?c), snd (snd ?c))"
      using that f(1) by (simp add: prod_eq_iff)
    from this h(3) obtain a b d where p: "t_entry t = Some a" "t_endpoint_ticks t = Some b"
      "t_declared t = Some d" "a < b" "conversion_ns (b - a) (fst nd) (snd nd) = Some d"
      "snd (snd ?c) = Some d" "last_call calls e = Some b"
      "\<And>e' x. e' \<in> set ENDPOINT_VALUES \<Longrightarrow> e' \<noteq> ''unavailable'' \<Longrightarrow>
         last_call calls e' = Some x \<Longrightarrow> x \<le> b"
      unfolding f(7,8,9) by (rule classify_valid) blast
    have "0 < a" "0 < d"
      using opt_int_positive [OF h(4)] opt_int_positive [OF h(6)] p(1,3) f(7,9) by auto
    moreover have "d = (b - a) * fst nd div snd nd" "d \<le> 2 ^ 64 - 1"
      using conversion_Some [OF p(5)] by (simp_all add: TIMEBASE_MAX_def)
    moreover have "\<forall>e\<in>{''marked_text'', ''panel_update''}. \<forall>x. last_call calls e = Some x \<longrightarrow> x \<le> b"
      using p(8) by (auto simp: ENDPOINT_VALUES_def)
    ultimately show ?thesis using p h f(2-6) by simp
  qed
  ultimately show ?thesis by blast
qed

definition sample_timing :: pyval where
  "sample_timing = PDict
     [(''version'', PInt 1), (''action_id'', PStr ''a1''),
      (''clock'', PDict [(''domain'', PStr ''mach_absolute_time''), (''unit'', PStr ''nanoseconds''),
         (''timebase_numer'', PInt 125), (''timebase_denom'', PInt 3)]),
      (''entry_ticks'', PInt 100), (''endpoint'', PStr ''marked_text''),
      (''endpoint_ticks'', PInt 224), (''duration_ns'', PInt 5166),
      (''update_calls'', PList [PDict [(''endpoint'', PStr ''marked_text''), (''ticks'', PInt 224)]])]"

lemma sample_timing_canonical:
  "\<exists>t. canonical_frontend_timing sample_timing = Value t \<and> t_validity t = ''valid'' \<and>
       t_declared t = Some 5166"
  by (simp add: canonical_frontend_timing_def sample_timing_def demand_def demand_opt_in_def
      only_keys_def TIMING_OBJECT_KEYS_def opt_text_def has_key_def check_clock_def
      TIMING_CLOCK_KEYS_def eq_str_def is_int_def opt_positive_def check_endpoint_def
      ENDPOINT_VALUES_def check_nested_def dget_or_def check_queue_wait_def is_number_def
      check_calls_def TIMING_UPDATE_CALL_KEYS_def str_in_def check_association_def
      build_timing_def classify_primary_def primary_mismatch_def last_call_def last_call0_def
      opt_int_def conversion_ns_def TIMEBASE_MAX_def Let_def)

theorem valid_timing_is_measured_witness:
  "\<exists>t. canonical_frontend_timing sample_timing = Value t \<and> t_reason t = None \<and>
       (\<exists>a b. t_entry t = Some a \<and> t_endpoint_ticks t = Some b \<and>
              5166 = (b - a) * t_numer t div t_denom t)"
proof -
  obtain t where t: "canonical_frontend_timing sample_timing = Value t" "t_validity t = ''valid''"
    "t_declared t = Some 5166" using sample_timing_canonical by blast
  show ?thesis using valid_timing_is_measured [OF t(1)] t by auto
qed

subsection \<open>Percentiles\<close>

text \<open>
  The rank of the p-th percentile among \<open>n\<close> samples, \<open>max(1, math.ceil(p * n))\<close>, with \<open>p\<close> the
  exact decimal: for the three constants of the code the product in double precision has the
  same ceiling below 2 to the 46 samples.
\<close>

definition pct_rank :: "rat \<Rightarrow> nat \<Rightarrow> nat" where
  "pct_rank p n = max 1 (nat \<lceil>p * of_nat n\<rceil>)"

record pct_block =
  pct_count :: nat
  pct_small_n :: bool
  pct_values :: "(string \<times> int) list option"
  pct_min :: "int option"
  pct_max :: "int option"
  pct_mean :: "rat option"

definition PERCENTILES :: "(string \<times> rat) list" where
  "PERCENTILES = [(''p50'', 1 / 2), (''p95'', 95 / 100), (''p99'', 99 / 100)]"

definition percentiles :: "int list \<Rightarrow> pct_block" where
  "percentiles values =
     (let samples = sort values; n = length samples in
      if samples = []
      then \<lparr>pct_count = n, pct_small_n = (n < 20), pct_values = None, pct_min = None,
            pct_max = None, pct_mean = None\<rparr>
      else \<lparr>pct_count = n, pct_small_n = (n < 20),
            pct_values = Some (map (\<lambda>(label, p). (label, samples ! (pct_rank p n - 1))) PERCENTILES),
            pct_min = Some (hd samples), pct_max = Some (last samples),
            pct_mean = Some (of_int (sum_list samples) / of_nat n)\<rparr>)"

definition samples_upto :: "int list \<Rightarrow> int \<Rightarrow> nat" where
  "samples_upto xs v = length (filter (\<lambda>x. x \<le> v) xs)"

lemma samples_upto_sort: "samples_upto (sort xs) v = samples_upto xs v"
proof -
  have "mset (filter (\<lambda>x. x \<le> v) (sort xs)) = mset (filter (\<lambda>x. x \<le> v) xs)" by simp
  then show ?thesis unfolding samples_upto_def by (rule mset_eq_length)
qed

lemma samples_upto_at:
  assumes "sorted xs" and "k < length xs"
  shows "Suc k \<le> samples_upto xs (xs ! k)"
proof -
  have "\<forall>x\<in>set (take (Suc k) xs). x \<le> xs ! k"
    using assms by (auto simp: in_set_conv_nth less_Suc_eq_le sorted_nth_mono)
  then have "filter (\<lambda>x. x \<le> xs ! k) (take (Suc k) xs) = take (Suc k) xs" by simp
  then have "Suc k = length (filter (\<lambda>x. x \<le> xs ! k) (take (Suc k) xs))"
    using assms(2) by simp
  also have "\<dots> \<le> samples_upto xs (xs ! k)"
    unfolding samples_upto_def
    by (subst (2) append_take_drop_id [of "Suc k" xs, symmetric]) (simp only: filter_append length_append le_add1)
  finally show ?thesis .
qed

lemma samples_upto_below:
  assumes "sorted xs" and "k < length xs" and "v < xs ! k"
  shows "samples_upto xs v \<le> k"
proof -
  have "\<forall>x\<in>set (drop k xs). \<not> x \<le> v"
  proof
    fix x assume "x \<in> set (drop k xs)"
    then obtain i where "i < length xs - k" "x = xs ! (k + i)"
      by (auto simp: in_set_conv_nth)
    moreover from this have "xs ! k \<le> xs ! (k + i)"
      by (intro sorted_nth_mono [OF assms(1)]) auto
    ultimately show "\<not> x \<le> v" using assms(3) by simp
  qed
  then have "filter (\<lambda>x. x \<le> v) (drop k xs) = []" by simp
  then have "samples_upto xs v = length (filter (\<lambda>x. x \<le> v) (take k xs))"
    unfolding samples_upto_def
    by (metis append_Nil2 append_take_drop_id filter_append)
  also have "\<dots> \<le> length (take k xs)" by (rule length_filter_le)
  finally show ?thesis using assms(2) by simp
qed

lemma pct_rank_bounds:
  assumes "0 < p" and "p \<le> 1" and "0 < n"
  shows "1 \<le> pct_rank p n" and "pct_rank p n \<le> n" and "p * of_nat n \<le> of_nat (pct_rank p n)"
    and "of_nat (pct_rank p n) - 1 < p * of_nat n"
proof -
  have pos: "0 < p * of_nat n" using assms by simp
  then have c: "1 \<le> \<lceil>p * of_nat n\<rceil>" by simp
  then have "pct_rank p n = nat \<lceil>p * of_nat n\<rceil>" unfolding pct_rank_def by linarith
  then have r: "int (pct_rank p n) = \<lceil>p * of_nat n\<rceil>" using c by linarith
  have "p * of_nat n \<le> of_nat n" using assms by (simp add: mult_left_le_one_le)
  then have "\<lceil>p * of_nat n\<rceil> \<le> int n" by (simp add: ceiling_le_iff)
  then show "pct_rank p n \<le> n" using r by simp
  show "1 \<le> pct_rank p n" by (simp add: pct_rank_def)
  have q: "(of_nat (pct_rank p n) :: rat) = of_int \<lceil>p * of_nat n\<rceil>"
    unfolding r [symmetric] by simp
  show "p * of_nat n \<le> of_nat (pct_rank p n)" unfolding q by (rule le_of_int_ceiling)
  show "of_nat (pct_rank p n) - 1 < p * of_nat n"
    unfolding q using ceiling_correct [of "p * of_nat n"] by simp
qed

lemma percentile_value:
  assumes "values \<noteq> []" and "0 < p" and "p \<le> 1"
    and "r = sort values ! (pct_rank p (length values) - 1)"
  shows "r \<in> set values" and "p * of_nat (length values) \<le> of_nat (samples_upto values r)"
    and "\<forall>v. v < r \<longrightarrow> of_nat (samples_upto values v) < p * of_nat (length values)"
proof -
  let ?n = "length values" and ?k = "pct_rank p (length values) - 1" and ?s = "sort values"
  have n: "0 < ?n" using assms(1) by simp
  note b = pct_rank_bounds [OF assms(2,3) n]
  have k: "?k < length ?s" "Suc ?k = pct_rank p ?n" using b(1,2) n by auto
  show "r \<in> set values" using k(1) nth_mem [of ?k ?s] assms(4) by simp
  have "pct_rank p ?n \<le> samples_upto values r"
    using samples_upto_at [of ?s ?k] k assms(4) by (simp add: samples_upto_sort)
  then have "(of_nat (pct_rank p ?n) :: rat) \<le> of_nat (samples_upto values r)" by simp
  then show "p * of_nat ?n \<le> of_nat (samples_upto values r)" using b(3) by linarith
  show "\<forall>v. v < r \<longrightarrow> of_nat (samples_upto values v) < p * of_nat ?n"
  proof (intro allI impI)
    fix v assume "v < r"
    then have "samples_upto values v \<le> ?k"
      using samples_upto_below [of ?s ?k v] k assms(4) by (simp add: samples_upto_sort)
    then have "(of_nat (samples_upto values v) :: rat) \<le> of_nat ?k" by simp
    also have "\<dots> = of_nat (pct_rank p ?n) - 1" using b(1) by (simp add: of_nat_diff)
    also have "\<dots> < p * of_nat ?n" by (rule b(4))
    finally show "of_nat (samples_upto values v) < p * of_nat ?n" .
  qed
qed

text \<open>
  The percentile block follows its declared method: without samples every figure is
  absent; otherwise each reported percentile is an observed sample, at least the stated share
  of the samples is not above it, and less than that share is not above any smaller value;
  minimum and maximum are the extreme samples and the mean is the exact quotient.
\<close>

theorem percentiles_are_nearest_rank:
  "(values = [] \<longrightarrow> pct_values (percentiles values) = None \<and> pct_mean (percentiles values) = None) \<and>
   (values \<noteq> [] \<longrightarrow>
     (\<exists>a b c. pct_values (percentiles values) = Some [(''p50'', a), (''p95'', b), (''p99'', c)] \<and>
        (\<forall>(r, p)\<in>{(a, 1 / 2), (b, 95 / 100), (c, 99 / 100)}.
           r \<in> set values \<and> p * of_nat (length values) \<le> of_nat (samples_upto values r) \<and>
           (\<forall>v. v < r \<longrightarrow> of_nat (samples_upto values v) < p * (of_nat (length values) :: rat)))) \<and>
     pct_min (percentiles values) = Some (Min (set values)) \<and>
     pct_max (percentiles values) = Some (Max (set values)) \<and>
     pct_mean (percentiles values) = Some (of_int (sum_list values) / of_nat (length values)))"
proof (cases "values = []")
  case True
  then show ?thesis by (simp add: percentiles_def)
next
  case False
  let ?s = "sort values" and ?n = "length values"
  have ne: "?s \<noteq> []" using False by (metis set_empty set_sort)
  have hd: "hd ?s = Min (set values)"
    using Min_eqI [of "set values" "hd ?s"] ne
    by (metis List.finite_set list.set_sel(1) set_sort sorted_sort sorted_wrt.elims(2) hd_conv_nth
        in_set_conv_nth le0 length_greater_0_conv sorted_nth_mono)
  have la: "last ?s = Max (set values)"
    using Max_eqI [of "set values" "last ?s"] ne
    by (metis List.finite_set last_in_set set_sort sorted_sort in_set_conv_nth last_conv_nth
        diff_less less_one length_greater_0_conv sorted_nth_mono Suc_pred' less_Suc_eq_le
        One_nat_def)
  have sl: "sum_list ?s = sum_list values"
    by (metis mset_sort sum_mset_sum_list)
  let ?v = "\<lambda>p. ?s ! (pct_rank p ?n - 1)"
  have "pct_values (percentiles values) =
      Some [(''p50'', ?v (1 / 2)), (''p95'', ?v (95 / 100)), (''p99'', ?v (99 / 100))]"
    using ne by (simp add: percentiles_def Let_def PERCENTILES_def)
  moreover have "\<forall>(r, p)\<in>{(?v (1 / 2), 1 / 2), (?v (95 / 100), 95 / 100), (?v (99 / 100), 99 / 100)}.
           r \<in> set values \<and> p * of_nat ?n \<le> of_nat (samples_upto values r) \<and>
           (\<forall>v. v < r \<longrightarrow> of_nat (samples_upto values v) < p * (of_nat ?n :: rat))"
    using percentile_value [OF False, of "1 / 2"] percentile_value [OF False, of "95 / 100"]
      percentile_value [OF False, of "99 / 100"] by simp
  ultimately show ?thesis
    using False ne hd la sl by (simp add: percentiles_def Let_def)
qed

theorem percentiles_are_nearest_rank_witness:
  "pct_max (percentiles [30, 10, 20]) = Some 30"
  using percentiles_are_nearest_rank [of "[30, 10, 20]"] by simp

subsection \<open>The stored form\<close>

definition opt_val :: "int option \<Rightarrow> pyval" where
  "opt_val v = (case v of None \<Rightarrow> PNone | Some n \<Rightarrow> PInt n)"

definition text_val :: "string option \<Rightarrow> pyval" where
  "text_val v = (case v of None \<Rightarrow> PNone | Some s \<Rightarrow> PStr s)"

definition call_dict :: "commit_call \<Rightarrow> pydict" where
  "call_dict c =
     [(''endpoint'', PStr ''insert_text''), (''start_ticks'', opt_val (cc_start c)),
      (''end_ticks'', opt_val (cc_end c)), (''duration_ns'', opt_val (cc_duration c)),
      (''validity'', PStr (cc_validity c)), (''unknown_reason'', text_val (cc_reason c)),
      (''derived_from'', PStr ''entry_exit_ticks_over_own_timebase'')]
     @ (case cc_computed c of None \<Rightarrow> [] | Some n \<Rightarrow> [(''computed_ns'', PInt n)])"

definition timing_dict :: "timing \<Rightarrow> pydict" where
  "timing_dict t =
     [(''version'', PInt 1), (''action_id'', PStr (t_action_id t)), (''action'', t_action t),
      (''operation'', t_operation t), (''clock_domain'', PStr ''mach_absolute_time''),
      (''clock_unit'', PStr ''nanoseconds''), (''timebase_numer'', PInt (t_numer t)),
      (''timebase_denom'', PInt (t_denom t)), (''event_queue_wait'', PStr ''unknown''),
      (''nested_actions'', PInt (t_nested t)), (''continuity_cut'', PBool (t_cut t)),
      (''update_calls'', PList (map (\<lambda>(e, k). PDict [(''endpoint'', PStr e), (''ticks'', PInt k)]) (t_calls t))),
      (''endpoint'', PStr (t_endpoint t)), (''entry_ticks'', opt_val (t_entry t)),
      (''endpoint_ticks'', opt_val (t_endpoint_ticks t)),
      (''declared_duration_ns'', opt_val (t_declared t)), (''validity'', PStr (t_validity t)),
      (''unknown_reason'', text_val (t_reason t)),
      (''commit_call'', case t_commit t of None \<Rightarrow> PNone | Some c \<Rightarrow> PDict (call_dict c)),
      (''association'', PDict (t_association t))]
     @ (case t_computed t of None \<Rightarrow> [] | Some n \<Rightarrow> [(''computed_duration_ns'', PInt n)])"

end
