(* ===== verification/Archive_Collector.thy ===== *)
theory Archive_Collector
  imports Archive_Limits Archive_Queue Archive_Validate Archive_Authority Frontend_Timing
begin

text \<open>
  The collector of the input archive (\<open>src/archive/collector.py\<close>): admission of one
  observation, its bounded queue, the publication of a batch with its watermark, and the
  recovery of the durable prefix after a restart. The parameters are the standard library's
  serializer and digest: \<open>e_len d\<close> is \<open>len(canonical_bytes(d))\<close>, \<open>e_hash d\<close> the SHA-256 of the
  same bytes, \<open>e_key s\<close> the digest of a source id.
\<close>

record cenv =
  e_limits :: pydict
  e_len :: "pydict \<Rightarrow> nat"
  e_hash :: "pydict \<Rightarrow> string"
  e_key :: "string \<Rightarrow> string"

subsection \<open>Preparing an observation\<close>

definition KINDS :: "string list" where
  "KINDS =
    [''start'', ''input_change'', ''replacement'', ''temporary_selection'', ''commit_attempt'',
     ''cancellation'', ''raw_finalization'', ''unavailable_client'', ''unknown_outcome'',
     ''loss_notice'', ''exclusion_notice'', ''provenance'', ''plugin_observation'',
     ''daemon_observation'']"

definition REASONS :: "string list" where
  "REASONS =
    [''deliberate_exclusion'', ''queue_saturated'', ''displaced_for_priority'', ''storage_failure'',
     ''capacity_stop'', ''requeue_saturated'', ''collector_queue_saturated'',
     ''retraction_commit_refused'', ''retraction_commit_unknown'']"

definition OBS_OUTCOMES :: "string list" where
  "OBS_OUTCOMES =
    [''observed_attempt'', ''cancelled'', ''raw_finalized'', ''unavailable_client'', ''unknown'',
     ''temporary_selection'', ''replacement'', ''input_change'']"

definition HIGH :: "string list" where
  "HIGH =
    [''start'', ''commit_attempt'', ''raw_finalization'', ''cancellation'', ''unavailable_client'',
     ''unknown_outcome'', ''loss_notice'', ''exclusion_notice'', ''provenance'']"

definition CONTENT_FREE_KINDS :: "string list" where
  "CONTENT_FREE_KINDS = [''loss_notice'', ''exclusion_notice'']"

definition clocks :: "pyval \<Rightarrow> pydict" where
  "clocks v =
     (let pick = (\<lambda>k. if is_dict v \<and> is_number (dget (dict_of_val v) k)
                       then dget (dict_of_val v) k else PNone) in
      [(''event_time'', pick ''event_time''), (''observation_time'', pick ''observation_time''),
       (''clock_domain'', PStr ''unknown'')])"

text \<open>\<open>value in {...}\<close> of an unhashable value raises TypeError.\<close>

definition member_or :: "pyval \<Rightarrow> string list \<Rightarrow> pyval \<Rightarrow> pyval outcome" where
  "member_or v S other =
     (if \<not> is_hashable v then Raised ''TypeError''
      else Value (if str_in v S then v else other))"

definition obs_outcome :: "pyval \<Rightarrow> string \<Rightarrow> pyval outcome" where
  "obs_outcome v kind =
     member_or v OBS_OUTCOMES (PStr
       (if kind = ''commit_attempt'' then ''observed_attempt''
        else if kind = ''cancellation'' then ''cancelled''
        else if kind = ''raw_finalization'' then ''raw_finalized''
        else if kind \<in> {''unavailable_client'', ''temporary_selection'', ''replacement'', ''input_change''}
        then kind else ''unknown''))"

definition obs_reason :: "pyval \<Rightarrow> string \<Rightarrow> pyval outcome" where
  "obs_reason v kind =
     member_or v REASONS (if kind = ''exclusion_notice'' then PStr ''deliberate_exclusion'' else PNone)"

definition host_claim :: "pyval \<Rightarrow> pyval outcome" where
  "host_claim v =
     member_or v [''persisted'', ''unknown'', ''unavailable'']
       (if v = PNone then PNone else PStr ''unrecognized'')"

record prepared =
  semantic :: pydict
  pkind :: string
  identity :: "string \<times> int"
  phash :: string
  phigh :: bool

definition obs_excluded_flag :: "pydict \<Rightarrow> bool" where
  "obs_excluded_flag obs \<longleftrightarrow>
     eq_str (dget obs ''eligibility'') ''excluded'' \<or> dget obs ''excluded'' = PBool True"

text \<open>The kind an observation is stored under and its validated observer dictionaries.\<close>

definition classify_kind :: "pydict \<Rightarrow> (string \<times> pydict option \<times> pydict option) outcome" where
  "classify_kind obs =
     (let kind = str_of_val (dget obs ''observation_kind'') in
      if obs_excluded_flag obs \<and> kind \<noteq> ''loss_notice'' then Value (''exclusion_notice'', None, None)
      else if kind = ''plugin_observation''
      then and_then (validate_plugin obs) (\<lambda>p. Value (kind, Some p, None))
      else if kind = ''daemon_observation''
      then and_then (validate_daemon obs) (\<lambda>d. Value (kind, None, Some d))
      else if kind \<notin> set KINDS then Value (''unknown_outcome'', None, None)
      else Value (kind, None, None))"

definition schema_of :: "pydict \<Rightarrow> string \<Rightarrow> (pyval \<times> pyval) outcome" where
  "schema_of obs kind =
     (let schema = dget_or obs ''schema_id'' (PStr ''unknown'') in
      if kind \<in> set CONTENT_FREE_KINDS then Value (PStr ''unknown'', PStr ''unknown'')
      else if eq_str schema SUPPORTED_SCHEMA then Value (schema, PStr ''supported'')
      else if eq_str schema ''unknown'' then Value (schema, PStr ''unknown'')
      else Refused ''unsupported_schema'')"

definition stored_timing :: "string \<Rightarrow> pyval \<Rightarrow> pydict outcome" where
  "stored_timing kind payload =
     (if kind = ''provenance'' \<and> is_dict payload then
        (case canonicalize_timing_payload payload of
           Value None \<Rightarrow> Value []
         | Value (Some t) \<Rightarrow> Value [(''frontend_timing'', PDict (timing_dict t))]
         | Refused _ \<Rightarrow> Refused INVALID
         | Raised e \<Rightarrow> Raised e)
      else Value [])"

definition prepare_semantic ::
  "pydict \<Rightarrow> string \<Rightarrow> pydict option \<Rightarrow> pydict option \<Rightarrow> pydict outcome" where
  "prepare_semantic obs kind plugin daemon =
     (let excluded = obs_excluded_flag obs in
      demand (safe_token (dget obs ''source_instance_id'') \<noteq> None \<and>
              safe_token (dget obs ''process_id'') \<noteq> None) INVALID
     (demand (is_int (dget obs ''source_local_sequence'') \<and>
              0 \<le> int_of_val (dget obs ''source_local_sequence'')) INVALID
     (and_then (schema_of obs kind) (\<lambda>(schema, interpretation).
      let payload = (if excluded \<or> kind \<in> set CONTENT_FREE_KINDS then PNone else dget obs ''payload'') in
      and_then (stored_timing kind payload) (\<lambda>timing.
      and_then (obs_outcome (dget obs ''outcome'') kind) (\<lambda>outcome.
      and_then (obs_reason (dget obs ''reason'') kind) (\<lambda>reason.
      and_then (host_claim (dget obs ''host_persistence'')) (\<lambda>claim.
      Value (
        [(''source_instance_id'', dget obs ''source_instance_id''),
         (''source_local_sequence'', dget obs ''source_local_sequence''),
         (''observation_kind'', PStr kind), (''process_id'', dget obs ''process_id''),
         (''update_id'', optional_token (dget obs ''update_id'')),
         (''commit_id'', optional_token (dget obs ''commit_id'')),
         (''parent_update_id'', optional_token (dget obs ''parent_update_id'')),
         (''continuity_segment_id'', optional_token (dget obs ''continuity_segment_id'')),
         (''schema_id'', schema), (''schema_interpretation'', interpretation),
         (''clocks'', PDict (clocks (dget obs ''clocks''))),
         (''stage'', token_or_unknown (dget obs ''stage'')), (''outcome'', outcome),
         (''reason'', reason), (''eligibility'', PStr (if excluded then ''excluded'' else ''included'')),
         (''payload'', payload), (''client_supplied_host_claim'', claim)]
        @ timing
        @ (case plugin of None \<Rightarrow> [] | Some p \<Rightarrow> [(''plugin'', PDict p)])
        @ (case daemon of None \<Rightarrow> [] | Some d \<Rightarrow> [(''daemon'', PDict d)]))))))))))"

definition prepare :: "cenv \<Rightarrow> pydict \<Rightarrow> prepared outcome" where
  "prepare e obs =
     demand (is_str (dget obs ''observation_kind'')) INVALID
    (and_then (classify_kind obs) (\<lambda>(kind, plugin, daemon).
     and_then (prepare_semantic obs kind plugin daemon) (\<lambda>sem.
     Value \<lparr>semantic = sem, pkind = kind,
            identity = (str_of_val (dget obs ''source_instance_id''),
                        int_of_val (dget obs ''source_local_sequence'')),
            phash = e_hash e sem,
            phigh = (kind \<in> set HIGH \<or>
              (case plugin of None \<Rightarrow> False
               | Some p \<Rightarrow> str_in (dget p ''plugin_stage'') PLUGIN_HIGH_STAGES))\<rparr>)))"

subsection \<open>State\<close>

record c_item =
  prep :: prepared
  isize :: nat
  quar :: bool

text \<open>A row of the index: its sequence number, the stored record and its place in the file.\<close>

record row =
  row_seq :: int
  row_record :: pydict
  row_offset :: int
  row_length :: int

text \<open>The dictionary \<open>_state\<close> that is also the watermark document on disk.\<close>

record cstate =
  durable_seq :: int
  durable_offset :: int
  durable_bytes :: int
  max_published :: int
  known_dropped_units :: int
  storage_failed_units :: int
  capacity_refused_units :: int
  identity_conflicts :: int
  capacity_stop :: bool
  storage_failure :: bool
  crash_tail :: string
  discarded_bytes :: int
  discarded_quarantine :: int
  continuity_epoch :: nat
  break_reasons :: "string list"
  clean_stop :: bool
  quarantine_bytes :: int
  admission_refused :: int

definition fresh_state :: "string \<Rightarrow> string list \<Rightarrow> nat \<Rightarrow> cstate" where
  "fresh_state tail reasons epoch =
     \<lparr>durable_seq = 0, durable_offset = 0, durable_bytes = 0, max_published = 0,
      known_dropped_units = 0, storage_failed_units = 0, capacity_refused_units = 0,
      identity_conflicts = 0, capacity_stop = False, storage_failure = False, crash_tail = tail,
      discarded_bytes = 0, discarded_quarantine = 0, continuity_epoch = epoch,
      break_reasons = reasons, clean_stop = False, quarantine_bytes = 0, admission_refused = 0\<rparr>"

record collector =
  st :: cstate
  c_queue :: "c_item list"
  queue_bytes :: int
  publishing_units :: int
  identities :: "string \<times> int \<Rightarrow> string option"
  index :: "row list"
  desired :: string
  revision :: int
  transition :: bool
  maintenance_unavailable :: bool
  auth :: authority

text \<open>
  \<open>_break_continuity_locked\<close>. The new epoch is a fresh random identifier; the model draws the
  next number.
\<close>

definition break_continuity :: "string \<Rightarrow> cstate \<Rightarrow> cstate" where
  "break_continuity reason s =
     s\<lparr>continuity_epoch := continuity_epoch s + 1,
       break_reasons := (if reason \<in> set (break_reasons s) then break_reasons s
                         else break_reasons s @ [reason])\<rparr>"

subsection \<open>The admission queue\<close>

definition c_fits :: "pydict \<Rightarrow> nat \<Rightarrow> collector \<Rightarrow> bool" where
  "c_fits l n c \<longleftrightarrow>
     int (length (c_queue c)) + 1 \<le> limit_of l ''collector_queue_count'' \<and>
     queue_bytes c + int n \<le> limit_of l ''collector_queue_bytes''"

definition c_victim :: "c_item \<Rightarrow> bool" where
  "c_victim i \<longleftrightarrow> \<not> phigh (prep i) \<and> \<not> quar i"

definition c_append :: "c_item \<Rightarrow> collector \<Rightarrow> collector" where
  "c_append i c = c\<lparr>c_queue := c_queue c @ [i], queue_bytes := queue_bytes c + int (isize i)\<rparr>"

text \<open>\<open>_displace_locked\<close> on the queue without the popped item \<open>v\<close>: its identity is forgotten.\<close>

definition c_displace :: "c_item \<Rightarrow> c_item list \<Rightarrow> collector \<Rightarrow> collector" where
  "c_displace v rest c =
     c\<lparr>c_queue := rest, queue_bytes := queue_bytes c - int (isize v),
       identities := (if quar v then identities c else (identities c)(identity (prep v) := None)),
       st := break_continuity ''known_loss'' ((st c)\<lparr>known_dropped_units := known_dropped_units (st c) + 1\<rparr>)\<rparr>"

definition c_offer :: "pydict \<Rightarrow> c_item \<Rightarrow> collector \<Rightarrow> bool \<times> collector" where
  "c_offer l i c =
     (if c_fits l (isize i) c then (True, c_append i c)
      else case (if phigh (prep i) then pop_first c_victim (c_queue c) else None) of
        Some (v, rest) \<Rightarrow> (True, c_append i (c_displace v rest c))
      | None \<Rightarrow> (False, c))"

definition c_take :: "nat \<Rightarrow> collector \<Rightarrow> collector" where
  "c_take n c =
     c\<lparr>c_queue := drop n (c_queue c), queue_bytes := queue_bytes c - sizes isize (take n (c_queue c))\<rparr>"

subsection \<open>Admission of one observation\<close>

definition refuse_counted :: "collector \<Rightarrow> collector" where
  "refuse_counted c = c\<lparr>st := (st c)\<lparr>admission_refused := admission_refused (st c) + 1\<rparr>\<rparr>"

text \<open>The part of \<open>_accept_one\<close> under the lock.\<close>

definition accept_locked :: "cenv \<Rightarrow> prepared \<Rightarrow> nat \<Rightarrow> collector \<Rightarrow> string \<times> collector" where
  "accept_locked e p n c =
     (if transition c \<or> maintenance_unavailable c \<or> auth_failed (auth c) then (''storage_failure'', c)
      else if auth_allowed (e_key e) (PStr (fst (identity p))) (auth c) \<noteq> Value True
      then (''invalid_request'', c)
      else if storage_failure (st c) then (''storage_failure'', c)
      else if capacity_stop (st c)
      then (''capacity_stop'',
            c\<lparr>st := (st c)\<lparr>capacity_refused_units := capacity_refused_units (st c) + 1\<rparr>\<rparr>)
      else if pkind p \<notin> set CONTENT_FREE_KINDS \<and> desired c \<noteq> ''enabled'' then (''capture_disabled'', c)
      else if identities c (identity p) = Some (phash p) then (''duplicate'', c)
      else if identities c (identity p) \<noteq> None then
        (let r = c_offer (e_limits e) \<lparr>prep = p, isize = n, quar = True\<rparr>
                   (c\<lparr>st := break_continuity ''identity_conflict''
                       ((st c)\<lparr>identity_conflicts := identity_conflicts (st c) + 1\<rparr>)\<rparr>)
         in (if fst r then ''identity_conflict'' else ''queue_saturated'', snd r))
      else
        (let r = c_offer (e_limits e) \<lparr>prep = p, isize = n, quar = False\<rparr> c in
         if \<not> fst r
         then (''queue_saturated'',
               (snd r)\<lparr>st := break_continuity ''known_loss''
                   ((st (snd r))\<lparr>known_dropped_units := known_dropped_units (st (snd r)) + 1\<rparr>)\<rparr>)
         else (''admitted'', (snd r)\<lparr>identities := (identities (snd r))(identity p := Some (phash p))\<rparr>)))"

definition accept_one :: "cenv \<Rightarrow> pyval \<Rightarrow> collector \<Rightarrow> string outcome \<times> collector" where
  "accept_one e v c =
     (if \<not> is_dict v then (Value ''invalid_request'', refuse_counted c)
      else let obs = dict_of_val v in
        if \<not> eq_int (dget_or obs ''envelope_version'' (PInt ENVELOPE_VERSION)) ENVELOPE_VERSION \<or>
           \<not> eq_int (dget_or obs ''content_version'' (PInt CONTENT_VERSION)) CONTENT_VERSION
        then (Value ''unsupported_version'', c)
        else case prepare e obs of
          Raised x \<Rightarrow> (Raised x, c)
        | Refused code \<Rightarrow>
            (Value code, if code = ''invalid_request'' then refuse_counted c else c)
        | Value p \<Rightarrow>
            (let n = e_len e (semantic p) in
             if limit_of (e_limits e) ''max_event_bytes'' < int n
             then (Value ''event_too_large'', refuse_counted c)
             else (case accept_locked e p n c of (code, c') \<Rightarrow> (Value code, c'))))"

text \<open>\<open>_admit_batch\<close>: the codes in order, or the exception that stopped the batch.\<close>

fun accept_all :: "cenv \<Rightarrow> pyval list \<Rightarrow> collector \<Rightarrow> string list outcome \<times> collector" where
  "accept_all e [] c = (Value [], c)"
| "accept_all e (v # vs) c =
     (case accept_one e v c of
        (Value code, c1) \<Rightarrow>
          (case accept_all e vs c1 of (r, c2) \<Rightarrow> (and_then r (\<lambda>codes. Value (code # codes)), c2))
      | (Refused x, c1) \<Rightarrow> (Refused x, c1)
      | (Raised x, c1) \<Rightarrow> (Raised x, c1))"

definition admit_batch :: "cenv \<Rightarrow> pyval \<Rightarrow> collector \<Rightarrow> string list outcome \<times> collector" where
  "admit_batch e v c =
     (if \<not> is_list v \<or> limit_of (e_limits e) ''batch_size'' < int (length (list_of_val v))
      then (Refused ''invalid_request'', c)
      else accept_all e (list_of_val v) c)"

subsection \<open>Policy\<close>

text \<open>\<open>_set_policy\<close> with the outcome of its atomic write, and the replies it can give.\<close>

definition set_policy :: "bool \<Rightarrow> pyval \<Rightarrow> pyval \<Rightarrow> collector \<Rightarrow> int outcome \<times> collector" where
  "set_policy written want expected c =
     (if \<not> is_hashable want then (Raised ''TypeError'', c)
      else if \<not> str_in want [''off'', ''enabled'', ''paused''] \<or> \<not> is_int expected
      then (Refused ''invalid_request'', c)
      else if int_of_val expected \<noteq> revision c then (Refused ''stale_revision'', c)
      else if \<not> written
      then (Refused ''storage_failure'', c\<lparr>st := (st c)\<lparr>storage_failure := True\<rparr>\<rparr>)
      else (Value (revision c + 1),
            c\<lparr>desired := str_of_val want, revision := revision c + 1,
              st := break_continuity ''policy_transition'' (st c)\<rparr>))"

subsection \<open>Publication\<close>

text \<open>
  What a batch becomes: the lines for the observation file with their records, and the sizes
  of the quarantine lines. A line is the serialized value and a newline.
\<close>

record staged =
  s_lines :: "(pydict \<times> int) list"
  s_quar :: "int list"
  s_next :: int
  s_used :: int

definition record_of :: "prepared \<Rightarrow> int \<Rightarrow> pydict" where
  "record_of p seq =
     dset ''host_persistence_proof'' (PBool False)
     (dset ''host_persistence'' (PStr ''unknown'')
     (dset ''identity'' (PList [PStr (fst (identity p)), PInt (snd (identity p))])
     (dset ''content_hash'' (PStr (phash p))
     (dset ''durable_seq'' (PInt seq)
     (dset ''record_version'' (PInt 1) (semantic p))))))"

definition quarantine_value :: "prepared \<Rightarrow> pydict" where
  "quarantine_value p =
     [(''content_hash'', PStr (phash p)), (''payload'', dget (semantic p) ''payload'')]"

definition capacity_refusal :: "collector \<Rightarrow> collector" where
  "capacity_refusal c =
     c\<lparr>st := (st c)\<lparr>capacity_stop := True, capacity_refused_units := capacity_refused_units (st c) + 1\<rparr>\<rparr>"

definition forget :: "string \<times> int \<Rightarrow> collector \<Rightarrow> collector" where
  "forget i c = c\<lparr>identities := (identities c)(i := None)\<rparr>"

fun stage_batch :: "cenv \<Rightarrow> c_item list \<Rightarrow> staged \<Rightarrow> collector \<Rightarrow> staged \<times> collector" where
  "stage_batch e [] s c = (s, c)"
| "stage_batch e (i # is) s c =
     (let cap = limit_of (e_limits e) ''archive_capacity_bytes'' in
      if quar i then
        (let n = int (e_len e (quarantine_value (prep i))) + 1 in
         if cap < s_used s + n then stage_batch e is s (capacity_refusal c)
         else stage_batch e is (s\<lparr>s_quar := s_quar s @ [n], s_used := s_used s + n\<rparr>) c)
      else
        (let r = record_of (prep i) (s_next s + 1); n = int (e_len e r) + 1 in
         if cap < s_used s + n
         then stage_batch e is s (forget (identity (prep i)) (capacity_refusal c))
         else stage_batch e is
                (s\<lparr>s_lines := s_lines s @ [(r, n)], s_next := s_next s + 1, s_used := s_used s + n\<rparr>) c))"

definition stage :: "cenv \<Rightarrow> c_item list \<Rightarrow> collector \<Rightarrow> staged \<times> collector" where
  "stage e batch c =
     stage_batch e batch
       \<lparr>s_lines = [], s_quar = [], s_next = durable_seq (st c),
        s_used = durable_bytes (st c) + quarantine_bytes (st c)\<rparr> c"

text \<open>The identity a stored record carries, as \<open>_remember\<close> and the failure branch read it.\<close>

definition record_identity :: "pydict \<Rightarrow> (string \<times> int) option" where
  "record_identity r =
     (case dget r ''identity'' of
        PList [PStr src, PInt n] \<Rightarrow> Some (src, n)
      | _ \<Rightarrow> None)"

text \<open>The pending watermark of a staged batch.\<close>

definition pending_state :: "cenv \<Rightarrow> staged \<Rightarrow> cstate \<Rightarrow> cstate" where
  "pending_state e s x =
     (let obs = sum_list (map snd (s_lines s));
          seq = (if s_lines s = [] then durable_seq x else s_next s);
          bytes = durable_bytes x + obs; qb = quarantine_bytes x + sum_list (s_quar s) in
      x\<lparr>durable_offset := durable_offset x + obs, durable_bytes := bytes, quarantine_bytes := qb,
        durable_seq := seq,
        max_published := (if s_lines s = [] then max_published x else max (max_published x) seq),
        capacity_stop := (capacity_stop x \<or>
          limit_of (e_limits e) ''archive_capacity_bytes'' \<le> bytes + qb)\<rparr>)"

text \<open>\<open>_remember\<close> of one published record: the index row and the identity, loss notices excepted.\<close>

definition remember :: "pydict \<Rightarrow> int \<Rightarrow> int \<Rightarrow> collector \<Rightarrow> collector" where
  "remember r offset len c =
     c\<lparr>index := index c @ [\<lparr>row_seq = int_of_val (dget r ''durable_seq''), row_record = r,
                            row_offset = offset, row_length = len\<rparr>],
       identities := (case record_identity r of
           None \<Rightarrow> identities c
         | Some i \<Rightarrow>
             if truthy (dget r ''content_hash'') \<and> dget r ''observation_kind'' \<noteq> PStr ''loss_notice''
             then (identities c)(i := Some (str_of_val (dget r ''content_hash'')))
             else identities c)\<rparr>"

fun remember_all :: "(pydict \<times> int) list \<Rightarrow> int \<Rightarrow> collector \<Rightarrow> collector" where
  "remember_all [] offset c = c"
| "remember_all ((r, n) # ls) offset c = remember_all ls (offset + n) (remember r offset n c)"

text \<open>The installation of a watermark that reached the disk.\<close>

definition install :: "staged \<Rightarrow> cstate \<Rightarrow> collector \<Rightarrow> collector" where
  "install s pend c =
     (let c1 = remember_all (s_lines s) (durable_offset pend - sum_list (map snd (s_lines s))) c in
      c1\<lparr>st := (st c1)\<lparr>durable_seq := durable_seq pend, durable_offset := durable_offset pend,
                      durable_bytes := durable_bytes pend, quarantine_bytes := quarantine_bytes pend,
                      max_published := max_published pend,
                      capacity_stop := (capacity_stop (st c1) \<or> capacity_stop pend)\<rparr>,
         publishing_units := 0\<rparr>)"

text \<open>The branches of a failed append and of a failed watermark.\<close>

definition append_failure :: "staged \<Rightarrow> collector \<Rightarrow> collector" where
  "append_failure s c =
     c\<lparr>st := (st c)\<lparr>storage_failure := True,
                   storage_failed_units := storage_failed_units (st c) +
                     int (length (s_lines s)) + int (length (s_quar s))\<rparr>,
       publishing_units := 0,
       identities := (\<lambda>i. if i \<in> set (List.map_filter (\<lambda>ln. record_identity (fst ln)) (s_lines s))
                          then None else identities c i)\<rparr>"

definition watermark_failure :: "collector \<Rightarrow> collector" where
  "watermark_failure c =
     c\<lparr>st := break_continuity ''storage_failure''
         ((st c)\<lparr>storage_failure := True, crash_tail := ''unknown''\<rparr>)\<rparr>"

subsection \<open>The files and a restart\<close>

text \<open>
  The observation file as its complete lines and the bytes of an incomplete last one, the
  size of the quarantine file, and the watermark document.
\<close>

record cdisk =
  d_lines :: "(pydict \<times> int) list"
  d_tail :: int
  d_quar :: int
  d_state :: "cstate option"

definition file_size :: "cdisk \<Rightarrow> int" where
  "file_size d = sum_list (map snd (d_lines d)) + d_tail d"

text \<open>\<open>_truncate_file\<close> to \<open>w\<close> bytes: the whole lines within them and what is left of the next.\<close>

fun cut_lines :: "(pydict \<times> int) list \<Rightarrow> int \<Rightarrow> (pydict \<times> int) list \<times> int" where
  "cut_lines [] w = ([], w)"
| "cut_lines ((r, n) # ls) w =
     (if n \<le> w then (case cut_lines ls (w - n) of (a, t) \<Rightarrow> ((r, n) # a, t)) else ([], w))"

text \<open>\<open>_reconcile_file\<close>: extra bytes truncated, and whether the file is shorter than the watermark.\<close>

definition reconcile_obs :: "int \<Rightarrow> cdisk \<Rightarrow> int \<times> bool \<times> cdisk" where
  "reconcile_obs w d =
     (if w < file_size d
      then (file_size d - w, False,
            d\<lparr>d_lines := fst (cut_lines (d_lines d) w), d_tail := snd (cut_lines (d_lines d) w)\<rparr>)
      else (0, file_size d < w, d))"

definition reconcile_quar :: "int \<Rightarrow> cdisk \<Rightarrow> int \<times> bool \<times> cdisk" where
  "reconcile_quar w d =
     (if w < d_quar d then (d_quar d - w, False, d\<lparr>d_quar := w\<rparr>) else (0, d_quar d < w, d))"

text \<open>\<open>_load_state\<close>: the state of the new process and the truncated files.\<close>

definition load_state :: "nat \<Rightarrow> cdisk \<Rightarrow> cstate \<times> cdisk" where
  "load_state epoch d =
     (case d_state d of
        None \<Rightarrow> (fresh_state ''none'' [''collector_start''] epoch, d)
      | Some prev \<Rightarrow>
          (case reconcile_obs (durable_offset prev) d of (oe, os, d1) \<Rightarrow>
           (case reconcile_quar (quarantine_bytes prev) d1 of (qe, qs, d2) \<Rightarrow>
             (let torn = oe \<noteq> 0 \<or> qe \<noteq> 0 \<or> os \<or> qs;
                  reasons = [''collector_start''] @
                    (if clean_stop prev then [] else [''unclean_shutdown'']) @
                    (if torn then [''unpublished_tail''] else []);
                  tail = (if \<not> clean_stop prev \<or> torn then ''unknown'' else ''none'') in
              ((fresh_state tail reasons epoch)
                 \<lparr>durable_seq := durable_seq prev, durable_offset := durable_offset prev,
                  durable_bytes := durable_bytes prev,
                  known_dropped_units := known_dropped_units prev,
                  storage_failed_units := storage_failed_units prev,
                  capacity_refused_units := capacity_refused_units prev,
                  identity_conflicts := identity_conflicts prev,
                  capacity_stop := capacity_stop prev,
                  storage_failure := (storage_failure prev \<or> os \<or> qs),
                  quarantine_bytes := quarantine_bytes prev,
                  admission_refused := admission_refused prev,
                  max_published := max (max_published prev) (durable_seq prev),
                  discarded_bytes := oe, discarded_quarantine := qe\<rparr>,
               d2)))))"

text \<open>
  \<open>_rebuild_index\<close> over the lines below the watermark; a line that the watermark cuts, or an
  incomplete one, stops the reading with a storage failure.
\<close>

fun rebuild_lines :: "(pydict \<times> int) list \<Rightarrow> int \<Rightarrow> int \<Rightarrow> int \<Rightarrow> collector \<Rightarrow> collector" where
  "rebuild_lines [] tail pos limit c =
     (if pos < limit \<and> tail \<noteq> 0 then c\<lparr>st := (st c)\<lparr>storage_failure := True\<rparr>\<rparr> else c)"
| "rebuild_lines ((r, n) # ls) tail pos limit c =
     (if limit \<le> pos then c
      else if limit < pos + n then c\<lparr>st := (st c)\<lparr>storage_failure := True\<rparr>\<rparr>
      else rebuild_lines ls tail (pos + n) limit (remember r pos n c))"

text \<open>A new process on the files of the old one; policy and authority come from their own documents.\<close>

definition restart ::
  "nat \<Rightarrow> string \<Rightarrow> int \<Rightarrow> authority \<Rightarrow> cdisk \<Rightarrow> collector \<times> cdisk" where
  "restart epoch want rv a d =
     (case load_state epoch d of (s, d1) \<Rightarrow>
       (let c = rebuild_lines (d_lines d1) (d_tail d1) 0 (durable_offset s)
              \<lparr>st = s, c_queue = [], queue_bytes = 0, publishing_units = 0, identities = (\<lambda>_. None),
               index = [], desired = want, revision = rv, transition = False,
               maintenance_unavailable = False, auth = a\<rparr>
        in (c, d1\<lparr>d_state := Some (st c)\<rparr>)))"

definition empty_disk :: cdisk where
  "empty_disk = \<lparr>d_lines = [], d_tail = 0, d_quar = 0, d_state = None\<rparr>"

subsection \<open>The collector as a system\<close>

text \<open>
  Where the publication thread stands: idle, holding a batch, with a staged batch, with the
  lines on disk and the watermark not yet, or ended by a watermark that could not be written.
\<close>

datatype pub_pc =
    Idle
  | Taken "c_item list"
  | Staged staged
  | Pending staged cstate
  | Dead staged cstate

text \<open>
  What a crash leaves: a prefix of the lines being appended with part of the next and part of
  the quarantine lines, or a watermark document that was replaced or not.
\<close>

inductive crash_disk :: "pub_pc \<Rightarrow> cdisk \<Rightarrow> cdisk \<Rightarrow> bool" where
  crash_same: "crash_disk pc d d"
| crash_append: "0 \<le> t \<Longrightarrow> 0 \<le> q \<Longrightarrow>
    crash_disk (Staged s) d
      (d\<lparr>d_lines := d_lines d @ take k (s_lines s), d_tail := t, d_quar := d_quar d + q\<rparr>)"
| crash_mark: "crash_disk (Pending s p) d (d\<lparr>d_state := Some p\<rparr>)"

text \<open>
  The steps of all threads. The flag \<open>clean\<close> restricts the failing appends to those that leave
  the files as they were; without it an append may fail after its bytes were written, as a
  failing \<open>fsync\<close> does.
\<close>

inductive asys :: "cenv \<Rightarrow> bool \<Rightarrow> collector \<Rightarrow> cdisk \<Rightarrow> pub_pc \<Rightarrow> bool" for e clean where
  starts: "asys e clean (fst (restart epoch want rv a empty_disk))
             (snd (restart epoch want rv a empty_disk)) Idle"
| accepts: "asys e clean c d pc \<Longrightarrow> asys e clean (snd (accept_one e v c)) d pc"
| policies: "asys e clean c d pc \<Longrightarrow> asys e clean (snd (set_policy w want x c)) d pc"
| manages: "asys e clean c d pc \<Longrightarrow>
    asys e clean (c\<lparr>auth := a, transition := t, maintenance_unavailable := m\<rparr>) d pc"
| takes: "asys e clean c d Idle \<Longrightarrow> c_queue c \<noteq> [] \<Longrightarrow>
    n = nat (limit_of (e_limits e) ''batch_size'') \<Longrightarrow>
    asys e clean ((c_take n c)\<lparr>publishing_units := int (length (take n (c_queue c)))\<rparr>) d
      (Taken (take n (c_queue c)))"
| stages: "asys e clean c d (Taken b) \<Longrightarrow>
    asys e clean (snd (stage e b c)) d (Staged (fst (stage e b c)))"
| appends: "asys e clean c d (Staged s) \<Longrightarrow>
    asys e clean c (d\<lparr>d_lines := d_lines d @ s_lines s, d_quar := d_quar d + sum_list (s_quar s)\<rparr>)
      (Pending s (pending_state e s (st c)))"
| append_fails: "asys e clean c d (Staged s) \<Longrightarrow> clean \<Longrightarrow> asys e clean (append_failure s c) d Idle"
| append_fails_late: "asys e clean c d (Staged s) \<Longrightarrow> \<not> clean \<Longrightarrow>
    asys e clean (append_failure s c)
      (d\<lparr>d_lines := d_lines d @ s_lines s, d_quar := d_quar d + sum_list (s_quar s)\<rparr>) Idle"
| persists: "asys e clean c d Idle \<Longrightarrow> asys e clean c (d\<lparr>d_state := Some (st c)\<rparr>) Idle"
| cleanly: "asys e clean c d Idle \<Longrightarrow>
    asys e clean (c\<lparr>st := (st c)\<lparr>clean_stop := \<not> storage_failure (st c) \<and>
        file_size d = durable_offset (st c) \<and> d_quar d = quarantine_bytes (st c)\<rparr>\<rparr>) d Idle"
| marks: "asys e clean c d (Pending s p) \<Longrightarrow>
    asys e clean (install s p c) (d\<lparr>d_state := Some p\<rparr>) Idle"
| mark_fails: "asys e clean c d (Pending s p) \<Longrightarrow> y = d_state d \<or> y = Some p \<Longrightarrow>
    asys e clean (watermark_failure c) (d\<lparr>d_state := y\<rparr>) (Dead s p)"
| restarts: "asys e clean c d pc \<Longrightarrow> crash_disk pc d d' \<Longrightarrow>
    asys e clean (fst (restart epoch want rv a d')) (snd (restart epoch want rv a d')) Idle"

subsection \<open>The queue's contract\<close>

lemma c_displace_frame [simp]:
  "c_queue (c_displace v r c) = r" "queue_bytes (c_displace v r c) = queue_bytes c - int (isize v)"
  by (simp_all add: c_displace_def)

lemma c_offer_displaces:
  assumes "\<not> c_fits l (isize i) c" and "phigh (prep i)" and "c_queue c = ys @ v # zs"
    and "c_victim v" and "\<forall>y\<in>set ys. \<not> c_victim y"
  shows "c_offer l i c = (True, c_append i (c_displace v (ys @ zs) c))"
proof -
  have "pop_first c_victim (c_queue c) = Some (v, ys @ zs)"
    unfolding assms(3) by (rule pop_first_split) (use assms in auto)
  then show ?thesis using assms by (simp add: c_offer_def)
qed

lemma c_offer_refuses:
  assumes "\<not> c_fits l (isize i) c" and "\<not> (phigh (prep i) \<and> (\<exists>v\<in>set (c_queue c). c_victim v))"
  shows "c_offer l i c = (False, c)"
proof -
  have "(if phigh (prep i) then pop_first c_victim (c_queue c) else None) = None"
    using assms(2) by (auto simp: pop_first_None)
  then show ?thesis using assms(1) by (simp add: c_offer_def)
qed

interpretation cq: bounded_queue c_queue queue_bytes isize "\<lambda>i. phigh (prep i)" c_victim
  "limit_of l ''collector_queue_count''" "limit_of l ''collector_queue_bytes''"
  "c_offer l" c_take for l :: pydict
proof unfold_locales
  fix s :: collector and i v :: c_item and ys zs :: "c_item list"
  assume a: "\<not> (int (length (c_queue s)) + 1 \<le> limit_of l ''collector_queue_count'' \<and>
    queue_bytes s + int (isize i) \<le> limit_of l ''collector_queue_bytes'')"
  then have nf: "\<not> c_fits l (isize i) s" by (simp add: c_fits_def)
  { assume "phigh (prep i)" "c_queue s = ys @ v # zs" "c_victim v" "\<forall>y\<in>set ys. \<not> c_victim y"
    then show "fst (c_offer l i s) \<and> c_queue (snd (c_offer l i s)) = ys @ zs @ [i] \<and>
      queue_bytes (snd (c_offer l i s)) = queue_bytes s - int (isize v) + int (isize i)"
      using c_offer_displaces [OF nf] by (simp add: c_append_def) }
  { assume "\<not> (phigh (prep i) \<and> (\<exists>v\<in>set (c_queue s). c_victim v))"
    then show "\<not> fst (c_offer l i s) \<and> c_queue (snd (c_offer l i s)) = c_queue s \<and>
      queue_bytes (snd (c_offer l i s)) = queue_bytes s"
      using c_offer_refuses [OF nf] by simp }
qed (simp_all add: c_offer_def c_fits_def c_append_def c_take_def)

end
