(* ===== verification/Archive_Publication.thy ===== *)
theory Archive_Publication
  imports Archive_Collector
begin

text \<open>
  The published prefix of the collector (\<open>src/archive/collector.py\<close>). The invariant of the
  system \<open>asys\<close> says which lines the observation file holds, what the index and the watermark
  say of them, and which identities are taken. The theorems: the index is exactly the file up
  to the watermark, no observation is published twice, the capacity holds, and a crash at any
  point restarts with the old prefix or with the whole batch that was being written.
\<close>

subsection \<open>What a step leaves alone\<close>

text \<open>The four counters of the watermark.\<close>

definition mark :: "cstate \<Rightarrow> int \<times> int \<times> int \<times> int" where
  "mark x = (durable_seq x, durable_offset x, durable_bytes x, quarantine_bytes x)"

lemma mark_break [simp]: "mark (break_continuity w x) = mark x"
  by (simp add: mark_def break_continuity_def)

lemma mark_updates [simp]:
  "mark (x\<lparr>known_dropped_units := a\<rparr>) = mark x" "mark (x\<lparr>identity_conflicts := a\<rparr>) = mark x"
  "mark (x\<lparr>admission_refused := a\<rparr>) = mark x" "mark (x\<lparr>capacity_refused_units := a\<rparr>) = mark x"
  "mark (x\<lparr>capacity_stop := b\<rparr>) = mark x" "mark (x\<lparr>storage_failure := b\<rparr>) = mark x"
  "mark (x\<lparr>storage_failed_units := a\<rparr>) = mark x" "mark (x\<lparr>crash_tail := t\<rparr>) = mark x"
  "mark (x\<lparr>clean_stop := b\<rparr>) = mark x"
  by (simp_all add: mark_def)

lemma frame_offer [simp]:
  "index (snd (c_offer l i c)) = index c" "mark (st (snd (c_offer l i c))) = mark (st c)"
  by (auto simp: c_offer_def c_append_def c_displace_def split: option.splits)

lemma frame_locked [simp]:
  "index (snd (accept_locked e p n c)) = index c"
  "mark (st (snd (accept_locked e p n c))) = mark (st c)"
  by (simp_all add: accept_locked_def Let_def)

lemma snd_coded: "snd (case x of (code, y) \<Rightarrow> (Value code, y)) = snd x"
  by (cases x) simp

lemma frame_accept [simp]:
  "index (snd (accept_one e v c)) = index c" "mark (st (snd (accept_one e v c))) = mark (st c)"
  by (simp_all add: accept_one_def refuse_counted_def Let_def snd_coded split: outcome.split)

lemma frame_policy [simp]:
  "index (snd (set_policy w want x c)) = index c" "mark (st (snd (set_policy w want x c))) = mark (st c)"
  "c_queue (snd (set_policy w want x c)) = c_queue c"
  "identities (snd (set_policy w want x c)) = identities c"
  by (simp_all add: set_policy_def)

lemma frame_take [simp]:
  "index (c_take n c) = index c" "st (c_take n c) = st c" "identities (c_take n c) = identities c"
  "c_queue (c_take n c) = drop n (c_queue c)"
  by (simp_all add: c_take_def)

lemma frame_stage_batch [simp]:
  "index (snd (stage_batch e b s c)) = index c" "mark (st (snd (stage_batch e b s c))) = mark (st c)"
  "c_queue (snd (stage_batch e b s c)) = c_queue c"
  by (induction e b s c rule: stage_batch.induct) (auto simp: Let_def capacity_refusal_def forget_def)

lemma frame_stage [simp]:
  "index (snd (stage e b c)) = index c" "mark (st (snd (stage e b c))) = mark (st c)"
  "c_queue (snd (stage e b c)) = c_queue c"
  by (simp_all add: stage_def)

lemma frame_failures [simp]:
  "index (append_failure s c) = index c" "mark (st (append_failure s c)) = mark (st c)"
  "c_queue (append_failure s c) = c_queue c"
  "index (watermark_failure c) = index c" "mark (st (watermark_failure c)) = mark (st c)"
  "c_queue (watermark_failure c) = c_queue c" "identities (watermark_failure c) = identities c"
  by (simp_all add: append_failure_def watermark_failure_def)

subsection \<open>The file, the index and the watermark\<close>

definition total :: "(pydict \<times> int) list \<Rightarrow> int" where
  "total ls = sum_list (map snd ls)"

lemma total_simps [simp]:
  "total [] = 0" "total (l # ls) = snd l + total ls" "total (xs @ ys) = total xs + total ys"
  by (simp_all add: total_def)

text \<open>The rows that the lines of a file deserve, from an offset on.\<close>

fun layout :: "(pydict \<times> int) list \<Rightarrow> int \<Rightarrow> row list" where
  "layout [] off = []"
| "layout ((r, n) # ls) off =
     \<lparr>row_seq = int_of_val (dget r ''durable_seq''), row_record = r, row_offset = off, row_length = n\<rparr>
     # layout ls (off + n)"

lemma layout_append: "layout (xs @ ys) off = layout xs off @ layout ys (off + total xs)"
  by (induction xs off rule: layout.induct) (simp_all add: add.assoc)

definition published :: "collector \<Rightarrow> (pydict \<times> int) list" where
  "published c = map (\<lambda>r. (row_record r, row_length r)) (index c)"

lemma published_layout: "map (\<lambda>r. (row_record r, row_length r)) (layout ls off) = ls"
  by (induction ls off rule: layout.induct) simp_all

definition positive :: "(pydict \<times> int) list \<Rightarrow> bool" where
  "positive ls \<longleftrightarrow> (\<forall>l\<in>set ls. 1 \<le> snd l)"

lemma positive_simps [simp]:
  "positive []" "positive (l # ls) \<longleftrightarrow> 1 \<le> snd l \<and> positive ls"
  "positive (xs @ ys) \<longleftrightarrow> positive xs \<and> positive ys"
  by (auto simp: positive_def)

lemma positive_total: "positive ls \<Longrightarrow> 0 \<le> total ls"
  by (induction ls) auto

lemma positive_take: "positive ls \<Longrightarrow> positive (take k ls)"
  by (auto simp: positive_def dest: in_set_takeD)

text \<open>The records carry the sequence numbers after \<open>k\<close>.\<close>

fun numbered :: "int \<Rightarrow> (pydict \<times> int) list \<Rightarrow> bool" where
  "numbered k [] \<longleftrightarrow> True"
| "numbered k (l # ls) \<longleftrightarrow> dget (fst l) ''durable_seq'' = PInt (k + 1) \<and> numbered (k + 1) ls"

lemma numbered_append [simp]:
  "numbered k (xs @ ys) \<longleftrightarrow> numbered k xs \<and> numbered (k + int (length xs)) ys"
  by (induction xs arbitrary: k) (auto simp: algebra_simps)

lemma numbered_seqs:
  "numbered k ls \<Longrightarrow> i < length ls \<Longrightarrow> row_seq (layout ls off ! i) = k + int i + 1"
proof (induction ls off arbitrary: k i rule: layout.induct)
  case (2 r n ls off)
  then show ?case by (cases i) auto
qed simp

text \<open>A watermark that covers exactly these lines and quarantine bytes.\<close>

definition covers :: "cstate \<Rightarrow> (pydict \<times> int) list \<Rightarrow> int \<Rightarrow> bool" where
  "covers x ls q \<longleftrightarrow> mark x = (int (length ls), total ls, total ls, q)"

lemma covers_mark: "mark x = mark y \<Longrightarrow> covers x ls q = covers y ls q"
  by (simp add: covers_def)

subsection \<open>The storage invariant\<close>

text \<open>The lines and quarantine bytes on disk that no watermark of this process covers yet.\<close>

fun unmarked :: "pub_pc \<Rightarrow> (pydict \<times> int) list" where
  "unmarked (Pending s p) = s_lines s"
| "unmarked (Dead s p) = s_lines s"
| "unmarked _ = []"

fun unmarked_quar :: "pub_pc \<Rightarrow> int" where
  "unmarked_quar (Pending s p) = sum_list (s_quar s)"
| "unmarked_quar (Dead s p) = sum_list (s_quar s)"
| "unmarked_quar _ = 0"

text \<open>A staged batch continues the watermark and respects the capacity.\<close>

definition staged_ok :: "cenv \<Rightarrow> cstate \<Rightarrow> staged \<Rightarrow> bool" where
  "staged_ok e x s \<longleftrightarrow>
     numbered (durable_seq x) (s_lines s) \<and> s_next s = durable_seq x + int (length (s_lines s)) \<and>
     positive (s_lines s) \<and> (\<forall>q\<in>set (s_quar s). 0 \<le> q) \<and>
     s_used s = durable_bytes x + quarantine_bytes x + total (s_lines s) + sum_list (s_quar s) \<and>
     s_used s \<le> limit_of (e_limits e) ''archive_capacity_bytes''"

fun pc_ok :: "cenv \<Rightarrow> (pydict \<times> int) list \<Rightarrow> cstate \<Rightarrow> pub_pc \<Rightarrow> bool" where
  "pc_ok e ls x (Staged s) \<longleftrightarrow> staged_ok e x s"
| "pc_ok e ls x (Pending s p) \<longleftrightarrow>
     staged_ok e x s \<and> covers p (ls @ s_lines s) (quarantine_bytes x + sum_list (s_quar s))"
| "pc_ok e ls x (Dead s p) \<longleftrightarrow>
     staged_ok e x s \<and> covers p (ls @ s_lines s) (quarantine_bytes x + sum_list (s_quar s))"
| "pc_ok e ls x _ \<longleftrightarrow> True"

text \<open>The watermark on disk is the one in memory, or that of the batch whose write failed.\<close>

definition disk_mark :: "(pydict \<times> int) list \<Rightarrow> cstate \<Rightarrow> pub_pc \<Rightarrow> cstate option \<Rightarrow> bool" where
  "disk_mark ls x pc w \<longleftrightarrow>
     (\<exists>y. w = Some y \<and> (covers y ls (quarantine_bytes x) \<or>
       (\<exists>s p. pc = Dead s p \<and> covers y (ls @ s_lines s) (quarantine_bytes x + sum_list (s_quar s)))))"

definition sinv :: "cenv \<Rightarrow> collector \<Rightarrow> cdisk \<Rightarrow> pub_pc \<Rightarrow> bool" where
  "sinv e c d pc \<longleftrightarrow>
     index c = layout (published c) 0 \<and> numbered 0 (published c) \<and> positive (published c) \<and>
     d_lines d = published c @ unmarked pc \<and> d_tail d = 0 \<and>
     d_quar d = quarantine_bytes (st c) + unmarked_quar pc \<and>
     covers (st c) (published c) (quarantine_bytes (st c)) \<and> 0 \<le> quarantine_bytes (st c) \<and>
     total (published c) + quarantine_bytes (st c) \<le> limit_of (e_limits e) ''archive_capacity_bytes'' \<and>
     disk_mark (published c) (st c) pc (d_state d) \<and> pc_ok e (published c) (st c) pc"

lemma mark_fields:
  assumes "mark x = mark y"
  shows "durable_seq x = durable_seq y" "durable_offset x = durable_offset y"
    "durable_bytes x = durable_bytes y" "quarantine_bytes x = quarantine_bytes y"
  using assms by (simp_all add: mark_def)

lemma staged_ok_mark: "mark x = mark y \<Longrightarrow> staged_ok e x s = staged_ok e y s"
  by (simp add: staged_ok_def mark_fields [of x y])

lemma pc_ok_mark: "mark x = mark y \<Longrightarrow> pc_ok e ls x pc = pc_ok e ls y pc"
  by (cases pc) (simp_all add: staged_ok_mark [of x y] mark_fields [of x y])

lemma disk_mark_mark: "mark x = mark y \<Longrightarrow> disk_mark ls x pc w = disk_mark ls y pc w"
  by (simp add: disk_mark_def mark_fields [of x y])

text \<open>The invariant looks only at the index and the four counters.\<close>

lemma sinv_frame:
  assumes "sinv e c d pc" and "index c' = index c" and "mark (st c') = mark (st c)"
  shows "sinv e c' d pc"
proof -
  have p: "published c' = published c" by (simp add: published_def assms(2))
  have q: "quarantine_bytes (st c') = quarantine_bytes (st c)" using assms(3) by (rule mark_fields)
  show ?thesis
    using assms(1) unfolding sinv_def p q assms(2)
    by (simp add: pc_ok_mark [OF assms(3)] disk_mark_mark [OF assms(3)] covers_mark [OF assms(3)])
qed

lemma staged_start:
  "numbered k ls \<Longrightarrow> staged_ok e x s \<Longrightarrow> durable_seq x = int (length ls) + k \<Longrightarrow>
   numbered k (ls @ s_lines s)"
  by (simp add: staged_ok_def add.commute)

lemma total_sum [simp]: "sum_list (map snd ls) = total ls"
  by (simp add: total_def)

lemma dget_dset [simp]: "dget (dset k v d) k' = (if k' = k then v else dget d k')"
  by (simp add: dget_def)

lemma record_of_seq [simp]: "dget (record_of p n) ''durable_seq'' = PInt n"
  by (simp add: record_of_def)

lemma staged_quar:
  "staged_ok e x s \<Longrightarrow> 0 \<le> n \<Longrightarrow> s_used s + n \<le> limit_of (e_limits e) ''archive_capacity_bytes'' \<Longrightarrow>
   staged_ok e x (s\<lparr>s_quar := s_quar s @ [n], s_used := s_used s + n\<rparr>)"
  by (auto simp: staged_ok_def)

lemma staged_line:
  "staged_ok e x s \<Longrightarrow> 1 \<le> n \<Longrightarrow> s_used s + n \<le> limit_of (e_limits e) ''archive_capacity_bytes'' \<Longrightarrow>
   staged_ok e x (s\<lparr>s_lines := s_lines s @ [(record_of p (s_next s + 1), n)],
                   s_next := s_next s + 1, s_used := s_used s + n\<rparr>)"
  by (simp add: staged_ok_def)

lemma stage_batch_ok:
  "staged_ok e x s \<Longrightarrow> staged_ok e x (fst (stage_batch e b s c))"
  by (induction e b s c rule: stage_batch.induct) (simp_all add: Let_def staged_quar staged_line)

lemma stage_ok:
  assumes "covers (st c) ls q" and "total ls + q \<le> limit_of (e_limits e) ''archive_capacity_bytes''"
  shows "staged_ok e (st c) (fst (stage e b c))"
  unfolding stage_def
  by (rule stage_batch_ok) (use assms in \<open>simp add: staged_ok_def covers_def mark_def\<close>)

lemma pending_covers:
  assumes "covers x ls (quarantine_bytes x)" and "staged_ok e x s"
  shows "covers (pending_state e s x) (ls @ s_lines s) (quarantine_bytes x + sum_list (s_quar s))"
  using assms
  by (auto simp: covers_def mark_def pending_state_def staged_ok_def Let_def)

subsection \<open>Installing and rebuilding the index\<close>

lemma remember_all_frame [simp]:
  "index (remember_all ls off c) = index c @ layout ls off"
  "st (remember_all ls off c) = st c" "c_queue (remember_all ls off c) = c_queue c"
  "queue_bytes (remember_all ls off c) = queue_bytes c"
  by (induction ls off c rule: remember_all.induct) (simp_all add: remember_def)

lemma install_index [simp]:
  "index (install s p c) = index c @ layout (s_lines s) (durable_offset p - total (s_lines s))"
  "mark (st (install s p c)) = mark p" "c_queue (install s p c) = c_queue c"
  by (simp_all add: install_def mark_def Let_def)

lemma cut_exact:
  assumes "positive ls" and "positive xs"
  shows "cut_lines (ls @ xs) (total ls) = (ls, 0)"
  using assms
proof (induction ls)
  case Nil
  then show ?case by (cases xs) auto
next
  case (Cons l ls)
  then show ?case using positive_total [of ls] by (cases l) simp
qed

lemma reconcile_obs_prefix:
  assumes "d_lines d = ls @ xs" and "positive ls" and "positive xs" and "0 \<le> d_tail d"
  shows "\<exists>m. reconcile_obs (total ls) d = (m, False, d\<lparr>d_lines := ls, d_tail := 0\<rparr>)"
proof (cases "total ls < file_size d")
  case True
  then show ?thesis by (simp add: reconcile_obs_def cut_exact assms)
next
  case False
  then have "total xs + d_tail d \<le> 0" by (simp add: file_size_def assms(1))
  then have z: "d_tail d = 0" "total xs \<le> 0" using positive_total [OF assms(3)] assms(4) by simp_all
  then have "xs = []" using assms(3) positive_total [of "tl xs"] by (cases xs) auto
  then have "d\<lparr>d_lines := ls, d_tail := 0\<rparr> = d" using z(1) assms(1) by simp
  then show ?thesis using False z \<open>xs = []\<close> assms(1) by (simp add: reconcile_obs_def file_size_def)
qed

lemma reconcile_quar_prefix:
  assumes "q \<le> d_quar d"
  shows "\<exists>m. reconcile_quar q d = (m, False, d\<lparr>d_quar := q\<rparr>)"
  using assms by (cases "q = d_quar d") (auto simp: reconcile_quar_def)

lemma rebuild_exact:
  "positive ls \<Longrightarrow>
   rebuild_lines ls 0 pos (pos + total ls) c = remember_all ls pos c"
proof (induction ls arbitrary: pos c)
  case (Cons l ls)
  then show ?case
    using positive_total [of ls] by (cases l) (simp add: add.assoc [symmetric])
qed simp

text \<open>The identities of lines, and those that a rebuilt index registers again.\<close>

definition keys :: "(pydict \<times> int) list \<Rightarrow> (string \<times> int) list" where
  "keys ls = List.map_filter (\<lambda>l. record_identity (fst l)) ls"

definition is_loss :: "pydict \<times> int \<Rightarrow> bool" where
  "is_loss l \<longleftrightarrow> dget (fst l) ''observation_kind'' = PStr ''loss_notice''"

definition lasting :: "(pydict \<times> int) list \<Rightarrow> (pydict \<times> int) list" where
  "lasting ls = filter (\<lambda>l. \<not> is_loss l) ls"

definition hashed :: "(pydict \<times> int) list \<Rightarrow> bool" where
  "hashed ls \<longleftrightarrow> (\<forall>l\<in>set ls. truthy (dget (fst l) ''content_hash''))"

lemma keys_simps [simp]:
  "keys [] = []" "keys (xs @ ys) = keys xs @ keys ys"
  "keys (l # ls) = (case record_identity (fst l) of None \<Rightarrow> keys ls | Some i \<Rightarrow> i # keys ls)"
  by (simp_all add: keys_def map_filter_def split: option.split)

lemma lasting_simps [simp]:
  "lasting [] = []" "lasting (xs @ ys) = lasting xs @ lasting ys"
  "lasting (l # ls) = (if is_loss l then lasting ls else l # lasting ls)"
  by (simp_all add: lasting_def)

lemma hashed_simps [simp]:
  "hashed []" "hashed (l # ls) \<longleftrightarrow> truthy (dget (fst l) ''content_hash'') \<and> hashed ls"
  "hashed (xs @ ys) \<longleftrightarrow> hashed xs \<and> hashed ys"
  by (auto simp: hashed_def)

lemma remember_all_registers:
  "hashed ls \<Longrightarrow> identities c i \<noteq> None \<or> i \<in> set (keys (lasting ls)) \<Longrightarrow>
   identities (remember_all ls off c) i \<noteq> None"
proof (induction ls off c rule: remember_all.induct)
  case (2 r n ls off c)
  then show ?case
    by (auto simp: remember_def is_loss_def split: option.splits if_splits)
qed simp

text \<open>
  A restart on files that reach as far as the watermark: the tail is cut off, and the index is
  what the covered lines deserve.
\<close>

lemma load_covered:
  assumes "d_state d = Some y" and "covers y ls q" and "d_lines d = ls @ xs"
    and "positive ls" and "positive xs" and "0 \<le> d_tail d" and "q \<le> d_quar d"
  shows "\<exists>s. load_state n d = (s, d\<lparr>d_lines := ls, d_tail := 0, d_quar := q\<rparr>) \<and> covers s ls q"
proof -
  have fields: "durable_offset y = total ls" "quarantine_bytes y = q" "durable_seq y = int (length ls)"
    "durable_bytes y = total ls" using assms(2) by (simp_all add: covers_def mark_def)
  obtain m where o: "reconcile_obs (total ls) d = (m, False, d\<lparr>d_lines := ls, d_tail := 0\<rparr>)"
    using reconcile_obs_prefix [OF assms(3-6)] by blast
  obtain k where k: "reconcile_quar q (d\<lparr>d_lines := ls, d_tail := 0\<rparr>) =
      (k, False, d\<lparr>d_lines := ls, d_tail := 0, d_quar := q\<rparr>)"
    using reconcile_quar_prefix [of q "d\<lparr>d_lines := ls, d_tail := 0\<rparr>"] assms(7) by auto
  show ?thesis
    by (simp add: load_state_def assms(1) fields o k Let_def covers_def mark_def)
qed

lemma restart_covered:
  assumes "d_state d = Some y" and "covers y ls q" and "d_lines d = ls @ xs"
    and "positive ls" and "positive xs" and "0 \<le> d_tail d" and "q \<le> d_quar d"
  obtains c' where
    "restart n want rv a d =
       (c', d\<lparr>d_lines := ls, d_tail := 0, d_quar := q, d_state := Some (st c')\<rparr>)"
    "index c' = layout ls 0" "covers (st c') ls q" "c_queue c' = []" "queue_bytes c' = 0"
    "hashed ls \<longrightarrow> (\<forall>i\<in>set (keys (lasting ls)). identities c' i \<noteq> None)"
proof -
  obtain s where s: "load_state n d = (s, d\<lparr>d_lines := ls, d_tail := 0, d_quar := q\<rparr>)"
    "covers s ls q" using load_covered [OF assms] by blast
  let ?b = "\<lparr>st = s, c_queue = [], queue_bytes = 0, publishing_units = 0, identities = (\<lambda>_. None),
               index = [], desired = want, revision = rv, transition = False,
               maintenance_unavailable = False, auth = a\<rparr>"
  have o: "durable_offset s = total ls" using s(2) by (simp add: covers_def mark_def)
  have R: "restart n want rv a d = (remember_all ls 0 ?b,
      d\<lparr>d_lines := ls, d_tail := 0, d_quar := q, d_state := Some (st (remember_all ls 0 ?b))\<rparr>)"
    using rebuild_exact [OF assms(4), of 0 ?b] by (simp add: restart_def s(1) o Let_def)
  show thesis
    by (rule that [OF R]) (use s(2) remember_all_registers [of ls ?b _ 0] in auto)
qed

subsection \<open>The storage invariant holds\<close>

lemma published_index:
  "index c' = layout ls 0 \<Longrightarrow> published c' = ls"
  by (simp add: published_def published_layout)

lemma sinv_settled:
  assumes "index c = layout ls 0" and "numbered 0 ls" and "positive ls" and "d_lines d = ls"
    and "d_tail d = 0" and "d_quar d = q" and "covers (st c) ls q" and "0 \<le> q"
    and "total ls + q \<le> limit_of (e_limits e) ''archive_capacity_bytes''"
    and "d_state d = Some y" and "covers y ls q"
  shows "sinv e c d Idle"
proof -
  have "quarantine_bytes (st c) = q" using assms(7) by (simp add: covers_def mark_def)
  then show ?thesis
    using assms by (simp add: sinv_def published_index [OF assms(1)] disk_mark_def)
qed

lemma restart_empty:
  obtains c' where "restart n want rv a empty_disk = (c', empty_disk\<lparr>d_state := Some (st c')\<rparr>)"
    "index c' = []" "covers (st c') [] 0" "c_queue c' = []" "queue_bytes c' = 0"
  by (rule that [of "fst (restart n want rv a empty_disk)"])
     (simp_all add: restart_def load_state_def empty_disk_def fresh_state_def covers_def mark_def Let_def)

lemma sinv_starts:
  assumes "0 \<le> limit_of (e_limits e) ''archive_capacity_bytes''"
  shows "sinv e (fst (restart n want rv a empty_disk)) (snd (restart n want rv a empty_disk)) Idle"
proof -
  obtain c' where c: "restart n want rv a empty_disk = (c', empty_disk\<lparr>d_state := Some (st c')\<rparr>)"
    "index c' = []" "covers (st c') [] 0" by (rule restart_empty)
  show ?thesis
    by (rule sinv_settled [where ls = "[]" and q = 0 and y = "st c'"])
       (use c assms in \<open>simp_all add: empty_disk_def\<close>)
qed

text \<open>A program counter with nothing on disk beyond the watermark may be exchanged for another.\<close>

lemma sinv_pc:
  assumes "sinv e c d pc" and "unmarked pc = []" "unmarked_quar pc = 0" "\<And>s p. pc \<noteq> Dead s p"
    and "unmarked pc' = []" "unmarked_quar pc' = 0" "pc_ok e (published c) (st c) pc'"
  shows "sinv e c d pc'"
  using assms unfolding sinv_def disk_mark_def by auto

lemma sinv_covers:
  assumes "sinv e c d pc"
  shows "covers (st c) (published c) (quarantine_bytes (st c))"
    "total (published c) + quarantine_bytes (st c) \<le> limit_of (e_limits e) ''archive_capacity_bytes''"
  using assms by (simp_all add: sinv_def)

lemma sinv_stages:
  assumes "sinv e c d (Taken b)"
  shows "sinv e (snd (stage e b c)) d (Staged (fst (stage e b c)))"
  by (rule sinv_frame [where c = c], rule sinv_pc [OF assms])
     (use stage_ok [OF sinv_covers [OF assms]] in simp_all)

lemma sinv_appends:
  assumes "sinv e c d (Staged s)"
  shows "sinv e c (d\<lparr>d_lines := d_lines d @ s_lines s, d_quar := d_quar d + sum_list (s_quar s)\<rparr>)
    (Pending s (pending_state e s (st c)))"
  using assms pending_covers [of "st c" "published c" e s]
  unfolding sinv_def disk_mark_def by simp

lemma sinv_persists:
  assumes "sinv e c d Idle"
  shows "sinv e c (d\<lparr>d_state := Some (st c)\<rparr>) Idle"
  using assms unfolding sinv_def disk_mark_def by simp

lemma staged_quar_nonneg: "staged_ok e x s \<Longrightarrow> 0 \<le> sum_list (s_quar s)"
  by (simp add: staged_ok_def sum_list_nonneg)

text \<open>What the lines of a batch that is on disk amount to.\<close>

lemma sinv_batch:
  assumes "sinv e c d pc" and "pc = Pending s p \<or> pc = Dead s p"
  shows "numbered 0 (published c @ s_lines s)" "positive (published c @ s_lines s)"
    "0 \<le> quarantine_bytes (st c) + sum_list (s_quar s)"
    "total (published c @ s_lines s) + (quarantine_bytes (st c) + sum_list (s_quar s))
       \<le> limit_of (e_limits e) ''archive_capacity_bytes''"
    "covers p (published c @ s_lines s) (quarantine_bytes (st c) + sum_list (s_quar s))"
    "d_lines d = published c @ s_lines s" "d_quar d = quarantine_bytes (st c) + sum_list (s_quar s)"
proof -
  have ok: "staged_ok e (st c) s" "numbered 0 (published c)" "positive (published c)"
    "0 \<le> quarantine_bytes (st c)" "durable_bytes (st c) = total (published c)"
    "durable_seq (st c) = int (length (published c))"
    and p: "covers p (published c @ s_lines s) (quarantine_bytes (st c) + sum_list (s_quar s))"
    and d: "d_lines d = published c @ s_lines s" "d_quar d = quarantine_bytes (st c) + sum_list (s_quar s)"
    using assms by (auto simp: sinv_def covers_def mark_def)
  show "numbered 0 (published c @ s_lines s)" "positive (published c @ s_lines s)"
    "0 \<le> quarantine_bytes (st c) + sum_list (s_quar s)"
    "total (published c @ s_lines s) + (quarantine_bytes (st c) + sum_list (s_quar s))
       \<le> limit_of (e_limits e) ''archive_capacity_bytes''"
    using ok staged_quar_nonneg [OF ok(1)] by (simp_all add: staged_ok_def)
  show "covers p (published c @ s_lines s) (quarantine_bytes (st c) + sum_list (s_quar s))"
    "d_lines d = published c @ s_lines s" "d_quar d = quarantine_bytes (st c) + sum_list (s_quar s)"
    using p d by simp_all
qed

lemma sinv_marks:
  assumes inv: "sinv e c d (Pending s p)"
  shows "sinv e (install s p c) (d\<lparr>d_state := Some p\<rparr>) Idle"
proof (rule sinv_settled [where ls = "published c @ s_lines s"
    and q = "quarantine_bytes (st c) + sum_list (s_quar s)" and y = p])
  note b = sinv_batch [OF inv disjI1 [OF refl]]
  have p: "durable_offset p = total (published c @ s_lines s)"
    using b(5) by (simp add: covers_def mark_def)
  have i: "index c = layout (published c) 0" and t: "d_tail d = 0" using inv by (simp_all add: sinv_def)
  show "index (install s p c) = layout (published c @ s_lines s) 0"
    by (simp add: layout_append p i [symmetric])
  show "covers (st (install s p c)) (published c @ s_lines s)
    (quarantine_bytes (st c) + sum_list (s_quar s))"
    using b(5) by (simp add: covers_def)
  show "d_lines (d\<lparr>d_state := Some p\<rparr>) = published c @ s_lines s" using b(6) by simp
  show "d_quar (d\<lparr>d_state := Some p\<rparr>) = quarantine_bytes (st c) + sum_list (s_quar s)" using b(7) by simp
  show "d_tail (d\<lparr>d_state := Some p\<rparr>) = 0" using t by simp
  show "d_state (d\<lparr>d_state := Some p\<rparr>) = Some p" by simp
qed (use sinv_batch [OF inv disjI1 [OF refl]] in simp_all)

lemma sinv_mark_fails:
  assumes inv: "sinv e c d (Pending s p)" and y: "y = d_state d \<or> y = Some p"
  shows "sinv e (watermark_failure c) (d\<lparr>d_state := y\<rparr>) (Dead s p)"
proof (rule sinv_frame [where c = c])
  show "sinv e c (d\<lparr>d_state := y\<rparr>) (Dead s p)"
    using inv y unfolding sinv_def disk_mark_def by auto
qed simp_all

text \<open>
  After a crash the watermark on disk covers the published lines, or these and the batch that
  was being marked; whatever else is in the files lies behind them.
\<close>

lemma crash_marks:
  assumes inv: "sinv e c d pc" and cr: "crash_disk pc d d'"
  obtains y ls q xs where "d_state d' = Some y" "covers y ls q" "d_lines d' = ls @ xs"
    "positive xs" "0 \<le> d_tail d'" "q \<le> d_quar d'" "numbered 0 ls" "positive ls" "0 \<le> q"
    "total ls + q \<le> limit_of (e_limits e) ''archive_capacity_bytes''"
    "ls = published c \<or> (\<exists>s p. (pc = Pending s p \<or> pc = Dead s p) \<and> ls = published c @ s_lines s)"
proof -
  note result = that
  have I: "numbered 0 (published c)" "positive (published c)" "0 \<le> quarantine_bytes (st c)"
    "total (published c) + quarantine_bytes (st c) \<le> limit_of (e_limits e) ''archive_capacity_bytes''"
    "d_lines d = published c @ unmarked pc" "d_tail d = 0"
    "d_quar d = quarantine_bytes (st c) + unmarked_quar pc" "pc_ok e (published c) (st c) pc"
    and m: "disk_mark (published c) (st c) pc (d_state d)"
    using inv by (simp_all add: sinv_def)
  have u: "positive (unmarked pc)" "0 \<le> unmarked_quar pc"
    using I(8) staged_quar_nonneg by (cases pc; auto simp: staged_ok_def)+
  have old: thesis if y: "d_state d' = Some y" "covers y (published c) (quarantine_bytes (st c))"
    and x: "d_lines d' = published c @ xs" "positive xs" "0 \<le> d_tail d'"
      "quarantine_bytes (st c) \<le> d_quar d'" for y xs
    using result [OF y x I(1,2,3,4)] by simp
  have new: thesis if pc: "pc = Pending s p \<or> pc = Dead s p" and y: "d_state d' = Some y"
      "covers y (published c @ s_lines s) (quarantine_bytes (st c) + sum_list (s_quar s))"
    and x: "d_lines d' = d_lines d" "d_tail d' = d_tail d" "d_quar d' = d_quar d" for s p y
    using result [OF y, of "[]"] sinv_batch [OF inv pc] pc x I(6) by auto
  obtain y where y: "d_state d = Some y" "covers y (published c) (quarantine_bytes (st c)) \<or>
      (\<exists>s p. pc = Dead s p \<and> covers y (published c @ s_lines s) (quarantine_bytes (st c) + sum_list (s_quar s)))"
    using m by (auto simp: disk_mark_def)
  from cr show thesis
  proof cases
    case crash_same
    from y(2) show thesis
    proof
      assume "covers y (published c) (quarantine_bytes (st c))"
      then show thesis using old [of y "unmarked pc"] y(1) crash_same I u by simp
    next
      assume "\<exists>s p. pc = Dead s p \<and> covers y (published c @ s_lines s) (quarantine_bytes (st c) + sum_list (s_quar s))"
      then show thesis using new y(1) crash_same by blast
    qed
  next
    case (crash_append t q s k)
    then have "covers y (published c) (quarantine_bytes (st c))" using y(2) by simp
    moreover have "positive (take k (s_lines s))"
      using I(8) crash_append by (simp add: staged_ok_def positive_take)
    ultimately show thesis
      using old [of y "take k (s_lines s)"] y(1) crash_append I by simp
  next
    case (crash_mark s p)
    have "covers p (published c @ s_lines s) (quarantine_bytes (st c) + sum_list (s_quar s))"
      using sinv_batch(5) [OF inv] crash_mark by blast
    then show thesis using new [of s p p] crash_mark by simp
  qed
qed

lemma crash_restart:
  assumes inv: "sinv e c d pc" and cr: "crash_disk pc d d'"
  obtains c' d'' ls where "restart n want rv a d' = (c', d'')" "sinv e c' d'' Idle"
    "published c' = ls" "c_queue c' = []" "queue_bytes c' = 0"
    "hashed ls \<longrightarrow> (\<forall>i\<in>set (keys (lasting ls)). identities c' i \<noteq> None)"
    "ls = published c \<or> (\<exists>s p. (pc = Pending s p \<or> pc = Dead s p) \<and> ls = published c @ s_lines s)"
proof -
  obtain y ls q xs where m: "d_state d' = Some y" "covers y ls q" "d_lines d' = ls @ xs"
    "positive xs" "0 \<le> d_tail d'" "q \<le> d_quar d'" "numbered 0 ls" "positive ls" "0 \<le> q"
    "total ls + q \<le> limit_of (e_limits e) ''archive_capacity_bytes''"
    "ls = published c \<or> (\<exists>s p. (pc = Pending s p \<or> pc = Dead s p) \<and> ls = published c @ s_lines s)"
    by (rule crash_marks [OF assms])
  obtain c' where r: "restart n want rv a d' =
       (c', d'\<lparr>d_lines := ls, d_tail := 0, d_quar := q, d_state := Some (st c')\<rparr>)"
    "index c' = layout ls 0" "covers (st c') ls q" "c_queue c' = []" "queue_bytes c' = 0"
    "hashed ls \<longrightarrow> (\<forall>i\<in>set (keys (lasting ls)). identities c' i \<noteq> None)"
    by (rule restart_covered [OF m(1-3) m(8) m(4-6), of n want rv a])
  have "sinv e c' (d'\<lparr>d_lines := ls, d_tail := 0, d_quar := q, d_state := Some (st c')\<rparr>) Idle"
    by (rule sinv_settled [OF r(2) m(7,8) _ _ _ r(3) m(9,10) _ r(3)]) simp_all
  then show thesis using that r published_index [OF r(2)] m(11) by blast
qed

lemma asys_sinv:
  assumes "asys e True c d pc" and cap: "0 \<le> limit_of (e_limits e) ''archive_capacity_bytes''"
  shows "sinv e c d pc"
  using assms(1)
proof induction
  case (starts n want rv a)
  show ?case by (rule sinv_starts [OF cap])
next
  case (accepts c d pc v)
  then show ?case by - (erule sinv_frame, simp_all)
next
  case (policies c d pc w want x)
  then show ?case by - (erule sinv_frame, simp_all)
next
  case (manages c d pc a t m)
  then show ?case by - (erule sinv_frame, simp_all)
next
  case (takes c d n)
  have "sinv e c d (Taken (take n (c_queue c)))" by (rule sinv_pc [OF takes.IH]) simp_all
  then show ?case by - (erule sinv_frame, simp_all)
next
  case (stages c d b)
  then show ?case by (simp add: sinv_stages)
next
  case (appends c d s)
  then show ?case by (simp add: sinv_appends)
next
  case (append_fails c d s)
  have "sinv e c d Idle" by (rule sinv_pc [OF append_fails.IH]) simp_all
  then show ?case by - (erule sinv_frame, simp_all)
next
  case (append_fails_late c d s)
  then show ?case by simp
next
  case (persists c d)
  then show ?case by (simp add: sinv_persists)
next
  case (cleanly c d)
  then show ?case by - (erule sinv_frame, simp_all)
next
  case (marks c d s p)
  then show ?case by (simp add: sinv_marks)
next
  case (mark_fails c d s p y)
  then show ?case by (simp add: sinv_mark_fails)
next
  case (restarts c d pc d' n want rv a)
  obtain c' d'' where "restart n want rv a d' = (c', d'')" "sinv e c' d'' Idle"
    by (rule crash_restart [OF restarts.IH restarts.hyps(2)]) blast
  then show ?case by simp
qed

subsection \<open>Which identities are taken\<close>

definition item_keys :: "c_item list \<Rightarrow> (string \<times> int) list" where
  "item_keys is = map (\<lambda>i. identity (prep i)) (filter (\<lambda>i. \<not> quar i) is)"

lemma item_keys_simps [simp]:
  "item_keys [] = []" "item_keys (xs @ ys) = item_keys xs @ item_keys ys"
  "item_keys (i # is) = (if quar i then item_keys is else identity (prep i) # item_keys is)"
  by (simp_all add: item_keys_def)

fun batch_items :: "pub_pc \<Rightarrow> c_item list" where
  "batch_items (Taken b) = b"
| "batch_items _ = []"

fun batch_lines :: "pub_pc \<Rightarrow> (pydict \<times> int) list" where
  "batch_lines (Staged s) = s_lines s"
| "batch_lines (Pending s p) = s_lines s"
| "batch_lines (Dead s p) = s_lines s"
| "batch_lines _ = []"

text \<open>Distinct identities, all of them registered.\<close>

definition registered :: "(string \<times> int) list \<Rightarrow> (string \<times> int \<Rightarrow> string option) \<Rightarrow> bool" where
  "registered ks m \<longleftrightarrow> distinct ks \<and> (\<forall>k\<in>set ks. m k \<noteq> None)"

text \<open>Lines that a rebuild registers: an identity and a content hash.\<close>

definition bound :: "(pydict \<times> int) list \<Rightarrow> bool" where
  "bound ls \<longleftrightarrow> hashed ls \<and> (\<forall>l\<in>set ls. record_identity (fst l) \<noteq> None)"

definition digested :: "c_item list \<Rightarrow> bool" where
  "digested is \<longleftrightarrow> (\<forall>i\<in>set is. phash (prep i) \<noteq> [])"

definition iinv :: "collector \<Rightarrow> pub_pc \<Rightarrow> bool" where
  "iinv c pc \<longleftrightarrow>
     registered (item_keys (c_queue c) @ item_keys (batch_items pc) @ keys (batch_lines pc) @
                 keys (lasting (published c))) (identities c) \<and>
     digested (c_queue c @ batch_items pc) \<and> bound (published c @ batch_lines pc)"

lemma digested_simps [simp]:
  "digested []" "digested (xs @ ys) \<longleftrightarrow> digested xs \<and> digested ys"
  "digested (i # is) \<longleftrightarrow> phash (prep i) \<noteq> [] \<and> digested is"
  by (auto simp: digested_def)

lemma bound_simps [simp]:
  "bound []" "bound (xs @ ys) \<longleftrightarrow> bound xs \<and> bound ys"
  "bound (l # ls) \<longleftrightarrow> truthy (dget (fst l) ''content_hash'') \<and> record_identity (fst l) \<noteq> None \<and> bound ls"
  by (auto simp: bound_def)

lemma keys_lasting: "set (keys (lasting ls)) \<subseteq> set (keys ls)"
  by (induction ls) (auto split: option.splits)

lemma distinct_keys_lasting: "distinct (keys ls) \<Longrightarrow> distinct (keys (lasting ls))"
  using keys_lasting by (induction ls) (auto split: option.splits)

lemma registered_new:
  assumes "registered (a @ b) m" and "m k = None"
  shows "registered ((a @ [k]) @ b) (m(k := Some h))"
proof -
  have "k \<notin> set (a @ b)" using assms unfolding registered_def by metis
  then show ?thesis using assms by (auto simp: registered_def)
qed

lemma registered_drop:
  assumes "registered (a @ k # b) m"
  shows "registered (a @ b) (m(k := None))"
  using assms by (auto simp: registered_def)

lemma c_offer_cases:
  obtains (room) "c_offer l i c = (True, c_append i c)"
  | (displaces) ys v zs where "c_queue c = ys @ v # zs" "\<not> quar v"
      "c_offer l i c = (True, c_append i (c_displace v (ys @ zs) c))"
  | (refuses) "c_offer l i c = (False, c)"
proof (cases "c_fits l (isize i) c")
  case True
  then show thesis using room by (simp add: c_offer_def)
next
  case False
  show thesis
  proof (cases "phigh (prep i) \<and> (\<exists>v\<in>set (c_queue c). c_victim v)")
    case True
    then obtain ys v zs where v: "c_queue c = ys @ v # zs" "c_victim v" "\<forall>y\<in>set ys. \<not> c_victim y"
      using first_victim_split [of "c_queue c" c_victim] by blast
    then have "c_offer l i c = (True, c_append i (c_displace v (ys @ zs) c))"
      using c_offer_displaces [OF False _ v(1,2,3)] True by blast
    then show thesis using displaces v by (auto simp: c_victim_def)
  next
    case a: False
    then show thesis using refuses c_offer_refuses [OF False a] by blast
  qed
qed

text \<open>The queue keeps its identities registered when an item is offered.\<close>

lemma offer_registered:
  assumes "registered (item_keys (c_queue c) @ K) (identities c)"
    and "fst (c_offer l i c)" and "\<not> quar i" and "identities c (identity (prep i)) = None"
  shows "registered (item_keys (c_queue (snd (c_offer l i c))) @ K)
    ((identities (snd (c_offer l i c)))(identity (prep i) := Some h))"
proof (cases rule: c_offer_cases [of l i c])
  case room
  then show ?thesis using assms registered_new [OF assms(1,4), of h] by (simp add: c_append_def)
next
  case (displaces ys v zs)
  have "registered (item_keys ys @ identity (prep v) # (item_keys zs @ K)) (identities c)"
    using assms(1) displaces by simp
  from registered_drop [OF this] have
    "registered ((item_keys (ys @ zs)) @ K) ((identities c)(identity (prep v) := None))" by simp
  from registered_new [OF this, of "identity (prep i)" h] show ?thesis
    using assms displaces by (simp add: c_append_def c_displace_def)
next
  case refuses
  then show ?thesis using assms(2) by simp
qed

lemma offer_registered_quar:
  assumes "registered (item_keys (c_queue c) @ K) (identities c)" and "quar i"
  shows "registered (item_keys (c_queue (snd (c_offer l i c))) @ K) (identities (snd (c_offer l i c)))"
proof (cases rule: c_offer_cases [of l i c])
  case (displaces ys v zs)
  have "registered (item_keys ys @ identity (prep v) # (item_keys zs @ K)) (identities c)"
    using assms(1) displaces by simp
  from registered_drop [OF this] show ?thesis
    using assms displaces by (simp add: c_append_def c_displace_def)
qed (use assms in \<open>simp_all add: c_append_def\<close>)

lemma offer_digested:
  "digested (c_queue c) \<Longrightarrow> phash (prep i) \<noteq> [] \<Longrightarrow> digested (c_queue (snd (c_offer l i c)))"
  by (cases rule: c_offer_cases [of l i c]) (auto simp: c_append_def c_displace_def)

lemma offer_refused_frame: "\<not> fst (c_offer l i c) \<Longrightarrow> snd (c_offer l i c) = c"
  by (cases rule: c_offer_cases [of l i c]) auto

lemma locked_registered:
  assumes r: "registered (item_keys (c_queue c) @ K) (identities c)"
  shows "registered (item_keys (c_queue (snd (accept_locked e p n c))) @ K)
    (identities (snd (accept_locked e p n c)))"
proof -
  define c1 where "c1 = c\<lparr>st := break_continuity ''identity_conflict''
                       ((st c)\<lparr>identity_conflicts := identity_conflicts (st c) + 1\<rparr>)\<rparr>"
  have 1: "registered (item_keys (c_queue c1) @ K) (identities c1)" using r by (simp add: c1_def)
  note q = offer_registered_quar [OF 1, of "\<lparr>prep = p, isize = n, quar = True\<rparr>" "e_limits e", simplified]
  note a = offer_registered [OF r, of "e_limits e" "\<lparr>prep = p, isize = n, quar = False\<rparr>" "phash p", simplified]
  note f = offer_refused_frame [of "e_limits e" "\<lparr>prep = p, isize = n, quar = False\<rparr>" c]
  show ?thesis
    unfolding accept_locked_def c1_def [symmetric] Let_def
    using r q a f by (simp split: if_splits)
qed

lemma locked_digested:
  assumes "digested (c_queue c)" and "phash p \<noteq> []"
  shows "digested (c_queue (snd (accept_locked e p n c)))"
proof -
  have "digested (c_queue (snd (c_offer (e_limits e) \<lparr>prep = p, isize = n, quar = x\<rparr> c')))"
    if "c_queue c' = c_queue c" for x c'
    using offer_digested [of c' "\<lparr>prep = p, isize = n, quar = x\<rparr>"] assms that by simp
  then show ?thesis using assms by (simp add: accept_locked_def Let_def)
qed
lemma accept_registered:
  assumes r: "registered (item_keys (c_queue c) @ K) (identities c)"
  shows "registered (item_keys (c_queue (snd (accept_one e v c))) @ K)
    (identities (snd (accept_one e v c)))"
  using r locked_registered [OF r]
  by (simp add: accept_one_def refuse_counted_def Let_def snd_coded split: outcome.split)

lemma prepare_hash: "prepare e obs = Value p \<Longrightarrow> phash p = e_hash e (semantic p)"
  unfolding prepare_def by (elim outcome_elims) (auto elim!: outcome_elims)

lemma accept_digested:
  assumes h: "\<And>x. e_hash e x \<noteq> []" and d: "digested (c_queue c)"
  shows "digested (c_queue (snd (accept_one e v c)))"
proof -
  have "digested (c_queue (snd (accept_locked e p n c)))" if "prepare e obs = Value p" for obs p n
    by (rule locked_digested [OF d]) (simp add: prepare_hash [OF that] h)
  then show ?thesis using d
    by (simp add: accept_one_def refuse_counted_def Let_def snd_coded split: outcome.split)
qed

subsection \<open>The identity invariant holds\<close>

lemma registered_mono:
  assumes "registered ks m" and "distinct ks'" and "set ks' \<subseteq> set ks"
    and "\<And>i. m i \<noteq> None \<Longrightarrow> m' i \<noteq> None"
  shows "registered ks' m'"
  using assms unfolding registered_def by blast

lemma record_of_fields [simp]:
  "record_identity (record_of p n) = Some (identity p)"
  "dget (record_of p n) ''content_hash'' = PStr (phash p)"
  by (simp_all add: record_of_def record_identity_def)

lemma refusal_identities:
  "identities (forget k c) = (identities c)(k := None)" "identities (capacity_refusal c) = identities c"
  by (simp_all add: forget_def capacity_refusal_def)

text \<open>Staging moves the identities of the batch to its lines, and frees those it refuses.\<close>

lemma stage_batch_registered:
  "registered (item_keys b @ keys (s_lines s) @ R) (identities c) \<Longrightarrow>
   registered (keys (s_lines (fst (stage_batch e b s c))) @ R) (identities (snd (stage_batch e b s c)))"
proof (induction e b s c rule: stage_batch.induct)
  case (2 e i rest s c)
  let ?cap = "limit_of (e_limits e) ''archive_capacity_bytes''"
  show ?case
  proof (cases "quar i")
    case True
    then show ?thesis using 2 by (simp add: Let_def refusal_identities)
  next
    case False
    let ?k = "identity (prep i)"
    have all: "registered (?k # item_keys rest @ keys (s_lines s) @ R) (identities c)"
      using 2(5) False by simp
    have drop: "registered (item_keys rest @ keys (s_lines s) @ R) ((identities c)(?k := None))"
      using registered_drop [of "[]" ?k _ "identities c"] all by simp
    have move: "registered (item_keys rest @ (keys (s_lines s) @ [?k]) @ R) (identities c)"
      using all by (auto simp: registered_def)
    show ?thesis
      using 2(3,4) False drop move by (simp add: Let_def refusal_identities fun_upd_def)
  qed
qed simp

lemma stage_batch_bound:
  "digested b \<Longrightarrow> bound (s_lines s) \<Longrightarrow> bound (s_lines (fst (stage_batch e b s c)))"
  by (induction e b s c rule: stage_batch.induct) (simp_all add: Let_def)

lemma iinv_frame:
  assumes "iinv c pc" and "index c' = index c" "c_queue c' = c_queue c" "identities c' = identities c"
  shows "iinv c' pc"
  using assms by (simp add: iinv_def published_def)

lemma iinv_lines:
  assumes "iinv c pc" and "batch_items pc' = batch_items pc" "batch_lines pc' = batch_lines pc"
  shows "iinv c pc'"
  using assms by (simp add: iinv_def)

lemma iinv_accepts:
  assumes h: "\<And>x. e_hash e x \<noteq> []" and inv: "iinv c pc"
  shows "iinv (snd (accept_one e v c)) pc"
  using inv accept_registered [of c _ e v] accept_digested [OF h, of c v]
  by (simp add: iinv_def published_def)

lemma iinv_takes:
  assumes "iinv c Idle"
  shows "iinv ((c_take n c)\<lparr>publishing_units := u\<rparr>) (Taken (take n (c_queue c)))"
proof -
  let ?q = "c_queue c"
  have "item_keys ?q = item_keys (take n ?q) @ item_keys (drop n ?q)"
    by (simp flip: item_keys_simps(2))
  moreover have "digested ?q \<longleftrightarrow> digested (take n ?q) \<and> digested (drop n ?q)"
    by (simp flip: digested_simps(2))
  ultimately show ?thesis
    using assms by (auto simp: iinv_def published_def registered_def)
qed

lemma iinv_stages:
  assumes "iinv c (Taken b)"
  shows "iinv (snd (stage e b c)) (Staged (fst (stage e b c)))"
proof -
  let ?s = "\<lparr>s_lines = [], s_quar = [], s_next = durable_seq (st c),
        s_used = durable_bytes (st c) + quarantine_bytes (st c)\<rparr>"
  have "registered (item_keys b @ keys (s_lines ?s) @ item_keys (c_queue c) @ keys (lasting (published c)))
      (identities c)"
    using assms by (auto simp: iinv_def registered_def)
  from stage_batch_registered [OF this, of e] show ?thesis
    using assms stage_batch_bound [of b ?s e c]
    by (auto simp: iinv_def stage_def published_def registered_def)
qed

lemma iinv_append_fails:
  assumes "iinv c (Staged s)"
  shows "iinv (append_failure s c) Idle"
proof -
  have "keys (s_lines s) = List.map_filter (\<lambda>ln. record_identity (fst ln)) (s_lines s)"
    by (simp add: keys_def)
  then show ?thesis
    using assms by (auto simp: iinv_def append_failure_def registered_def published_def)
qed

lemma iinv_marks:
  assumes "iinv c (Staged s)" and p: "index c = layout (published c) 0"
  shows "iinv (install s p c) Idle"
proof -
  have pub: "published (install s p c) = published c @ s_lines s"
    by (simp add: published_def published_layout)
  have ids: "identities (install s p c) i \<noteq> None" if "identities c i \<noteq> None" for i
    using remember_all_registers [of "s_lines s" c i] assms(1) that
    by (simp add: install_def Let_def iinv_def bound_def)
  have r: "registered (item_keys (c_queue c) @ keys (s_lines s) @ keys (lasting (published c)))
      (identities c)" using assms(1) by (simp add: iinv_def)
  have "registered (item_keys (c_queue c) @ keys (lasting (published c @ s_lines s)))
      (identities (install s p c))"
    by (rule registered_mono [OF r _ _ ids])
       (use r keys_lasting [of "s_lines s"] distinct_keys_lasting [of "s_lines s"]
         in \<open>auto simp: registered_def\<close>)
  then show ?thesis using assms(1) by (simp add: iinv_def pub)
qed

lemma asys_iinv:
  assumes "asys e True c d pc" and cap: "0 \<le> limit_of (e_limits e) ''archive_capacity_bytes''"
    and h: "\<And>x. e_hash e x \<noteq> []"
  shows "iinv c pc"
  using assms(1)
proof induction
  case (starts n want rv a)
  obtain c' where "restart n want rv a empty_disk = (c', empty_disk\<lparr>d_state := Some (st c')\<rparr>)"
    "index c' = []" "c_queue c' = []" by (rule restart_empty)
  then show ?case by (simp add: iinv_def published_def registered_def)
next
  case (accepts c d pc v)
  then show ?case by (simp add: iinv_accepts [OF h])
next
  case (policies c d pc w want x)
  then show ?case by - (erule iinv_frame, simp_all)
next
  case (manages c d pc a t m)
  then show ?case by - (erule iinv_frame, simp_all)
next
  case (takes c d n)
  then show ?case by (simp add: iinv_takes)
next
  case (stages c d b)
  then show ?case by (simp add: iinv_stages)
next
  case (appends c d s)
  then show ?case by - (erule iinv_lines, simp_all)
next
  case (append_fails c d s)
  then show ?case by (simp add: iinv_append_fails)
next
  case (append_fails_late c d s)
  then show ?case by simp
next
  case (persists c d)
  then show ?case by simp
next
  case (cleanly c d)
  then show ?case by - (erule iinv_frame, simp_all)
next
  case (marks c d s p)
  have "index c = layout (published c) 0"
    using asys_sinv [OF marks.hyps cap] by (simp add: sinv_def)
  moreover have "iinv c (Staged s)" by (rule iinv_lines [OF marks.IH]) simp_all
  ultimately show ?case by (rule iinv_marks [rotated])
next
  case (mark_fails c d s p y)
  have "iinv c (Dead s p)" by (rule iinv_lines [OF mark_fails.IH]) simp_all
  then show ?case by - (erule iinv_frame, simp_all)
next
  case (restarts c d pc d' n want rv a)
  obtain c' d'' ls where r: "restart n want rv a d' = (c', d'')" "published c' = ls" "c_queue c' = []"
    "hashed ls \<longrightarrow> (\<forall>i\<in>set (keys (lasting ls)). identities c' i \<noteq> None)"
    "ls = published c \<or> (\<exists>s p. (pc = Pending s p \<or> pc = Dead s p) \<and> ls = published c @ s_lines s)"
    by (rule crash_restart [OF asys_sinv [OF restarts.hyps(1) cap] restarts.hyps(2)]) blast
  have "distinct (keys (lasting ls))" "bound ls"
    using restarts.IH r(5) keys_lasting distinct_keys_lasting
    by (auto simp: iinv_def registered_def; blast)+
  then show ?case using r by (simp add: iinv_def registered_def bound_def)
qed

subsection \<open>A run\<close>

text \<open>Two observations of one source, of which each batch takes one.\<close>

definition run_env :: cenv where
  "run_env = \<lparr>e_limits = dset ''batch_size'' (PInt 1) DEFAULTS, e_len = (\<lambda>_. 9), e_hash = (\<lambda>_. ''h''),
              e_key = (\<lambda>s. s)\<rparr>"

definition run_obs :: "int \<Rightarrow> pydict" where
  "run_obs n =
     [(''observation_kind'', PStr ''start''), (''source_instance_id'', PStr ''s''),
      (''process_id'', PStr ''p''), (''source_local_sequence'', PInt n), (''update_id'', PStr ''u'')]"

definition run_auth :: authority where
  "run_auth = \<lparr>auth_value = fresh_control\<lparr>sources := [(''s'', 0)]\<rparr>, auth_failed = False,
               auth_disk = fresh_control\<rparr>"

definition run_prepared :: "int \<Rightarrow> prepared" where
  "run_prepared n = (case prepare run_env (run_obs n) of Value p \<Rightarrow> p)"

definition run_item :: "int \<Rightarrow> c_item" where
  "run_item n = \<lparr>prep = run_prepared n, isize = 9, quar = False\<rparr>"

definition run_c0 :: collector where "run_c0 = fst (restart 0 ''enabled'' 0 run_auth empty_disk)"
definition run_d0 :: cdisk where "run_d0 = snd (restart 0 ''enabled'' 0 run_auth empty_disk)"

definition run_c1 :: collector where "run_c1 = snd (accept_one run_env (PDict (run_obs 0)) run_c0)"
definition run_c2 :: collector where "run_c2 = snd (accept_one run_env (PDict (run_obs 1)) run_c1)"

lemma run_tokens [simp]:
  "safe_token (PStr ''s'') = Some ''s''" "safe_token (PStr ''p'') = Some ''p''"
  "safe_token (PStr ''u'') = Some ''u''"
  by (simp_all add: safe_token_def all_in_def SAFE_TOKEN_def ascii_upper_def ascii_lower_def ascii_digits_def)

lemma run_prepare_ex:
  "0 \<le> n \<Longrightarrow> \<exists>p. prepare run_env (run_obs n) = Value p \<and> identity p = (''s'', n) \<and> phash p = ''h'' \<and>
     pkind p = ''start'' \<and> dget (semantic p) ''observation_kind'' = PStr ''start'' \<and>
     dget (semantic p) ''update_id'' = PStr ''u'' \<and>
     dget (semantic p) ''source_instance_id'' = PStr ''s'' \<and> dget (semantic p) ''process_id'' = PStr ''p'' \<and>
     dget (semantic p) ''daemon'' = PNone"
  by (simp add: prepare_def run_obs_def classify_kind_def demand_def prepare_semantic_def
      run_env_def obs_excluded_flag_def KINDS_def schema_of_def CONTENT_FREE_KINDS_def dget_or_def
      SUPPORTED_SCHEMA_def stored_timing_def obs_outcome_def obs_reason_def host_claim_def member_or_def
      is_hashable_def str_in_def eq_str_def is_int_def Let_def optional_token_def)

lemma run_prepare:
  assumes "0 \<le> n"
  shows "prepare run_env (run_obs n) = Value (run_prepared n)" "identity (run_prepared n) = (''s'', n)"
    "phash (run_prepared n) = ''h''" "pkind (run_prepared n) = ''start''"
    "dget (semantic (run_prepared n)) ''observation_kind'' = PStr ''start''"
    "dget (semantic (run_prepared n)) ''update_id'' = PStr ''u''"
    "dget (semantic (run_prepared n)) ''source_instance_id'' = PStr ''s''"
    "dget (semantic (run_prepared n)) ''process_id'' = PStr ''p''"
    "dget (semantic (run_prepared n)) ''daemon'' = PNone"
  using run_prepare_ex [OF assms] by (auto simp: run_prepared_def)

lemma run_c0_fields:
  "st run_c0 = fresh_state ''none'' [''collector_start''] 0" "c_queue run_c0 = []" "index run_c0 = []"
  "queue_bytes run_c0 = 0"
  "identities run_c0 = (\<lambda>_. None)" "desired run_c0 = ''enabled''" "transition run_c0 = False"
  "maintenance_unavailable run_c0 = False" "auth run_c0 = run_auth" "publishing_units run_c0 = 0"
  by (simp_all add: run_c0_def restart_def load_state_def empty_disk_def Let_def fresh_state_def)

lemma run_accept:
  assumes "0 \<le> n" and "auth c = run_auth" "transition c = False" "maintenance_unavailable c = False"
    and "storage_failure (st c) = False" "capacity_stop (st c) = False" "desired c = ''enabled''"
    and "identities c (''s'', n) = None" "c_fits (e_limits run_env) 9 c"
  shows "snd (accept_one run_env (PDict (run_obs n)) c) =
    (c_append (run_item n) c)\<lparr>identities := (identities c)((''s'', n) := Some ''h'')\<rparr>"
proof -
  have "e_limits run_env = dset ''batch_size'' (PInt 1) DEFAULTS" "e_len run_env = (\<lambda>_. 9)"
    "e_key run_env = (\<lambda>s. s)"
    by (simp_all add: run_env_def)
  moreover have "limit_of (dset ''batch_size'' (PInt 1) DEFAULTS) ''max_event_bytes'' \<ge> 9"
    by (simp add: limit_of_def DEFAULTS_def)
  ultimately show ?thesis
    using assms run_prepare [OF assms(1)]
    by (simp add: accept_one_def accept_locked_def run_obs_def [of n] dget_or_def
        ENVELOPE_VERSION_def CONTENT_VERSION_def auth_allowed_def run_auth_def fresh_control_def
        c_offer_def run_item_def c_append_def CONTENT_FREE_KINDS_def Let_def)
qed

text \<open>A publication that goes through, and one whose append fails after the bytes were written.\<close>

definition batch_of :: "cenv \<Rightarrow> collector \<Rightarrow> c_item list" where
  "batch_of e c = take (nat (limit_of (e_limits e) ''batch_size'')) (c_queue c)"

definition run_taken :: "cenv \<Rightarrow> collector \<Rightarrow> collector" where
  "run_taken e c = (c_take (nat (limit_of (e_limits e) ''batch_size'')) c)
     \<lparr>publishing_units := int (length (batch_of e c))\<rparr>"

definition run_staged :: "cenv \<Rightarrow> collector \<Rightarrow> staged \<times> collector" where
  "run_staged e c = stage e (batch_of e c) (run_taken e c)"

definition with_lines :: "staged \<Rightarrow> cdisk \<Rightarrow> cdisk" where
  "with_lines s d = d\<lparr>d_lines := d_lines d @ s_lines s, d_quar := d_quar d + sum_list (s_quar s)\<rparr>"

definition publish_one :: "cenv \<Rightarrow> collector \<times> cdisk \<Rightarrow> collector \<times> cdisk" where
  "publish_one e x =
     (case run_staged e (fst x) of (s, c) \<Rightarrow>
        let p = pending_state e s (st c) in
        (install s p c, (with_lines s (snd x))\<lparr>d_state := Some p\<rparr>))"

definition fail_one :: "cenv \<Rightarrow> collector \<times> cdisk \<Rightarrow> collector \<times> cdisk" where
  "fail_one e x =
     (case run_staged e (fst x) of (s, c) \<Rightarrow> (append_failure s c, with_lines s (snd x)))"

lemma asys_staged:
  assumes "asys e clean c d Idle" and "c_queue c \<noteq> []"
  shows "asys e clean (snd (run_staged e c)) d (Staged (fst (run_staged e c)))"
  unfolding run_staged_def run_taken_def batch_of_def
  by (rule asys.stages, rule asys.takes [OF assms(1,2) refl])

lemma asys_pending:
  assumes "asys e clean c d Idle" and "c_queue c \<noteq> []" and "run_staged e c = (s, c')"
  shows "asys e clean c' (with_lines s d) (Pending s (pending_state e s (st c')))"
  using asys.appends [OF asys_staged [OF assms(1,2)]] by (simp add: assms(3) with_lines_def)

lemma asys_publish:
  assumes "asys e clean (fst x) (snd x) Idle" and "c_queue (fst x) \<noteq> []"
  shows "asys e clean (fst (publish_one e x)) (snd (publish_one e x)) Idle"
  using asys.marks [OF asys_pending [OF assms]]
  by (simp add: publish_one_def Let_def split: prod.split)

lemma asys_fail:
  assumes "asys e False (fst x) (snd x) Idle" and "c_queue (fst x) \<noteq> []"
  shows "asys e False (fst (fail_one e x)) (snd (fail_one e x)) Idle"
  using asys.append_fails_late [OF asys_staged [OF assms]]
  by (cases "run_staged e (fst x)") (simp add: fail_one_def with_lines_def)

definition run_line :: "int \<Rightarrow> int \<Rightarrow> pydict \<times> int" where
  "run_line n k = (record_of (run_prepared n) k, 10)"

lemma run_limits [simp]:
  "limit_of (e_limits run_env) ''batch_size'' = 1" "e_len run_env x = 9" "e_hash run_env x = ''h''"
  "limit_of (e_limits run_env) ''archive_capacity_bytes'' = limit_of DEFAULTS ''archive_capacity_bytes''"
  "limit_of (e_limits run_env) ''collector_queue_count'' = limit_of DEFAULTS ''collector_queue_count''"
  "limit_of (e_limits run_env) ''collector_queue_bytes'' = limit_of DEFAULTS ''collector_queue_bytes''"
  by (simp_all add: run_env_def limit_of_def)

lemma run_defaults [simp]:
  "100 \<le> limit_of DEFAULTS ''archive_capacity_bytes''" "100 \<le> limit_of DEFAULTS ''collector_queue_count''"
  "100 \<le> limit_of DEFAULTS ''collector_queue_bytes''"
  by (simp_all add: limit_of_def DEFAULTS_def)

lemma run_stage:
  assumes "c_queue c = run_item n # q" and "mark (st c) = (k, t, t, 0)" and "t \<le> 50"
  shows "run_staged run_env c =
    (\<lparr>s_lines = [run_line n (k + 1)], s_quar = [], s_next = k + 1, s_used = t + 10\<rparr>,
     c\<lparr>c_queue := q, queue_bytes := queue_bytes c - 9, publishing_units := 1\<rparr>)"
  using assms run_defaults(1)
  by (simp add: run_staged_def run_taken_def batch_of_def c_take_def stage_def mark_def run_item_def
      run_line_def del: run_defaults)

lemma run_publish:
  assumes "c_queue (fst x) = run_item n # q" and "mark (st (fst x)) = (k, t, t, 0)" and "t \<le> 50"
  shows "c_queue (fst (publish_one run_env x)) = q"
    "mark (st (fst (publish_one run_env x))) = (k + 1, t + 10, t + 10, 0)"
    "published (fst (publish_one run_env x)) = published (fst x) @ [run_line n (k + 1)]"
    "d_lines (snd (publish_one run_env x)) = d_lines (snd x) @ [run_line n (k + 1)]"
    "\<exists>p. d_state (snd (publish_one run_env x)) = Some p \<and> mark p = (k + 1, t + 10, t + 10, 0)"
    "d_tail (snd (publish_one run_env x)) = d_tail (snd x)"
    "d_quar (snd (publish_one run_env x)) = d_quar (snd x)"
  using run_stage [OF assms] assms(2)
  by (simp_all add: publish_one_def with_lines_def Let_def published_def run_line_def)
     (simp_all add: mark_def pending_state_def Let_def)

lemma run_fail:
  assumes "c_queue (fst x) = run_item n # q" and "mark (st (fst x)) = (k, t, t, 0)" and "t \<le> 50"
  shows "c_queue (fst (fail_one run_env x)) = q" "mark (st (fst (fail_one run_env x))) = (k, t, t, 0)"
    "published (fst (fail_one run_env x)) = published (fst x)"
    "d_lines (snd (fail_one run_env x)) = d_lines (snd x) @ [run_line n (k + 1)]"
    "d_tail (snd (fail_one run_env x)) = d_tail (snd x)" "d_quar (snd (fail_one run_env x)) = d_quar (snd x)"
  using run_stage [OF assms] assms(2)
  by (simp_all add: fail_one_def with_lines_def published_def)


lemma run_accepted:
  "c_queue run_c2 = [run_item 0, run_item 1]" "mark (st run_c2) = (0, 0, 0, 0)" "index run_c2 = []"
  "mark (st run_c1) = (0, 0, 0, 0)"
proof -
  have q: "c_fits (e_limits run_env) 9 run_c0" "c_fits (e_limits run_env) 9 (c_append (run_item 0) run_c0)"
    using run_defaults(2,3)
    by (simp_all add: c_fits_def run_c0_fields c_append_def run_item_def del: run_defaults)
  have a: "run_c1 = (c_append (run_item 0) run_c0)\<lparr>identities := (identities run_c0)((''s'', 0) := Some ''h'')\<rparr>"
    unfolding run_c1_def
    by (rule run_accept) (use q in \<open>simp_all add: run_c0_fields fresh_state_def\<close>)
  have b: "run_c2 = (c_append (run_item 1) run_c1)\<lparr>identities := (identities run_c1)((''s'', 1) := Some ''h'')\<rparr>"
    unfolding run_c2_def
    by (rule run_accept)
       (use q in \<open>simp_all add: a c_append_def c_fits_def run_c0_fields fresh_state_def\<close>)
  show "c_queue run_c2 = [run_item 0, run_item 1]" "mark (st run_c2) = (0, 0, 0, 0)" "index run_c2 = []"
    "mark (st run_c1) = (0, 0, 0, 0)"
    by (simp_all add: b a c_append_def run_c0_fields fresh_state_def mark_def)
qed

lemma asys_run: "asys run_env clean run_c2 run_d0 Idle"
  unfolding run_c2_def run_c1_def run_c0_def run_d0_def
  by (intro asys.accepts asys.starts)

definition run_good :: "collector \<times> cdisk" where
  "run_good = publish_one run_env (publish_one run_env (run_c2, run_d0))"

definition run_bad :: "collector \<times> cdisk" where
  "run_bad = publish_one run_env (fail_one run_env (run_c2, run_d0))"

lemma run_d0_lines [simp]: "d_lines run_d0 = []" "d_tail run_d0 = 0" "d_quar run_d0 = 0"
  by (simp_all add: run_d0_def restart_def load_state_def empty_disk_def Let_def)

lemma run_good_facts:
  "asys run_env True (fst run_good) (snd run_good) Idle"
  "published (fst run_good) = [run_line 0 1, run_line 1 2]"
proof -
  note a = run_publish [of "(run_c2, run_d0)" 0 "[run_item 1]" 0 0, simplified run_accepted fst_conv snd_conv, simplified]
  note b = run_publish [of "publish_one run_env (run_c2, run_d0)" 1 "[]" 1 10, OF a(1), simplified a, simplified]
  show "published (fst run_good) = [run_line 0 1, run_line 1 2]"
    using b(3) a(3) by (simp add: run_good_def published_def run_accepted)
  have "asys run_env True (fst (publish_one run_env (run_c2, run_d0)))
    (snd (publish_one run_env (run_c2, run_d0))) Idle"
    by (rule asys_publish) (simp_all add: asys_run run_accepted)
  then show "asys run_env True (fst run_good) (snd run_good) Idle"
    unfolding run_good_def by (rule asys_publish) (simp add: a)
qed

lemma run_bad_facts:
  "asys run_env False (fst run_bad) (snd run_bad) Idle"
  "published (fst run_bad) = [run_line 1 1]" "d_lines (snd run_bad) = [run_line 0 1, run_line 1 1]"
  "\<exists>p. d_state (snd run_bad) = Some p \<and> mark p = (1, 10, 10, 0)"
  "d_tail (snd run_bad) = 0" "d_quar (snd run_bad) = 0"
proof -
  note a = run_fail [of "(run_c2, run_d0)" 0 "[run_item 1]" 0 0, simplified run_accepted fst_conv snd_conv, simplified]
  note b = run_publish [of "fail_one run_env (run_c2, run_d0)" 1 "[]" 0 0, OF a(1), simplified a, simplified]
  show "published (fst run_bad) = [run_line 1 1]" "d_lines (snd run_bad) = [run_line 0 1, run_line 1 1]"
    "\<exists>p. d_state (snd run_bad) = Some p \<and> mark p = (1, 10, 10, 0)"
    "d_tail (snd run_bad) = 0" "d_quar (snd run_bad) = 0"
    using b(3-) a(3-) by (simp_all add: run_bad_def published_def run_accepted)
  have "asys run_env False (fst (fail_one run_env (run_c2, run_d0)))
    (snd (fail_one run_env (run_c2, run_d0))) Idle"
    by (rule asys_fail) (simp_all add: asys_run run_accepted)
  then show "asys run_env False (fst run_bad) (snd run_bad) Idle"
    unfolding run_bad_def by (rule asys_publish) (simp add: a)
qed

subsection \<open>The bounds of the queue\<close>

definition queue_ok :: "cenv \<Rightarrow> collector \<Rightarrow> bool" where
  "queue_ok e c \<longleftrightarrow>
     queue_bytes c = sizes isize (c_queue c) \<and>
     int (length (c_queue c)) \<le> limit_of (e_limits e) ''collector_queue_count'' \<and>
     (\<forall>i\<in>set (c_queue c). isize i \<le> nat (limit_of (e_limits e) ''max_event_bytes''))"

lemma queue_ok_frame:
  "queue_ok e c \<Longrightarrow> c_queue c' = c_queue c \<Longrightarrow> queue_bytes c' = queue_bytes c \<Longrightarrow> queue_ok e c'"
  by (simp add: queue_ok_def)

lemma queue_ok_offer:
  "queue_ok e c \<Longrightarrow> isize i \<le> nat (limit_of (e_limits e) ''max_event_bytes'') \<Longrightarrow>
   queue_ok e (snd (c_offer (e_limits e) i c))"
  using cq.offer_exact [of c "e_limits e" i] cq.offer_count [of c "e_limits e" i]
    cq.offer_sizes [of c "nat (limit_of (e_limits e) ''max_event_bytes'')" i "e_limits e"]
  by (simp add: queue_ok_def)

lemma queue_ok_take: "queue_ok e c \<Longrightarrow> queue_ok e (c_take n c)"
  using cq.leave_exact [of c n] cq.leave_count [of c "e_limits e" n]
    cq.leave_sizes [of c "nat (limit_of (e_limits e) ''max_event_bytes'')" n]
  by (simp add: queue_ok_def)

lemma queue_ok_updates [simp]:
  "queue_ok e (c\<lparr>st := s\<rparr>) = queue_ok e c" "queue_ok e (c\<lparr>identities := m\<rparr>) = queue_ok e c"
  "queue_ok e (c\<lparr>publishing_units := u\<rparr>) = queue_ok e c"
  by (simp_all add: queue_ok_def)

lemma queue_ok_locked:
  assumes "queue_ok e c" and "n \<le> nat (limit_of (e_limits e) ''max_event_bytes'')"
  shows "queue_ok e (snd (accept_locked e p n c))"
proof -
  have "queue_ok e (snd (c_offer (e_limits e) \<lparr>prep = p, isize = n, quar = x\<rparr> (c\<lparr>st := s\<rparr>)))"
    "queue_ok e (snd (c_offer (e_limits e) \<lparr>prep = p, isize = n, quar = x\<rparr> c))" for x s
    by (rule queue_ok_offer; simp add: assms)+
  then show ?thesis using assms by (simp add: accept_locked_def Let_def)
qed

lemma queue_ok_accept:
  assumes "queue_ok e c"
  shows "queue_ok e (snd (accept_one e v c))"
  using assms
  by (simp add: accept_one_def refuse_counted_def Let_def snd_coded queue_ok_locked split: outcome.split)

lemma queue_ok_stage_batch: "queue_ok e' c \<Longrightarrow> queue_ok e' (snd (stage_batch e b s c))"
  by (induction e b s c rule: stage_batch.induct)
     (simp_all add: Let_def capacity_refusal_def forget_def)

lemma rebuild_lines_queue:
  "c_queue (rebuild_lines ls t p l c) = c_queue c" "queue_bytes (rebuild_lines ls t p l c) = queue_bytes c"
  by (induction ls t p l c rule: rebuild_lines.induct) (simp_all add: remember_def)

lemma queue_ok_restart:
  "0 \<le> limit_of (e_limits e) ''collector_queue_count'' \<Longrightarrow> queue_ok e (fst (restart n want rv a d))"
  by (simp add: queue_ok_def restart_def rebuild_lines_queue Let_def split: prod.split)

lemma asys_queue_ok:
  assumes "asys e clean c d pc" and "0 \<le> limit_of (e_limits e) ''collector_queue_count''"
  shows "queue_ok e c"
  using assms(1)
proof induction
  case (stages c d b)
  then show ?case by (simp add: stage_def queue_ok_stage_batch)
next
  case (policies c d pc w want x)
  then show ?case by (simp add: set_policy_def queue_ok_def)
next
  case (marks c d s p)
  then show ?case by (simp add: install_def Let_def queue_ok_def)
qed (simp_all add: queue_ok_restart assms(2) queue_ok_accept queue_ok_take append_failure_def
       watermark_failure_def, simp_all add: queue_ok_def)

subsection \<open>Facts for the properties\<close>

lemma layout_offset: "i < length ls \<Longrightarrow> row_offset (layout ls off ! i) = off + total (take i ls)"
proof (induction ls off arbitrary: i rule: layout.induct)
  case (2 r n ls off)
  then show ?case by (cases i) auto
qed simp

lemma key_at:
  "j < length ls \<Longrightarrow> \<not> is_loss (ls ! j) \<Longrightarrow> record_identity (fst (ls ! j)) = Some a \<Longrightarrow>
   a \<in> set (keys (lasting ls))"
proof (induction ls arbitrary: j)
  case (Cons l ls)
  then show ?case by (cases j) (auto split: option.splits)
qed simp

lemma distinct_keys_nth:
  assumes "distinct (keys (lasting ls))" and "bound ls" and "i < j" "j < length ls"
    and "\<not> is_loss (ls ! i)" "\<not> is_loss (ls ! j)"
  shows "\<exists>a b. record_identity (fst (ls ! i)) = Some a \<and> record_identity (fst (ls ! j)) = Some b \<and> a \<noteq> b"
  using assms
proof (induction ls arbitrary: i j)
  case (Cons l ls)
  obtain j' where j: "j = Suc j'" "j' < length ls" using Cons.prems by (cases j) auto
  show ?case
  proof (cases i)
    case 0
    obtain b where b: "record_identity (fst (ls ! j')) = Some b"
      using Cons.prems(2) j unfolding bound_def by (metis nth_mem list.set_intros(2) not_None_eq)
    then have "b \<in> set (keys (lasting ls))" using key_at [of j' ls b] Cons.prems(6) j by simp
    then show ?thesis using Cons.prems 0 j b by (auto split: option.splits)
  next
    case (Suc i')
    have "distinct (keys (lasting ls))" using Cons.prems(1) by (auto split: if_splits option.splits)
    then show ?thesis using Cons.IH [of i' j'] Cons.prems Suc j by simp
  qed
qed simp

lemma sinv_bytes:
  assumes "sinv e c d pc"
  shows "durable_bytes (st c) + quarantine_bytes (st c) \<le> limit_of (e_limits e) ''archive_capacity_bytes''"
    "file_size d + d_quar d \<le> limit_of (e_limits e) ''archive_capacity_bytes''"
proof -
  have I: "covers (st c) (published c) (quarantine_bytes (st c))"
    "total (published c) + quarantine_bytes (st c) \<le> limit_of (e_limits e) ''archive_capacity_bytes''"
    "d_lines d = published c @ unmarked pc" "d_tail d = 0"
    "d_quar d = quarantine_bytes (st c) + unmarked_quar pc"
    using assms by (simp_all add: sinv_def)
  show "durable_bytes (st c) + quarantine_bytes (st c) \<le> limit_of (e_limits e) ''archive_capacity_bytes''"
    using I(1,2) by (simp add: covers_def mark_def)
  show "file_size d + d_quar d \<le> limit_of (e_limits e) ''archive_capacity_bytes''"
    using I(2-) sinv_batch(4) [OF assms] by (cases pc) (auto simp: file_size_def)
qed

lemma record_of_kind: "dget (record_of p n) ''observation_kind'' = dget (semantic p) ''observation_kind''"
  by (simp add: record_of_def)


lemma published_length [simp]: "length (published c) = length (index c)"
  by (simp add: published_def)

lemma run_good_length: "length (index (fst run_good)) = 2"
  using arg_cong [OF run_good_facts(2), of length] by simp


lemma run_caps:
  "0 \<le> limit_of (e_limits run_env) ''archive_capacity_bytes''"
  "0 \<le> limit_of (e_limits run_env) ''collector_queue_count''" "e_hash run_env x \<noteq> []"
  using run_defaults(1,2) by (simp_all del: run_defaults)
subsection \<open>Properties\<close>



text \<open>C27. No two published rows other than loss notices carry the same source identity: an
  observation is published at most once, through duplicates, conflicts, displacements, failed
  batches, crashes and restarts. The digest of a record is never the empty string.\<close>

theorem no_identity_published_twice:
  assumes "asys e True c d pc" and "0 \<le> limit_of (e_limits e) ''archive_capacity_bytes''"
    and "\<And>x. e_hash e x \<noteq> []"
    and "i < j" "j < length (index c)"
    and "dget (row_record (index c ! i)) ''observation_kind'' \<noteq> PStr ''loss_notice''"
    and "dget (row_record (index c ! j)) ''observation_kind'' \<noteq> PStr ''loss_notice''"
  shows "\<exists>a b. record_identity (row_record (index c ! i)) = Some a \<and>
    record_identity (row_record (index c ! j)) = Some b \<and> a \<noteq> b"
proof -
  have "distinct (keys (lasting (published c)))" "bound (published c)"
    using asys_iinv [OF assms(1-3)] by (auto simp: iinv_def registered_def)
  then show ?thesis
    using distinct_keys_nth [of "published c" i j] assms(4-)
    by (simp add: published_def is_loss_def)
qed

theorem no_identity_published_twice_witness:
  "record_identity (row_record (index (fst run_good) ! 0)) \<noteq>
   record_identity (row_record (index (fst run_good) ! 1))"
proof -
  have r: "map row_record (index (fst run_good)) = map fst [run_line 0 1, run_line 1 2]"
    using arg_cong [OF run_good_facts(2), of "map fst"] by (simp add: published_def o_def)
  note l = run_good_length
  have "row_record (index (fst run_good) ! 0) = fst (run_line 0 1)"
    "row_record (index (fst run_good) ! 1) = fst (run_line 1 2)"
    using r l nth_map [of 0 "index (fst run_good)" row_record]
      nth_map [of 1 "index (fst run_good)" row_record] by simp_all
  then show ?thesis
    using no_identity_published_twice [OF run_good_facts(1) run_caps(1,3), of 0 1] l run_prepare(5) [of 0] run_prepare(5) [of 1]
    by (auto simp: run_line_def record_of_kind)
qed





text \<open>C30. An append that fails after its bytes reached the file (a failing \<open>fsync\<close>) is not undone
  while later batches of admitted items are still published behind it: the watermark then
  covers the bytes of the failed batch, the index names a record that is not at its offset,
  and a restart replaces the published record by the one reported as failed.\<close>

theorem late_append_failure_replaces_a_row:
  "\<exists>c d. asys run_env False c d Idle \<and>
     map record_identity (map fst (published c)) = [Some (''s'', 1)] \<and>
     map record_identity (map fst (published (fst (restart 7 ''off'' 1 run_auth d)))) = [Some (''s'', 0)]"
proof -
  obtain p where p: "d_state (snd run_bad) = Some p" "mark p = (1, 10, 10, 0)"
    using run_bad_facts(4) by blast
  obtain c' where "restart 7 ''off'' 1 run_auth (snd run_bad) =
      (c', (snd run_bad)\<lparr>d_lines := [run_line 0 1], d_tail := 0, d_quar := 0, d_state := Some (st c')\<rparr>)"
    "index c' = layout [run_line 0 1] 0"
    by (rule restart_covered [of "snd run_bad" p "[run_line 0 1]" 0 "[run_line 1 1]" 7 "''off''" 1 run_auth])
       (use p run_bad_facts in \<open>simp_all add: covers_def run_line_def\<close>)
  then have "published (fst (restart 7 ''off'' 1 run_auth (snd run_bad))) = [run_line 0 1]"
    using published_index [of c' "[run_line 0 1]"] by simp
  then show ?thesis
    using run_bad_facts(1,2) run_prepare(2) [of 0] run_prepare(2) [of 1]
    by (intro exI [of _ "fst run_bad"] exI [of _ "snd run_bad"]) (simp add: run_line_def)
qed

end
