(* ===== verification/Archive_Relations.thy ===== *)
theory Archive_Relations
  imports Archive_Publication "HOL-Library.List_Lexorder" "HOL-Library.Char_ord"
begin

text \<open>
  The relations between published observations. The collector keeps join indexes that map
  every edge to the sequence number of its first witness (\<open>_remember_join_state\<close>,
  \<open>_snapshot_join_state_locked\<close> of \<open>src/archive/collector.py\<close>); \<open>RelationContext\<close> of
  \<open>src/archive/querying.py\<close> can also rebuild its maps from the rows. The theorem is that both
  agree at every prefix. The second part is the resolution of identities, associations and
  requests over such a context. Identity fields of stored rows are tokens or None, so a key
  is a string and an owner a pair of such values.
\<close>

subsection \<open>Dictionaries of witnesses\<close>

text \<open>\<open>d.setdefault(k, v)\<close>\<close>

definition set_default :: "'k \<Rightarrow> 'v \<Rightarrow> ('k \<times> 'v) list \<Rightarrow> ('k \<times> 'v) list" where
  "set_default k v d = (if k \<in> set (map fst d) then d else d @ [(k, v)])"

text \<open>\<open>d.setdefault(k, {}).setdefault(o, s)\<close>\<close>

fun nest_default ::
  "'k \<Rightarrow> 'o \<Rightarrow> 's \<Rightarrow> ('k \<times> ('o \<times> 's) list) list \<Rightarrow> ('k \<times> ('o \<times> 's) list) list" where
  "nest_default k own s [] = [(k, [(own, s)])]"
| "nest_default k own s ((k', m) # d) =
     (if k = k' then (k', set_default own s m) # d else (k', m) # nest_default k own s d)"

text \<open>\<open>d.setdefault(k, []).append(s)\<close>\<close>

fun append_to :: "'k \<Rightarrow> 's \<Rightarrow> ('k \<times> 's list) list \<Rightarrow> ('k \<times> 's list) list" where
  "append_to k s [] = [(k, [s])]"
| "append_to k s ((k', m) # d) = (if k = k' then (k', m @ [s]) # d else (k', m) # append_to k s d)"

text \<open>\<open>d.setdefault(k, set()).add(o)\<close>; a set is the list of its elements in the order they came.\<close>

fun add_to :: "'k \<Rightarrow> 'o \<Rightarrow> ('k \<times> 'o list) list \<Rightarrow> ('k \<times> 'o list) list" where
  "add_to k own [] = [(k, [own])]"
| "add_to k own ((k', m) # d) =
     (if k = k' then (k', if own \<in> set m then m else m @ [own]) # d else (k', m) # add_to k own d)"

text \<open>\<open>{owner for owner, seq in m.items() if seq <= w}\<close> per key, empty ones left out.\<close>

definition visible :: "int \<Rightarrow> ('o \<times> int) list \<Rightarrow> 'o list" where
  "visible w m = map fst (filter (\<lambda>os. snd os \<le> w) m)"

fun visible_keys :: "int \<Rightarrow> ('k \<times> ('o \<times> int) list) list \<Rightarrow> ('k \<times> 'o list) list" where
  "visible_keys w [] = []"
| "visible_keys w ((k, m) # d) =
     (if visible w m = [] then visible_keys w d else (k, visible w m) # visible_keys w d)"

fun visible_seqs :: "int \<Rightarrow> ('k \<times> int list) list \<Rightarrow> ('k \<times> int list) list" where
  "visible_seqs w [] = []"
| "visible_seqs w ((k, m) # d) =
     (if filter (\<lambda>s. s \<le> w) m = [] then visible_seqs w d
      else (k, filter (\<lambda>s. s \<le> w) m) # visible_seqs w d)"

subsection \<open>The incremental join state\<close>

type_synonym owner = "pyval \<times> pyval"

record joins =
  j_updates :: "(string \<times> int) list"
  j_update_owners :: "(string \<times> (owner \<times> int) list) list"
  j_process_sources :: "(string \<times> (pyval \<times> int) list) list"
  j_commit_owners :: "(string \<times> (owner \<times> int) list) list"
  j_segment_owners :: "(string \<times> (owner \<times> int) list) list"
  j_request_rows :: "(string \<times> int list) list"
  j_plan_owners :: "(string \<times> (string \<times> int) list) list"
  j_request_plans :: "(string \<times> (string \<times> int) list) list"

definition fresh_joins :: joins where
  "fresh_joins = \<lparr>j_updates = [], j_update_owners = [], j_process_sources = [], j_commit_owners = [],
     j_segment_owners = [], j_request_rows = [], j_plan_owners = [], j_request_plans = []\<rparr>"

definition is_observer :: "pydict \<Rightarrow> bool" where
  "is_observer r \<longleftrightarrow>
     eq_str (dget r ''observation_kind'') ''plugin_observation'' \<or>
     eq_str (dget r ''observation_kind'') ''daemon_observation''"

definition owner_of :: "pydict \<Rightarrow> owner" where
  "owner_of r = (dget r ''source_instance_id'', dget r ''process_id'')"

text \<open>The part of a capture row: one edge per declared token.\<close>

definition join_capture :: "int \<Rightarrow> pydict \<Rightarrow> joins \<Rightarrow> joins" where
  "join_capture seq r j =
     (let u = dget r ''update_id''; p = dget r ''process_id''; c = dget r ''commit_id'';
          g = dget r ''continuity_segment_id'' in
      \<lparr>j_updates =
         (if \<not> is_str u then j_updates j
          else case map_of (j_updates j) (str_of_val u) of
            None \<Rightarrow> dset (str_of_val u) seq (j_updates j)
          | Some s \<Rightarrow> if seq < s then dset (str_of_val u) seq (j_updates j) else j_updates j),
       j_update_owners =
         (if is_str u then nest_default (str_of_val u) (owner_of r) seq (j_update_owners j)
          else j_update_owners j),
       j_process_sources =
         (if is_str p then nest_default (str_of_val p) (dget r ''source_instance_id'') seq (j_process_sources j)
          else j_process_sources j),
       j_commit_owners =
         (if is_str c then nest_default (str_of_val c) (owner_of r) seq (j_commit_owners j)
          else j_commit_owners j),
       j_segment_owners =
         (if is_str g then nest_default (str_of_val g) (owner_of r) seq (j_segment_owners j)
          else j_segment_owners j),
       j_request_rows = j_request_rows j, j_plan_owners = j_plan_owners j,
       j_request_plans = j_request_plans j\<rparr>)"

text \<open>The request a daemon row declares: its id and, if any, its plan.\<close>

definition request_of :: "pydict \<Rightarrow> (string \<times> string option) option" where
  "request_of r =
     (let d = dget r ''daemon'' in
      if is_dict d \<and> eq_str (dget (dict_of_val d) ''daemon_stage'') ''request'' \<and>
         is_str (dget (dict_of_val d) ''request_id'')
      then Some (str_of_val (dget (dict_of_val d) ''request_id''),
                 if is_str (dget (dict_of_val d) ''plan_identity'')
                 then Some (str_of_val (dget (dict_of_val d) ''plan_identity'')) else None)
      else None)"

definition join_request :: "int \<Rightarrow> pydict \<Rightarrow> joins \<Rightarrow> joins" where
  "join_request seq r j =
     (case request_of r of
        None \<Rightarrow> j
      | Some (q, plan) \<Rightarrow>
          (let j1 = j\<lparr>j_request_rows := append_to q seq (j_request_rows j)\<rparr> in
           case plan of
             None \<Rightarrow> j1
           | Some p \<Rightarrow> j1\<lparr>j_plan_owners := nest_default p q seq (j_plan_owners j),
                          j_request_plans := nest_default q p seq (j_request_plans j)\<rparr>))"

definition remember_join :: "int \<Rightarrow> pydict \<Rightarrow> joins \<Rightarrow> joins" where
  "remember_join seq r j = join_request seq r (if is_observer r then j else join_capture seq r j)"

subsection \<open>The context of a query\<close>

record rcontext =
  x_updates :: "(string \<times> int) list"
  x_update_witnesses :: "((string \<times> owner) \<times> int) list"
  x_update_owners :: "(string \<times> owner list) list"
  x_process_sources :: "(string \<times> pyval list) list"
  x_commit_owners :: "(string \<times> owner list) list"
  x_segment_owners :: "(string \<times> owner list) list"
  x_request_rows :: "(string \<times> int list) list"
  x_plan_owners :: "(string \<times> string list) list"
  x_request_plans :: "(string \<times> string list) list"

text \<open>\<open>_snapshot_join_state_locked\<close>\<close>

definition snapshot_joins :: "int \<Rightarrow> joins \<Rightarrow> rcontext" where
  "snapshot_joins w j =
     \<lparr>x_updates = filter (\<lambda>ks. snd ks \<le> w) (j_updates j),
      x_update_witnesses =
        concat (map (\<lambda>(k, m). map (\<lambda>(own, s). ((k, own), s)) (filter (\<lambda>os. snd os \<le> w) m)) (j_update_owners j)),
      x_update_owners = visible_keys w (j_update_owners j),
      x_process_sources = visible_keys w (j_process_sources j),
      x_commit_owners = visible_keys w (j_commit_owners j),
      x_segment_owners = visible_keys w (j_segment_owners j),
      x_request_rows = visible_seqs w (j_request_rows j),
      x_plan_owners = visible_keys w (j_plan_owners j),
      x_request_plans = visible_keys w (j_request_plans j)\<rparr>"

definition fresh_context :: rcontext where
  "fresh_context = \<lparr>x_updates = [], x_update_witnesses = [], x_update_owners = [], x_process_sources = [],
     x_commit_owners = [], x_segment_owners = [], x_request_rows = [], x_plan_owners = [],
     x_request_plans = []\<rparr>"

text \<open>The loop of \<open>RelationContext.__init__\<close> over the rows.\<close>

definition context_capture :: "int \<Rightarrow> pydict \<Rightarrow> rcontext \<Rightarrow> rcontext" where
  "context_capture seq r x =
     (let u = dget r ''update_id''; p = dget r ''process_id''; c = dget r ''commit_id'';
          g = dget r ''continuity_segment_id'' in
      \<lparr>x_updates =
         (if is_str u
          then dset (str_of_val u)
                 (min (case map_of (x_updates x) (str_of_val u) of None \<Rightarrow> seq | Some s \<Rightarrow> s) seq) (x_updates x)
          else x_updates x),
       x_update_witnesses =
         (if is_str u then set_default (str_of_val u, owner_of r) seq (x_update_witnesses x)
          else x_update_witnesses x),
       x_update_owners =
         (if is_str u then add_to (str_of_val u) (owner_of r) (x_update_owners x) else x_update_owners x),
       x_process_sources =
         (if is_str p then add_to (str_of_val p) (dget r ''source_instance_id'') (x_process_sources x)
          else x_process_sources x),
       x_commit_owners =
         (if is_str c then add_to (str_of_val c) (owner_of r) (x_commit_owners x) else x_commit_owners x),
       x_segment_owners =
         (if is_str g then add_to (str_of_val g) (owner_of r) (x_segment_owners x) else x_segment_owners x),
       x_request_rows = x_request_rows x, x_plan_owners = x_plan_owners x,
       x_request_plans = x_request_plans x\<rparr>)"

definition context_request :: "int \<Rightarrow> pydict \<Rightarrow> rcontext \<Rightarrow> rcontext" where
  "context_request seq r x =
     (case request_of r of
        None \<Rightarrow> x
      | Some (q, plan) \<Rightarrow>
          (let x1 = x\<lparr>x_request_rows := append_to q seq (x_request_rows x)\<rparr> in
           case plan of
             None \<Rightarrow> x1
           | Some p \<Rightarrow> x1\<lparr>x_plan_owners := add_to p q (x_plan_owners x),
                          x_request_plans := add_to q p (x_request_plans x)\<rparr>))"

definition context_row :: "pydict \<Rightarrow> rcontext \<Rightarrow> rcontext" where
  "context_row r x =
     (let seq = int_of_val (dget r ''durable_seq'') in
      context_request seq r (if is_observer r then x else context_capture seq r x))"

definition context_of :: "pydict list \<Rightarrow> rcontext" where
  "context_of rows = fold context_row rows fresh_context"

text \<open>The index entry \<open>_remember\<close> makes of a record.\<close>

definition entry_of :: "(pydict \<Rightarrow> string) \<Rightarrow> row \<Rightarrow> pydict" where
  "entry_of hash r =
     (let rec = row_record r; sub = (\<lambda>k. if is_dict (dget rec k) then dget rec k else PNone) in
      [(''durable_seq'', PInt (row_seq r)), (''record_digest'', PStr (hash rec)),
       (''offset'', PInt (row_offset r)), (''length'', PInt (row_length r)),
       (''process_id'', dget rec ''process_id''), (''observation_kind'', dget rec ''observation_kind''),
       (''update_id'', dget rec ''update_id''), (''parent_update_id'', dget rec ''parent_update_id''),
       (''commit_id'', dget rec ''commit_id''), (''source_instance_id'', dget rec ''source_instance_id''),
       (''source_local_sequence'', dget rec ''source_local_sequence''),
       (''schema_id'', dget rec ''schema_id''), (''stage'', dget rec ''stage''),
       (''outcome'', dget rec ''outcome''), (''reason'', dget rec ''reason''),
       (''client_supplied_host_claim'', dget rec ''client_supplied_host_claim''),
       (''clocks'', dget rec ''clocks''),
       (''continuity_segment_id'', dget rec ''continuity_segment_id''),
       (''frontend_timing'', sub ''frontend_timing''), (''plugin'', sub ''plugin''),
       (''daemon'', sub ''daemon'')])"

text \<open>The join state of an index: \<open>_remember\<close> adds each row to both.\<close>

definition joins_of :: "row list \<Rightarrow> joins" where
  "joins_of rows = fold (\<lambda>r. remember_join (row_seq r) (row_record r)) rows fresh_joins"

text \<open>\<open>_published_rows\<close> at a watermark.\<close>

definition entries_at :: "(pydict \<Rightarrow> string) \<Rightarrow> int \<Rightarrow> row list \<Rightarrow> pydict list" where
  "entries_at hash w rows = map (entry_of hash) (filter (\<lambda>r. row_seq r \<le> w) rows)"

subsection \<open>Late witnesses are invisible\<close>

lemma visible_default:
  "visible w (set_default own s m) =
     (if w < s \<or> own \<in> set (map fst m) then visible w m else visible w m @ [own])"
  by (auto simp: set_default_def visible_def)

lemma visible_nest_late: "w < s \<Longrightarrow> visible_keys w (nest_default k own s d) = visible_keys w d"
  by (induction k own s d rule: nest_default.induct) (auto simp: visible_default, simp add: visible_def)

lemma visible_append_late: "w < s \<Longrightarrow> visible_seqs w (append_to k s d) = visible_seqs w d"
  by (induction k s d rule: append_to.induct) auto

definition witnesses :: "int \<Rightarrow> ('k \<times> ('o \<times> int) list) list \<Rightarrow> (('k \<times> 'o) \<times> int) list" where
  "witnesses w d = concat (map (\<lambda>(k, m). map (\<lambda>(own, s). ((k, own), s)) (filter (\<lambda>os. snd os \<le> w) m)) d)"

lemma witnesses_simps [simp]:
  "witnesses w [] = []"
  "witnesses w ((k, m) # d) = map (\<lambda>(own, s). ((k, own), s)) (filter (\<lambda>os. snd os \<le> w) m) @ witnesses w d"
  by (simp_all add: witnesses_def)

lemma witnesses_nest_late: "w < s \<Longrightarrow> witnesses w (nest_default k own s d) = witnesses w d"
  by (induction k own s d rule: nest_default.induct) (auto simp: set_default_def)

lemma filter_dset_late:
  fixes w s :: int
  shows "w < s \<Longrightarrow> k \<notin> set (map fst d) \<Longrightarrow> filter (\<lambda>ks. snd ks \<le> w) (dset k s d) = filter (\<lambda>ks. snd ks \<le> w) d"
  by (induction d) auto

lemma snapshot_late:
  assumes "w < seq" and "\<forall>ks\<in>set (j_updates j). snd ks < seq"
  shows "snapshot_joins w (remember_join seq r j) = snapshot_joins w j"
proof -
  have u: "filter (\<lambda>ks. snd ks \<le> w) (j_updates (join_capture seq r j)) = filter (\<lambda>ks. snd ks \<le> w) (j_updates j)"
  proof (cases "map_of (j_updates j) (str_of_val (dget r ''update_id''))")
    case None
    then have "str_of_val (dget r ''update_id'') \<notin> set (map fst (j_updates j))"
      by (simp add: map_of_eq_None_iff)
    then show ?thesis using None by (simp add: join_capture_def Let_def filter_dset_late [OF assms(1)])
  next
    case (Some s)
    then have "s < seq" using assms(2) by (metis map_of_SomeD snd_conv)
    then show ?thesis using Some by (simp add: join_capture_def Let_def)
  qed
  have "snapshot_joins w (join_capture seq r j) = snapshot_joins w j"
    unfolding snapshot_joins_def u witnesses_def [symmetric]
    by (simp add: join_capture_def Let_def visible_nest_late [OF assms(1)] witnesses_nest_late [OF assms(1)])
  moreover have "snapshot_joins w (join_request seq r j') = snapshot_joins w j'" for j'
    by (simp add: snapshot_joins_def join_request_def Let_def visible_nest_late [OF assms(1)]
        visible_append_late [OF assms(1)] split: option.split)
  ultimately show ?thesis by (simp add: remember_join_def)
qed

subsection \<open>Early witnesses are the context's\<close>

definition early :: "int \<Rightarrow> ('k \<times> ('o \<times> int) list) list \<Rightarrow> bool" where
  "early w d \<longleftrightarrow> distinct (map fst d) \<and> (\<forall>(k, m)\<in>set d. m \<noteq> [] \<and> (\<forall>os\<in>set m. snd os \<le> w))"

definition early_seqs :: "int \<Rightarrow> ('k \<times> int list) list \<Rightarrow> bool" where
  "early_seqs w d \<longleftrightarrow> (\<forall>(k, m)\<in>set d. m \<noteq> [] \<and> (\<forall>s\<in>set m. s \<le> w))"

lemma early_simps [simp]:
  "early w []"
  "early w ((k, m) # d) \<longleftrightarrow> k \<notin> set (map fst d) \<and> m \<noteq> [] \<and> (\<forall>os\<in>set m. snd os \<le> w) \<and> early w d"
  "early_seqs w []" "early_seqs w ((k, ss) # e) \<longleftrightarrow> ss \<noteq> [] \<and> (\<forall>s\<in>set ss. s \<le> w) \<and> early_seqs w e"
  by (auto simp: early_def early_seqs_def)

lemma visible_all: "\<forall>os\<in>set m. snd os \<le> w \<Longrightarrow> visible w m = map fst m"
  by (simp add: visible_def filter_id_conv)

lemma visible_nest_early:
  "early w d \<Longrightarrow> s \<le> w \<Longrightarrow> visible_keys w (nest_default k own s d) = add_to k own (visible_keys w d)"
proof (induction k own s d rule: nest_default.induct)
  case (2 k own s k' m d)
  have "visible w m = map fst m" "visible w m \<noteq> []"
    using 2(2) visible_all [of m w] by auto
  then show ?case using 2 by (auto simp: visible_default image_iff)
qed (simp add: visible_def)

lemma keys_nest: "set (map fst (nest_default k own s d)) = insert k (set (map fst d))"
  by (induction k own s d rule: nest_default.induct) auto

lemma early_nest: "early w d \<Longrightarrow> s \<le> w \<Longrightarrow> early w (nest_default k own s d)"
proof (induction k own s d rule: nest_default.induct)
  case (2 k own s k' m d)
  show ?case
  proof (cases "k = k'")
    case True
    then show ?thesis using 2 by (auto simp: set_default_def)
  next
    case False
    then show ?thesis using 2 keys_nest [of k own s d] by simp
  qed
qed simp

lemma visible_append_early:
  "early_seqs w d \<Longrightarrow> s \<le> w \<Longrightarrow> visible_seqs w (append_to k s d) = append_to k s (visible_seqs w d)"
  by (induction k s d rule: append_to.induct) (auto simp: filter_id_conv)

lemma early_append: "early_seqs w d \<Longrightarrow> s \<le> w \<Longrightarrow> early_seqs w (append_to k s d)"
  by (induction k s d rule: append_to.induct) auto

lemma map_of_default:
  "map_of (set_default k v d) = (case map_of d k of None \<Rightarrow> (map_of d)(k \<mapsto> v) | Some _ \<Rightarrow> map_of d)"
proof (cases "map_of d k")
  case None
  then have "k \<notin> set (map fst d)" by (simp add: map_of_eq_None_iff)
  then show ?thesis using None by (auto simp: set_default_def fun_eq_iff map_add_def split: option.split)
next
  case (Some w)
  then have "k \<in> set (map fst d)" by (metis map_of_eq_None_iff option.distinct(1) set_map)
  then show ?thesis using Some by (simp add: set_default_def)
qed


lemma map_of_witnesses_nest:
  "early w d \<Longrightarrow> s \<le> w \<Longrightarrow>
   map_of (witnesses w (nest_default k own s d)) =
     (case map_of (witnesses w d) (k, own) of
        None \<Rightarrow> (map_of (witnesses w d))((k, own) \<mapsto> s) | Some _ \<Rightarrow> map_of (witnesses w d))"
proof (induction k own s d rule: nest_default.induct)
  case (2 k own s k' m d)
  let ?m = "map (\<lambda>(own, s). ((k', own), s)) m"
  have all: "filter (\<lambda>os. snd os \<le> w) m = m" using 2(2) by (simp add: filter_id_conv)
  have out: "map_of (witnesses w d) (k', x) = None" for x
  proof -
    have "k' \<notin> set (map fst d)" using 2(2) by simp
    then have "(k', x) \<notin> set (map fst (witnesses w d))" by (induction d) auto
    then show ?thesis by (simp add: map_of_eq_None_iff)
  qed
  show ?case
  proof (cases "k = k'")
    case True
    show ?thesis
    proof (cases "own \<in> set (map fst m)")
      case a: True
      then have "map_of ?m (k', own) \<noteq> None" unfolding map_of_eq_None_iff by force
      then show ?thesis using True a all by (auto simp: set_default_def map_add_def)
    next
      case a: False
      then have n: "map_of ?m (k', own) = None" unfolding map_of_eq_None_iff by force
      show ?thesis
        using True a all n out 2(3)
        by (auto simp: set_default_def map_add_def fun_eq_iff split: option.splits)
    qed
  next
    case False
    then have n: "map_of ?m (k, own) = None" unfolding map_of_eq_None_iff by force
    show ?thesis
      using False 2 all n by (auto simp: map_add_def fun_eq_iff split: option.splits)
  qed
qed simp

subsection \<open>Both ways agree\<close>

text \<open>Contexts that answer every lookup alike.\<close>

definition same_context :: "rcontext \<Rightarrow> rcontext \<Rightarrow> bool" where
  "same_context x y \<longleftrightarrow>
     x_updates x = x_updates y \<and> map_of (x_update_witnesses x) = map_of (x_update_witnesses y) \<and>
     x_update_owners x = x_update_owners y \<and> x_process_sources x = x_process_sources y \<and>
     x_commit_owners x = x_commit_owners y \<and> x_segment_owners x = x_segment_owners y \<and>
     x_request_rows x = x_request_rows y \<and> x_plan_owners x = x_plan_owners y \<and>
     x_request_plans x = x_request_plans y"

definition early_joins :: "int \<Rightarrow> int \<Rightarrow> joins \<Rightarrow> bool" where
  "early_joins w n j \<longleftrightarrow>
     (\<forall>ks\<in>set (j_updates j). snd ks < n \<and> snd ks \<le> w) \<and>
     early w (j_update_owners j) \<and> early w (j_process_sources j) \<and> early w (j_commit_owners j) \<and>
     early w (j_segment_owners j) \<and> early_seqs w (j_request_rows j) \<and> early w (j_plan_owners j) \<and>
     early w (j_request_plans j)"

lemma snapshot_fields:
  "x_updates (snapshot_joins w j) = filter (\<lambda>ks. snd ks \<le> w) (j_updates j)"
  "x_update_witnesses (snapshot_joins w j) = witnesses w (j_update_owners j)"
  by (simp_all add: snapshot_joins_def witnesses_def)

lemma dset_same: "map_of d k = Some v \<Longrightarrow> dset k v d = d"
  by (induction d) (auto split: if_splits)

lemma set_dset: "set (dset k v d) \<subseteq> insert (k, v) (set d)"
proof (induction d)
  case (Cons a d)
  then show ?case by (cases a) auto
qed simp

lemma updates_remembered: "set (j_updates (remember_join seq r j)) \<subseteq> insert (str_of_val (dget r ''update_id''), seq) (set (j_updates j))"
  using set_dset [of "str_of_val (dget r ''update_id'')" seq "j_updates j"]
  by (auto simp: remember_join_def join_request_def join_capture_def Let_def split: option.splits if_splits)

lemma capture_updates:
  assumes "early_joins w n j" and "n \<le> seq" and "seq \<le> w"
    and "x_updates x = filter (\<lambda>ks. snd ks \<le> w) (j_updates j)"
  shows "x_updates (context_capture seq r x) =
    filter (\<lambda>ks. snd ks \<le> w) (j_updates (join_capture seq r j))"
proof -
  have all: "filter (\<lambda>ks. snd ks \<le> w) (j_updates j) = j_updates j"
    using assms(1) by (simp add: early_joins_def filter_id_conv)
  show ?thesis
  proof (cases "map_of (j_updates j) (str_of_val (dget r ''update_id''))")
    case None
    have "filter (\<lambda>ks. snd ks \<le> w) (dset (str_of_val (dget r ''update_id'')) seq (j_updates j)) =
        dset (str_of_val (dget r ''update_id'')) seq (j_updates j)"
      using set_dset [of "str_of_val (dget r ''update_id'')" seq "j_updates j"] assms(1,3)
      by (auto simp: filter_id_conv early_joins_def)
    then show ?thesis using None all assms(4) by (simp add: context_capture_def join_capture_def Let_def)
  next
    case (Some s)
    then have "s < n" using assms(1) by (metis early_joins_def map_of_SomeD snd_conv)
    then have "s < seq" using assms(2) by simp
    then show ?thesis
      using Some all assms(4) dset_same [OF Some]
      by (simp add: context_capture_def join_capture_def Let_def)
  qed
qed

lemma capture_same:
  assumes e: "early_joins w n j" and n: "n \<le> seq" "seq \<le> w" and s: "same_context (snapshot_joins w j) x"
  shows "same_context (snapshot_joins w (join_capture seq r j)) (context_capture seq r x)"
proof -
  have u: "x_updates (context_capture seq r x) =
      filter (\<lambda>ks. snd ks \<le> w) (j_updates (join_capture seq r j))"
    using capture_updates [OF e n, of x r] s by (simp add: same_context_def snapshot_fields)
  show ?thesis
    using s e n(2) unfolding same_context_def snapshot_fields u
    by (simp add: join_capture_def context_capture_def Let_def snapshot_joins_def early_joins_def
        visible_nest_early map_of_witnesses_nest map_of_default witnesses_def [symmetric]
        split: option.split)
qed

lemma request_same:
  assumes e: "early_joins w n j" and n: "seq \<le> w" and s: "same_context (snapshot_joins w j) x"
  shows "same_context (snapshot_joins w (join_request seq r j)) (context_request seq r x)"
  using s e n unfolding same_context_def snapshot_fields
  by (simp add: join_request_def context_request_def Let_def snapshot_joins_def early_joins_def
      visible_nest_early visible_append_early split: option.split)

lemma early_capture:
  assumes "early_joins w n j" and "n \<le> seq" and "seq \<le> w"
  shows "early_joins w (seq + 1) (join_capture seq r j)"
proof -
  have "\<forall>ks\<in>set (j_updates (join_capture seq r j)). snd ks < seq + 1 \<and> snd ks \<le> w"
    using set_dset [of "str_of_val (dget r ''update_id'')" seq "j_updates j"] assms
    by (auto simp: join_capture_def Let_def early_joins_def split: option.splits)
       (fastforce)+
  then show ?thesis
    using assms by (simp add: early_joins_def join_capture_def Let_def early_nest)
qed

lemma early_request:
  "early_joins w n j \<Longrightarrow> seq \<le> w \<Longrightarrow> early_joins w n (join_request seq r j)"
  by (simp add: early_joins_def join_request_def Let_def early_nest early_append split: option.split)

lemma early_joins_mono: "early_joins w n j \<Longrightarrow> n \<le> n' \<Longrightarrow> early_joins w n' j"
  by (fastforce simp: early_joins_def)


lemma entry_fields [simp]:
  "dget (entry_of h r) ''durable_seq'' = PInt (row_seq r)"
  "dget (entry_of h r) ''process_id'' = dget (row_record r) ''process_id''"
  "dget (entry_of h r) ''observation_kind'' = dget (row_record r) ''observation_kind''"
  "dget (entry_of h r) ''update_id'' = dget (row_record r) ''update_id''"
  "dget (entry_of h r) ''commit_id'' = dget (row_record r) ''commit_id''"
  "dget (entry_of h r) ''source_instance_id'' = dget (row_record r) ''source_instance_id''"
  "dget (entry_of h r) ''continuity_segment_id'' = dget (row_record r) ''continuity_segment_id''"
  "dget (entry_of h r) ''daemon'' =
     (if is_dict (dget (row_record r) ''daemon'') then dget (row_record r) ''daemon'' else PNone)"
  by (simp_all add: entry_of_def Let_def)

lemma request_entry [simp]: "request_of (entry_of h r) = request_of (row_record r)"
  by (simp add: request_of_def Let_def)

lemma observer_entry [simp]: "is_observer (entry_of h r) = is_observer (row_record r)"
  by (simp add: is_observer_def)

lemma owner_entry [simp]: "owner_of (entry_of h r) = owner_of (row_record r)"
  by (simp add: owner_of_def)

lemma context_row_entry:
  "context_row (entry_of h r) x =
     context_request (row_seq r) (row_record r)
       (if is_observer (row_record r) then x else context_capture (row_seq r) (row_record r) x)"
proof -
  have "context_request (row_seq r) (entry_of h r) y = context_request (row_seq r) (row_record r) y" for y
    by (simp add: context_request_def)
  moreover have "context_capture (row_seq r) (entry_of h r) x = context_capture (row_seq r) (row_record r) x"
    by (simp add: context_capture_def Let_def)
  ultimately show ?thesis by (simp add: context_row_def Let_def)
qed

lemma early_rows:
  assumes "sorted_wrt (\<lambda>a b. row_seq a < row_seq b) rows" and "\<forall>r\<in>set rows. n \<le> row_seq r \<and> row_seq r \<le> w"
    and "early_joins w n j" and "same_context (snapshot_joins w j) x"
  shows "same_context (snapshot_joins w (fold (\<lambda>r. remember_join (row_seq r) (row_record r)) rows j))
      (fold context_row (map (entry_of h) rows) x) \<and>
    (\<forall>ks\<in>set (j_updates (fold (\<lambda>r. remember_join (row_seq r) (row_record r)) rows j)). snd ks \<le> w)"
  using assms
proof (induction rows arbitrary: n j x)
  case Nil
  then show ?case by (auto simp: early_joins_def)
next
  case (Cons r rows)
  let ?s = "row_seq r" and ?c = "row_record r"
  have n: "n \<le> ?s" "?s \<le> w" using Cons.prems(2) by simp_all
  have "early_joins w (?s + 1) (remember_join ?s ?c j)"
    using early_request [OF early_capture [OF Cons.prems(3) n] n(2)]
      early_request [OF early_joins_mono [OF Cons.prems(3)] n(2), of "?s + 1"] n
    by (simp add: remember_join_def)
  moreover have "same_context (snapshot_joins w (remember_join ?s ?c j)) (context_row (entry_of h r) x)"
    using request_same [OF early_capture [OF Cons.prems(3) n] n(2) capture_same [OF Cons.prems(3) n Cons.prems(4)]]
      request_same [OF Cons.prems(3) n(2) Cons.prems(4)]
    by (simp add: remember_join_def context_row_entry)
  moreover have "\<forall>r'\<in>set rows. ?s + 1 \<le> row_seq r' \<and> row_seq r' \<le> w"
    using Cons.prems(1,2) by auto
  ultimately show ?case using Cons.IH [of "?s + 1"] Cons.prems(1) by simp
qed

lemma late_rows:
  assumes "sorted_wrt (\<lambda>a b. row_seq a < row_seq b) rows" and "\<forall>r\<in>set rows. n \<le> row_seq r \<and> w < row_seq r"
    and "\<forall>ks\<in>set (j_updates j). snd ks < n"
  shows "snapshot_joins w (fold (\<lambda>r. remember_join (row_seq r) (row_record r)) rows j) = snapshot_joins w j"
  using assms
proof (induction rows arbitrary: n j)
  case (Cons r rows)
  let ?s = "row_seq r" and ?c = "row_record r"
  have "\<forall>ks\<in>set (j_updates j). snd ks < ?s" using Cons.prems(2,3) by force
  moreover have "w < ?s" using Cons.prems(2) by simp
  ultimately have s: "snapshot_joins w (remember_join ?s ?c j) = snapshot_joins w j"
    by (simp add: snapshot_late)
  have "\<forall>ks\<in>set (j_updates (remember_join ?s ?c j)). snd ks < ?s + 1"
    using updates_remembered [of ?s ?c j] \<open>\<forall>ks\<in>set (j_updates j). snd ks < ?s\<close> by force
  moreover have "\<forall>r'\<in>set rows. ?s + 1 \<le> row_seq r' \<and> w < row_seq r'" using Cons.prems(1,2) by auto
  ultimately show ?case using Cons.IH [of "?s + 1" "remember_join ?s ?c j"] Cons.prems(1) s by simp
qed simp

lemma prefix_at:
  "sorted_wrt (\<lambda>a b. row_seq a < row_seq b) rows \<Longrightarrow>
   \<exists>zs. rows = filter (\<lambda>r. row_seq r \<le> w) rows @ zs \<and> (\<forall>r\<in>set zs. w < row_seq r)"
proof (induction rows)
  case (Cons r rows)
  then obtain zs where z: "rows = filter (\<lambda>r. row_seq r \<le> w) rows @ zs" "\<forall>r\<in>set zs. w < row_seq r" by auto
  show ?case
  proof (cases "row_seq r \<le> w")
    case True
    then show ?thesis using z by auto
  next
    case False
    then have "\<forall>r'\<in>set (r # rows). w < row_seq r'" using Cons.prems by auto
    then have "filter (\<lambda>r. row_seq r \<le> w) (r # rows) = []" by (auto simp: filter_empty_conv)
    then show ?thesis using \<open>\<forall>r'\<in>set (r # rows). w < row_seq r'\<close> by (metis append_Nil)
  qed
qed simp

lemma join_snapshot:
  assumes s: "sorted_wrt (\<lambda>a b. row_seq a < row_seq b) rows" and p: "\<forall>r\<in>set rows. 1 \<le> row_seq r"
  shows "same_context (snapshot_joins w (joins_of rows)) (context_of (entries_at h w rows))"
proof -
  let ?f = "\<lambda>r. remember_join (row_seq r) (row_record r)"
  let ?a = "filter (\<lambda>r. row_seq r \<le> w) rows"
  obtain zs where z: "rows = ?a @ zs" "\<forall>r\<in>set zs. w < row_seq r" using prefix_at [OF s] by blast
  have a: "sorted_wrt (\<lambda>a b. row_seq a < row_seq b) ?a" "sorted_wrt (\<lambda>a b. row_seq a < row_seq b) zs"
    using s z(1) by (metis sorted_wrt_append)+
  have "early_joins w 1 fresh_joins" by (simp add: early_joins_def fresh_joins_def)
  moreover have "same_context (snapshot_joins w fresh_joins) fresh_context"
    by (simp add: same_context_def snapshot_joins_def fresh_joins_def fresh_context_def)
  moreover have "\<forall>r\<in>set ?a. 1 \<le> row_seq r \<and> row_seq r \<le> w" using p by auto
  ultimately have e: "same_context (snapshot_joins w (fold ?f ?a fresh_joins))
      (fold context_row (map (entry_of h) ?a) fresh_context)"
    and u: "\<forall>ks\<in>set (j_updates (fold ?f ?a fresh_joins)). snd ks \<le> w"
    using early_rows [OF a(1), of 1 w fresh_joins fresh_context h] by simp_all
  have "snapshot_joins w (fold ?f zs (fold ?f ?a fresh_joins)) = snapshot_joins w (fold ?f ?a fresh_joins)"
    by (rule late_rows [OF a(2), of "w + 1"]) (use z(2) u in force)+
  moreover have "joins_of rows = fold ?f zs (fold ?f ?a fresh_joins)"
    unfolding joins_of_def by (subst z(1)) simp
  ultimately show ?thesis using e by (simp add: context_of_def entries_at_def)
qed

lemma asys_rows:
  assumes "asys e True c d pc" and "0 \<le> limit_of (e_limits e) ''archive_capacity_bytes''"
  shows "sorted_wrt (\<lambda>a b. row_seq a < row_seq b) (index c)" "\<forall>r\<in>set (index c). 1 \<le> row_seq r"
proof -
  have "index c = layout (published c) 0" "numbered 0 (published c)"
    using asys_sinv [OF assms] by (simp_all add: sinv_def)
  then have "row_seq (index c ! i) = int i + 1" if "i < length (index c)" for i
    using numbered_seqs [of 0 "published c" i 0] that by simp
  then show "sorted_wrt (\<lambda>a b. row_seq a < row_seq b) (index c)" "\<forall>r\<in>set (index c). 1 \<le> row_seq r"
    by (auto simp: sorted_wrt_iff_nth_less in_set_conv_nth)
qed

subsection \<open>Relation blocks\<close>

definition relation :: "string \<Rightarrow> string \<Rightarrow> string \<Rightarrow> pyval option \<Rightarrow> pydict" where
  "relation name status basis evidence =
     [(''relation'', PStr name), (''status'', PStr status), (''basis'', PStr basis)] @
     (case evidence of None \<Rightarrow> [] | Some v \<Rightarrow> [(''evidence'', v)])"

definition status_of :: "pydict \<Rightarrow> pyval" where
  "status_of b = dget b ''status''"

lemma status_relation [simp]: "status_of (relation n s b e) = PStr s"
  by (simp add: status_of_def relation_def)

definition text_or_unknown :: "pyval \<Rightarrow> string" where
  "text_or_unknown v = (if truthy v then str_of_val v else ''unknown'')"

definition render_owner :: "owner \<Rightarrow> string" where
  "render_owner own = text_or_unknown (fst own) @ ''/'' @ text_or_unknown (snd own)"

definition str_values :: "string list \<Rightarrow> pyval" where
  "str_values ss = PList (map PStr ss)"

text \<open>\<open>owners_evidence\<close> on the rendered owners, with the high-fanout bound.\<close>

definition owners_evidence :: "int option \<Rightarrow> string list \<Rightarrow> pyval" where
  "owners_evidence fan rendered =
     (let r = sort rendered; n = length r in
      case fan of
        Some b \<Rightarrow>
          if b < int n
          then PDict [(''owners'', str_values (take (nat b) r)), (''owners_total'', PInt (int n)),
                      (''owners_truncated'', PBool True),
                      (''owners_truncation_reason'', PStr ''query_high_fanout_updates_max'')]
          else PDict [(''owners'', str_values r), (''owners_total'', PInt (int n)),
                      (''owners_truncated'', PBool False)]
      | None \<Rightarrow> PDict [(''owners'', str_values r), (''owners_total'', PInt (int n)),
                      (''owners_truncated'', PBool False)])"

text \<open>\<open>d.get(v)\<close> of a map with string keys; a stored identity is a string or None.\<close>

definition look :: "(string \<times> 'v) list \<Rightarrow> pyval \<Rightarrow> 'v option" where
  "look d v = (if is_str v then map_of d (str_of_val v) else None)"

definition update_relation_for :: "rcontext \<Rightarrow> string \<Rightarrow> pyval \<Rightarrow> pydict" where
  "update_relation_for x field v =
     (if v = PNone then relation field ''absent'' ''no_parent_declared'' None
      else case look (x_updates x) v of
        Some s \<Rightarrow> relation field ''valid'' ''exact_token_match_durable_record'' (Some (PInt s))
      | None \<Rightarrow> relation field ''unmatched'' ''no_durable_record_with_this_token_at_prefix'' None)"

definition update_relation :: "rcontext \<Rightarrow> string \<Rightarrow> pyval \<Rightarrow> pydict" where
  "update_relation x field v =
     (if v = PNone then relation field ''absent'' (''no_declared_'' @ field) None
      else if field = ''parent_update_id'' then update_relation_for x field v
      else case look (x_updates x) v of
        Some s \<Rightarrow> relation field ''valid'' ''exact_token_match_durable_record'' (Some (PInt s))
      | None \<Rightarrow> relation field ''unmatched'' ''no_durable_record_with_this_token'' None)"

definition token_relation :: "int option \<Rightarrow> string \<Rightarrow> pyval \<Rightarrow> owner list option \<Rightarrow> pydict" where
  "token_relation fan name v owners =
     (if v = PNone then relation name ''absent'' (''no_declared_'' @ name) None
      else let os = (case owners of None \<Rightarrow> [(PNone, PNone)] | Some os \<Rightarrow> os) in
        if 1 < length os
        then relation name ''conflicting'' ''multiple_recorded_owners_for_this_token''
               (Some (owners_evidence fan (map render_owner os)))
        else if (PNone, PNone) \<in> set os
        then relation name ''unmatched'' ''no_durable_record_with_this_token'' None
        else relation name ''valid'' ''exact_token_match_durable_record'' None)"

definition process_relation :: "int option \<Rightarrow> rcontext \<Rightarrow> pydict \<Rightarrow> pyval \<Rightarrow> pydict" where
  "process_relation fan x row v =
     (if v = PNone then relation ''process_identity'' ''absent'' ''no_process_declared'' None
      else let owners = filter truthy (case look (x_process_sources x) v of None \<Rightarrow> [] | Some os \<Rightarrow> os) in
        case owners of
          [] \<Rightarrow> relation ''process_identity'' ''not_observed'' ''no_durable_process_record'' None
        | [own] \<Rightarrow>
            if is_observer row \<or> dget row ''source_instance_id'' = own
            then relation ''process_identity'' ''valid'' ''exact_source_and_process_match'' None
            else relation ''process_identity'' ''unmatched'' ''process_owner_is_a_different_source'' None
        | _ \<Rightarrow>
            relation ''process_identity'' ''conflicting''
              ''process_token_recorded_under_multiple_source_incarnations''
              (Some (owners_evidence fan (map text_or_unknown owners))))"

subsection \<open>The association of a plugin row\<close>

definition by_seq :: "pydict list \<Rightarrow> int \<Rightarrow> pydict option" where
  "by_seq rows w = List.find (\<lambda>r. int_of_val (dget r ''durable_seq'') = w) (List.rev rows)"

definition association_evidence :: "pydict \<Rightarrow> pydict" where
  "association_evidence plugin =
     [(''declared_role'', dget plugin ''association_role''),
      (''association_read'', dget plugin ''association_read''),
      (''proves_current_frontend_result'', PBool False), (''frontend_terminal'', PStr ''unknown'')]"

text \<open>The witness of a reference: the exact owner's first, otherwise the token's first.\<close>

definition witness_of :: "rcontext \<Rightarrow> string \<Rightarrow> pyval \<Rightarrow> pyval \<Rightarrow> int option" where
  "witness_of x u src proc =
     (case map_of (x_update_witnesses x) (u, (src, proc)) of
        Some w \<Rightarrow> Some w
      | None \<Rightarrow> map_of (x_updates x) u)"

definition association :: "rcontext \<Rightarrow> pydict list \<Rightarrow> pydict \<Rightarrow> pydict" where
  "association x rows plugin =
     (let role = dget plugin ''association_role''; read = dget plugin ''association_read'';
          src = dget plugin ''referenced_source_id''; proc = dget plugin ''referenced_process_id'';
          upd = dget plugin ''referenced_update_id'';
          ev = association_evidence plugin;
          ev1 = ev @ [(''reference'', PDict [(''source_instance_id'', src), (''process_id'', proc),
                                             (''update_id'', upd)])];
          rel = (\<lambda>status basis e. relation ''association'' status basis (Some (PDict e))) in
      if role = PNone \<or> eq_str role ''absent'' then rel ''absent'' ''no_association_declared'' ev
      else if eq_str role ''invalid'' \<or> eq_str read ''invalid''
      then rel ''invalid'' ''association_marked_invalid'' ev
      else if eq_str read ''malformed'' then rel ''malformed'' ''association_read_malformed'' ev
      else if eq_str role ''unknown'' \<or> eq_str read ''unknown''
      then rel ''unknown'' ''association_not_read'' ev
      else if src = PNone \<and> proc = PNone \<and> upd = PNone then rel ''absent'' ''no_reference_tokens'' ev1
      else if list_ex (\<lambda>v. v \<noteq> PNone \<and> \<not> is_str v) [src, proc, upd]
      then rel ''malformed'' ''reference_token_not_text'' ev1
      else if upd = PNone then rel ''unmatched'' ''no_owned_update_token_to_resolve'' ev1
      else case witness_of x (str_of_val upd) src proc of
        None \<Rightarrow> rel ''unmatched'' ''no_durable_record_with_referenced_update_token'' ev1
      | Some w \<Rightarrow>
          (let wrow = by_seq rows w;
               wsrc = (case wrow of None \<Rightarrow> PNone | Some r \<Rightarrow> dget r ''source_instance_id'');
               wproc = (case wrow of None \<Rightarrow> PNone | Some r \<Rightarrow> dget r ''process_id'');
               ev2 = ev1 @ [(''witness_durable_seq'', PInt w)] in
           if src \<noteq> PNone \<and> src \<noteq> wsrc
           then rel ''stale'' ''referenced_update_belongs_to_a_different_source'' ev2
           else if proc \<noteq> PNone \<and> proc \<noteq> wproc
           then rel ''stale'' ''referenced_update_belongs_to_a_different_process'' ev2
           else if src = PNone \<or> proc = PNone
           then rel ''unknown_owner'' ''reference_omits_source_or_process_token'' ev2
           else rel ''valid'' ''exact_source_process_update_match'' ev2))"

subsection \<open>The request of a plugin row\<close>

definition plan_relation :: "rcontext \<Rightarrow> pyval \<Rightarrow> pydict \<Rightarrow> pydict" where
  "plan_relation x plan ev =
     (if plan = PNone then relation ''plan_identity'' ''absent'' ''no_plan_declared'' (Some (PDict ev))
      else case look (x_plan_owners x) plan of
        None \<Rightarrow> relation ''plan_identity'' ''unmatched'' ''no_daemon_request_with_this_digest'' None
      | Some os \<Rightarrow>
          if 1 < length os
          then relation ''plan_identity'' ''conflicting'' ''plan_digest_claimed_by_multiple_requests''
                 (Some (str_values (sort os)))
          else relation ''plan_identity'' ''valid'' ''exact_digest_match_with_daemon_request'' None)"

definition request_records :: "rcontext \<Rightarrow> pyval \<Rightarrow> int list" where
  "request_records x q = (case look (x_request_rows x) q of None \<Rightarrow> [] | Some rs \<Rightarrow> rs)"

definition request_plans :: "rcontext \<Rightarrow> pyval \<Rightarrow> string list" where
  "request_plans x q = (case look (x_request_plans x) q of None \<Rightarrow> [] | Some ps \<Rightarrow> ps)"

definition request_status :: "rcontext \<Rightarrow> pyval \<Rightarrow> pyval \<Rightarrow> pyval \<Rightarrow> pydict" where
  "request_status x state q plan =
     (if eq_str state ''no_request'' then
        (if truthy q then relation ''request'' ''invalid'' ''request_id_present_without_a_request'' None
         else relation ''request'' ''not_issued'' ''no_lm_request_was_issued'' None)
      else if \<not> is_str q \<or> \<not> truthy q
      then relation ''request_identity'' ''unknown'' ''issued_request_without_a_request_token'' None
      else let records = request_records x q; plans = request_plans x q in
        if records = []
        then relation ''request'' ''unmatched'' ''no_durable_daemon_request_with_this_token'' None
        else if 1 < length plans
        then relation ''request'' ''conflicting''
               ''daemon_requests_with_this_token_disagree_on_plan_identity'' (Some (str_values (sort plans)))
        else if plan \<noteq> PNone \<and> plans \<noteq> [] \<and> \<not> str_in plan plans
        then relation ''request'' ''conflicting''
               ''plugin_plan_identity_differs_from_daemon_request_plan'' None
        else if 1 < length records
        then relation ''request'' ''ambiguous'' ''multiple_daemon_requests_with_this_token''
               (Some (PList (map PInt records)))
        else relation ''request'' ''linked'' ''native_request_id_matches_one_durable_daemon_request''
               (Some (PInt (hd records))))"

text \<open>
  \<open>request_link\<close>. The evidence dictionary is shared with the plan's relation, so the count of
  daemon rows that is added later shows there too.
\<close>

definition link_evidence :: "rcontext \<Rightarrow> pydict \<Rightarrow> pydict" where
  "link_evidence x plugin =
     (let state = dget plugin ''lm_request_state''; q = dget plugin ''lm_request_id'';
          n = length (request_records x q) in
      [(''lm_request_state'', state),
       (''request_id_basis'', PStr ''native_scorer_request_id_from_attempted_exchange''),
       (''proves_scoring_benefit'', PBool False), (''application_proof'', PBool False)] @
      (if \<not> eq_str state ''no_request'' \<and> is_str q \<and> truthy q \<and> n \<noteq> 0
       then [(''daemon_request_rows'', PInt (int n))] else []))"

definition request_link :: "rcontext \<Rightarrow> pydict \<Rightarrow> pydict \<times> pydict \<times> pydict" where
  "request_link x plugin =
     (let ev = link_evidence x plugin; plan = dget plugin ''plan_identity'' in
      (request_status x (dget plugin ''lm_request_state'') (dget plugin ''lm_request_id'') plan,
       plan_relation x plan ev, ev))"

definition daemon_relations :: "rcontext \<Rightarrow> pydict \<Rightarrow> (string \<times> pydict) list" where
  "daemon_relations x daemon =
     (let q = dget daemon ''request_id''; plan = dget daemon ''plan_identity'';
          plans = request_plans x q;
          owners = (case look (x_plan_owners x) plan of None \<Rightarrow> [] | Some os \<Rightarrow> os) in
      [(''request_identity'',
        if \<not> is_str q
        then relation ''request_identity'' ''absent'' ''daemon_request_without_a_request_token'' None
        else if 1 < length plans
        then relation ''request_identity'' ''conflicting''
               ''daemon_requests_with_this_token_disagree_on_plan_identity'' (Some (str_values (sort plans)))
        else relation ''request_identity'' ''valid'' ''durable_daemon_request'' None),
       (''plan_identity'',
        if plan = PNone then relation ''plan_identity'' ''absent'' ''no_plan_declared'' None
        else if 1 < length owners
        then relation ''plan_identity'' ''conflicting'' ''plan_digest_claimed_by_multiple_requests''
               (Some (str_values (sort owners)))
        else relation ''plan_identity'' ''valid'' ''durable_daemon_request_plan'' None)])"

definition row_relations ::
  "int option \<Rightarrow> rcontext \<Rightarrow> pydict list \<Rightarrow> pydict \<Rightarrow> (string \<times> pydict) list" where
  "row_relations fan x rows row =
     (let u = dget row ''update_id''; c = dget row ''commit_id''; g = dget row ''continuity_segment_id'';
          plugin = dget row ''plugin''; daemon = dget row ''daemon'' in
      [(''update_identity'',
        if is_str u then token_relation fan ''update_identity'' u (look (x_update_owners x) u)
        else relation ''update_identity'' ''absent'' ''no_update_declared'' None),
       (''process_identity'', process_relation fan x row (dget row ''process_id'')),
       (''parent_reference'', update_relation x ''parent_update_id'' (dget row ''parent_update_id'')),
       (''commit_identity'', token_relation fan ''commit_identity'' c (look (x_commit_owners x) c)),
       (''segment_identity'', token_relation fan ''segment_identity'' g (look (x_segment_owners x) g))]
      @ (if is_dict plugin then
           [(''association'', association x rows (dict_of_val plugin)),
            (''request_identity'', fst (request_link x (dict_of_val plugin))),
            (''plan_identity'', fst (snd (request_link x (dict_of_val plugin))))]
         else if is_dict daemon \<and> eq_str (dget (dict_of_val daemon) ''daemon_stage'') ''request''
         then daemon_relations x (dict_of_val daemon)
         else []))"

text \<open>\<open>relation_summary\<close>: how often each status occurs, in the order of first occurrence.\<close>

definition count_value :: "pyval \<Rightarrow> (pyval \<times> int) list \<Rightarrow> (pyval \<times> int) list" where
  "count_value v counts = dset v ((case map_of counts v of None \<Rightarrow> 0 | Some n \<Rightarrow> n) + 1) counts"

definition relation_summary :: "(string \<times> pydict) list \<Rightarrow> (pyval \<times> int) list" where
  "relation_summary rels = fold (\<lambda>(name, b). count_value (status_of b)) rels []"

subsection \<open>What the maps of a context hold\<close>

definition seq_of :: "pydict \<Rightarrow> int" where
  "seq_of r = int_of_val (dget r ''durable_seq'')"

definition captures :: "string \<Rightarrow> pydict list \<Rightarrow> pydict list" where
  "captures u rows = filter (\<lambda>r. \<not> is_observer r \<and> dget r ''update_id'' = PStr u) rows"

definition requests :: "string \<Rightarrow> pydict list \<Rightarrow> pydict list" where
  "requests q rows = filter (\<lambda>r. \<exists>plan. request_of r = Some (q, plan)) rows"

definition first_seq :: "pydict list \<Rightarrow> int option" where
  "first_seq rs = (case rs of [] \<Rightarrow> None | r # _ \<Rightarrow> Some (seq_of r))"

lemma first_seq_simps [simp]:
  "first_seq [] = None" "first_seq (r # rs) = Some (seq_of r)"
  "first_seq (rs @ [r]) = (case first_seq rs of None \<Rightarrow> Some (seq_of r) | Some s \<Rightarrow> Some s)"
  by (auto simp: first_seq_def split: list.split)

lemma captures_simps [simp]:
  "captures u [] = []"
  "captures u (rows @ [r]) = captures u rows @ (if \<not> is_observer r \<and> dget r ''update_id'' = PStr u then [r] else [])"
  by (simp_all add: captures_def)

lemma requests_simps [simp]:
  "requests q [] = []"
  "requests q (rows @ [r]) = requests q rows @ (if \<exists>plan. request_of r = Some (q, plan) then [r] else [])"
  by (simp_all add: requests_def)

lemma context_snoc [simp]: "context_of (rows @ [r]) = context_row r (context_of rows)"
  by (simp add: context_of_def)

lemma context_Nil [simp]: "context_of [] = fresh_context"
  by (simp add: context_of_def)

lemma request_frame [simp]:
  "x_updates (context_request s r x) = x_updates x"
  "x_update_witnesses (context_request s r x) = x_update_witnesses x"
  by (simp_all add: context_request_def Let_def split: option.split)

lemma capture_frame [simp]:
  "x_request_rows (context_capture s r x) = x_request_rows x"
  "x_request_plans (context_capture s r x) = x_request_plans x"
  by (simp_all add: context_capture_def Let_def)

lemma is_str_iff: "is_str v \<longleftrightarrow> v = PStr (str_of_val v)"
  by (cases v) auto

lemma context_witness:
  "map_of (x_update_witnesses (context_of rows)) (u, own) =
     first_seq (filter (\<lambda>r. owner_of r = own) (captures u rows))"
proof (induction rows rule: rev_induct)
  case (snoc r rows)
  show ?case
  proof (cases "\<not> is_observer r \<and> is_str (dget r ''update_id'')")
    case True
    then obtain v where v: "dget r ''update_id'' = PStr v" by (auto simp: is_str_iff)
    show ?thesis
      using True v snoc
      by (auto simp: context_row_def Let_def context_capture_def map_of_default seq_of_def split: option.splits)
  next
    case False
    then have "\<not> (\<not> is_observer r \<and> dget r ''update_id'' = PStr u)" by auto
    then show ?thesis using False snoc by (auto simp: context_row_def Let_def context_capture_def)
  qed
qed (simp add: fresh_context_def)

lemma context_updates:
  "sorted_wrt (\<lambda>a b. seq_of a < seq_of b) rows \<Longrightarrow>
   map_of (x_updates (context_of rows)) u = first_seq (captures u rows)"
proof (induction rows rule: rev_induct)
  case (snoc r rows)
  have s: "sorted_wrt (\<lambda>a b. seq_of a < seq_of b) rows" and later: "\<forall>r'\<in>set rows. seq_of r' < seq_of r"
    using snoc.prems by (simp_all add: sorted_wrt_append)
  have early: "q \<le> seq_of r" if "first_seq (captures u rows) = Some q" for q
  proof -
    have "seq_of r' \<le> seq_of r" if "r' \<in> set (captures u rows)" for r'
      using later that by (auto simp: captures_def)
    then show ?thesis using that by (cases "captures u rows") auto
  qed
  show ?case
  proof (cases "\<not> is_observer r \<and> is_str (dget r ''update_id'')")
    case True
    then obtain v where v: "dget r ''update_id'' = PStr v" by (auto simp: is_str_iff)
    show ?thesis
      using True v snoc.IH [OF s] early
      by (auto simp: context_row_def Let_def context_capture_def seq_of_def [symmetric] min_def split: option.splits)
  next
    case False
    then have "\<not> (\<not> is_observer r \<and> dget r ''update_id'' = PStr u)" by auto
    then show ?thesis using False snoc.IH [OF s] by (auto simp: context_row_def Let_def context_capture_def)
  qed
qed (simp add: fresh_context_def)

lemma map_of_append_to:
  "map_of (append_to k s d) = (map_of d)(k \<mapsto> (case map_of d k of None \<Rightarrow> [] | Some m \<Rightarrow> m) @ [s])"
  by (induction k s d rule: append_to.induct) (auto simp: fun_eq_iff)

lemma map_of_add_to:
  "map_of (add_to k own d) = (map_of d)(k \<mapsto>
     (case map_of d k of None \<Rightarrow> [own] | Some m \<Rightarrow> if own \<in> set m then m else m @ [own]))"
  by (induction k own d rule: add_to.induct) (auto simp: fun_eq_iff)

lemma context_requests:
  "map_of (x_request_rows (context_of rows)) q =
     (if requests q rows = [] then None else Some (map seq_of (requests q rows)))"
proof (induction rows rule: rev_induct)
  case (snoc r rows)
  have f: "x_request_rows (if is_observer r then context_of rows else context_capture s r (context_of rows)) =
      x_request_rows (context_of rows)" for s by simp
  show ?case
    using snoc
    by (auto simp: context_row_def Let_def context_request_def f map_of_append_to seq_of_def
        split: option.splits prod.splits)
qed (simp add: fresh_context_def)

definition plans_of :: "string \<Rightarrow> pydict list \<Rightarrow> string set" where
  "plans_of q rows = {p. \<exists>r\<in>set rows. request_of r = Some (q, Some p)}"

lemma context_plans:
  "(case map_of (x_request_plans (context_of rows)) q of
      None \<Rightarrow> plans_of q rows = {}
    | Some ps \<Rightarrow> distinct ps \<and> set ps = plans_of q rows)"
proof (induction rows rule: rev_induct)
  case (snoc r rows)
  have f: "x_request_plans (if is_observer r then context_of rows else context_capture s r (context_of rows)) =
      x_request_plans (context_of rows)" for s by simp
  have p: "plans_of q (rows @ [r]) = plans_of q rows \<union> {p. request_of r = Some (q, Some p)}"
    by (auto simp: plans_of_def)
  show ?case
    using snoc unfolding p
    by (auto simp: context_row_def Let_def context_request_def f map_of_add_to
        split: option.splits prod.splits if_splits)
qed (simp add: fresh_context_def plans_of_def)

subsection \<open>Properties\<close>

lemma by_seq_at:
  assumes "sorted_wrt (\<lambda>a b. seq_of a < seq_of b) rows" and "r \<in> set rows"
  shows "by_seq rows (seq_of r) = Some r"
proof -
  have u: "r' = r" if h: "r' \<in> set rows" "seq_of r' = seq_of r" for r'
  proof (rule ccontr)
    assume n: "r' \<noteq> r"
    obtain i where i: "i < length rows" "rows ! i = r'" using h(1) by (auto simp: in_set_conv_nth)
    obtain j where j: "j < length rows" "rows ! j = r" using assms(2) by (auto simp: in_set_conv_nth)
    have "i < j \<or> j < i" using i j n by (cases i j rule: linorder_cases) auto
    then show False
      using sorted_wrt_nth_less [OF assms(1), of i j] sorted_wrt_nth_less [OF assms(1), of j i] h(2) i j
      by auto
  qed
  obtain r' where r': "List.find (\<lambda>r'. seq_of r' = seq_of r) (List.rev rows) = Some r'"
    using assms(2) find_None_iff [of "\<lambda>r'. seq_of r' = seq_of r" "List.rev rows"]
    by (metis not_None_eq set_rev)
  then have "seq_of r' = seq_of r" by (auto simp: find_Some_iff)
  moreover have "r' \<in> set rows"
    using r' by (metis (no_types, lifting) find_Some_iff length_rev nth_mem set_rev)
  ultimately have "r' = r" by (rule u [rotated])
  then show ?thesis using r' by (simp add: by_seq_def seq_of_def)
qed

lemma first_seq_in:
  "first_seq rs = Some w \<Longrightarrow> \<exists>r\<in>set rs. w = seq_of r"
  by (cases rs) auto

lemma first_seq_None: "first_seq rs = None \<longleftrightarrow> rs = []"
  by (cases rs) auto

lemma same_context_witness:
  "same_context x y \<Longrightarrow> witness_of x u src proc = witness_of y u src proc"
  by (simp add: same_context_def witness_of_def split: option.split)

lemma association_cong:
  assumes "same_context x y"
  shows "association x rows plugin = association y rows plugin"
  unfolding association_def same_context_witness [OF assms] ..

lemma association_context:
  assumes s: "sorted_wrt (\<lambda>a b. seq_of a < seq_of b) rows"
    and role: "dget plugin ''association_role'' \<notin> {PNone, PStr ''absent'', PStr ''invalid'', PStr ''unknown''}"
    and read: "dget plugin ''association_read'' \<notin> {PStr ''invalid'', PStr ''malformed'', PStr ''unknown''}"
    and refs: "dget plugin ''referenced_source_id'' = PStr src" "dget plugin ''referenced_process_id'' = PStr proc"
      "dget plugin ''referenced_update_id'' = PStr u"
  shows "status_of (association (context_of rows) rows plugin) =
    (if \<exists>r\<in>set (captures u rows). owner_of r = (PStr src, PStr proc) then PStr ''valid''
     else if captures u rows = [] then PStr ''unmatched'' else PStr ''stale'')"
proof -
  let ?x = "context_of rows"
  let ?exact = "filter (\<lambda>r. owner_of r = (PStr src, PStr proc)) (captures u rows)"
  have sub: "set (captures u rows) \<subseteq> set rows" by (auto simp: captures_def)
  have w: "witness_of ?x u (PStr src) (PStr proc) =
      (case first_seq ?exact of Some w \<Rightarrow> Some w | None \<Rightarrow> first_seq (captures u rows))"
    by (simp add: witness_of_def context_witness context_updates [OF s] split: option.split)
  show ?thesis
  proof (cases "\<exists>r\<in>set (captures u rows). owner_of r = (PStr src, PStr proc)")
    case True
    then have "?exact \<noteq> []" by (auto simp: filter_empty_conv)
    then obtain r where r: "first_seq ?exact = Some (seq_of r)" "r \<in> set ?exact"
      by (cases ?exact) auto
    have "by_seq rows (seq_of r) = Some r" using by_seq_at [OF s] r(2) sub by auto
    then show ?thesis
      using True r w role read refs by (auto simp: association_def Let_def eq_str_def owner_of_def)
  next
    case no: False
    then have e: "?exact = []" by (auto simp: filter_empty_conv)
    show ?thesis
    proof (cases "captures u rows")
      case Nil
      then show ?thesis
        using no w e role read refs by (auto simp: association_def Let_def eq_str_def)
    next
      case (Cons r rs)
      then have "r \<in> set rows" "owner_of r \<noteq> (PStr src, PStr proc)" using sub no by auto
      then show ?thesis
        using no Cons w e role read refs by_seq_at [OF s, of r]
        by (auto simp: association_def Let_def eq_str_def owner_of_def)
    qed
  qed
qed

lemma distinct_singleton_list: "distinct xs \<Longrightarrow> set xs = {a} \<Longrightarrow> xs = [a]"
  by (cases xs; cases "tl xs") auto

lemma request_context:
  assumes state: "dget plugin ''lm_request_state'' \<noteq> PStr ''no_request''"
    and q: "dget plugin ''lm_request_id'' = PStr q" "q \<noteq> []"
  shows "status_of (fst (request_link (context_of rows) plugin)) = PStr ''linked'' \<longleftrightarrow>
    (\<exists>r plan. requests q rows = [r] \<and> request_of r = Some (q, plan) \<and>
       (plan = None \<or> dget plugin ''plan_identity'' = PNone \<or>
        dget plugin ''plan_identity'' = PStr (the plan)))"
proof -
  let ?x = "context_of rows" and ?rs = "requests q rows" and ?plan = "dget plugin ''plan_identity''"
  have rec: "request_records ?x (PStr q) = map seq_of ?rs"
    by (simp add: request_records_def look_def context_requests)
  have pl: "distinct (request_plans ?x (PStr q))" "set (request_plans ?x (PStr q)) = plans_of q rows"
    using context_plans [of q rows] by (auto simp: request_plans_def look_def split: option.splits)
  show ?thesis
  proof (cases "length ?rs = 1")
    case False
    then have l: "?rs = [] \<or> 1 < length ?rs" by (cases ?rs) auto
    have "status_of (fst (request_link ?x plugin)) \<noteq> PStr ''linked''"
      using l state q by (simp add: request_link_def Let_def request_status_def rec eq_str_def) auto
    moreover have "\<nexists>r. ?rs = [r]" using False by auto
    ultimately show ?thesis by blast
  next
    case True
    then obtain r where r: "?rs = [r]" by (auto simp: length_Suc_conv)
    then have "r \<in> set (requests q rows)" by simp
    then obtain plan where plan: "request_of r = Some (q, plan)" "r \<in> set rows"
      unfolding requests_def by auto
    have only: "r' = r" if "r' \<in> set rows" "request_of r' = Some (q, p)" for r' p
    proof -
      have "r' \<in> set ?rs" using that by (auto simp: requests_def)
      then show ?thesis using r by simp
    qed
    have "plans_of q rows = (case plan of None \<Rightarrow> {} | Some p \<Rightarrow> {p})"
    proof (intro set_eqI)
      fix p
      have "p \<in> plans_of q rows \<longleftrightarrow> plan = Some p"
      proof
        assume "p \<in> plans_of q rows"
        then obtain r' where "r' \<in> set rows" "request_of r' = Some (q, Some p)"
          unfolding plans_of_def by blast
        with only [OF this] plan show "plan = Some p" by simp
      next
        assume "plan = Some p"
        then show "p \<in> plans_of q rows" unfolding plans_of_def using plan by blast
      qed
      then show "p \<in> plans_of q rows \<longleftrightarrow> p \<in> (case plan of None \<Rightarrow> {} | Some p \<Rightarrow> {p})"
        by (auto split: option.split)
    qed
    then have "request_plans ?x (PStr q) = (case plan of None \<Rightarrow> [] | Some p \<Rightarrow> [p])"
      using pl distinct_singleton_list by (cases plan) simp_all
    then show ?thesis
      using state q r plan
      by (cases plan) (auto simp: request_link_def Let_def request_status_def rec eq_str_def str_in_iff)
  qed
qed

lemma request_cong:
  assumes "same_context x y"
  shows "request_link x plugin = request_link y plugin"
  using assms
  by (simp add: same_context_def request_link_def request_status_def plan_relation_def link_evidence_def
      request_records_def request_plans_def look_def Let_def)

lemma entries_sorted:
  assumes "sorted_wrt (\<lambda>a b. row_seq a < row_seq b) rows"
  shows "sorted_wrt (\<lambda>a b. seq_of a < seq_of b) (entries_at h w rows)"
  using assms by (simp add: entries_at_def sorted_wrt_map seq_of_def sorted_wrt_filter)

text \<open>The capture rows of a prefix that declared an update token, and its requests of an id.\<close>

definition declaring :: "string \<Rightarrow> int \<Rightarrow> row list \<Rightarrow> row list" where
  "declaring u w rows =
     filter (\<lambda>r. row_seq r \<le> w \<and> \<not> is_observer (row_record r) \<and> dget (row_record r) ''update_id'' = PStr u) rows"

definition requesting :: "string \<Rightarrow> int \<Rightarrow> row list \<Rightarrow> row list" where
  "requesting q w rows =
     filter (\<lambda>r. row_seq r \<le> w \<and> (\<exists>p. request_of (row_record r) = Some (q, p))) rows"

lemma captured_entries: "captures u (entries_at h w rows) = map (entry_of h) (declaring u w rows)"
  by (simp add: captures_def entries_at_def declaring_def filter_map o_def conj_commute conj_left_commute)

lemma requested_entries: "requests q (entries_at h w rows) = map (entry_of h) (requesting q w rows)"
  by (simp add: requests_def entries_at_def requesting_def filter_map o_def conj_commute)

lemma linked_entries:
  assumes "dget plugin ''lm_request_state'' \<noteq> PStr ''no_request''"
    and "dget plugin ''lm_request_id'' = PStr q" "q \<noteq> []"
  shows "status_of (fst (request_link (context_of (entries_at h w rows)) plugin)) = PStr ''linked'' \<longleftrightarrow>
    (\<exists>r plan. requesting q w rows = [r] \<and> request_of (row_record r) = Some (q, plan) \<and>
       (plan = None \<or> dget plugin ''plan_identity'' = PNone \<or>
        dget plugin ''plan_identity'' = PStr (the plan)))"
proof -
  have "(\<exists>e plan. map (entry_of h) (requesting q w rows) = [e] \<and> request_of e = Some (q, plan) \<and> P plan) \<longleftrightarrow>
      (\<exists>r plan. requesting q w rows = [r] \<and> request_of (row_record r) = Some (q, plan) \<and> P plan)" for P
  proof (cases "requesting q w rows")
    case (Cons r rs)
    then show ?thesis by (cases rs) simp_all
  qed simp
  then show ?thesis
    unfolding request_context [OF assms, of "entries_at h w rows"] requested_entries by simp
qed

lemma run_line_fields:
  assumes "0 \<le> n"
  shows "dget (fst (run_line n k)) ''observation_kind'' = PStr ''start''"
    "dget (fst (run_line n k)) ''update_id'' = PStr ''u''"
    "dget (fst (run_line n k)) ''source_instance_id'' = PStr ''s''"
    "dget (fst (run_line n k)) ''process_id'' = PStr ''p''"
    "dget (fst (run_line n k)) ''daemon'' = PNone"
  using run_prepare [OF assms] by (simp_all add: run_line_def record_of_def)

lemma run_records: "map row_record (index (fst run_good)) = map fst [run_line 0 1, run_line 1 2]"
  using arg_cong [OF run_good_facts(2), of "map fst"] by (simp add: published_def o_def)

definition run_plugin :: pydict where
  "run_plugin =
     [(''association_role'', PStr ''engine_entry_context''), (''association_read'', PStr ''claimed_valid''),
      (''referenced_source_id'', PStr ''s''), (''referenced_process_id'', PStr ''p''),
      (''referenced_update_id'', PStr ''u'')]"

lemma run_rows:
  obtains a b where "index (fst run_good) = [a, b]" "row_seq a = 1" "row_seq b = 2"
    "row_record a = fst (run_line 0 1)" "row_record b = fst (run_line 1 2)"
proof -
  obtain a b where ab: "index (fst run_good) = [a, b]" "row_record a = fst (run_line 0 1)"
    "row_record b = fst (run_line 1 2)"
    using run_records by (auto simp: map_eq_Cons_conv)
  have inv: "index (fst run_good) = layout (published (fst run_good)) 0" "numbered 0 (published (fst run_good))"
    using asys_sinv [OF run_good_facts(1) run_caps(1)] by (simp_all add: sinv_def)
  have "row_seq a = 1" "row_seq b = 2"
    using numbered_seqs [OF inv(2), of 0 0] numbered_seqs [OF inv(2), of 1 0] ab(1) inv(1)
    by simp_all
  then show thesis using that ab by blast
qed

text \<open>C31. At every watermark the join maps that the collector keeps incrementally, cut down to the
  witnesses up to the watermark, answer exactly like the maps a query would rebuild from the
  published rows of that prefix.\<close>

theorem join_state_is_exact:
  assumes "asys e True c d pc" and "0 \<le> limit_of (e_limits e) ''archive_capacity_bytes''"
  shows "same_context (snapshot_joins w (joins_of (index c))) (context_of (entries_at h w (index c)))"
  by (rule join_snapshot [OF asys_rows [OF assms]])

theorem join_state_is_exact_witness:
  "asys run_env True (fst run_good) (snd run_good) Idle \<and>
   map_of (x_updates (snapshot_joins 2 (joins_of (index (fst run_good))))) ''u'' = Some 1 \<and>
   same_context (snapshot_joins 1 (joins_of (index (fst run_good))))
     (context_of (entries_at (\<lambda>_. ''d'') 1 (index (fst run_good))))"
proof -
  obtain a b where ab: "index (fst run_good) = [a, b]" "row_seq a = 1" "row_seq b = 2"
    "row_record a = fst (run_line 0 1)" "row_record b = fst (run_line 1 2)" by (rule run_rows)
  have "map_of (x_updates (context_of (entries_at (\<lambda>_. ''d'') 2 (index (fst run_good))))) ''u'' = Some 1"
    using context_updates [OF entries_sorted [OF asys_rows(1) [OF run_good_facts(1) run_caps(1)]],
        of "\<lambda>_. ''d''" 2 "''u''"] ab run_line_fields [of 0 1] run_line_fields [of 1 2]
    by (simp add: captured_entries declaring_def is_observer_def eq_str_def seq_of_def)
  then show ?thesis
    using join_state_is_exact [OF run_good_facts(1) run_caps(1)] run_good_facts(1)
    by (simp add: same_context_def)
qed

text \<open>At every published prefix a plugin observation's reference to a frontend update is
  reported valid exactly when some published capture row declared that update token for the
  very source and process it names; a token that only other owners declared is stale, and one
  that nobody declared is unmatched.\<close>

theorem association_is_exact:
  assumes "asys e True c d pc" and "0 \<le> limit_of (e_limits e) ''archive_capacity_bytes''"
    and "dget plugin ''association_role'' \<notin> {PNone, PStr ''absent'', PStr ''invalid'', PStr ''unknown''}"
    and "dget plugin ''association_read'' \<notin> {PStr ''invalid'', PStr ''malformed'', PStr ''unknown''}"
    and "dget plugin ''referenced_source_id'' = PStr src" "dget plugin ''referenced_process_id'' = PStr proc"
      "dget plugin ''referenced_update_id'' = PStr u"
  shows "status_of (association (snapshot_joins w (joins_of (index c))) (entries_at h w (index c)) plugin) =
    (if \<exists>r\<in>set (declaring u w (index c)). owner_of (row_record r) = (PStr src, PStr proc) then PStr ''valid''
     else if declaring u w (index c) = [] then PStr ''unmatched'' else PStr ''stale'')"
proof -
  note rows = asys_rows [OF assms(1,2)]
  have "association (snapshot_joins w (joins_of (index c))) (entries_at h w (index c)) plugin =
      association (context_of (entries_at h w (index c))) (entries_at h w (index c)) plugin"
    by (rule association_cong [OF join_snapshot [OF rows]])
  then show ?thesis
    using association_context [OF entries_sorted [OF rows(1)] assms(3-7), of h w]
    by (simp add: captured_entries)
qed

theorem association_is_exact_witness:
  "status_of (association (snapshot_joins 2 (joins_of (index (fst run_good))))
      (entries_at (\<lambda>_. ''d'') 2 (index (fst run_good))) run_plugin) = PStr ''valid''"
proof -
  obtain a b where ab: "index (fst run_good) = [a, b]" "row_seq a = 1" "row_seq b = 2"
    "row_record a = fst (run_line 0 1)" "row_record b = fst (run_line 1 2)" by (rule run_rows)
  show ?thesis
    using association_is_exact [OF run_good_facts(1) run_caps(1), of run_plugin "''s''" "''p''" "''u''" 2 "\<lambda>_. ''d''"]
      ab run_line_fields [of 0 1]
    by (auto simp: run_plugin_def declaring_def is_observer_def eq_str_def owner_of_def)
qed

text \<open>A plugin exchange is reported linked to a daemon request exactly when one single
  published daemon request row carries its request id and neither side names a plan the other
  contradicts; a plan digest, a time or the order of arrival never decides it.\<close>

theorem request_link_is_exact:
  assumes "asys e True c d pc" and "0 \<le> limit_of (e_limits e) ''archive_capacity_bytes''"
    and "dget plugin ''lm_request_state'' \<noteq> PStr ''no_request''"
    and "dget plugin ''lm_request_id'' = PStr q" "q \<noteq> []"
  shows "status_of (fst (request_link (snapshot_joins w (joins_of (index c))) plugin)) = PStr ''linked'' \<longleftrightarrow>
    (\<exists>r plan. requesting q w (index c) = [r] \<and>
       request_of (row_record r) = Some (q, plan) \<and>
       (plan = None \<or> dget plugin ''plan_identity'' = PNone \<or>
        dget plugin ''plan_identity'' = PStr (the plan)))"
proof -
  note rows = asys_rows [OF assms(1,2)]
  have "request_link (snapshot_joins w (joins_of (index c))) plugin =
      request_link (context_of (entries_at (\<lambda>_. []) w (index c))) plugin"
    by (rule request_cong [OF join_snapshot [OF rows]])
  then show ?thesis
    using linked_entries [OF assms(3-5), of "\<lambda>_. []" w "index c"] by simp
qed

theorem request_link_is_exact_witness:
  "status_of (fst (request_link (snapshot_joins 2 (joins_of (index (fst run_good))))
     [(''lm_request_state'', PStr ''issued_succeeded''), (''lm_request_id'', PStr ''q'')])) \<noteq> PStr ''linked''"
proof -
  obtain a b where ab: "index (fst run_good) = [a, b]" "row_seq a = 1" "row_seq b = 2"
    "row_record a = fst (run_line 0 1)" "row_record b = fst (run_line 1 2)" by (rule run_rows)
  have "requesting ''q'' 2 (index (fst run_good)) = []"
    using ab run_line_fields(5) [of 0 1] run_line_fields(5) [of 1 2]
    by (simp add: requesting_def request_of_def)
  then show ?thesis
    using request_link_is_exact [OF run_good_facts(1) run_caps(1), of
        "[(''lm_request_state'', PStr ''issued_succeeded''), (''lm_request_id'', PStr ''q'')]" "''q''" 2]
    by simp
qed

end
