(* ===== verification/Delta.thy ===== *)
theory Delta
  imports Retention "HOL-Library.AList" "HOL-Library.Product_Lexorder" "HOL-Library.List_Lexorder" "HOL-Library.Char_ord"
begin

text \<open>
  The delta state machine (\<open>src/daemon/delta.py\<close>): the served snapshot is a base generation,
  built from the facts at a watermark, with the changes after it absorbed batch by batch into
  a checkpoint. The fact store is modelled by what its two writers append
  (\<open>src/src/fact_store.cc\<close>), its reads as the SQL queries the daemon runs. A vector is a list
  of floats; the representation provider, the double arithmetic of its norm and the packing
  of a vector into bytes are parameters, as is Unicode normalization.
\<close>

subsection \<open>Facts\<close>

text \<open>A hybrid logical clock point: physical milliseconds and a logical counter, in
  lexicographic order.\<close>

type_synonym hlc = "int \<times> int"

text \<open>\<open>StoredEvent\<close>; a row of the fact store also has the recorded context.\<close>

record stored =
  se_id :: string
  se_commit :: string
  se_schema :: string
  se_input :: string
  se_category :: string
  se_text :: string
  se_hlc :: hlc

record fact_event = stored +
  fe_preceding :: string

record facts =
  fs_epoch :: string
  fs_clock :: hlc
  fs_events :: "fact_event list"
  fs_retractions :: "(string \<times> hlc) list"

text \<open>\<open>GiveTick\<close>: the wall clock when it is ahead, otherwise the next logical tick.\<close>

definition tick :: "int \<Rightarrow> hlc \<Rightarrow> hlc" where
  "tick now h = (if fst h < now then (now, 0) else (fst h, snd h + 1))"

text \<open>\<open>PersistBatch\<close>: every event of the batch takes the next tick and the batch's commit id.\<close>

fun stamp :: "string \<Rightarrow> hlc \<Rightarrow> (int \<times> fact_event) list \<Rightarrow> hlc \<times> fact_event list" where
  "stamp c h [] = (h, [])"
| "stamp c h ((now, e) # es) =
     (let h' = tick now h; r = stamp c h' es in (fst r, e\<lparr>se_hlc := h', se_commit := c\<rparr> # snd r))"

definition persist_batch :: "string \<Rightarrow> (int \<times> fact_event) list \<Rightarrow> facts \<Rightarrow> facts option" where
  "persist_batch c batch f =
     (let r = stamp c (fs_clock f) batch in
      if batch = [] \<or> c \<in> se_commit ` set (fs_events f) \<or>
         \<not> distinct (map (se_id \<circ> snd) batch) \<or>
         se_id ` snd ` set batch \<inter> se_id ` set (fs_events f) \<noteq> {}
      then None
      else Some (f\<lparr>fs_clock := fst r, fs_events := fs_events f @ snd r\<rparr>))"

text \<open>\<open>AppendRetraction\<close>: an unknown or already retracted commit changes nothing.\<close>

definition append_retraction :: "int \<Rightarrow> string \<Rightarrow> facts \<Rightarrow> facts" where
  "append_retraction now c f =
     (if c \<in> se_commit ` set (fs_events f) \<and> c \<notin> fst ` set (fs_retractions f)
      then f\<lparr>fs_clock := tick now (fs_clock f),
             fs_retractions := fs_retractions f @ [(c, tick now (fs_clock f))]\<rparr>
      else f)"

inductive facts_step :: "facts \<Rightarrow> facts \<Rightarrow> bool" where
  persist: "persist_batch c batch f = Some f' \<Longrightarrow> facts_step f f'"
| retract: "facts_step f (append_retraction now c f)"

text \<open>\<open>read_active_events\<close>: committed at or before the point and not retracted at or before it,
  in the fact store's order.\<close>

definition fact_order :: "('a stored_scheme) \<Rightarrow> hlc \<times> string" where
  "fact_order e = (se_hlc e, se_id e)"

definition retracted_at :: "facts \<Rightarrow> hlc \<Rightarrow> string \<Rightarrow> bool" where
  "retracted_at f h c \<longleftrightarrow> (\<exists>r\<in>set (fs_retractions f). fst r = c \<and> snd r \<le> h)"

definition read_active_events :: "facts \<Rightarrow> hlc \<Rightarrow> fact_event list" where
  "read_active_events f h =
     sort_key fact_order
       (filter (\<lambda>e. se_hlc e \<le> h \<and> \<not> retracted_at f h (se_commit e)) (fs_events f))"

text \<open>\<open>read_facts_identity\<close>; an incomplete identity is a fault.\<close>

datatype fault = DeltaError string | DeltaRejected string | DeltaBlocked "string list" string

definition read_identity :: "facts \<Rightarrow> fault + string \<times> hlc" where
  "read_identity f =
     (if fs_epoch f = [] \<or> fst (fs_clock f) < 0 \<or> snd (fs_clock f) < 0
      then Inl (DeltaError ''fact store identity is incomplete'')
      else Inr (fs_epoch f, fs_clock f))"

text \<open>\<open>_read_fact_changes\<close> on the half-open window \<open>(lower, upper]\<close>.\<close>

definition read_changes :: "facts \<Rightarrow> hlc \<Rightarrow> hlc \<Rightarrow> fault + fact_event list \<times> (string \<times> hlc) list" where
  "read_changes f lower upper =
     (case read_identity f of
        Inl e \<Rightarrow> Inl e
      | Inr (_, clock) \<Rightarrow>
          if clock < upper then Inl (DeltaError ''change read exceeds the fact store clock'')
          else Inr (sort_key fact_order (filter (\<lambda>e. lower < se_hlc e \<and> se_hlc e \<le> upper) (fs_events f)),
                    sort_key (\<lambda>r. (snd r, fst r))
                      (filter (\<lambda>r. lower < snd r \<and> snd r \<le> upper) (fs_retractions f))))"

definition read_base_commits :: "facts \<Rightarrow> hlc \<Rightarrow> (string \<times> string) list" where
  "read_base_commits f h = map (\<lambda>e. (se_id e, se_commit e)) (filter (\<lambda>e. se_hlc e \<le> h) (fs_events f))"

subsection \<open>Generations and providers\<close>

text \<open>A metadata row: event, choice-problem key, candidate and clock. It has no commit id.\<close>

record gen_row =
  gr_id :: string
  gr_schema :: string
  gr_category :: string
  gr_input :: string
  gr_candidate :: string
  gr_hlc :: hlc

text \<open>A generation is its identity (the record of \<open>Manifests\<close>) with its dimension and rows.\<close>

record base_gen = gen_identity +
  g_dimension :: int
  g_rows :: "gen_row list"

type_synonym vec = "pyfloat list"

text \<open>What the machine uses of code outside: the provider of a representation, the norm as
  double arithmetic computes it, the FP32 packing and Unicode NFC.\<close>

record denv =
  d_embed :: "string \<Rightarrow> fact_event \<Rightarrow> string + vec"
  d_dimension :: "string \<Rightarrow> int"
  d_norm :: "vec \<Rightarrow> pyfloat"
  d_pack :: "vec \<Rightarrow> string"
  d_nfc :: "string \<Rightarrow> string"
  d_layers :: gen_identity
  d_compose_id :: "gen_identity \<Rightarrow> gen_row list \<Rightarrow> string"

definition lower_char :: "char \<Rightarrow> char" where
  "lower_char c = (if 65 \<le> (of_char c :: nat) \<and> (of_char c :: nat) \<le> 90 then char_of ((of_char c :: nat) + 32) else c)"

definition canonicalize :: "denv \<Rightarrow> string \<Rightarrow> string" where
  "canonicalize e s = (if s = [] then s else d_nfc e (map lower_char s))"

definition row_of :: "denv \<Rightarrow> fact_event \<Rightarrow> gen_row" where
  "row_of e ev = \<lparr>gr_id = se_id ev, gr_schema = se_schema ev, gr_category = se_category ev,
     gr_input = canonicalize e (se_input ev), gr_candidate = se_text ev, gr_hlc = se_hlc ev\<rparr>"

text \<open>\<open>_validate_event\<close>, shared by the builder and the delta paths; the columns are text.\<close>

definition event_problem :: "fact_event \<Rightarrow> string option" where
  "event_problem ev =
     (if se_id ev = [] then Some ''empty event_id''
      else if se_commit ev = [] then Some ''empty or non-string commit_id''
      else if se_schema ev = [] then Some ''empty or non-string schema_id''
      else if se_input ev = [] then Some ''empty or non-string canonical_segment_input''
      else if se_category ev = [] then Some ''empty or non-string category''
      else if se_text ev = [] then Some ''empty or non-string final_selection_text''
      else if fst (se_hlc ev) < 0 \<or> snd (se_hlc ev) < 0 then Some ''invalid HLC''
      else None)"

definition is_finite :: "pyfloat \<Rightarrow> bool" where
  "is_finite v = (case v of FFin _ \<Rightarrow> True | _ \<Rightarrow> False)"

text \<open>\<open>_validate_vector\<close>: dimension, finiteness, norm.\<close>

definition vector_problem :: "denv \<Rightarrow> int \<Rightarrow> vec \<Rightarrow> string option" where
  "vector_problem e dm v =
     (if int (length v) \<noteq> dm then Some ''dimension does not match''
      else if \<not> list_all is_finite v then Some ''non-finite vector value''
      else case d_norm e v of
        FFin r \<Rightarrow> if r = 0 then Some ''zero-norm vector''
                  else if 1 / 1000 < \<bar>r - 1\<bar> then Some ''L2 norm is not unit'' else None
      | _ \<Rightarrow> Some ''zero-norm vector'')"

text \<open>\<open>_embed_vector\<close>.\<close>

definition embed_vector :: "denv \<Rightarrow> string \<Rightarrow> int \<Rightarrow> fact_event \<Rightarrow> fault + vec" where
  "embed_vector e rep dm ev =
     (case d_embed e rep ev of
        Inl why \<Rightarrow> Inl (DeltaBlocked [se_id ev] why)
      | Inr v \<Rightarrow>
          (case vector_problem e dm v of
             Some why \<Rightarrow> Inl (DeltaBlocked [se_id ev] why)
           | None \<Rightarrow> Inr v))"

subsection \<open>Checkpoints\<close>

text \<open>\<open>delta.sqlite3\<close>: the meta table, the two tables of changes with their change sequence, and
  the diagnosis of a block.\<close>

record checkpoint =
  ck_base :: string
  ck_epoch :: string
  ck_representation :: string
  ck_dimension :: int
  ck_base_hlc :: hlc
  ck_consumed :: hlc
  ck_seq :: int
  ck_events :: "(stored \<times> string \<times> int) list"
  ck_retractions :: "(string \<times> hlc \<times> int) list"
  ck_blocked :: "(string list \<times> string) option"

text \<open>Surviving events and tombstones in one total order; an event sorts before a retraction.\<close>

datatype change = EventChange fact_event | RetractionChange string hlc

fun change_order :: "change \<Rightarrow> hlc \<times> string \<times> nat" where
  "change_order (EventChange ev) = (se_hlc ev, se_id ev, 0)"
| "change_order (RetractionChange c h) = (h, c, 1)"

definition surviving :: "fact_event list \<Rightarrow> (string \<times> hlc) list \<Rightarrow> fact_event list" where
  "surviving evs rets = filter (\<lambda>e. se_commit e \<notin> fst ` set rets) evs"

definition merge_changes :: "fact_event list \<Rightarrow> (string \<times> hlc) list \<Rightarrow> change list" where
  "merge_changes evs rets =
     sort_key change_order (map EventChange (surviving evs rets) @ map (\<lambda>(c, h). RetractionChange c h) rets)"

text \<open>The loop that numbers the merged changes and inserts them into the two tables.\<close>

fun insert_changes ::
  "(fact_event \<Rightarrow> string) \<Rightarrow> change list \<Rightarrow> int \<Rightarrow>
     (stored \<times> string \<times> int) list \<Rightarrow> (string \<times> hlc \<times> int) list \<Rightarrow>
     int \<times> (stored \<times> string \<times> int) list \<times> (string \<times> hlc \<times> int) list" where
  "insert_changes blob [] seq evs rets = (seq, evs, rets)"
| "insert_changes blob (EventChange ev # cs) seq evs rets =
     insert_changes blob cs (seq + 1) (evs @ [(stored.truncate ev, blob ev, seq + 1)]) rets"
| "insert_changes blob (RetractionChange c h # cs) seq evs rets =
     insert_changes blob cs (seq + 1) evs (rets @ [(c, h, seq + 1)])"

text \<open>The primary keys of the two tables.\<close>

definition keys_distinct :: "(stored \<times> string \<times> int) list \<Rightarrow> (string \<times> hlc \<times> int) list \<Rightarrow> bool" where
  "keys_distinct evs rets \<longleftrightarrow> distinct (map (se_id \<circ> fst) evs) \<and> distinct (map fst rets)"

text \<open>Validation and embedding of a batch: the first event that cannot be parsed blocks it,
  then the first surviving event whose vector is not usable.\<close>

fun embed_all :: "denv \<Rightarrow> string \<Rightarrow> int \<Rightarrow> fact_event list \<Rightarrow> fault + (string \<times> vec) list" where
  "embed_all e rep dm [] = Inr []"
| "embed_all e rep dm (ev # evs) =
     (case embed_vector e rep dm ev of
        Inl f \<Rightarrow> Inl f
      | Inr v \<Rightarrow> (case embed_all e rep dm evs of Inl f \<Rightarrow> Inl f | Inr vs \<Rightarrow> Inr ((se_id ev, v) # vs)))"

definition absorb ::
  "denv \<Rightarrow> string \<Rightarrow> int \<Rightarrow> fact_event list \<Rightarrow> (string \<times> hlc) list \<Rightarrow> fault + (string \<times> vec) list" where
  "absorb e rep dm evs rets =
     (case List.find (\<lambda>ev. event_problem ev \<noteq> None) evs of
        Some ev \<Rightarrow> Inl (DeltaBlocked [se_id ev] (the (event_problem ev)))
      | None \<Rightarrow> embed_all e rep dm (surviving evs rets))"

definition blob_of :: "denv \<Rightarrow> (string \<times> vec) list \<Rightarrow> fact_event \<Rightarrow> string" where
  "blob_of e vs ev = d_pack e (the (map_of vs (se_id ev)))"

text \<open>
  \<open>_build_staging_delta\<close> of \<open>src/daemon/publish.py\<close>: the changes between the staging generation's
  watermark and \<open>upper\<close>, as a fresh checkpoint. The epoch is compared before the read and
  after the commit (\<open>before\<close> and \<open>after\<close> are the identities read there).
\<close>

definition build_staging_delta ::
  "denv \<Rightarrow> facts \<Rightarrow> base_gen \<Rightarrow> hlc \<Rightarrow> string \<Rightarrow> string option \<Rightarrow> fault + checkpoint" where
  "build_staging_delta e f g upper before after =
     (if gi_store_epoch g \<noteq> before then Inl (DeltaError ''fact store epoch changed before the delta read'')
      else case read_changes f (gi_hlc g) upper of
        Inl x \<Rightarrow> Inl x
      | Inr (evs, rets) \<Rightarrow>
          (case absorb e (gi_representation g) (g_dimension g) evs rets of
             Inl x \<Rightarrow> Inl x
           | Inr vs \<Rightarrow>
               (case insert_changes (blob_of e vs) (merge_changes evs rets) (-1) [] [] of
                  (seq, ces, crs) \<Rightarrow>
                    if \<not> keys_distinct ces crs then Inl (DeltaError ''staging delta transaction failed'')
                    else if after \<noteq> Some (gi_store_epoch g)
                    then Inl (DeltaError ''fact store epoch changed during the publish'')
                    else Inr \<lparr>ck_base = gi_id g, ck_epoch = gi_store_epoch g,
                      ck_representation = gi_representation g, ck_dimension = g_dimension g,
                      ck_base_hlc = gi_hlc g, ck_consumed = upper, ck_seq = seq, ck_events = ces,
                      ck_retractions = crs, ck_blocked = None\<rparr>)))"

text \<open>
  \<open>open_delta_checkpoint\<close>. The file, its pragmas and its \<open>quick_check\<close> are SQLite's; the checks
  are those on the contents. A stored vector is checked on its bytes (\<open>blob_ok\<close>).
\<close>

definition max_seq :: "checkpoint \<Rightarrow> int" where
  "max_seq ck = Max (set (map (snd \<circ> snd) (ck_events ck) @ map (snd \<circ> snd) (ck_retractions ck) @ [-1]))"

definition open_checkpoint ::
  "(int \<Rightarrow> string \<Rightarrow> bool) \<Rightarrow> checkpoint \<Rightarrow> base_gen \<Rightarrow> string \<Rightarrow> facts \<Rightarrow> fault option" where
  "open_checkpoint blob_ok ck g rep f =
     (if ck_base ck \<noteq> gi_id g then Some (DeltaRejected ''delta base generation does not match'')
      else if ck_epoch ck \<noteq> gi_store_epoch g then Some (DeltaRejected ''delta store epoch does not match generation'')
      else if ck_representation ck \<noteq> rep then Some (DeltaRejected ''delta representation id does not match provider'')
      else if ck_dimension ck \<noteq> g_dimension g then Some (DeltaRejected ''delta dimension does not match generation'')
      else if ck_base_hlc ck \<noteq> gi_hlc g then Some (DeltaRejected ''delta base watermark does not match generation'')
      else case read_identity f of
        Inl x \<Rightarrow> Some x
      | Inr (epoch, clock) \<Rightarrow>
          if epoch \<noteq> gi_store_epoch g then Some (DeltaRejected ''fact store epoch does not match generation'')
          else if ck_consumed ck < ck_base_hlc ck \<or> clock < ck_consumed ck
          then Some (DeltaRejected ''delta consumed watermark outside'')
          else if ck_seq ck < -1 then Some (DeltaRejected ''delta change_seq is negative'')
          else if max_seq ck \<noteq> ck_seq ck then Some (DeltaRejected ''delta change_seq does not match stored rows'')
          else if \<exists>r\<in>set (ck_events ck). \<not> blob_ok (ck_dimension ck) (fst (snd r))
          then Some (DeltaRejected ''delta event vector'')
          else if \<exists>r\<in>set (ck_events ck). se_hlc (fst r) \<le> ck_base_hlc ck
          then Some (DeltaRejected ''delta event predates the base watermark'')
          else None)"

subsection \<open>Snapshots\<close>

record snapshot =
  sn_epoch :: string
  sn_base :: string
  sn_representation :: string
  sn_consumed :: hlc
  sn_events :: "stored list"
  sn_sources :: "(string \<times> bool) list"
  sn_vectors :: "(string \<times> string) list"
  sn_seq :: int

text \<open>A base row with its commit id from the facts; the flag says that an item is a delta row.\<close>

definition base_item :: "string \<Rightarrow> gen_row \<Rightarrow> stored" where
  "base_item c r = \<lparr>se_id = gr_id r, se_commit = c, se_schema = gr_schema r, se_input = gr_input r,
     se_category = gr_category r, se_text = gr_candidate r, se_hlc = gr_hlc r\<rparr>"

fun base_items :: "(string \<times> string) list \<Rightarrow> gen_row list \<Rightarrow> fault + (stored \<times> string option) list" where
  "base_items commits [] = Inr []"
| "base_items commits (r # rs) =
     (case map_of commits (gr_id r) of
        None \<Rightarrow> Inl (DeltaRejected (gr_id r))
      | Some c \<Rightarrow>
          (case base_items commits rs of
             Inl x \<Rightarrow> Inl x
           | Inr items \<Rightarrow> Inr ((base_item c r, None) # items)))"

text \<open>\<open>_project_active\<close>.\<close>

definition project_active ::
  "(stored \<times> string option) list \<Rightarrow> string list \<Rightarrow> (stored \<times> string option) list" where
  "project_active items tombstoned =
     sort_key (fact_order \<circ> fst) (filter (\<lambda>i. se_commit (fst i) \<notin> set tombstoned) items)"

text \<open>\<open>_build_snapshot\<close>.\<close>

definition build_snapshot ::
  "base_gen \<Rightarrow> (string \<times> string) list \<Rightarrow> (stored \<times> string) list \<Rightarrow> (string \<times> hlc) list \<Rightarrow> hlc \<Rightarrow> int \<Rightarrow>
     fault + snapshot" where
  "build_snapshot g commits evs rets consumed seq =
     (case base_items commits (g_rows g) of
        Inl x \<Rightarrow> Inl x
      | Inr base \<Rightarrow>
          (let active = project_active (base @ map (\<lambda>(s, b). (s, Some b)) evs) (map fst rets) in
           Inr \<lparr>sn_epoch = gi_store_epoch g, sn_base = gi_id g, sn_representation = gi_representation g,
             sn_consumed = consumed, sn_events = map fst active,
             sn_sources = map (\<lambda>(s, b). (se_id s, b \<noteq> None)) active,
             sn_vectors = [(se_id s, the b). (s, b) \<leftarrow> active, b \<noteq> None], sn_seq = seq\<rparr>))"

text \<open>\<open>_verify_snapshot_vs_facts\<close>.\<close>

definition snapshot_matches :: "facts \<Rightarrow> snapshot \<Rightarrow> bool" where
  "snapshot_matches f sn \<longleftrightarrow>
     set (map se_id (sn_events sn)) = set (map se_id (read_active_events f (sn_consumed sn)))"

subsection \<open>The machine\<close>

record machine =
  m_gen :: "base_gen option"
  m_commits :: "(string \<times> string) list"
  m_events :: "(stored \<times> string) list"
  m_retractions :: "(string \<times> hlc) list"
  m_consumed :: "hlc option"
  m_seq :: int
  m_declared :: string
  m_path :: string
  m_rep :: string
  m_snapshot :: "snapshot option"
  m_blocked :: "(string list \<times> string) option"
  m_refuse :: "string option"
  m_stopped :: bool
  m_closed :: bool
  m_pending_rebuild :: "string option"
  m_pending_publish :: "(string \<times> string \<times> string) option"
  m_publish_result :: "(bool \<times> string) option"
  m_last_error :: "fault option"

text \<open>
  The disk: the generations of \<open>generations/\<close> that reopen, the damaged ones, the directories a
  failed one-shot build left under \<open>staging/\<close>, the checkpoint files of \<open>delta/<id>/\<close> and the two
  manifests.
\<close>

record ddisk =
  k_gens :: "(string \<times> base_gen) list"
  k_damaged :: "string list"
  k_leftover :: "string list"
  k_ckpts :: "(string \<times> checkpoint) list"
  k_active :: json_file
  k_rollback :: json_file

definition store_checkpoint :: "string \<Rightarrow> checkpoint \<Rightarrow> ddisk \<Rightarrow> ddisk" where
  "store_checkpoint gid ck d = d\<lparr>k_ckpts := AList.update gid ck (k_ckpts d)\<rparr>"

definition drop_checkpoint :: "string \<Rightarrow> ddisk \<Rightarrow> ddisk" where
  "drop_checkpoint gid d = d\<lparr>k_ckpts := AList.delete gid (k_ckpts d)\<rparr>"

text \<open>\<open>_publish_snapshot_locked\<close>: a projection fault reaches the worker loop as an exception.\<close>

definition publish_snapshot :: "machine \<Rightarrow> fault + machine" where
  "publish_snapshot m =
     (case (m_gen m, m_consumed m) of
        (Some g, Some c) \<Rightarrow>
          (case build_snapshot g (m_commits m) (m_events m) (m_retractions m) c (m_seq m) of
             Inl x \<Rightarrow> Inl x
           | Inr sn \<Rightarrow> Inr (m\<lparr>m_snapshot := Some sn\<rparr>))
      | _ \<Rightarrow> Inl (DeltaError ''no base generation''))"

text \<open>
  \<open>_write_batch\<close>: one transaction that inserts the merged changes, moves the watermark and the
  change sequence, and then the mirror in memory. \<open>ok\<close> is whether SQLite commits.
\<close>

definition fresh_checkpoint :: "base_gen \<Rightarrow> checkpoint" where
  "fresh_checkpoint g = \<lparr>ck_base = gi_id g, ck_epoch = gi_store_epoch g, ck_representation = gi_representation g,
     ck_dimension = g_dimension g, ck_base_hlc = gi_hlc g, ck_consumed = gi_hlc g, ck_seq = -1,
     ck_events = [], ck_retractions = [], ck_blocked = None\<rparr>"

definition write_batch ::
  "denv \<Rightarrow> bool \<Rightarrow> base_gen \<Rightarrow> fact_event list \<Rightarrow> (string \<times> hlc) list \<Rightarrow> (string \<times> vec) list \<Rightarrow>
     string \<Rightarrow> hlc \<Rightarrow> machine \<Rightarrow> ddisk \<Rightarrow> fault + machine \<times> ddisk" where
  "write_batch e ok g evs rets vs epoch upper m d =
     (let old = (case map_of (k_ckpts d) (m_path m) of Some ck \<Rightarrow> ck | None \<Rightarrow> fresh_checkpoint g) in
      case insert_changes (blob_of e vs) (merge_changes evs rets) (m_seq m) [] [] of
        (seq, ces, crs) \<Rightarrow>
          if \<not> ok \<or> \<not> keys_distinct (ck_events old @ ces) (ck_retractions old @ crs)
          then Inl (DeltaError ''delta transaction failed'')
          else Inr (m\<lparr>m_seq := seq, m_consumed := Some upper,
                m_events := m_events m @ map (\<lambda>(s, b, n). (s, b)) ces,
                m_retractions := m_retractions m @ map (\<lambda>(c, h, n). (c, h)) crs\<rparr>,
              store_checkpoint (m_path m)
                (old\<lparr>ck_base := gi_id g, ck_epoch := epoch, ck_representation := gi_representation g,
                   ck_dimension := g_dimension g, ck_base_hlc := gi_hlc g, ck_consumed := upper,
                   ck_seq := seq, ck_events := ck_events old @ ces,
                   ck_retractions := ck_retractions old @ crs\<rparr>) d))"

text \<open>\<open>_record_blocked\<close> and \<open>_enter_blocked\<close>: the diagnosis is written first, best effort.\<close>

definition record_blocked :: "bool \<Rightarrow> string list \<times> string \<Rightarrow> machine \<Rightarrow> ddisk \<Rightarrow> ddisk" where
  "record_blocked ok b m d =
     (case (m_gen m, m_consumed m) of
        (Some g, Some c) \<Rightarrow>
          if ok then
            store_checkpoint (m_path m)
              ((case map_of (k_ckpts d) (m_path m) of Some ck \<Rightarrow> ck | None \<Rightarrow> fresh_checkpoint g)
                 \<lparr>ck_base := gi_id g, ck_epoch := gi_store_epoch g, ck_representation := gi_representation g,
                  ck_dimension := g_dimension g, ck_base_hlc := gi_hlc g, ck_consumed := c,
                  ck_seq := m_seq m, ck_blocked := Some b\<rparr>) d
          else d
      | _ \<Rightarrow> d)"

text \<open>How the worker loop takes a fault.\<close>

definition take_fault :: "bool \<Rightarrow> fault \<Rightarrow> machine \<Rightarrow> ddisk \<Rightarrow> machine \<times> ddisk" where
  "take_fault ok x m d =
     (case x of
        DeltaBlocked evs why \<Rightarrow> (m\<lparr>m_blocked := Some (evs, why)\<rparr>, record_blocked ok (evs, why) m d)
      | _ \<Rightarrow> (m\<lparr>m_last_error := Some x\<rparr>, d))"

text \<open>
  \<open>build_generation\<close>: the active rows of one consistent snapshot of the facts, under the
  content-addressed id. The directories of the target must not exist; a blocked build leaves
  its staging directory behind, and so does one whose facts changed while it ran (\<open>changed\<close>).
\<close>

definition target_of :: "denv \<Rightarrow> string \<Rightarrow> string \<Rightarrow> hlc \<Rightarrow> fact_event list \<Rightarrow> base_gen" where
  "target_of e rep epoch h evs =
     (let rows = map (row_of e) evs;
          ident = (d_layers e)\<lparr>gi_id := [], gi_store_epoch := epoch, gi_hlc := h, gi_representation := rep\<rparr> in
      gen_identity.extend (ident\<lparr>gi_id := d_compose_id e ident rows\<rparr>)
        (base_gen.fields (d_dimension e rep) rows))"

definition build_generation ::
  "denv \<Rightarrow> bool \<Rightarrow> string \<Rightarrow> facts \<Rightarrow> ddisk \<Rightarrow> (fault + base_gen) \<times> ddisk" where
  "build_generation e changed rep f d =
     (case read_identity f of
        Inl x \<Rightarrow> (Inl x, d)
      | Inr (epoch, h) \<Rightarrow>
          (let evs = read_active_events f h; g = target_of e rep epoch h evs in
           case List.find (\<lambda>ev. event_problem ev \<noteq> None) evs of
             Some ev \<Rightarrow> (Inl (DeltaBlocked [se_id ev] (the (event_problem ev))), d)
           | None \<Rightarrow>
               if gi_id g \<in> fst ` set (k_gens d) \<or> gi_id g \<in> set (k_damaged d)
               then (Inl (DeltaError ''generation already exists''), d)
               else if gi_id g \<in> set (k_leftover d) then (Inl (DeltaError ''staging build already exists''), d)
               else case embed_all e rep (g_dimension g) evs of
                 Inl x \<Rightarrow> (Inl x, d\<lparr>k_leftover := gi_id g # k_leftover d\<rparr>)
               | Inr _ \<Rightarrow>
                   if changed
                   then (Inl (DeltaError ''generation build failed''), d\<lparr>k_leftover := gi_id g # k_leftover d\<rparr>)
                   else (Inr g, d\<lparr>k_gens := (gi_id g, g) # k_gens d\<rparr>)))"

subsection \<open>The worker\<close>

text \<open>The points between which other threads can run.\<close>

datatype worker_pc =
    WIdle
  | WIdent "string option"
  | WBatch string hlc
  | WChanges string hlc "fact_event list" "(string \<times> hlc) list"
  | WCommitted
  | WAfter
  | WSwitch "string \<times> string \<times> string"
  | WRebuild "string option"
  | WOpen string

text \<open>The head of \<open>_cycle\<close>, under the condition.\<close>

definition pick :: "machine \<Rightarrow> worker_pc" where
  "pick m =
     (case m_pending_publish m of
        Some p \<Rightarrow> WSwitch p
      | None \<Rightarrow>
          if m_refuse m \<noteq> None then WIdle
          else case m_pending_rebuild m of
            Some t \<Rightarrow> WRebuild (Some t)
          | None \<Rightarrow> if m_blocked m \<noteq> None then WIdle else WIdent (map_option sn_epoch (m_snapshot m)))"

text \<open>The identity is compared with the epoch of the snapshot that was current at the head.\<close>

definition identify :: "facts \<Rightarrow> string option \<Rightarrow> fault + worker_pc" where
  "identify f ep =
     (case read_identity f of
        Inl x \<Rightarrow> Inl x
      | Inr (epoch, clock) \<Rightarrow> Inr (if ep \<noteq> Some epoch then WRebuild None else WBatch epoch clock))"

text \<open>The head of \<open>_catch_up_batch\<close> with its read.\<close>

definition read_batch :: "facts \<Rightarrow> string \<Rightarrow> hlc \<Rightarrow> machine \<Rightarrow> fault + worker_pc" where
  "read_batch f epoch clock m =
     (case m_consumed m of
        None \<Rightarrow> Inr WAfter
      | Some c \<Rightarrow>
          if clock \<le> c then Inr WAfter
          else case read_changes f c clock of
            Inl x \<Rightarrow> Inl x
          | Inr (evs, rets) \<Rightarrow>
              Inr (if evs = [] \<and> rets = [] then WAfter else WChanges epoch clock evs rets))"

definition embed_and_write ::
  "denv \<Rightarrow> bool \<Rightarrow> string \<Rightarrow> hlc \<Rightarrow> fact_event list \<Rightarrow> (string \<times> hlc) list \<Rightarrow> machine \<Rightarrow> ddisk \<Rightarrow>
     fault + machine \<times> ddisk" where
  "embed_and_write e ok epoch upper evs rets m d =
     (case m_gen m of
        None \<Rightarrow> Inl (DeltaError ''no base generation'')
      | Some g \<Rightarrow>
          (case absorb e (m_rep m) (g_dimension g) evs rets of
             Inl x \<Rightarrow> Inl x
           | Inr vs \<Rightarrow> write_batch e ok g evs rets vs epoch upper m d))"

text \<open>The republication at the end of \<open>_cycle\<close>.\<close>

definition republish :: "machine \<Rightarrow> fault + machine" where
  "republish m =
     (case m_snapshot m of
        Some sn \<Rightarrow>
          if Some (sn_consumed sn) \<noteq> m_consumed m \<or> sn_seq sn \<noteq> m_seq m then publish_snapshot m else Inr m
      | None \<Rightarrow> publish_snapshot m)"

text \<open>
  \<open>_perform_rebuild\<close> in its regions: the state cleared under the condition, the checkpoint and
  the mirror dropped, the declared generation opened or a new one built, and the result
  installed. The declared id stays what it was.
\<close>

definition rebuild_clear :: "machine \<Rightarrow> machine" where
  "rebuild_clear m =
     m\<lparr>m_snapshot := None, m_blocked := None, m_pending_rebuild := None,
       m_publish_result := (if m_pending_publish m \<noteq> None
         then Some (False, ''store epoch changed; publish aborted'') else m_publish_result m),
       m_pending_publish := None\<rparr>"

definition clear_mirror :: "machine \<Rightarrow> machine" where
  "clear_mirror m = m\<lparr>m_events := [], m_retractions := [], m_consumed := None, m_seq := -1\<rparr>"

definition rebuild_open ::
  "denv \<Rightarrow> bool \<Rightarrow> facts \<Rightarrow> string \<Rightarrow> machine \<Rightarrow> ddisk \<Rightarrow> (fault + base_gen) \<times> ddisk" where
  "rebuild_open e changed f target m d =
     (case map_of (k_gens d) (m_declared m) of
        Some g \<Rightarrow> if gi_store_epoch g \<noteq> target then build_generation e changed (m_rep m) f d else (Inr g, d)
      | None \<Rightarrow> build_generation e changed (m_rep m) f d)"

definition installed :: "facts \<Rightarrow> base_gen \<Rightarrow> machine \<Rightarrow> machine" where
  "installed f g m = m\<lparr>m_gen := Some g, m_commits := read_base_commits f (gi_hlc g),
     m_consumed := Some (gi_hlc g), m_path := gi_id g\<rparr>"

text \<open>
  \<open>_perform_publish_switch\<close>: nothing is swapped before every verification has passed. The
  provider of the publication is the representation in the request.
\<close>

definition finish_publish :: "bool \<Rightarrow> string \<Rightarrow> machine \<Rightarrow> machine" where
  "finish_publish ok why m = m\<lparr>m_pending_publish := None, m_publish_result := Some (ok, why)\<rparr>"

definition perform_switch ::
  "(int \<Rightarrow> string \<Rightarrow> bool) \<Rightarrow> facts \<Rightarrow> string \<times> string \<times> string \<Rightarrow> machine \<Rightarrow> ddisk \<Rightarrow> machine" where
  "perform_switch blob_ok f p m d =
     (case p of (gid, rep, expected) \<Rightarrow>
        (case read_identity f of
           Inl x \<Rightarrow> finish_publish False ''publish switch rejected'' m
         | Inr (epoch, clock) \<Rightarrow>
             if epoch \<noteq> expected then finish_publish False ''store epoch changed; publish aborted'' m
             else case (map_of (k_gens d) gid, map_of (k_ckpts d) gid) of
               (Some g, Some ck) \<Rightarrow>
                 (if open_checkpoint blob_ok ck g rep f \<noteq> None
                  then finish_publish False ''publish switch rejected'' m
                  else
                    let commits = read_base_commits f (gi_hlc g);
                        evs = map (\<lambda>(s, b, n). (s, b)) (ck_events ck);
                        rets = map (\<lambda>(c, h, n). (c, h)) (ck_retractions ck) in
                    case build_snapshot g commits evs rets (ck_consumed ck) (ck_seq ck) of
                      Inl x \<Rightarrow> finish_publish False ''publish switch rejected'' m
                    | Inr sn \<Rightarrow>
                        if \<not> snapshot_matches f sn then finish_publish False ''publish switch rejected'' m
                        else if m_closed m then finish_publish False ''delta machine is closed'' m
                        else finish_publish True []
                          (m\<lparr>m_gen := Some g, m_rep := rep, m_commits := commits, m_events := evs,
                             m_retractions := rets, m_consumed := Some (ck_consumed ck), m_seq := ck_seq ck,
                             m_declared := gid, m_path := gid, m_blocked := None, m_refuse := None, m_snapshot := Some sn\<rparr>))
             | _ \<Rightarrow> finish_publish False ''publish switch rejected'' m))"

subsection \<open>Start and recovery\<close>

text \<open>\<open>_published_identity_state\<close>.\<close>

definition published_identity_state :: "json_file \<Rightarrow> string \<Rightarrow> bool \<times> file_problem option" where
  "published_identity_state active declared =
     (case read_active_manifest active of
        (_, Some p) \<Rightarrow> (False, Some p)
      | (None, None) \<Rightarrow> (False, None)
      | (Some v, None) \<Rightarrow> (dget v ''generation_id'' = PStr declared, None))"

text \<open>The outcome of \<open>_write_atomic\<close>: nothing replaced, replaced but the directory not synced
  (\<open>AtomicWriteCommitted\<close>), replaced and durable.\<close>

datatype write_outcome = NotWritten | WrittenUnsynced | Written

text \<open>What the outside answers during a start: whether file operations succeed, the fact
  schema version, the clock and the live staging builds.\<close>

record start_env =
  q_isolates :: bool
  q_unlinks :: bool
  q_manifest :: write_outcome
  q_changed :: bool
  q_schema :: string
  q_now :: int
  q_live :: "string list"

definition refuse_recovery :: "bool \<Rightarrow> bool \<Rightarrow> string \<Rightarrow> machine \<Rightarrow> ddisk \<Rightarrow> machine \<times> ddisk" where
  "refuse_recovery clear unlinks why m d =
     (m\<lparr>m_refuse := Some why\<rparr>, if clear \<and> unlinks then d\<lparr>k_rollback := NoFile\<rparr> else d)"

text \<open>
  \<open>_recover_via_rollback\<close>: the damaged generation is set aside, the generation the rollback
  pointer names is reopened, compared with the facts and the runtime, caught up to the facts
  and made the active one. Every other outcome refuses the load.
\<close>

definition isolate :: "bool \<Rightarrow> string \<Rightarrow> ddisk \<Rightarrow> ddisk" where
  "isolate ok gid d =
     (if ok then d\<lparr>k_gens := AList.delete gid (k_gens d), k_damaged := removeAll gid (k_damaged d)\<rparr> else d)"

definition rollback_manifest_file :: "start_env \<Rightarrow> base_gen \<Rightarrow> json_file" where
  "rollback_manifest_file q g = write_manifest (compose_active_manifest (gen_identity.truncate g)
     (checkpoint_path (gi_id g)) (q_schema q) (q_now q))"

definition activate_rollback :: "start_env \<Rightarrow> base_gen \<Rightarrow> machine \<Rightarrow> ddisk \<Rightarrow> machine \<times> ddisk" where
  "activate_rollback q g m d =
     (m\<lparr>m_declared := gi_id g, m_path := gi_id g, m_refuse := None\<rparr>,
      d\<lparr>k_active := rollback_manifest_file q g,
        k_rollback := (if q_unlinks q then NoFile else k_rollback d),
        k_gens := filter (\<lambda>r. fst r = gi_id g) (k_gens d), k_damaged := [],
        k_ckpts := filter (\<lambda>r. fst r = gi_id g \<or> fst r \<in> set (q_live q)) (k_ckpts d)\<rparr>)"

type_synonym loading = "(fault + base_gen option) \<times> machine \<times> ddisk"

definition refused :: "bool \<Rightarrow> start_env \<Rightarrow> string \<Rightarrow> machine \<Rightarrow> ddisk \<Rightarrow> loading" where
  "refused clear q why m d = (Inr None, refuse_recovery clear (q_unlinks q) why m d)"

definition recover_from ::
  "denv \<Rightarrow> start_env \<Rightarrow> facts \<Rightarrow> string \<Rightarrow> machine \<Rightarrow> ddisk \<Rightarrow> loading" where
  "recover_from e q f rid m d =
     (if rid = m_declared m then refused True q ''rollback pointer names the damaged active'' m d
      else case map_of (k_gens d) rid of
        None \<Rightarrow> refused True q ''rollback is damaged'' m d
      | Some g \<Rightarrow>
          (case read_identity f of
             Inl x \<Rightarrow> (Inl x, m, d)
           | Inr (epoch, clock) \<Rightarrow>
               if gi_store_epoch g \<noteq> epoch then refused True q ''rollback belongs to another store epoch'' m d
               else if gi_representation g \<noteq> m_rep m \<or> g_dimension g \<noteq> d_dimension e (m_rep m)
               then refused False q ''rollback identity does not match the runtime'' m d
               else (case build_staging_delta e f g clock epoch (Some epoch) of
                   Inl x \<Rightarrow> refused False q ''rollback catch-up failed'' m d
                 | Inr ck \<Rightarrow>
                     (let d1 = store_checkpoint (gi_id g) ck d in
                      if q_schema q = [] \<or> q_manifest q = NotWritten
                      then refused False q ''rollback activation failed'' m d1
                      else if q_manifest q = WrittenUnsynced
                      then refused False q ''rollback activation failed'' m (d1\<lparr>k_active := rollback_manifest_file q g\<rparr>)
                      else (Inr (Some g), activate_rollback q g m d1)))))"

definition recover :: "denv \<Rightarrow> start_env \<Rightarrow> bool \<Rightarrow> facts \<Rightarrow> machine \<Rightarrow> ddisk \<Rightarrow> loading" where
  "recover e q isolating f m d0 =
     (let d = (if isolating then isolate (q_isolates q) (m_declared m) d0 else d0) in
      case read_rollback_manifest (k_rollback d) of
        (None, _) \<Rightarrow> refused False q ''no usable rollback'' m d
      | (Some r, _) \<Rightarrow> recover_from e q f (str_of_val (dget r ''generation_id'')) m d)"

text \<open>\<open>_load_or_build_generation\<close>.\<close>

definition build_now :: "denv \<Rightarrow> start_env \<Rightarrow> facts \<Rightarrow> machine \<Rightarrow> ddisk \<Rightarrow> loading" where
  "build_now e q f m d =
     (case build_generation e (q_changed q) (m_rep m) f d of
        (Inl x, d') \<Rightarrow> (Inl x, m, d') | (Inr g, d') \<Rightarrow> (Inr (Some g), m, d'))"

definition load_or_build :: "denv \<Rightarrow> start_env \<Rightarrow> facts \<Rightarrow> machine \<Rightarrow> ddisk \<Rightarrow> loading" where
  "load_or_build e q f m d =
     (case published_identity_state (k_active d) (m_declared m) of
        (_, Some p) \<Rightarrow> recover e q False f m d
      | (published, None) \<Rightarrow>
          (case map_of (k_gens d) (m_declared m) of
             None \<Rightarrow> if published then recover e q True f m d else build_now e q f m d
           | Some g \<Rightarrow>
               (case read_identity f of
                  Inl x \<Rightarrow> (Inl x, m, d)
                | Inr (epoch, clock) \<Rightarrow>
                    if epoch = gi_store_epoch g then (Inr (Some g), m, d) else build_now e q f m d)))"

text \<open>The state before anything is loaded.\<close>

definition blank_machine :: "string \<Rightarrow> string \<Rightarrow> machine" where
  "blank_machine declared rep = \<lparr>m_gen = None, m_commits = [], m_events = [], m_retractions = [],
     m_consumed = None, m_seq = -1, m_declared = declared, m_path = declared, m_rep = rep,
     m_snapshot = None, m_blocked = None, m_refuse = None, m_stopped = False, m_closed = False,
     m_pending_rebuild = None, m_pending_publish = None, m_publish_result = None, m_last_error = None\<rparr>"

text \<open>
  The rest of \<open>__init__\<close> over a loaded generation: the checkpoint is trusted after its checks
  and, unless it records a block, after its projection matched the facts; otherwise it is
  dropped and the changes are replayed from the generation's watermark.
\<close>

definition replay_from :: "base_gen \<Rightarrow> machine \<Rightarrow> machine" where
  "replay_from g m = m\<lparr>m_events := [], m_retractions := [], m_consumed := Some (gi_hlc g), m_seq := -1\<rparr>"

definition take_checkpoint :: "checkpoint \<Rightarrow> machine \<Rightarrow> machine" where
  "take_checkpoint ck m = m\<lparr>m_events := map (\<lambda>(s, b, n). (s, b)) (ck_events ck),
     m_retractions := map (\<lambda>(c, h, n). (c, h)) (ck_retractions ck), m_consumed := Some (ck_consumed ck),
     m_seq := ck_seq ck\<rparr>"

definition usable_checkpoint ::
  "(int \<Rightarrow> string \<Rightarrow> bool) \<Rightarrow> base_gen \<Rightarrow> string \<Rightarrow> facts \<Rightarrow> checkpoint option \<Rightarrow> fault + checkpoint option" where
  "usable_checkpoint blob_ok g rep f ck =
     (case ck of
        None \<Rightarrow> Inr None
      | Some k \<Rightarrow>
          (case open_checkpoint blob_ok k g rep f of
             None \<Rightarrow> Inr (Some k)
           | Some (DeltaRejected _) \<Rightarrow> Inr None
           | Some x \<Rightarrow> Inl x))"

definition install_base ::
  "(int \<Rightarrow> string \<Rightarrow> bool) \<Rightarrow> facts \<Rightarrow> base_gen \<Rightarrow> machine \<Rightarrow> ddisk \<Rightarrow> (fault + machine) \<times> ddisk" where
  "install_base blob_ok f g m0 d =
     (let m = m0\<lparr>m_gen := Some g, m_commits := read_base_commits f (gi_hlc g)\<rparr>;
          fresh = (publish_snapshot (replay_from g m), drop_checkpoint (m_path m) d) in
      if list_ex (\<lambda>r. map_of (m_commits m) (gr_id r) = None) (g_rows g)
      then (Inl (DeltaError ''generation rows lack fact commits''), d)
      else case usable_checkpoint blob_ok g (m_rep m) f (map_of (k_ckpts d) (m_path m)) of
        Inl x \<Rightarrow> (Inl x, d)
      | Inr None \<Rightarrow> fresh
      | Inr (Some ck) \<Rightarrow>
          (case publish_snapshot (take_checkpoint ck m) of
             Inl x \<Rightarrow> (Inl x, d)
           | Inr m' \<Rightarrow>
               (case ck_blocked ck of
                  Some b \<Rightarrow> (Inr (m'\<lparr>m_blocked := Some b\<rparr>), d)
                | None \<Rightarrow>
                    if case m_snapshot m' of None \<Rightarrow> False | Some sn \<Rightarrow> snapshot_matches f sn then (Inr m', d) else fresh)))"

definition start_machine ::
  "denv \<Rightarrow> (int \<Rightarrow> string \<Rightarrow> bool) \<Rightarrow> start_env \<Rightarrow> facts \<Rightarrow> string \<Rightarrow> string \<Rightarrow> string option \<Rightarrow> ddisk \<Rightarrow>
     (fault + machine) \<times> ddisk" where
  "start_machine e blob_ok q f declared rep refuse d =
     (let m0 = (blank_machine declared rep)\<lparr>m_refuse := refuse\<rparr> in
      case (if refuse \<noteq> None then recover e q False f m0 d else load_or_build e q f m0 d) of
        (Inl (DeltaBlocked evs why), m, d') \<Rightarrow> (Inr (m\<lparr>m_blocked := Some (evs, why)\<rparr>), d')
      | (Inl x, m, d') \<Rightarrow> (Inl x, d')
      | (Inr None, m, d') \<Rightarrow> (Inr m, d')
      | (Inr (Some g), m, d') \<Rightarrow>
          if gi_representation g \<noteq> m_rep m \<or> g_dimension g \<noteq> d_dimension e (m_rep m)
          then (Inl (DeltaError ''generation does not match provider''), d')
          else (case read_identity f of
            Inl x \<Rightarrow> (Inl x, d')
          | Inr (epoch, clock) \<Rightarrow>
              if epoch \<noteq> gi_store_epoch g then (Inl (DeltaError ''generation epoch does not match facts''), d')
              else install_base blob_ok f g m d'))"

subsection \<open>The query gate and the other entry points\<close>

datatype gate_answer = Wait | Refused string | Ready snapshot

text \<open>One turn of the loop of \<open>ensure_caught_up\<close> for the identity it read at its start.\<close>

definition gate_turn :: "machine \<Rightarrow> string \<Rightarrow> hlc \<Rightarrow> bool \<Rightarrow> gate_answer" where
  "gate_turn m epoch clock timed_out =
     (if m_closed m then Refused ''not_caught_up''
      else if m_blocked m \<noteq> None then Refused ''representation_fault''
      else if case m_snapshot m of None \<Rightarrow> False | Some sn \<Rightarrow> sn_epoch sn = epoch \<and> clock \<le> sn_consumed sn
      then Ready (the (m_snapshot m))
      else if m_stopped m then Refused ''not_caught_up''
      else if timed_out then Refused ''not_caught_up'' else Wait)"

text \<open>The head of \<open>ensure_caught_up\<close>: a refused load or an unusable store fails the request.\<close>

definition gate_open :: "machine \<Rightarrow> facts \<Rightarrow> string + string \<times> hlc" where
  "gate_open m f =
     (if m_refuse m \<noteq> None then Inl ''active_identity_refused''
      else case read_identity f of Inl _ \<Rightarrow> Inl ''fact_store_fault'' | Inr i \<Rightarrow> Inr i)"

definition queue_publish :: "string \<times> string \<times> string \<Rightarrow> machine \<Rightarrow> machine" where
  "queue_publish p m =
     (if m_closed m \<or> m_pending_publish m \<noteq> None then m
      else m\<lparr>m_pending_publish := Some p, m_publish_result := None\<rparr>)"

definition request_rebuild :: "string \<Rightarrow> machine \<Rightarrow> machine" where
  "request_rebuild t m =
     (if m_closed m then m
      else m\<lparr>m_pending_rebuild := (if m_pending_rebuild m = None then Some t else m_pending_rebuild m),
             m_stopped := False\<rparr>)"

definition invalidate :: "machine \<Rightarrow> machine" where
  "invalidate m = clear_mirror
     (m\<lparr>m_snapshot := None, m_blocked := None,
        m_publish_result := (if m_pending_publish m \<noteq> None
          then Some (False, ''publish aborted by derived-state invalidation'') else None),
        m_pending_publish := None\<rparr>)"

text \<open>\<open>retry\<close>: the diagnosis is removed from the checkpoint, best effort, then the block.\<close>

definition retry_disk :: "bool \<Rightarrow> machine \<Rightarrow> ddisk \<Rightarrow> ddisk" where
  "retry_disk ok m d =
     (case map_of (k_ckpts d) (m_path m) of
        Some ck \<Rightarrow> if ok then store_checkpoint (m_path m) (ck\<lparr>ck_blocked := None\<rparr>) d else d
      | None \<Rightarrow> d)"

definition retry_machine :: "machine \<Rightarrow> machine" where
  "retry_machine m = (if m_closed m then m else m\<lparr>m_blocked := None\<rparr>)"

definition close_machine :: "machine \<Rightarrow> machine" where
  "close_machine m = (if m_closed m then m else m\<lparr>m_closed := True, m_stopped := True, m_snapshot := None\<rparr>)"

text \<open>\<open>dirty_state\<close>: changes against the thresholds; \<open>bytes\<close> is the size of the checkpoint files
  and \<open>share\<close> the fraction of the base rows, truncated.\<close>

definition dirty_state :: "int \<Rightarrow> int \<Rightarrow> int \<Rightarrow> (int \<Rightarrow> int) \<Rightarrow> int \<Rightarrow> machine \<Rightarrow> bool \<times> bool" where
  "dirty_state soft_min hard_changes hard_bytes share bytes m =
     (let base = (case m_gen m of None \<Rightarrow> 0 | Some g \<Rightarrow> int (length (g_rows g)));
          changes = int (length (m_events m) + length (m_retractions m)) in
      (max soft_min (share base) \<le> changes, hard_changes \<le> changes \<or> hard_bytes \<le> bytes))"

text \<open>\<open>_maybe_request_compaction\<close>: a hard-dirty delta always, a soft-dirty one when caught up.\<close>

definition wants_compaction :: "bool \<times> bool \<Rightarrow> machine \<Rightarrow> hlc \<Rightarrow> bool" where
  "wants_compaction dirty m clock =
     (case m_snapshot m of
        None \<Rightarrow> False
      | Some sn \<Rightarrow> snd dirty \<or> (fst dirty \<and> clock \<le> sn_consumed sn))"

end
