(* ===== verification/Delta_Facts.thy ===== *)
theory Delta_Facts
  imports Delta "HOL-Library.Multiset"
begin

text \<open>
  What the fact store guarantees and how a snapshot follows it: the well-formedness of a store
  that only its two writers change, the stability of every projection at a past point, and the
  step from the projection at one watermark to the projection at a later one.
\<close>

subsection \<open>Well-formed stores\<close>

definition facts_ok :: "facts \<Rightarrow> bool" where
  "facts_ok f \<longleftrightarrow>
     distinct (map se_id (fs_events f)) \<and> distinct (map fst (fs_retractions f)) \<and>
     (\<forall>e\<in>set (fs_events f). se_hlc e \<le> fs_clock f) \<and>
     (\<forall>r\<in>set (fs_retractions f). snd r \<le> fs_clock f) \<and>
     (\<forall>r\<in>set (fs_retractions f). \<forall>e\<in>set (fs_events f). se_commit e = fst r \<longrightarrow> se_hlc e < snd r) \<and>
     fst ` set (fs_retractions f) \<subseteq> se_commit ` set (fs_events f)"

lemma tick_greater: "h < tick now h"
  by (cases h) (auto simp: tick_def less_prod_def)

lemma stamp_props:
  "stamp c h batch = (h', es) \<Longrightarrow>
     h \<le> h' \<and> map se_id es = map (se_id \<circ> snd) batch \<and>
     (\<forall>e\<in>set es. se_commit e = c \<and> h < se_hlc e \<and> se_hlc e \<le> h')"
proof (induction batch arbitrary: h h' es)
  case (Cons ne batch)
  obtain now e where ne: "ne = (now, e)" by (cases ne)
  obtain h2 es2 where r: "stamp c (tick now h) batch = (h2, es2)" by (cases "stamp c (tick now h) batch")
  from Cons.prems ne r have eq: "h' = h2" "es = e\<lparr>se_hlc := tick now h, se_commit := c\<rparr> # es2"
    by (auto simp: Let_def)
  note ih = Cons.IH [OF r]
  have "h < tick now h" by (rule tick_greater)
  then show ?case using ih eq ne by (auto intro: order.strict_trans2 dest: order.strict_trans)
qed simp

lemma facts_ok_persist:
  assumes "facts_ok f" and "persist_batch c batch f = Some f'"
  shows "facts_ok f'"
proof -
  obtain h' es where st: "stamp c (fs_clock f) batch = (h', es)" by (cases "stamp c (fs_clock f) batch")
  have f': "f' = f\<lparr>fs_clock := h', fs_events := fs_events f @ es\<rparr>"
    and fresh: "c \<notin> se_commit ` set (fs_events f)" "distinct (map (se_id \<circ> snd) batch)"
      "se_id ` snd ` set batch \<inter> se_id ` set (fs_events f) = {}"
    using assms(2) st by (auto simp: persist_batch_def Let_def split: if_splits)
  note p = stamp_props [OF st]
  have "set (map se_id es) = set (map (se_id \<circ> snd) batch)" using p by simp
  then have ids: "se_id ` set es = se_id ` snd ` set batch" by (simp add: image_image)
  have "distinct (map se_id (fs_events f @ es))"
    using assms(1) p fresh ids unfolding facts_ok_def map_append distinct_append by simp blast
  moreover have "se_commit e \<noteq> fst r" if "r \<in> set (fs_retractions f)" "e \<in> set es" for r e
  proof -
    have "fst r \<in> se_commit ` set (fs_events f)" using assms(1) that(1) by (auto simp: facts_ok_def)
    then show ?thesis using p that(2) fresh(1) by metis
  qed
  moreover have "fs_clock f \<le> h'" "\<forall>e\<in>set es. se_hlc e \<le> h'" using p by auto
  ultimately show ?thesis
    using assms(1) unfolding facts_ok_def f' by (auto intro: order.trans)
qed

lemma facts_ok_retract: "facts_ok f \<Longrightarrow> facts_ok (append_retraction now c f)"
  using tick_greater [of "fs_clock f" now]
  by (auto simp: facts_ok_def append_retraction_def intro: order.trans less_imp_le order.strict_trans1)

text \<open>A store grows: every projection at a point up to the old clock is what it was.\<close>

definition facts_grow :: "facts \<Rightarrow> facts \<Rightarrow> bool" where
  "facts_grow f f' \<longleftrightarrow>
     fs_epoch f' = fs_epoch f \<and> fs_clock f \<le> fs_clock f' \<and>
     (\<exists>es. fs_events f' = fs_events f @ es \<and> (\<forall>e\<in>set es. fs_clock f < se_hlc e)) \<and>
     (\<exists>rs. fs_retractions f' = fs_retractions f @ rs \<and> (\<forall>r\<in>set rs. fs_clock f < snd r))"

lemma facts_step_grows:
  assumes "facts_step f f'"
  shows "facts_grow f f'"
  using assms
proof cases
  case (persist c batch)
  obtain h' es where st: "stamp c (fs_clock f) batch = (h', es)" by (cases "stamp c (fs_clock f) batch")
  show ?thesis
    using persist st stamp_props [OF st] by (auto simp: persist_batch_def Let_def facts_grow_def split: if_splits)
next
  case (retract now c)
  then show ?thesis using tick_greater [of "fs_clock f" now]
    by (auto simp: append_retraction_def facts_grow_def)
qed

lemma facts_step_ok: "facts_step f f' \<Longrightarrow> facts_ok f \<Longrightarrow> facts_ok f'"
  by (erule facts_step.cases) (auto intro: facts_ok_persist facts_ok_retract)

lemma grow_active: "facts_grow f f' \<Longrightarrow> h \<le> fs_clock f \<Longrightarrow> read_active_events f' h = read_active_events f h"
proof -
  assume g: "facts_grow f f'" and h: "h \<le> fs_clock f"
  obtain es rs where e: "fs_events f' = fs_events f @ es" "\<forall>e\<in>set es. fs_clock f < se_hlc e"
    and r: "fs_retractions f' = fs_retractions f @ rs" "\<forall>r\<in>set rs. fs_clock f < snd r"
    using g by (auto simp: facts_grow_def)
  have "retracted_at f' h c = retracted_at f h c" for c
    using r h by (force simp: retracted_at_def)
  moreover have "filter (\<lambda>e. se_hlc e \<le> h \<and> P e) es = []" for P
    using e(2) h by (force simp: filter_empty_conv)
  ultimately show ?thesis by (simp add: read_active_events_def e(1))
qed

lemma grow_commits: "facts_grow f f' \<Longrightarrow> h \<le> fs_clock f \<Longrightarrow> read_base_commits f' h = read_base_commits f h"
  by (force simp: facts_grow_def read_base_commits_def filter_empty_conv)

lemma grow_mem:
  "facts_grow f f' \<Longrightarrow> set (fs_events f) \<subseteq> set (fs_events f')"
  "facts_grow f f' \<Longrightarrow> set (fs_retractions f) \<subseteq> set (fs_retractions f')"
  by (auto simp: facts_grow_def)

lemma grow_window:
  assumes "facts_grow f f'" "u \<le> fs_clock f"
  shows "{e \<in> set (fs_events f'). l < se_hlc e \<and> se_hlc e \<le> u} = {e \<in> set (fs_events f). l < se_hlc e \<and> se_hlc e \<le> u}"
    "{r \<in> set (fs_retractions f'). l < snd r \<and> snd r \<le> u} = {r \<in> set (fs_retractions f). l < snd r \<and> snd r \<le> u}"
  using assms by (force simp: facts_grow_def)+

subsection \<open>Projections\<close>

lemma set_active:
  "set (read_active_events f h) =
     {e \<in> set (fs_events f). se_hlc e \<le> h \<and> \<not> retracted_at f h (se_commit e)}"
  by (auto simp: read_active_events_def)

lemma sorted_active: "sorted (map fact_order (read_active_events f h))"
  by (simp add: read_active_events_def)

lemma distinct_sorted_keys: "distinct (map k (sort_key s xs)) \<longleftrightarrow> distinct (map k xs)"
  by (simp add: distinct_map)

lemma distinct_active:
  assumes "facts_ok f"
  shows "distinct (map se_id (read_active_events f h))"
  using assms by (simp add: read_active_events_def distinct_sorted_keys facts_ok_def distinct_map_filter)

lemma ids_inj: "facts_ok f \<Longrightarrow> e \<in> set (fs_events f) \<Longrightarrow> e' \<in> set (fs_events f) \<Longrightarrow> se_id e = se_id e' \<Longrightarrow> e = e'"
  by (auto simp: facts_ok_def distinct_map inj_on_def)

text \<open>What a snapshot shows of an event: the row of a generation has its input canonicalized.\<close>

definition shown :: "denv \<Rightarrow> hlc \<Rightarrow> fact_event \<Rightarrow> stored" where
  "shown e h0 ev =
     (if se_hlc ev \<le> h0 then (stored.truncate ev)\<lparr>se_input := canonicalize e (se_input ev)\<rparr>
      else stored.truncate ev)"

lemma truncate_sel [simp]:
  "se_id (stored.truncate ev) = se_id ev" "se_commit (stored.truncate ev) = se_commit ev"
  "se_hlc (stored.truncate ev) = se_hlc ev"
  by (simp_all add: stored.defs)

lemma shown_sel [simp]:
  "se_id (shown e h0 ev) = se_id ev" "se_commit (shown e h0 ev) = se_commit ev"
  "se_hlc (shown e h0 ev) = se_hlc ev" "fact_order (shown e h0 ev) = fact_order ev"
  by (simp_all add: shown_def fact_order_def)

text \<open>Lists in the store's order are equal when they have the same elements.\<close>

lemma ordered_unique:
  assumes "sorted (map fact_order xs)" "sorted (map fact_order ys)"
    and "distinct (map se_id xs)" "distinct (map se_id ys)" "set xs = set ys"
  shows "xs = ys"
proof -
  have d: "distinct (map fact_order zs)" if "distinct (map se_id zs)" for zs :: "'a stored_scheme list"
    using that by (auto simp: distinct_map inj_on_def fact_order_def)
  have "inj_on fact_order (set xs)" using d [OF assms(3)] by (simp add: distinct_map)
  then show ?thesis
    using map_sorted_distinct_set_unique [of fact_order xs ys] assms d by simp
qed

lemma sort_order: "sorted (map fact_order (map fst (sort_key (fact_order \<circ> fst) xs)))"
  by (simp add: o_def)

subsection \<open>The mirror of a generation and its delta\<close>

definition genuine :: "denv \<Rightarrow> facts \<Rightarrow> base_gen \<Rightarrow> bool" where
  "genuine e f g \<longleftrightarrow>
     gi_store_epoch g = fs_epoch f \<and> gi_hlc g \<le> fs_clock f \<and>
     g_rows g = map (row_of e) (read_active_events f (gi_hlc g))"

definition item_set :: "denv \<Rightarrow> facts \<Rightarrow> hlc \<Rightarrow> (stored \<times> string) list \<Rightarrow> (string \<times> hlc) list \<Rightarrow> stored set" where
  "item_set e f h evs rets =
     {s \<in> shown e h ` set (read_active_events f h) \<union> fst ` set evs. se_commit s \<notin> fst ` set rets}"

definition mirror_ok ::
  "denv \<Rightarrow> facts \<Rightarrow> base_gen \<Rightarrow> (stored \<times> string) list \<Rightarrow> (string \<times> hlc) list \<Rightarrow> hlc \<Rightarrow> bool" where
  "mirror_ok e f g evs rets c \<longleftrightarrow>
     genuine e f g \<and> gi_hlc g \<le> c \<and> c \<le> fs_clock f \<and>
     (\<forall>s\<in>fst ` set evs. \<exists>ev\<in>set (fs_events f). s = stored.truncate ev \<and> gi_hlc g < se_hlc ev \<and> se_hlc ev \<le> c) \<and>
     distinct (map (se_id \<circ> fst) evs) \<and> distinct (map fst rets) \<and>
     (\<forall>r\<in>set rets. r \<in> set (fs_retractions f) \<and> snd r \<le> c) \<and>
     item_set e f (gi_hlc g) evs rets = shown e (gi_hlc g) ` set (read_active_events f c)"

lemma genuine_grow: "facts_grow f f' \<Longrightarrow> genuine e f g \<Longrightarrow> genuine e f' g"
  using grow_active [of f f' "gi_hlc g"] by (auto simp: genuine_def facts_grow_def)

lemma mirror_grow:
  assumes "facts_grow f f'" "mirror_ok e f g evs rets c"
  shows "mirror_ok e f' g evs rets c"
proof -
  have h: "gi_hlc g \<le> fs_clock f" "c \<le> fs_clock f" using assms(2) by (auto simp: mirror_ok_def genuine_def)
  then have a: "read_active_events f' (gi_hlc g) = read_active_events f (gi_hlc g)"
    "read_active_events f' c = read_active_events f c" using grow_active [OF assms(1)] by auto
  have "c \<le> fs_clock f'" using h(2) assms(1) by (auto simp: facts_grow_def)
  then show ?thesis
    using assms(2) grow_mem [OF assms(1)] genuine_grow [OF assms(1)] unfolding mirror_ok_def item_set_def a
    by (auto 0 4)
qed

lemma base_row: "base_item (se_commit ev) (row_of e ev) = (stored.truncate ev)\<lparr>se_input := canonicalize e (se_input ev)\<rparr>"
  by (simp add: base_item_def row_of_def stored.defs)

lemma base_items_active:
  assumes "facts_ok f" "\<forall>ev\<in>set evs. ev \<in> set (fs_events f) \<and> se_hlc ev \<le> h"
  shows "base_items (read_base_commits f h) (map (row_of e) evs) = Inr (map (\<lambda>ev. (shown e h ev, None)) evs)"
  using assms(2)
proof (induction evs)
  case (Cons ev evs)
  have "distinct (map fst (read_base_commits f h))"
    using assms(1) by (simp add: read_base_commits_def o_def facts_ok_def distinct_map_filter)
  moreover have "(se_id ev, se_commit ev) \<in> set (read_base_commits f h)"
    using Cons.prems by (auto simp: read_base_commits_def)
  ultimately have "map_of (read_base_commits f h) (se_id ev) = Some (se_commit ev)" by (rule map_of_is_SomeI)
  moreover have "gr_id (row_of e ev) = se_id ev" by (simp add: row_of_def)
  ultimately show ?case using Cons by (simp add: base_row shown_def)
qed simp

lemma set_project:
  "set (map fst (project_active items t)) = {s \<in> fst ` set items. se_commit s \<notin> set t}"
  by (auto simp: project_active_def)

text \<open>The items of a projection over a genuine generation.\<close>

definition all_items :: "denv \<Rightarrow> facts \<Rightarrow> hlc \<Rightarrow> (stored \<times> string) list \<Rightarrow> (stored \<times> string option) list" where
  "all_items e f h evs =
     map (\<lambda>ev. (shown e h ev, None)) (read_active_events f h) @ map (\<lambda>(s, b). (s, Some b)) evs"

lemma set_all_items: "fst ` set (all_items e f h evs) = shown e h ` set (read_active_events f h) \<union> fst ` set evs"
  by (simp add: all_items_def image_Un image_image case_prod_beta)

lemma built_snapshot:
  assumes ok: "facts_ok f" and g: "genuine e f g"
  obtains sn where "build_snapshot g (read_base_commits f (gi_hlc g)) evs rets c seq = Inr sn"
    "sn_events sn = map fst (project_active (all_items e f (gi_hlc g) evs) (map fst rets))"
    "set (sn_events sn) = item_set e f (gi_hlc g) evs rets"
    "sn_epoch sn = gi_store_epoch g" "sn_consumed sn = c" "sn_seq sn = seq" "sn_base sn = gi_id g"
    "sn_representation sn = gi_representation g"
proof -
  have rows: "g_rows g = map (row_of e) (read_active_events f (gi_hlc g))" using g by (simp add: genuine_def)
  have base: "base_items (read_base_commits f (gi_hlc g)) (g_rows g) =
      Inr (map (\<lambda>ev. (shown e (gi_hlc g) ev, None)) (read_active_events f (gi_hlc g)))"
    unfolding rows by (rule base_items_active [OF ok]) (auto simp: set_active)
  have "set (map fst (project_active (all_items e f (gi_hlc g) evs) (map fst rets))) =
      item_set e f (gi_hlc g) evs rets"
    unfolding set_project set_all_items item_set_def by simp
  then show thesis using that by (simp add: build_snapshot_def base Let_def all_items_def del: set_map)
qed

text \<open>The snapshot of a mirror is the projection of the facts at the mirror's watermark.\<close>

lemma snapshot_of_mirror:
  assumes ok: "facts_ok f" and m: "mirror_ok e f g evs rets c"
  obtains sn where "build_snapshot g (read_base_commits f (gi_hlc g)) evs rets c seq = Inr sn"
    "sn_events sn = map (shown e (gi_hlc g)) (read_active_events f c)"
    "sn_epoch sn = gi_store_epoch g" "sn_consumed sn = c" "sn_seq sn = seq" "sn_base sn = gi_id g"
    "sn_representation sn = gi_representation g"
proof -
  let ?h = "gi_hlc g" and ?active = "project_active (all_items e f (gi_hlc g) evs) (map fst rets)"
  obtain sn where sn: "build_snapshot g (read_base_commits f ?h) evs rets c seq = Inr sn"
    "sn_events sn = map fst ?active" "set (sn_events sn) = item_set e f ?h evs rets"
    "sn_epoch sn = gi_store_epoch g" "sn_consumed sn = c" "sn_seq sn = seq" "sn_base sn = gi_id g"
    "sn_representation sn = gi_representation g"
    using m by (elim built_snapshot [OF ok, of e g evs rets c seq, rotated]) (auto simp: mirror_ok_def)
  have "item_set e f ?h evs rets = set (map (shown e ?h) (read_active_events f c))"
    using m by (simp add: mirror_ok_def)
  then have sets: "set (map fst ?active) = set (map (shown e ?h) (read_active_events f c))" using sn(2,3) by simp
  have "distinct (map (se_id \<circ> fst) (all_items e f ?h evs))"
  proof -
    have fresh: "se_id ev \<noteq> se_id (fst s)" if a: "ev \<in> set (read_active_events f ?h)" and s: "s \<in> set evs" for ev s
    proof
      assume eq: "se_id ev = se_id (fst s)"
      from s have "fst s \<in> fst ` set evs" by simp
      then obtain ev' where ev': "ev' \<in> set (fs_events f)" "fst s = stored.truncate ev'" "?h < se_hlc ev'"
        using m unfolding mirror_ok_def by blast
      have "ev = ev'" using ids_inj [OF ok, of ev ev'] a ev' eq by (simp add: set_active)
      then show False using a ev'(3) by (auto simp: set_active)
    qed
    have "distinct (map (se_id \<circ> fst) (map (\<lambda>ev. (shown e ?h ev, None :: string option)) (read_active_events f ?h)))"
      using distinct_active [OF ok, of ?h] by (simp add: o_def)
    moreover have "distinct (map (se_id \<circ> fst) (map (\<lambda>(s, b). (s, Some b)) evs))"
      using m by (simp add: mirror_ok_def o_def case_prod_beta)
    ultimately show ?thesis using fresh by (fastforce simp: all_items_def o_def case_prod_beta)
  qed
  then have d: "distinct (map se_id (map fst ?active))"
    unfolding project_active_def map_map by (simp only: distinct_sorted_keys distinct_map_filter)
  have "map fst ?active = map (shown e ?h) (read_active_events f c)"
  proof (rule ordered_unique [OF _ _ d _ sets])
    show "sorted (map fact_order (map fst ?active))" unfolding project_active_def by (rule sort_order)
    show "sorted (map fact_order (map (shown e ?h) (read_active_events f c)))"
      using sorted_active [of f c] by (simp add: o_def)
    show "distinct (map se_id (map (shown e ?h) (read_active_events f c)))"
      using distinct_active [OF ok, of c] by (simp add: o_def)
  qed
  then show thesis using that sn by simp
qed

lemma mirror_start:
  assumes "facts_ok f" "genuine e f g"
  shows "mirror_ok e f g [] [] (gi_hlc g)"
  using assms by (simp add: mirror_ok_def item_set_def genuine_def)

lemma retracted_mono: "h \<le> h' \<Longrightarrow> retracted_at f h c \<Longrightarrow> retracted_at f h' c"
  by (auto simp: retracted_at_def intro: order.trans)

lemma retracted_late:
  assumes "facts_ok f" "ev \<in> set (fs_events f)" "retracted_at f h (se_commit ev)"
  shows "se_hlc ev < h"
  using assms unfolding facts_ok_def retracted_at_def by (metis order.strict_trans2)

text \<open>The step of a batch: the changes of the window \<open>(c, u]\<close> lead from the projection at \<open>c\<close> to
  the projection at \<open>u\<close>.\<close>

lemma mirror_advance:
  assumes ok: "facts_ok f" and m: "mirror_ok e f g evs rets c" and u: "c \<le> u" "u \<le> fs_clock f"
    and nevs: "set nevs = {ev \<in> set (fs_events f). c < se_hlc ev \<and> se_hlc ev \<le> u}"
    and nrets: "set nrets = {r \<in> set (fs_retractions f). c < snd r \<and> snd r \<le> u}"
    and evs': "fst ` set evs' = stored.truncate ` set (surviving nevs nrets)" "distinct (map (se_id \<circ> fst) evs')"
    and rets': "set rets' = set nrets" "distinct (map fst rets')"
  shows "mirror_ok e f g (evs @ evs') (rets @ rets') u"
proof -
  let ?h = "gi_hlc g"
  have hc: "?h \<le> c" using m by (simp add: mirror_ok_def)
  have surv: "ev \<in> set (surviving nevs nrets) \<longleftrightarrow>
      ev \<in> set (fs_events f) \<and> c < se_hlc ev \<and> se_hlc ev \<le> u \<and> \<not> retracted_at f u (se_commit ev)" for ev
  proof -
    have "se_commit ev \<in> fst ` set nrets \<longleftrightarrow> retracted_at f u (se_commit ev)"
      if "ev \<in> set (fs_events f)" "c < se_hlc ev"
    proof
      assume "retracted_at f u (se_commit ev)"
      then obtain r where r: "r \<in> set (fs_retractions f)" "fst r = se_commit ev" "snd r \<le> u"
        by (auto simp: retracted_at_def)
      then have "se_hlc ev < snd r" using ok that(1) by (auto simp: facts_ok_def)
      then have "r \<in> set nrets" using r that(2) nrets by auto
      then show "se_commit ev \<in> fst ` set nrets" using r(2) by force
    next
      assume "se_commit ev \<in> fst ` set nrets"
      then obtain r where "r \<in> set nrets" "se_commit ev = fst r" by blast
      then show "retracted_at f u (se_commit ev)" unfolding nrets retracted_at_def by auto
    qed
    then show ?thesis by (auto simp: surviving_def nevs)
  qed
  have tombs: "se_commit ev \<notin> fst ` set rets \<and> se_commit ev \<notin> fst ` set nrets"
    if "\<not> retracted_at f u (se_commit ev)" for ev :: fact_event
    using that m u(1) nrets by (force simp: mirror_ok_def retracted_at_def intro: order.trans)
  have old: "item_set e f ?h evs rets = shown e ?h ` set (read_active_events f c)"
    using m by (simp add: mirror_ok_def)
  have keep: "\<not> retracted_at f u (se_commit ev)"
    if "\<not> retracted_at f c (se_commit ev)" "se_commit ev \<notin> fst ` set nrets" for ev :: fact_event
    using that nrets unfolding retracted_at_def by (metis (no_types, lifting) image_eqI mem_Collect_eq not_le)
  have sh: "stored.truncate ev = shown e ?h ev" if "c < se_hlc ev" for ev
    using that hc by (auto simp: shown_def)
  have "item_set e f ?h (evs @ evs') (rets @ rets') = shown e ?h ` set (read_active_events f u)" (is "?L = ?R")
  proof (intro set_eqI iffI)
    fix s assume "s \<in> ?L"
    then have s: "s \<in> item_set e f ?h evs rets \<or> s \<in> fst ` set evs'"
      and t: "se_commit s \<notin> fst ` set rets" "se_commit s \<notin> fst ` set nrets"
      by (auto simp: item_set_def rets'(1) image_Un)
    from s show "s \<in> ?R"
    proof
      assume "s \<in> item_set e f ?h evs rets"
      then obtain ev where ev: "s = shown e ?h ev" "ev \<in> set (read_active_events f c)" unfolding old by auto
      then have "ev \<in> set (read_active_events f u)"
        using keep [of ev] t(2) u(1) by (auto simp: set_active intro: order.trans)
      then show ?thesis using ev(1) by blast
    next
      assume "s \<in> fst ` set evs'"
      then obtain ev where ev: "s = stored.truncate ev" "ev \<in> set (surviving nevs nrets)"
        unfolding evs'(1) by auto
      then have "ev \<in> set (read_active_events f u)" by (simp add: surv set_active)
      then show ?thesis using ev sh surv by auto
    qed
  next
    fix s assume "s \<in> ?R"
    then obtain ev where ev: "s = shown e ?h ev" "ev \<in> set (fs_events f)" "se_hlc ev \<le> u"
      "\<not> retracted_at f u (se_commit ev)" by (auto simp: set_active)
    show "s \<in> ?L"
    proof (cases "se_hlc ev \<le> c")
      case True
      then have "ev \<in> set (read_active_events f c)"
        using ev retracted_mono [OF u(1)] by (auto simp: set_active)
      then have "s \<in> item_set e f ?h evs rets" unfolding old using ev(1) by blast
      then show ?thesis using tombs [OF ev(4)] ev(1) by (auto simp: item_set_def rets'(1) image_Un)
    next
      case False
      then have "ev \<in> set (surviving nevs nrets)" using ev surv by auto
      then have "s \<in> fst ` set evs'" unfolding evs'(1) ev(1) using sh [of ev] False
        by (metis image_eqI not_le)
      then show ?thesis using tombs [OF ev(4)] ev(1) by (auto simp: item_set_def rets'(1) image_Un)
    qed
  qed
  moreover have "\<exists>ev\<in>set (fs_events f). s = stored.truncate ev \<and> ?h < se_hlc ev \<and> se_hlc ev \<le> u"
    if "s \<in> fst ` set (evs @ evs')" for s
  proof -
    from that have "s \<in> fst ` set evs \<or> s \<in> fst ` set evs'" by auto
    then show ?thesis
    proof
      assume "s \<in> fst ` set evs"
      then show ?thesis using m u(1) unfolding mirror_ok_def by (metis order.trans)
    next
      assume "s \<in> fst ` set evs'"
      then show ?thesis unfolding evs'(1) using surv hc by (auto intro: order.strict_trans1)
    qed
  qed
  moreover have "distinct (map (se_id \<circ> fst) (evs @ evs'))"
  proof -
    have "se_id (fst s) \<noteq> se_id (fst s')" if s: "s \<in> set evs" and s': "s' \<in> set evs'" for s s'
    proof
      assume eq: "se_id (fst s) = se_id (fst s')"
      have "fst s \<in> fst ` set evs" "fst s' \<in> fst ` set evs'" using s s' by auto
      then obtain x y where x: "x \<in> set (fs_events f)" "fst s = stored.truncate x" "se_hlc x \<le> c"
        and y: "y \<in> set (fs_events f)" "fst s' = stored.truncate y" "c < se_hlc y"
        using m surv unfolding mirror_ok_def evs'(1) by blast
      then show False using ids_inj [OF ok, of x y] eq by auto
    qed
    then show ?thesis using m evs'(2) by (auto simp: mirror_ok_def)
  qed
  moreover have "distinct (map fst (rets @ rets'))"
  proof -
    have "fst r \<noteq> fst r'" if r: "r \<in> set rets" and r': "r' \<in> set rets'" for r r'
    proof
      assume "fst r = fst r'"
      moreover have "r \<in> set (fs_retractions f)" "snd r \<le> c" using m r by (auto simp: mirror_ok_def)
      moreover have "r' \<in> set (fs_retractions f)" "c < snd r'" using r' rets'(1) nrets by auto
      moreover have "inj_on fst (set (fs_retractions f))" using ok by (simp add: facts_ok_def distinct_map)
      ultimately show False by (metis inj_onD not_le)
    qed
    then have "set (map fst rets) \<inter> set (map fst rets') = {}" by (simp only: set_map) blast
    moreover have "distinct (map fst rets)" using m by (simp add: mirror_ok_def)
    ultimately show ?thesis using rets'(2) by (simp only: map_append distinct_append)
  qed
  moreover have "\<forall>r\<in>set (rets @ rets'). r \<in> set (fs_retractions f) \<and> snd r \<le> u"
    using m u(1) nrets rets'(1) by (auto simp: mirror_ok_def intro: order.trans)
  ultimately show ?thesis using m u hc unfolding mirror_ok_def by (auto intro: order.trans)
qed

subsection \<open>Checkpoints\<close>

definition plain_events :: "(stored \<times> string \<times> int) list \<Rightarrow> (stored \<times> string) list" where
  "plain_events = map (\<lambda>(s, b, n). (s, b))"

definition plain_retractions :: "(string \<times> hlc \<times> int) list \<Rightarrow> (string \<times> hlc) list" where
  "plain_retractions = map (\<lambda>(c, h, n). (c, h))"

lemma plain_sel [simp]:
  "fst ` set (plain_events evs) = fst ` set evs" "map (se_id \<circ> fst) (plain_events evs) = map (se_id \<circ> fst) evs"
  "plain_events (evs @ evs') = plain_events evs @ plain_events evs'" "plain_events [] = []"
  "plain_retractions (rets @ rets') = plain_retractions rets @ plain_retractions rets'"
  "plain_retractions [] = []" "fst ` set (plain_retractions rets) = fst ` set rets"
  by (auto simp: plain_events_def plain_retractions_def image_image case_prod_beta)

lemma plain_keys [simp]: "map fst (plain_retractions rets) = map fst rets"
  by (induction rets) (auto simp: plain_retractions_def)

text \<open>The numbering loop appends the merged changes in order, one number each.\<close>

lemma insert_changes_result:
  "insert_changes blob cs seq evs rets = (seq', evs', rets') \<Longrightarrow>
     \<exists>es rs. evs' = evs @ es \<and> rets' = rets @ rs \<and> seq' = seq + int (length cs) \<and>
       fst ` set es = stored.truncate ` {ev. EventChange ev \<in> set cs} \<and>
       set (plain_retractions rs) = {(c, h). RetractionChange c h \<in> set cs} \<and>
       snd ` snd ` set es \<union> snd ` snd ` set rs = {seq + 1 .. seq + int (length cs)}"
proof (induction blob cs seq evs rets rule: insert_changes.induct)
  case (1 blob seq evs rets)
  then show ?case by (intro exI [of _ "[]"]) auto
next
  case (2 blob ev cs seq evs rets)
  then obtain es rs where r: "evs' = (evs @ [(stored.truncate ev, blob ev, seq + 1)]) @ es" "rets' = rets @ rs"
    "seq' = seq + 1 + int (length cs)" "fst ` set es = stored.truncate ` {ev. EventChange ev \<in> set cs}"
    "set (plain_retractions rs) = {(c, h). RetractionChange c h \<in> set cs}"
    "snd ` snd ` set es \<union> snd ` snd ` set rs = {seq + 1 + 1 .. seq + 1 + int (length cs)}" by auto
  show ?case
    by (intro exI [of _ "(stored.truncate ev, blob ev, seq + 1) # es"] exI [of _ rs]) (use r in auto)
next
  case (3 blob c h cs seq evs rets)
  then obtain es rs where r: "evs' = evs @ es" "rets' = (rets @ [(c, h, seq + 1)]) @ rs"
    "seq' = seq + 1 + int (length cs)" "fst ` set es = stored.truncate ` {ev. EventChange ev \<in> set cs}"
    "set (plain_retractions rs) = {(c, h). RetractionChange c h \<in> set cs}"
    "snd ` snd ` set es \<union> snd ` snd ` set rs = {seq + 1 + 1 .. seq + 1 + int (length cs)}" by auto
  show ?case
    by (intro exI [of _ es] exI [of _ "(c, h, seq + 1) # rs"]) (use r in \<open>auto simp: plain_retractions_def\<close>)
qed

text \<open>The numbered rows are distinct when the changes are.\<close>

definition events_in :: "change list \<Rightarrow> fact_event list" where
  "events_in cs = concat (map (\<lambda>c. case c of EventChange ev \<Rightarrow> [ev] | _ \<Rightarrow> []) cs)"

definition retractions_in :: "change list \<Rightarrow> (string \<times> hlc) list" where
  "retractions_in cs = concat (map (\<lambda>c. case c of RetractionChange k h \<Rightarrow> [(k, h)] | _ \<Rightarrow> []) cs)"

lemma insert_changes_lists:
  "insert_changes blob cs seq evs rets = (seq', evs', rets') \<Longrightarrow>
     map fst evs' = map fst evs @ map stored.truncate (events_in cs) \<and>
     plain_retractions rets' = plain_retractions rets @ retractions_in cs"
  by (induction blob cs seq evs rets rule: insert_changes.induct)
    (auto simp: events_in_def retractions_in_def plain_retractions_def)

lemma mset_concat_cong: "mset xs = mset ys \<Longrightarrow> mset (concat (map f xs)) = mset (concat (map f ys))"
  by (simp add: mset_concat o_def) (metis image_mset_def mset_map sum_mset_sum_list)

lemma merged_parts:
  "mset (events_in (merge_changes evs rets)) = mset (surviving evs rets)"
  "mset (retractions_in (merge_changes evs rets)) = mset rets"
proof -
  let ?xs = "map EventChange (surviving evs rets) @ map (\<lambda>(c, h). RetractionChange c h) rets"
  have m: "mset (merge_changes evs rets) = mset ?xs" by (simp add: merge_changes_def)
  have no: "concat (map (\<lambda>x. []) xs) = []" for xs :: "'c list" by (induction xs) auto
  have "events_in ?xs = surviving evs rets" "retractions_in ?xs = rets"
    by (simp_all add: events_in_def retractions_in_def o_def case_prod_beta no)
  then show "mset (events_in (merge_changes evs rets)) = mset (surviving evs rets)"
    "mset (retractions_in (merge_changes evs rets)) = mset rets"
    using mset_concat_cong [OF m] unfolding events_in_def retractions_in_def by metis+
qed

lemma insert_distinct:
  assumes i: "insert_changes blob (merge_changes evs rets) seq [] [] = (seq', es, rs)"
    and d: "distinct (map se_id evs)" "distinct (map fst rets)"
  shows "distinct (map (se_id \<circ> fst) es)" "distinct (map fst rs)"
proof -
  note l = insert_changes_lists [OF i]
  have "map (se_id \<circ> fst) es = map se_id (map fst es)" by simp
  also have "\<dots> = map se_id (events_in (merge_changes evs rets))" using l by (simp add: o_def)
  finally have "mset (map (se_id \<circ> fst) es) = mset (map se_id (surviving evs rets))"
    using merged_parts(1) [of evs rets] by (simp add: mset_map)
  then show "distinct (map (se_id \<circ> fst) es)"
    using d(1) mset_eq_imp_distinct_iff by (metis distinct_map_filter surviving_def)
  have "map fst rs = map fst (retractions_in (merge_changes evs rets))"
    using l plain_keys [of rs] by simp
  then have "mset (map fst rs) = mset (map fst rets)"
    using merged_parts(2) [of evs rets] by (simp add: mset_map)
  then show "distinct (map fst rs)" using d(2) mset_eq_imp_distinct_iff by blast
qed

lemma set_merge:
  "EventChange ev \<in> set (merge_changes evs rets) \<longleftrightarrow> ev \<in> set (surviving evs rets)"
  "RetractionChange c h \<in> set (merge_changes evs rets) \<longleftrightarrow> (c, h) \<in> set rets"
  by (auto simp: merge_changes_def)

lemma insert_merged:
  assumes "insert_changes blob (merge_changes evs rets) seq [] [] = (seq', es, rs)"
  shows "fst ` set es = stored.truncate ` set (surviving evs rets)" "set (plain_retractions rs) = set rets"
    "seq' = seq + int (length (merge_changes evs rets))"
    "snd ` snd ` set es \<union> snd ` snd ` set rs = {seq + 1 .. seq'}"
  using insert_changes_result [OF assms] by (auto simp: set_merge)

lemma window_read:
  assumes "read_changes f l u = Inr (evs, rets)"
  shows "u \<le> fs_clock f" "set evs = {ev \<in> set (fs_events f). l < se_hlc ev \<and> se_hlc ev \<le> u}"
    "set rets = {r \<in> set (fs_retractions f). l < snd r \<and> snd r \<le> u}"
  using assms by (auto simp: read_changes_def read_identity_def split: if_splits)

definition ck_genuine :: "facts \<Rightarrow> checkpoint \<Rightarrow> bool" where
  "ck_genuine f ck \<longleftrightarrow>
     ck_consumed ck \<le> fs_clock f \<and> keys_distinct (ck_events ck) (ck_retractions ck) \<and>
     (\<forall>s\<in>fst ` set (ck_events ck). \<exists>ev\<in>set (fs_events f). s = stored.truncate ev \<and> se_hlc ev \<le> ck_consumed ck) \<and>
     (\<forall>r\<in>set (plain_retractions (ck_retractions ck)). r \<in> set (fs_retractions f) \<and> snd r \<le> ck_consumed ck)"

lemma ck_genuine_grow: "facts_grow f f' \<Longrightarrow> ck_genuine f ck \<Longrightarrow> ck_genuine f' ck"
  unfolding ck_genuine_def by (meson facts_grow_def grow_mem order.trans subsetD)

lemma open_checkpoint_facts:
  assumes "open_checkpoint blob_ok ck g rep f = None"
  shows "ck_base ck = gi_id g" "ck_epoch ck = gi_store_epoch g" "fs_epoch f = gi_store_epoch g"
    "gi_hlc g \<le> ck_consumed ck" "ck_consumed ck \<le> fs_clock f" "\<forall>r\<in>set (ck_events ck). gi_hlc g < se_hlc (fst r)"
    "ck_base_hlc ck = gi_hlc g"
  using assms by (auto simp: open_checkpoint_def read_identity_def not_le split: if_splits sum.splits)

text \<open>A checkpoint of genuine rows whose projection has the facts' event ids is a mirror.\<close>

lemma matching_checkpoint:
  assumes ok: "facts_ok f" and g: "genuine e f g" and ck: "ck_genuine f ck"
    and op: "open_checkpoint blob_ok ck g rep f = None"
    and sn: "build_snapshot g (read_base_commits f (gi_hlc g)) (plain_events (ck_events ck))
      (plain_retractions (ck_retractions ck)) (ck_consumed ck) seq = Inr sn"
    and match: "snapshot_matches f sn"
  shows "mirror_ok e f g (plain_events (ck_events ck)) (plain_retractions (ck_retractions ck)) (ck_consumed ck)"
proof -
  let ?h = "gi_hlc g" and ?c = "ck_consumed ck"
  let ?evs = "plain_events (ck_events ck)" and ?rets = "plain_retractions (ck_retractions ck)"
  let ?items = "item_set e f ?h ?evs ?rets"
  note o = open_checkpoint_facts [OF op]
  obtain sn' where sn': "build_snapshot g (read_base_commits f ?h) ?evs ?rets ?c seq = Inr sn'"
    "set (sn_events sn') = ?items" "sn_consumed sn' = ?c" by (rule built_snapshot [OF ok g])
  then have items: "set (sn_events sn) = ?items" and consumed: "sn_consumed sn = ?c" using sn by simp_all
  have ids: "se_id ` ?items = se_id ` set (read_active_events f ?c)"
    using match by (simp add: snapshot_matches_def items consumed)
  have from_fact: "\<exists>ev\<in>set (fs_events f). s = shown e ?h ev" if "s \<in> ?items" for s
  proof -
    from that have "s \<in> shown e ?h ` set (read_active_events f ?h) \<or> s \<in> fst ` set (ck_events ck)"
      by (auto simp: item_set_def)
    then show ?thesis
    proof
      assume "s \<in> fst ` set (ck_events ck)"
      then obtain ev where "ev \<in> set (fs_events f)" "s = stored.truncate ev" "?h < se_hlc s"
        using ck o(6) unfolding ck_genuine_def by blast
      then show ?thesis by (auto simp: shown_def intro!: bexI [of _ ev])
    qed (auto simp: set_active)
  qed
  have "?items = shown e ?h ` set (read_active_events f ?c)"
  proof (intro set_eqI iffI)
    fix s assume s: "s \<in> ?items"
    then obtain ev where ev: "ev \<in> set (fs_events f)" "s = shown e ?h ev" using from_fact by blast
    have "se_id s \<in> se_id ` set (read_active_events f ?c)" using s ids by blast
    then obtain ev' where ev': "ev' \<in> set (read_active_events f ?c)" "se_id ev = se_id ev'" using ev(2) by auto
    then have "ev = ev'" using ids_inj [OF ok ev(1), of ev'] by (simp add: set_active)
    then show "s \<in> shown e ?h ` set (read_active_events f ?c)" using ev ev' by blast
  next
    fix s assume "s \<in> shown e ?h ` set (read_active_events f ?c)"
    then obtain ev where ev: "ev \<in> set (read_active_events f ?c)" "s = shown e ?h ev" by blast
    then have "se_id s \<in> se_id ` ?items" using ids by auto
    then obtain s' where s': "s' \<in> ?items" "se_id s' = se_id ev" using ev(2) by auto
    obtain ev' where ev': "ev' \<in> set (fs_events f)" "s' = shown e ?h ev'" using from_fact [OF s'(1)] by blast
    have "ev' = ev" using ids_inj [OF ok ev'(1), of ev] ev s' ev'(2) by (simp add: set_active)
    then show "s \<in> ?items" using ev(2) ev'(2) s'(1) by simp
  qed
  moreover have "\<forall>s\<in>fst ` set ?evs. \<exists>ev\<in>set (fs_events f). s = stored.truncate ev \<and> ?h < se_hlc ev \<and> se_hlc ev \<le> ?c"
  proof
    fix s assume "s \<in> fst ` set ?evs"
    then have "s \<in> fst ` set (ck_events ck)" by simp
    then obtain ev where "ev \<in> set (fs_events f)" "s = stored.truncate ev" "se_hlc ev \<le> ?c" "?h < se_hlc s"
      using ck o(6) unfolding ck_genuine_def by blast
    then show "\<exists>ev\<in>set (fs_events f). s = stored.truncate ev \<and> ?h < se_hlc ev \<and> se_hlc ev \<le> ?c" by auto
  qed
  ultimately show ?thesis
    using g ck o unfolding mirror_ok_def by (simp add: ck_genuine_def keys_distinct_def)
qed

lemma insert_changes_blobs:
  "insert_changes blob cs seq evs rets = (seq', evs', rets') \<Longrightarrow> r \<in> set evs' \<Longrightarrow>
     r \<in> set evs \<or> (\<exists>ev. EventChange ev \<in> set cs \<and> fst (snd r) = blob ev)"
  by (induction blob cs seq evs rets rule: insert_changes.induct) fastforce+

lemma embed_all_vectors:
  "embed_all e rep dm evs = Inr vs \<Longrightarrow> ev \<in> set evs \<Longrightarrow>
     \<exists>v. map_of vs (se_id ev) = Some v \<and> vector_problem e dm v = None"
proof (induction evs arbitrary: vs)
  case (Cons x xs)
  from Cons.prems(1) obtain v vs' where v: "embed_vector e rep dm x = Inr v" "embed_all e rep dm xs = Inr vs'"
    "vs = (se_id x, v) # vs'" by (auto split: sum.splits)
  have "vector_problem e dm v = None" using v(1) by (auto simp: embed_vector_def split: sum.splits option.splits)
  then show ?case using Cons.IH [OF v(2)] Cons.prems(2) v(3) by auto
qed simp

lemma absorbed_vectors:
  "absorb e rep dm evs rets = Inr vs \<Longrightarrow> ev \<in> set (surviving evs rets) \<Longrightarrow>
     \<exists>v. map_of vs (se_id ev) = Some v \<and> vector_problem e dm v = None"
  by (auto simp: absorb_def split: option.splits dest: embed_all_vectors)

lemma staged_parts:
  assumes "build_staging_delta e f g upper before after = Inr ck"
  obtains evs rets vs where "read_changes f (gi_hlc g) upper = Inr (evs, rets)"
    "absorb e (gi_representation g) (g_dimension g) evs rets = Inr vs"
    "insert_changes (blob_of e vs) (merge_changes evs rets) (-1) [] [] =
       (ck_seq ck, ck_events ck, ck_retractions ck)"
    "keys_distinct (ck_events ck) (ck_retractions ck)"
    "ck_base ck = gi_id g" "ck_epoch ck = gi_store_epoch g" "ck_representation ck = gi_representation g"
    "ck_dimension ck = g_dimension g" "ck_base_hlc ck = gi_hlc g" "ck_consumed ck = upper"
    "ck_blocked ck = None" "before = gi_store_epoch g" "after = Some (gi_store_epoch g)"
proof -
  have b: "before = gi_store_epoch g" using assms by (auto simp: build_staging_delta_def split: if_splits)
  with assms obtain evs rets where r: "read_changes f (gi_hlc g) upper = Inr (evs, rets)"
    by (auto simp: build_staging_delta_def split: sum.splits)
  with assms b obtain vs where a: "absorb e (gi_representation g) (g_dimension g) evs rets = Inr vs"
    by (auto simp: build_staging_delta_def split: sum.splits)
  obtain seq ces crs where i: "insert_changes (blob_of e vs) (merge_changes evs rets) (-1) [] [] = (seq, ces, crs)"
    by (cases "insert_changes (blob_of e vs) (merge_changes evs rets) (-1) [] []")
  show thesis
    by (rule that [OF r a]) (use assms b r a i in \<open>auto simp: build_staging_delta_def split: if_splits\<close>)
qed

text \<open>The staging delta is a mirror of its generation at the watermark it was built to.\<close>

lemma staged_mirror:
  assumes ok: "facts_ok f" and g: "genuine e f g"
    and ck: "build_staging_delta e f g upper before after = Inr ck" and h: "gi_hlc g \<le> upper"
  shows "mirror_ok e f g (plain_events (ck_events ck)) (plain_retractions (ck_retractions ck)) upper"
    "ck_genuine f ck"
proof -
  obtain evs rets vs where p: "read_changes f (gi_hlc g) upper = Inr (evs, rets)"
    "insert_changes (blob_of e vs) (merge_changes evs rets) (-1) [] [] = (ck_seq ck, ck_events ck, ck_retractions ck)"
    "keys_distinct (ck_events ck) (ck_retractions ck)" "ck_consumed ck = upper"
    by (rule staged_parts [OF ck])
  note w = window_read [OF p(1)] and i = insert_merged [OF p(2)]
  show m: "mirror_ok e f g (plain_events (ck_events ck)) (plain_retractions (ck_retractions ck)) upper"
    using mirror_advance [OF ok mirror_start [OF ok g] h w, of "plain_events (ck_events ck)"
        "plain_retractions (ck_retractions ck)"] i p(3) by (simp add: keys_distinct_def)
  show "ck_genuine f ck"
    using m p(3,4) unfolding ck_genuine_def mirror_ok_def by auto
qed

lemma staged_sequence:
  assumes "build_staging_delta e f g upper before after = Inr ck"
  shows "max_seq ck = ck_seq ck" "-1 \<le> ck_seq ck"
proof -
  obtain evs rets vs where p: "insert_changes (blob_of e vs) (merge_changes evs rets) (-1) [] [] =
      (ck_seq ck, ck_events ck, ck_retractions ck)" by (rule staged_parts [OF assms])
  note i = insert_merged(3,4) [OF p]
  show le: "-1 \<le> ck_seq ck" using i(1) by simp
  have "set (map (snd \<circ> snd) (ck_events ck) @ map (snd \<circ> snd) (ck_retractions ck) @ [-1]) =
      insert (-1) {0 .. ck_seq ck}"
    using i(2) by (simp add: image_Un image_image)
  then show "max_seq ck = ck_seq ck"
    unfolding max_seq_def using le by (auto intro!: Max_eqI)
qed

end
