(* ===== verification/Delta_System.thy ===== *)
theory Delta_System
  imports Delta_Facts
begin

text \<open>
  The delta machine with everything that runs beside it: the fact store's writers, the worker
  between its critical sections, requests at the query gate, the publisher that stages
  generations and queues switches, the coordinator that replaces the store while the machine
  is quiesced, sweeps, crashes and starts. The invariant is that whatever the machine serves
  for the current epoch is the projection of the facts at its watermark.
\<close>

text \<open>Clock points are pairs; quantifiers over them stay whole.\<close>

declare split_paired_All [simp del] split_paired_Ex [simp del]

record dsys =
  y_facts :: facts
  y_disk :: ddisk
  y_machine :: machine
  y_pc :: worker_pc
  y_running :: bool
  y_waiting :: "(string \<times> hlc) set"

text \<open>Epochs are fresh: nothing on disk or in memory belongs to the one that begins.\<close>

definition unused_epoch :: "string \<Rightarrow> ddisk \<Rightarrow> machine \<Rightarrow> bool" where
  "unused_epoch ep d m \<longleftrightarrow>
     (\<forall>r\<in>set (k_gens d). gi_store_epoch (snd r) \<noteq> ep) \<and>
     (\<forall>r\<in>set (k_ckpts d). ck_epoch (snd r) \<noteq> ep) \<and>
     (\<forall>g. m_gen m = Some g \<longrightarrow> gi_store_epoch g \<noteq> ep) \<and>
     (\<forall>sn. m_snapshot m = Some sn \<longrightarrow> sn_epoch sn \<noteq> ep)"

text \<open>A sweep removes generations and checkpoints other than the served checkpoint.\<close>

definition swept :: "string \<Rightarrow> ddisk \<Rightarrow> ddisk \<Rightarrow> bool" where
  "swept path d d' \<longleftrightarrow>
     (\<exists>P Q. k_gens d' = filter P (k_gens d) \<and> k_ckpts d' = filter Q (k_ckpts d) \<and>
        (\<forall>r\<in>set (k_ckpts d). fst r = path \<longrightarrow> Q r))"

definition faulted :: "bool \<Rightarrow> fault \<Rightarrow> dsys \<Rightarrow> dsys" where
  "faulted ok x s =
     s\<lparr>y_machine := fst (take_fault ok x (y_machine s) (y_disk s)),
       y_disk := snd (take_fault ok x (y_machine s) (y_disk s)), y_pc := WIdle\<rparr>"

text \<open>One step of the worker; \<open>ok\<close> is whether SQLite commits, \<open>changed\<close> whether a build saw the
  facts change.\<close>

definition open_step :: "denv \<Rightarrow> bool \<Rightarrow> bool \<Rightarrow> string \<Rightarrow> dsys \<Rightarrow> dsys" where
  "open_step e ok changed target s =
     (case rebuild_open e changed (y_facts s) target (y_machine s) (y_disk s) of
        (Inl x, d) \<Rightarrow> faulted ok x (s\<lparr>y_disk := d\<rparr>)
      | (Inr g, d) \<Rightarrow>
          if m_closed (y_machine s) then s\<lparr>y_disk := d, y_pc := WIdle\<rparr>
          else
            let m = installed (y_facts s) g (y_machine s) in
            (case publish_snapshot m of
               Inl x \<Rightarrow> faulted ok x (s\<lparr>y_disk := d, y_machine := m\<rparr>)
             | Inr m' \<Rightarrow> s\<lparr>y_disk := d, y_machine := m', y_pc := WIdle\<rparr>))"

definition rebuild_step :: "bool \<Rightarrow> string option \<Rightarrow> dsys \<Rightarrow> dsys" where
  "rebuild_step ok t s =
     (if m_closed (y_machine s) then s\<lparr>y_pc := WIdle\<rparr>
      else
        let m = rebuild_clear (y_machine s);
            go = (\<lambda>target. s\<lparr>y_machine := clear_mirror m, y_disk := drop_checkpoint (m_path m) (y_disk s),
                    y_pc := WOpen target\<rparr>) in
        case t of
          Some target \<Rightarrow> go target
        | None \<Rightarrow>
            (case read_identity (y_facts s) of
               Inl x \<Rightarrow> faulted ok x (s\<lparr>y_machine := m\<rparr>)
             | Inr i \<Rightarrow> go (fst i)))"

definition worker_step ::
  "denv \<Rightarrow> (int \<Rightarrow> string \<Rightarrow> bool) \<Rightarrow> bool \<Rightarrow> bool \<Rightarrow> dsys \<Rightarrow> dsys" where
  "worker_step e blob_ok ok changed s =
     (let f = y_facts s; m = y_machine s; d = y_disk s;
          next = (\<lambda>r. case r of Inl x \<Rightarrow> faulted ok x s | Inr pc \<Rightarrow> s\<lparr>y_pc := pc\<rparr>);
          move = (\<lambda>pc r. case r of Inl x \<Rightarrow> faulted ok x s | Inr m' \<Rightarrow> s\<lparr>y_machine := m', y_pc := pc\<rparr>) in
      case y_pc s of
        WIdle \<Rightarrow> if m_stopped m \<or> m_closed m then s else s\<lparr>y_pc := pick m\<rparr>
      | WIdent ep \<Rightarrow> next (identify f ep)
      | WBatch ep clock \<Rightarrow> next (read_batch f ep clock m)
      | WChanges ep clock evs rets \<Rightarrow>
          (case embed_and_write e ok ep clock evs rets m d of
             Inl x \<Rightarrow> faulted ok x s
           | Inr (m', d') \<Rightarrow> s\<lparr>y_machine := m', y_disk := d', y_pc := WCommitted\<rparr>)
      | WCommitted \<Rightarrow> move WAfter (publish_snapshot m)
      | WAfter \<Rightarrow> move WIdle (republish m)
      | WSwitch p \<Rightarrow> s\<lparr>y_machine := perform_switch blob_ok f p m d, y_pc := WIdle\<rparr>
      | WRebuild t \<Rightarrow> rebuild_step ok t s
      | WOpen target \<Rightarrow> open_step e ok changed target s)"

inductive dstep :: "denv \<Rightarrow> (int \<Rightarrow> string \<Rightarrow> bool) \<Rightarrow> dsys \<Rightarrow> dsys \<Rightarrow> bool"
  for e blob_ok where
  facts: "facts_step (y_facts s) f \<Longrightarrow> dstep e blob_ok s (s\<lparr>y_facts := f\<rparr>)"
| replace: "y_pc s = WIdle \<Longrightarrow> y_waiting s = {} \<Longrightarrow> facts_ok f \<Longrightarrow>
    unused_epoch (fs_epoch f) (y_disk s) (y_machine s) \<Longrightarrow> dstep e blob_ok s (s\<lparr>y_facts := f\<rparr>)"
| work: "y_running s \<Longrightarrow> (\<And>t g d. y_pc s = WOpen t \<Longrightarrow>
      rebuild_open e changed (y_facts s) t (y_machine s) (y_disk s) = (Inr g, d) \<Longrightarrow>
      gi_id g \<notin> fst ` set (k_ckpts (y_disk s))) \<Longrightarrow>
    dstep e blob_ok s (worker_step e blob_ok ok changed s)"
| ask: "y_running s \<Longrightarrow> gate_open (y_machine s) (y_facts s) = Inr i \<Longrightarrow>
    dstep e blob_ok s (s\<lparr>y_waiting := insert i (y_waiting s)\<rparr>)"
| answer: "i \<in> y_waiting s \<Longrightarrow> gate_turn (y_machine s) (fst i) (snd i) t \<noteq> Wait \<Longrightarrow>
    dstep e blob_ok s (s\<lparr>y_waiting := y_waiting s - {i}\<rparr>)"
| stop: "y_running s \<Longrightarrow> dstep e blob_ok s (s\<lparr>y_machine := (y_machine s)\<lparr>m_stopped := b\<rparr>\<rparr>)"
| rebuild: "y_running s \<Longrightarrow> dstep e blob_ok s (s\<lparr>y_machine := request_rebuild t (y_machine s)\<rparr>)"
| discard: "y_running s \<Longrightarrow> y_pc s = WIdle \<Longrightarrow>
    dstep e blob_ok s (s\<lparr>y_machine := invalidate (y_machine s),
      y_disk := drop_checkpoint (m_path (y_machine s)) (y_disk s)\<rparr>)"
| retry: "y_running s \<Longrightarrow> dstep e blob_ok s (s\<lparr>y_machine := retry_machine (y_machine s),
    y_disk := retry_disk ok (y_machine s) (y_disk s)\<rparr>)"
| close: "y_running s \<Longrightarrow> dstep e blob_ok s (s\<lparr>y_machine := close_machine (y_machine s)\<rparr>)"
| stage: "h \<le> fs_clock (y_facts s) \<Longrightarrow> h \<le> upper \<Longrightarrow>
    g = target_of e rep (fs_epoch (y_facts s)) h (read_active_events (y_facts s) h) \<Longrightarrow>
    build_staging_delta e (y_facts s) g upper before after = Inr ck \<Longrightarrow>
    gi_id g \<notin> fst ` set (k_gens (y_disk s)) \<Longrightarrow> gi_id g \<noteq> m_path (y_machine s) \<Longrightarrow>
    dstep e blob_ok s (s\<lparr>y_disk := (store_checkpoint (gi_id g) ck (y_disk s))
      \<lparr>k_gens := (gi_id g, g) # k_gens (y_disk s)\<rparr>\<rparr>)"
| switch: "y_running s \<Longrightarrow> dstep e blob_ok s (s\<lparr>y_machine := queue_publish p (y_machine s)\<rparr>)"
| sweep: "swept (m_path (y_machine s)) (y_disk s) d \<Longrightarrow> dstep e blob_ok s (s\<lparr>y_disk := d\<rparr>)"
| crash: "dstep e blob_ok s (s\<lparr>y_running := False, y_machine := blank_machine [] [], y_pc := WIdle, y_waiting := {}\<rparr>)"
| start: "\<not> y_running s \<Longrightarrow>
    start_machine e blob_ok q (y_facts s) declared rep refuse (y_disk s) = (Inr m, d) \<Longrightarrow>
    dstep e blob_ok s (s\<lparr>y_machine := m, y_disk := d, y_running := True\<rparr>)"
| start_fails: "\<not> y_running s \<Longrightarrow>
    start_machine e blob_ok q (y_facts s) declared rep refuse (y_disk s) = (Inl x, d) \<Longrightarrow>
    dstep e blob_ok s (s\<lparr>y_disk := d\<rparr>)"

definition empty_ddisk :: ddisk where
  "empty_ddisk = \<lparr>k_gens = [], k_damaged = [], k_leftover = [], k_ckpts = [], k_active = NoFile, k_rollback = NoFile\<rparr>"

definition first_state :: "facts \<Rightarrow> dsys" where
  "first_state f = \<lparr>y_facts = f, y_disk = empty_ddisk, y_machine = blank_machine [] [], y_pc = WIdle,
     y_running = False, y_waiting = {}\<rparr>"

inductive dreach :: "denv \<Rightarrow> (int \<Rightarrow> string \<Rightarrow> bool) \<Rightarrow> dsys \<Rightarrow> bool" for e blob_ok where
  first: "facts_ok f \<Longrightarrow> dreach e blob_ok (first_state f)"
| more: "dreach e blob_ok s \<Longrightarrow> dstep e blob_ok s s' \<Longrightarrow> dreach e blob_ok s'"

subsection \<open>The invariant\<close>

text \<open>A checkpoint is a mirror of every generation at its base watermark.\<close>

definition ck_mirror :: "denv \<Rightarrow> facts \<Rightarrow> checkpoint \<Rightarrow> bool" where
  "ck_mirror e f ck \<longleftrightarrow>
     ck_base_hlc ck \<le> fs_clock f \<and>
     (\<forall>g. genuine e f g \<and> gi_hlc g = ck_base_hlc ck \<longrightarrow>
        mirror_ok e f g (plain_events (ck_events ck)) (plain_retractions (ck_retractions ck)) (ck_consumed ck))"

text \<open>The checkpoint a worker writes to: the stored one, or a fresh one.\<close>

definition served_checkpoint :: "machine \<Rightarrow> base_gen \<Rightarrow> ddisk \<Rightarrow> checkpoint" where
  "served_checkpoint m g d = (case map_of (k_ckpts d) (m_path m) of Some ck \<Rightarrow> ck | None \<Rightarrow> fresh_checkpoint g)"

definition disk_ok :: "denv \<Rightarrow> facts \<Rightarrow> ddisk \<Rightarrow> bool" where
  "disk_ok e f d \<longleftrightarrow>
     (\<forall>r\<in>set (k_gens d). gi_store_epoch (snd r) = fs_epoch f \<longrightarrow> genuine e f (snd r)) \<and>
     (\<forall>r\<in>set (k_ckpts d). ck_epoch (snd r) = fs_epoch f \<longrightarrow> ck_mirror e f (snd r))"

definition snapshot_ok :: "denv \<Rightarrow> facts \<Rightarrow> snapshot \<Rightarrow> bool" where
  "snapshot_ok e f sn \<longleftrightarrow>
     sn_consumed sn \<le> fs_clock f \<and>
     (\<exists>h. sn_events sn = map (shown e h) (read_active_events f (sn_consumed sn)))"

definition mirrors :: "denv \<Rightarrow> facts \<Rightarrow> machine \<Rightarrow> bool" where
  "mirrors e f m \<longleftrightarrow>
     (\<forall>g. m_gen m = Some g \<and> gi_store_epoch g = fs_epoch f \<longrightarrow>
        genuine e f g \<and> m_commits m = read_base_commits f (gi_hlc g) \<and>
        (\<forall>c. m_consumed m = Some c \<longrightarrow> mirror_ok e f g (m_events m) (m_retractions m) c))"

definition serves :: "denv \<Rightarrow> facts \<Rightarrow> machine \<Rightarrow> bool" where
  "serves e f m \<longleftrightarrow>
     (\<forall>sn. m_snapshot m = Some sn \<longrightarrow>
        (\<exists>g. m_gen m = Some g \<and> gi_store_epoch g = sn_epoch sn) \<and>
        (sn_epoch sn = fs_epoch f \<longrightarrow> snapshot_ok e f sn))"

text \<open>The served checkpoint holds the mirror.\<close>

definition holds :: "checkpoint \<Rightarrow> base_gen \<Rightarrow> machine \<Rightarrow> hlc \<Rightarrow> bool" where
  "holds ck g m c \<longleftrightarrow>
     ck_epoch ck = gi_store_epoch g \<and> ck_base_hlc ck = gi_hlc g \<and> ck_consumed ck = c \<and>
     plain_events (ck_events ck) = m_events m \<and> plain_retractions (ck_retractions ck) = m_retractions m"

definition path_ok :: "facts \<Rightarrow> machine \<Rightarrow> ddisk \<Rightarrow> bool" where
  "path_ok f m d \<longleftrightarrow>
     (\<forall>g c. m_gen m = Some g \<and> gi_store_epoch g = fs_epoch f \<and> m_consumed m = Some c \<longrightarrow>
        holds (served_checkpoint m g d) g m c)"

definition has_epoch :: "machine \<Rightarrow> string \<Rightarrow> bool" where
  "has_epoch m ep \<longleftrightarrow> (\<exists>g. m_gen m = Some g \<and> gi_store_epoch g = ep)"

fun at_point :: "facts \<Rightarrow> machine \<Rightarrow> worker_pc \<Rightarrow> bool" where
  "at_point f m (WIdent (Some ep)) = has_epoch m ep"
| "at_point f m (WBatch ep u) = (ep = fs_epoch f \<and> u \<le> fs_clock f \<and> has_epoch m ep)"
| "at_point f m (WChanges ep u evs rets) =
     (ep = fs_epoch f \<and> u \<le> fs_clock f \<and> has_epoch m ep \<and>
      (\<exists>c. m_consumed m = Some c \<and> c < u \<and>
         set evs = {ev \<in> set (fs_events f). c < se_hlc ev \<and> se_hlc ev \<le> u} \<and>
         set rets = {r \<in> set (fs_retractions f). c < snd r \<and> snd r \<le> u}))"
| "at_point f m (WOpen t) = (m_events m = [] \<and> m_retractions m = [] \<and> m_snapshot m = None)"
| "at_point f m pc = True"

definition dinv :: "denv \<Rightarrow> dsys \<Rightarrow> bool" where
  "dinv e s \<longleftrightarrow>
     facts_ok (y_facts s) \<and> disk_ok e (y_facts s) (y_disk s) \<and> mirrors e (y_facts s) (y_machine s) \<and>
     serves e (y_facts s) (y_machine s) \<and> path_ok (y_facts s) (y_machine s) (y_disk s) \<and>
     at_point (y_facts s) (y_machine s) (y_pc s) \<and>
     (\<forall>i\<in>y_waiting s. fst i = fs_epoch (y_facts s) \<and> snd i \<le> fs_clock (y_facts s))"

lemmas dinv_defs = dinv_def disk_ok_def mirrors_def serves_def path_ok_def

lemma at_idle [simp]: "at_point f m WIdle" "at_point f m WCommitted" "at_point f m WAfter"
  by simp_all

lemma at_point_cong:
  "m_gen m = m_gen m' \<Longrightarrow> m_consumed m = m_consumed m' \<Longrightarrow> m_events m = m_events m' \<Longrightarrow>
     m_retractions m = m_retractions m' \<Longrightarrow> m_snapshot m' = m_snapshot m \<or> m_snapshot m' = None \<Longrightarrow>
     at_point f m pc \<Longrightarrow> at_point f m' pc"
  by (cases "(f, m, pc)" rule: at_point.cases) (auto simp: has_epoch_def)

text \<open>Flags, pending requests and diagnoses do not matter to what is served.\<close>

lemma mirrors_frame [simp]:
  "mirrors e f (m\<lparr>m_blocked := v0\<rparr>) = mirrors e f m"
  "mirrors e f (m\<lparr>m_last_error := v1\<rparr>) = mirrors e f m"
  "mirrors e f (m\<lparr>m_stopped := v2\<rparr>) = mirrors e f m"
  "mirrors e f (m\<lparr>m_closed := v3\<rparr>) = mirrors e f m"
  "mirrors e f (m\<lparr>m_pending_rebuild := v4\<rparr>) = mirrors e f m"
  "mirrors e f (m\<lparr>m_pending_publish := v5\<rparr>) = mirrors e f m"
  "mirrors e f (m\<lparr>m_publish_result := v6\<rparr>) = mirrors e f m"
  "mirrors e f (m\<lparr>m_refuse := v7\<rparr>) = mirrors e f m"
  "mirrors e f (m\<lparr>m_snapshot := v8\<rparr>) = mirrors e f m"
  by (simp_all add: mirrors_def)

lemma serves_frame [simp]:
  "serves e f (m\<lparr>m_blocked := v0\<rparr>) = serves e f m"
  "serves e f (m\<lparr>m_last_error := v1\<rparr>) = serves e f m"
  "serves e f (m\<lparr>m_stopped := v2\<rparr>) = serves e f m"
  "serves e f (m\<lparr>m_closed := v3\<rparr>) = serves e f m"
  "serves e f (m\<lparr>m_pending_rebuild := v4\<rparr>) = serves e f m"
  "serves e f (m\<lparr>m_pending_publish := v5\<rparr>) = serves e f m"
  "serves e f (m\<lparr>m_publish_result := v6\<rparr>) = serves e f m"
  "serves e f (m\<lparr>m_refuse := v7\<rparr>) = serves e f m"
  by (simp_all add: serves_def)

lemma path_frame [simp]:
  "path_ok f (m\<lparr>m_blocked := v0\<rparr>) d = path_ok f m d"
  "path_ok f (m\<lparr>m_last_error := v1\<rparr>) d = path_ok f m d"
  "path_ok f (m\<lparr>m_stopped := v2\<rparr>) d = path_ok f m d"
  "path_ok f (m\<lparr>m_closed := v3\<rparr>) d = path_ok f m d"
  "path_ok f (m\<lparr>m_pending_rebuild := v4\<rparr>) d = path_ok f m d"
  "path_ok f (m\<lparr>m_pending_publish := v5\<rparr>) d = path_ok f m d"
  "path_ok f (m\<lparr>m_publish_result := v6\<rparr>) d = path_ok f m d"
  "path_ok f (m\<lparr>m_refuse := v7\<rparr>) d = path_ok f m d"
  "path_ok f (m\<lparr>m_snapshot := v8\<rparr>) d = path_ok f m d"
  by (simp_all add: path_ok_def holds_def served_checkpoint_def)

subsection \<open>The facts move\<close>

lemma snapshot_grow: "facts_grow f f' \<Longrightarrow> snapshot_ok e f sn \<Longrightarrow> snapshot_ok e f' sn"
  using grow_active [of f f' "sn_consumed sn"] by (auto simp: snapshot_ok_def facts_grow_def intro: order.trans)

lemma mirrors_grow:
  assumes g: "facts_grow f f'" and m: "mirrors e f m"
  shows "mirrors e f' m"
  unfolding mirrors_def
proof (intro allI impI)
  fix g assume a: "m_gen m = Some g \<and> gi_store_epoch g = fs_epoch f'"
  then have "gi_store_epoch g = fs_epoch f" using g by (simp add: facts_grow_def)
  then have old: "genuine e f g" "m_commits m = read_base_commits f (gi_hlc g)"
    "\<forall>c. m_consumed m = Some c \<longrightarrow> mirror_ok e f g (m_events m) (m_retractions m) c"
    using m a by (auto simp: mirrors_def)
  moreover have "gi_hlc g \<le> fs_clock f" using old(1) by (simp add: genuine_def)
  ultimately show "genuine e f' g \<and> m_commits m = read_base_commits f' (gi_hlc g) \<and>
      (\<forall>c. m_consumed m = Some c \<longrightarrow> mirror_ok e f' g (m_events m) (m_retractions m) c)"
    using genuine_grow [OF g] mirror_grow [OF g] grow_commits [OF g] by simp
qed

lemma genuine_back: "facts_grow f f' \<Longrightarrow> genuine e f' g \<Longrightarrow> gi_hlc g \<le> fs_clock f \<Longrightarrow> genuine e f g"
  using grow_active [of f f' "gi_hlc g"] by (auto simp: genuine_def facts_grow_def)

lemma ck_mirror_grow: "facts_grow f f' \<Longrightarrow> ck_mirror e f ck \<Longrightarrow> ck_mirror e f' ck"
  using genuine_back mirror_grow unfolding ck_mirror_def by (metis facts_grow_def order.trans)

lemma at_point_grow:
  assumes "facts_grow f f'" "at_point f m pc"
  shows "at_point f' m pc"
  using assms(2)
proof (cases "(f, m, pc)" rule: at_point.cases)
  case (3 f1 m1 ep u evs rets)
  then have u: "u \<le> fs_clock f" using assms(2) by simp
  show ?thesis
    using assms 3 grow_window [OF assms(1) u] by (auto simp: facts_grow_def intro: order.trans)
qed (use assms in \<open>auto simp: facts_grow_def intro: order.trans\<close>)

lemma dinv_facts:
  assumes "dinv e s" "facts_step (y_facts s) f"
  shows "dinv e (s\<lparr>y_facts := f\<rparr>)"
proof -
  have g: "facts_grow (y_facts s) f" by (rule facts_step_grows [OF assms(2)])
  have ep: "fs_epoch f = fs_epoch (y_facts s)" and cl: "fs_clock (y_facts s) \<le> fs_clock f"
    using g by (auto simp: facts_grow_def)
  have "serves e f (y_machine s)"
    using assms(1) snapshot_grow [OF g] by (auto simp: dinv_def serves_def ep)
  moreover have "disk_ok e f (y_disk s)"
    using assms(1) genuine_grow [OF g] ck_mirror_grow [OF g] by (auto simp: dinv_def disk_ok_def ep)
  ultimately show ?thesis
    using assms(1) facts_step_ok [OF assms(2)] mirrors_grow [OF g] at_point_grow [OF g] cl
    by (auto simp: dinv_def path_ok_def ep intro: order.trans)
qed

lemma dinv_replace:
  assumes "dinv e s" "y_pc s = WIdle" "y_waiting s = {}" "facts_ok f"
    and "unused_epoch (fs_epoch f) (y_disk s) (y_machine s)"
  shows "dinv e (s\<lparr>y_facts := f\<rparr>)"
  using assms by (auto simp: dinv_defs unused_epoch_def)

subsection \<open>The worker\<close>

lemma build_snapshot_epoch: "build_snapshot g commits evs rets c seq = Inr sn \<Longrightarrow> sn_epoch sn = gi_store_epoch g"
  by (auto simp: build_snapshot_def Let_def split: sum.splits)

lemma snapshot_of_mirror_ok:
  assumes "facts_ok f" "mirror_ok e f g evs rets c"
    and "build_snapshot g (read_base_commits f (gi_hlc g)) evs rets c seq = Inr sn"
  shows "snapshot_ok e f sn"
proof -
  obtain sn' where "build_snapshot g (read_base_commits f (gi_hlc g)) evs rets c seq = Inr sn'"
    "sn_events sn' = map (shown e (gi_hlc g)) (read_active_events f c)" "sn_consumed sn' = c"
    by (rule snapshot_of_mirror [OF assms(1,2)])
  then show ?thesis using assms(2,3) by (auto simp: snapshot_ok_def mirror_ok_def)
qed

lemma publish_serves:
  assumes f: "facts_ok f" and m: "mirrors e f m" and p: "publish_snapshot m = Inr m'"
  obtains sn where "m' = m\<lparr>m_snapshot := Some sn\<rparr>" "serves e f m'"
proof -
  obtain g c sn where g: "m_gen m = Some g" "m_consumed m = Some c"
    and sn: "build_snapshot g (m_commits m) (m_events m) (m_retractions m) c (m_seq m) = Inr sn"
    "m' = m\<lparr>m_snapshot := Some sn\<rparr>"
    using p by (auto simp: publish_snapshot_def split: option.splits sum.splits)
  have "snapshot_ok e f sn" if "gi_store_epoch g = fs_epoch f"
  proof -
    have "mirror_ok e f g (m_events m) (m_retractions m) c" "m_commits m = read_base_commits f (gi_hlc g)"
      using m g that by (auto simp: mirrors_def)
    then show ?thesis using snapshot_of_mirror_ok [OF f] sn(1) by simp
  qed
  then show thesis
    using that [OF sn(2)] g(1) build_snapshot_epoch [OF sn(1)] by (simp add: serves_def sn(2))
qed

text \<open>Storing a checkpoint keeps the disk when the checkpoint is genuine.\<close>

lemma map_of_update: "map_of (AList.update k v xs) = (map_of xs)(k \<mapsto> v)"
  by (rule update_conv')

lemma set_update: "set (AList.update k v xs) \<subseteq> insert (k, v) (set xs)"
  by (induction xs) auto

lemma disk_store:
  assumes "disk_ok e f d" "ck_epoch ck = fs_epoch f \<Longrightarrow> ck_mirror e f ck"
  shows "disk_ok e f (store_checkpoint p ck d)"
  using assms set_update [of p ck "k_ckpts d"] by (auto simp: disk_ok_def store_checkpoint_def)

lemma served_stored [simp]:
  "served_checkpoint m g (store_checkpoint (m_path m) ck d) = ck"
  by (simp add: served_checkpoint_def store_checkpoint_def map_of_update)

lemma mirror_of_served:
  assumes "mirror_ok e f g (plain_events (ck_events ck)) (plain_retractions (ck_retractions ck)) (ck_consumed ck)"
    and "ck_base_hlc ck = gi_hlc g"
  shows "ck_mirror e f ck"
  using assms by (auto simp: ck_mirror_def mirror_ok_def genuine_def)

lemma set_delete: "set (AList.delete k xs) \<subseteq> set xs"
  by (induction xs) auto

lemma disk_drop: "disk_ok e f d \<Longrightarrow> disk_ok e f (drop_checkpoint p d)"
  using set_delete [of p "k_ckpts d"] by (auto simp: disk_ok_def drop_checkpoint_def)

lemma disk_ckpt: "disk_ok e f d \<Longrightarrow> map_of (k_ckpts d) p = Some ck \<Longrightarrow> ck_epoch ck = fs_epoch f \<Longrightarrow> ck_mirror e f ck"
  using map_of_SomeD [of "k_ckpts d" p ck] by (auto simp: disk_ok_def)

lemma disk_gen: "disk_ok e f d \<Longrightarrow> map_of (k_gens d) p = Some g \<Longrightarrow> gi_store_epoch g = fs_epoch f \<Longrightarrow> genuine e f g"
  using map_of_SomeD [of "k_gens d" p g] by (auto simp: disk_ok_def)

lemma record_blocked_ok:
  assumes "disk_ok e f d" "mirrors e f m" "path_ok f m d"
  shows "disk_ok e f (record_blocked ok b m d)" "path_ok f m (record_blocked ok b m d)"
proof -
  consider (none) "record_blocked ok b m d = d"
    | (stored) g c where "m_gen m = Some g" "m_consumed m = Some c"
        "record_blocked ok b m d = store_checkpoint (m_path m)
           ((served_checkpoint m g d)\<lparr>ck_base := gi_id g, ck_epoch := gi_store_epoch g,
              ck_representation := gi_representation g, ck_dimension := g_dimension g, ck_base_hlc := gi_hlc g,
              ck_consumed := c, ck_seq := m_seq m, ck_blocked := Some b\<rparr>) d"
  proof (cases "m_gen m = None \<or> m_consumed m = None \<or> \<not> ok")
    case True
    then show thesis by (intro none) (auto simp: record_blocked_def split: option.splits)
  next
    case False
    then obtain g c where gc: "m_gen m = Some g" "m_consumed m = Some c" "ok" by auto
    then show thesis by (intro stored [OF gc(1,2)]) (simp add: record_blocked_def served_checkpoint_def)
  qed
  then have "disk_ok e f (record_blocked ok b m d) \<and> path_ok f m (record_blocked ok b m d)"
  proof cases
    case (stored g c)
    have "disk_ok e f (record_blocked ok b m d)"
      unfolding stored(3)
    proof (rule disk_store [OF assms(1)])
      assume "ck_epoch ((served_checkpoint m g d)\<lparr>ck_base := gi_id g, ck_epoch := gi_store_epoch g,
              ck_representation := gi_representation g, ck_dimension := g_dimension g, ck_base_hlc := gi_hlc g,
              ck_consumed := c, ck_seq := m_seq m, ck_blocked := Some b\<rparr>) = fs_epoch f"
      then show "ck_mirror e f ((served_checkpoint m g d)\<lparr>ck_base := gi_id g, ck_epoch := gi_store_epoch g,
              ck_representation := gi_representation g, ck_dimension := g_dimension g, ck_base_hlc := gi_hlc g,
              ck_consumed := c, ck_seq := m_seq m, ck_blocked := Some b\<rparr>)"
        using assms(2,3) stored(1,2) by (intro mirror_of_served [of e f g]) (simp_all add: path_ok_def holds_def mirrors_def)
    qed
    moreover have "path_ok f m (record_blocked ok b m d)"
      unfolding stored(3) using stored(1,2) assms(3) by (auto simp: path_ok_def holds_def)
    ultimately show ?thesis by simp
  qed (use assms in simp)
  then show "disk_ok e f (record_blocked ok b m d)" "path_ok f m (record_blocked ok b m d)" by simp_all
qed

lemma faulted_inv:
  assumes "dinv e (s\<lparr>y_pc := WIdle\<rparr>)"
  shows "dinv e (faulted ok x s)"
proof (cases "\<exists>evs why. x = DeltaBlocked evs why")
  case True
  then obtain evs why where "x = DeltaBlocked evs why" by blast
  then show ?thesis
    using assms record_blocked_ok [of e "y_facts s" "y_disk s" "y_machine s" ok "(evs, why)"]
    by (simp add: dinv_def faulted_def take_fault_def)
next
  case False
  then have "take_fault ok x (y_machine s) (y_disk s) = ((y_machine s)\<lparr>m_last_error := Some x\<rparr>, y_disk s)"
    by (auto simp: take_fault_def split: fault.splits)
  then show ?thesis using assms by (simp add: dinv_def faulted_def)
qed

lemma dinv_pc: "dinv e s \<Longrightarrow> at_point (y_facts s) (y_machine s) pc \<Longrightarrow> dinv e (s\<lparr>y_pc := pc\<rparr>)"
  by (simp add: dinv_def)

lemma identity_facts: "read_identity f = Inr i \<Longrightarrow> i = (fs_epoch f, fs_clock f)"
  by (auto simp: read_identity_def split: if_splits)

lemma pick_inv: "dinv e s \<Longrightarrow> dinv e (s\<lparr>y_pc := pick (y_machine s)\<rparr>)"
  by (rule dinv_pc, assumption, cases "m_snapshot (y_machine s)")
    (auto simp: pick_def dinv_def serves_def has_epoch_def split: option.splits)

lemma identify_inv:
  assumes "dinv e s" "y_pc s = WIdent ep" "identify (y_facts s) ep = Inr pc"
  shows "dinv e (s\<lparr>y_pc := pc\<rparr>)"
proof (rule dinv_pc [OF assms(1)])
  obtain i where i: "read_identity (y_facts s) = Inr i"
    using assms(3) by (cases "read_identity (y_facts s)") (auto simp: identify_def)
  then show "at_point (y_facts s) (y_machine s) pc"
    using assms identity_facts [OF i] by (cases ep) (auto simp: identify_def dinv_def split: if_splits)
qed

lemma read_batch_inv:
  assumes "dinv e s" "y_pc s = WBatch ep u" "read_batch (y_facts s) ep u (y_machine s) = Inr pc"
  shows "dinv e (s\<lparr>y_pc := pc\<rparr>)"
proof (rule dinv_pc [OF assms(1)])
  have at: "ep = fs_epoch (y_facts s)" "u \<le> fs_clock (y_facts s)" "has_epoch (y_machine s) ep"
    using assms(1,2) by (auto simp: dinv_def)
  show "at_point (y_facts s) (y_machine s) pc"
  proof (cases "pc = WAfter")
    case False
    then obtain c evs rets where c: "m_consumed (y_machine s) = Some c" "\<not> u \<le> c"
      "read_changes (y_facts s) c u = Inr (evs, rets)" "pc = WChanges ep u evs rets"
      using assms(3) by (auto simp: read_batch_def split: option.splits if_splits sum.splits)
    then show ?thesis using at window_read(2,3) [OF c(3)] by (simp add: not_le)
  qed simp
qed

text \<open>The durable transaction of a batch.\<close>

lemma write_batch_parts:
  assumes "embed_and_write e ok ep u evs rets m d = Inr (m', d')"
  obtains g vs seq ces crs where "m_gen m = Some g"
    "insert_changes (blob_of e vs) (merge_changes evs rets) (m_seq m) [] [] = (seq, ces, crs)"
    "keys_distinct (ck_events (served_checkpoint m g d) @ ces) (ck_retractions (served_checkpoint m g d) @ crs)"
    "m' = m\<lparr>m_seq := seq, m_consumed := Some u, m_events := m_events m @ plain_events ces,
       m_retractions := m_retractions m @ plain_retractions crs\<rparr>"
    "d' = store_checkpoint (m_path m) ((served_checkpoint m g d)\<lparr>ck_base := gi_id g, ck_epoch := ep,
       ck_representation := gi_representation g, ck_dimension := g_dimension g, ck_base_hlc := gi_hlc g,
       ck_consumed := u, ck_seq := seq, ck_events := ck_events (served_checkpoint m g d) @ ces,
       ck_retractions := ck_retractions (served_checkpoint m g d) @ crs\<rparr>) d"
proof -
  obtain g where g: "m_gen m = Some g" using assms by (auto simp: embed_and_write_def split: option.splits)
  obtain vs where vs: "absorb e (m_rep m) (g_dimension g) evs rets = Inr vs"
    using assms g by (auto simp: embed_and_write_def split: sum.splits)
  then have w: "write_batch e ok g evs rets vs ep u m d = Inr (m', d')"
    using assms g by (simp add: embed_and_write_def)
  obtain seq ces crs where i: "insert_changes (blob_of e vs) (merge_changes evs rets) (m_seq m) [] [] = (seq, ces, crs)"
    by (cases "insert_changes (blob_of e vs) (merge_changes evs rets) (m_seq m) [] []")
  show thesis
    by (rule that [OF g i])
      (use w i in \<open>auto simp: write_batch_def served_checkpoint_def plain_events_def plain_retractions_def Let_def
         split: if_splits\<close>)
qed

lemma write_inv:
  assumes inv: "dinv e s" and pc: "y_pc s = WChanges ep u evs rets"
    and w: "embed_and_write e ok ep u evs rets (y_machine s) (y_disk s) = Inr (m', d')"
  shows "dinv e (s\<lparr>y_machine := m', y_disk := d', y_pc := WCommitted\<rparr>)"
proof -
  let ?f = "y_facts s" and ?m = "y_machine s" and ?d = "y_disk s"
  obtain g vs seq ces crs where p: "m_gen ?m = Some g"
    "insert_changes (blob_of e vs) (merge_changes evs rets) (m_seq ?m) [] [] = (seq, ces, crs)"
    "keys_distinct (ck_events (served_checkpoint ?m g ?d) @ ces) (ck_retractions (served_checkpoint ?m g ?d) @ crs)"
    and m': "m' = ?m\<lparr>m_seq := seq, m_consumed := Some u, m_events := m_events ?m @ plain_events ces,
       m_retractions := m_retractions ?m @ plain_retractions crs\<rparr>"
    and d': "d' = store_checkpoint (m_path ?m) ((served_checkpoint ?m g ?d)\<lparr>ck_base := gi_id g, ck_epoch := ep,
       ck_representation := gi_representation g, ck_dimension := g_dimension g, ck_base_hlc := gi_hlc g,
       ck_consumed := u, ck_seq := seq, ck_events := ck_events (served_checkpoint ?m g ?d) @ ces,
       ck_retractions := ck_retractions (served_checkpoint ?m g ?d) @ crs\<rparr>) ?d"
    by (rule write_batch_parts [OF w])
  let ?old = "served_checkpoint ?m g ?d"
  obtain c where at: "ep = fs_epoch ?f" "u \<le> fs_clock ?f" "gi_store_epoch g = ep" "m_consumed ?m = Some c" "c < u"
    "set evs = {ev \<in> set (fs_events ?f). c < se_hlc ev \<and> se_hlc ev \<le> u}"
    "set rets = {r \<in> set (fs_retractions ?f). c < snd r \<and> snd r \<le> u}"
    using inv pc p(1) by (auto simp: dinv_def has_epoch_def)
  have f: "facts_ok ?f" and ms: "mirrors e ?f ?m" and dk: "disk_ok e ?f ?d" and pk: "path_ok ?f ?m ?d"
    and sv: "serves e ?f ?m" and wt: "\<forall>i\<in>y_waiting s. fst i = fs_epoch ?f \<and> snd i \<le> fs_clock ?f"
    using inv by (simp_all add: dinv_def)
  note i = insert_merged [OF p(2)]
  have old: "mirror_ok e ?f g (m_events ?m) (m_retractions ?m) c" "genuine e ?f g"
    "m_commits ?m = read_base_commits ?f (gi_hlc g)"
    using ms p(1) at by (auto simp: mirrors_def)
  have ids: "distinct (map (se_id \<circ> fst) ces)" "distinct (map fst crs)" using p(3) by (simp_all add: keys_distinct_def)
  have new: "mirror_ok e ?f g (m_events ?m @ plain_events ces) (m_retractions ?m @ plain_retractions crs) u"
    by (rule mirror_advance [OF f old(1) less_imp_le [OF at(5)] at(2,6,7)]) (use i ids in simp_all)
  then have "mirrors e ?f m'" using p(1) old by (simp add: mirrors_def m')
  moreover have "serves e ?f m'" using sv by (simp add: serves_def m')
  moreover have "path_ok ?f m' d'"
    using pk p(1) at unfolding m' d' by (simp add: path_ok_def holds_def served_checkpoint_def store_checkpoint_def map_of_update)
  moreover have "disk_ok e ?f d'"
    unfolding d'
  proof (rule disk_store [OF dk])
    have "holds ?old g ?m c" using pk p(1) at by (simp add: path_ok_def)
    then show "ck_mirror e ?f (?old\<lparr>ck_base := gi_id g, ck_epoch := ep,
       ck_representation := gi_representation g, ck_dimension := g_dimension g, ck_base_hlc := gi_hlc g,
       ck_consumed := u, ck_seq := seq, ck_events := ck_events ?old @ ces,
       ck_retractions := ck_retractions ?old @ crs\<rparr>)"
      using new by (intro mirror_of_served [of e ?f g]) (simp_all add: holds_def)
  qed
  ultimately show ?thesis using f wt by (simp add: dinv_def)
qed

lemma publish_inv:
  assumes "dinv e s" "publish_snapshot (y_machine s) = Inr m'"
    and pc: "pc \<in> {WIdle, WCommitted, WAfter}"
  shows "dinv e (s\<lparr>y_machine := m', y_pc := pc\<rparr>)"
proof -
  obtain sn where "m' = (y_machine s)\<lparr>m_snapshot := Some sn\<rparr>" "serves e (y_facts s) m'"
    using publish_serves [OF _ _ assms(2)] assms(1) by (auto simp: dinv_def)
  then show ?thesis using assms(1) pc by (auto simp: dinv_def)
qed

lemma republish_inv:
  assumes "dinv e s" "republish (y_machine s) = Inr m'"
  shows "dinv e (s\<lparr>y_machine := m', y_pc := WIdle\<rparr>)"
proof (cases "m' = y_machine s")
  case True
  then show ?thesis using dinv_pc [OF assms(1), of WIdle] by simp
next
  case False
  then have "publish_snapshot (y_machine s) = Inr m'"
    using assms(2) by (auto simp: republish_def split: option.splits if_splits)
  then show ?thesis by (rule publish_inv [OF assms(1)]) simp
qed

lemma switch_cases:
  obtains (refused) ok why where "perform_switch blob_ok f (gid, rep, ex) m d = finish_publish ok why m"
    | (swapped) g ck sn where "map_of (k_gens d) gid = Some g" "map_of (k_ckpts d) gid = Some ck"
        "open_checkpoint blob_ok ck g rep f = None"
        "build_snapshot g (read_base_commits f (gi_hlc g)) (plain_events (ck_events ck))
           (plain_retractions (ck_retractions ck)) (ck_consumed ck) (ck_seq ck) = Inr sn"
        "snapshot_matches f sn"
        "perform_switch blob_ok f (gid, rep, ex) m d = finish_publish True []
           (m\<lparr>m_gen := Some g, m_rep := rep, m_commits := read_base_commits f (gi_hlc g),
              m_events := plain_events (ck_events ck), m_retractions := plain_retractions (ck_retractions ck),
              m_consumed := Some (ck_consumed ck), m_seq := ck_seq ck, m_declared := gid, m_path := gid,
              m_blocked := None, m_refuse := None, m_snapshot := Some sn\<rparr>)"
proof (cases "\<exists>ok why. perform_switch blob_ok f (gid, rep, ex) m d = finish_publish ok why m")
  case False
  then have no: "perform_switch blob_ok f (gid, rep, ex) m d \<noteq> finish_publish ok why m" for ok why by blast
  note n = no [of False "''publish switch rejected''"]
  obtain epoch clock where i: "read_identity f = Inr (epoch, clock)"
    using n by (cases "read_identity f") (auto simp: perform_switch_def)
  have ep: "epoch = ex"
    using no [of False "''store epoch changed; publish aborted''"] i
    by (cases "epoch = ex") (simp_all add: perform_switch_def)
  obtain g where g: "map_of (k_gens d) gid = Some g"
    using n i ep by (cases "map_of (k_gens d) gid") (auto simp: perform_switch_def)
  obtain ck where ck: "map_of (k_ckpts d) gid = Some ck"
    using n i ep g by (cases "map_of (k_ckpts d) gid") (auto simp: perform_switch_def)
  have op: "open_checkpoint blob_ok ck g rep f = None"
    using n i ep g ck by (cases "open_checkpoint blob_ok ck g rep f") (auto simp: perform_switch_def)
  let ?build = "build_snapshot g (read_base_commits f (gi_hlc g)) (map (\<lambda>(s, b, n). (s, b)) (ck_events ck))
     (map (\<lambda>(c, h, n). (c, h)) (ck_retractions ck)) (ck_consumed ck) (ck_seq ck)"
  obtain sn where sn: "?build = Inr sn"
    using n i ep g ck op by (cases ?build) (auto simp: perform_switch_def)
  have sm: "snapshot_matches f sn"
    using n i ep g ck op sn by (cases "snapshot_matches f sn") (auto simp: perform_switch_def)
  have cl: "\<not> m_closed m"
    using no [of False "''delta machine is closed''"] i ep g ck op sn sm by (auto simp: perform_switch_def)
  show thesis
    by (rule swapped [OF g ck op sn [folded plain_events_def plain_retractions_def] sm])
      (use i ep g ck op sn sm cl in \<open>simp add: perform_switch_def plain_events_def plain_retractions_def\<close>)
qed (use refused in blast)

lemma switch_inv:
  assumes inv: "dinv e s"
  shows "dinv e (s\<lparr>y_machine := perform_switch blob_ok (y_facts s) p (y_machine s) (y_disk s), y_pc := WIdle\<rparr>)"
proof -
  let ?f = "y_facts s" and ?m = "y_machine s" and ?d = "y_disk s"
  obtain gid rep ex where p: "p = (gid, rep, ex)" by (cases p)
  show ?thesis
  proof (cases rule: switch_cases [of blob_ok ?f gid rep ex ?m ?d])
    case (refused ok why)
    then show ?thesis using inv by (simp add: p dinv_def finish_publish_def)
  next
    case (swapped g ck sn)
    let ?m' = "?m\<lparr>m_gen := Some g, m_rep := rep, m_commits := read_base_commits ?f (gi_hlc g),
              m_events := plain_events (ck_events ck), m_retractions := plain_retractions (ck_retractions ck),
              m_consumed := Some (ck_consumed ck), m_seq := ck_seq ck, m_declared := gid, m_path := gid,
              m_blocked := None, m_refuse := None, m_snapshot := Some sn\<rparr>"
    have f: "facts_ok ?f" and dk: "disk_ok e ?f ?d" using inv by (simp_all add: dinv_def)
    note o = open_checkpoint_facts [OF swapped(3)]
    have g: "genuine e ?f g" and ck: "ck_mirror e ?f ck"
      using disk_gen [OF dk swapped(1)] disk_ckpt [OF dk swapped(2)] o by simp_all
    have m: "mirror_ok e ?f g (plain_events (ck_events ck)) (plain_retractions (ck_retractions ck)) (ck_consumed ck)"
      using ck g o by (simp add: ck_mirror_def)
    have "snapshot_ok e ?f sn" by (rule snapshot_of_mirror_ok [OF f m swapped(4)])
    moreover have "holds ck g ?m' (ck_consumed ck)" using o by (simp add: holds_def)
    then have "path_ok ?f ?m' ?d" using swapped(2) by (simp add: path_ok_def served_checkpoint_def)
    moreover have "mirrors e ?f ?m'" using g m by (simp add: mirrors_def)
    ultimately have "dinv e (s\<lparr>y_machine := ?m', y_pc := WIdle\<rparr>)"
      using inv build_snapshot_epoch [OF swapped(4)] by (simp add: dinv_def serves_def)
    then show ?thesis unfolding p swapped(6) finish_publish_def by (simp add: dinv_def)
  qed
qed

lemma rebuild_inv:
  assumes inv: "dinv e s"
  shows "dinv e (rebuild_step ok t s)"
proof -
  let ?m = "rebuild_clear (y_machine s)"
  have go: "dinv e (s\<lparr>y_machine := clear_mirror ?m, y_disk := drop_checkpoint (m_path ?m) (y_disk s),
      y_pc := WOpen target\<rparr>)" for target
    using inv disk_drop by (simp add: dinv_def rebuild_clear_def clear_mirror_def mirrors_def serves_def path_ok_def)
  have "dinv e (s\<lparr>y_machine := ?m, y_pc := WIdle\<rparr>)"
    using inv by (simp add: dinv_def rebuild_clear_def serves_def)
  then have "dinv e (faulted ok x (s\<lparr>y_machine := ?m\<rparr>))" for x by (intro faulted_inv) simp
  then show ?thesis
    using go dinv_pc [OF inv, of WIdle] by (auto simp: rebuild_step_def Let_def split: option.splits sum.splits)
qed

lemma target_sel [simp]:
  "gi_store_epoch (target_of e rep ep h evs) = ep" "gi_hlc (target_of e rep ep h evs) = h"
  "g_rows (target_of e rep ep h evs) = map (row_of e) evs"
  "gi_representation (target_of e rep ep h evs) = rep" "g_dimension (target_of e rep ep h evs) = d_dimension e rep"
  by (simp_all add: target_of_def Let_def gen_identity.defs base_gen.defs)

lemma target_genuine:
  "h \<le> fs_clock f \<Longrightarrow> genuine e f (target_of e rep (fs_epoch f) h (read_active_events f h))"
  by (simp add: genuine_def)

lemma build_result:
  assumes "build_generation e ch rep f d = (r, d')"
  shows "k_ckpts d' = k_ckpts d" "r = Inl x \<Longrightarrow> k_gens d' = k_gens d"
    "r = Inr g \<Longrightarrow> genuine e f g" "r = Inr g \<Longrightarrow> k_gens d' = (gi_id g, g) # k_gens d"
    "r = Inr g \<Longrightarrow> gi_store_epoch g = fs_epoch f"
proof -
  have id: "i = (fs_epoch f, fs_clock f)" if "read_identity f = Inr i" for i by (rule identity_facts [OF that])
  show "k_ckpts d' = k_ckpts d" "r = Inl x \<Longrightarrow> k_gens d' = k_gens d"
    "r = Inr g \<Longrightarrow> genuine e f g" "r = Inr g \<Longrightarrow> k_gens d' = (gi_id g, g) # k_gens d"
    "r = Inr g \<Longrightarrow> gi_store_epoch g = fs_epoch f"
    using assms by (auto simp: build_generation_def Let_def target_genuine split: sum.splits option.splits if_splits dest!: id)
qed

lemma build_disk:
  assumes "disk_ok e f d" "build_generation e ch rep f d = (r, d')"
  shows "disk_ok e f d'"
proof (cases r)
  case (Inl x)
  then show ?thesis using assms build_result(1,2) [OF assms(2)] by (simp add: disk_ok_def)
next
  case (Inr g)
  then show ?thesis using assms build_result [OF assms(2)] by (auto simp: disk_ok_def)
qed

lemma open_result:
  assumes "disk_ok e f d" "rebuild_open e ch f t m d = (r, d')"
  shows "disk_ok e f d'" "k_ckpts d' = k_ckpts d"
    "r = Inr g \<Longrightarrow> gi_store_epoch g = fs_epoch f \<Longrightarrow> genuine e f g"
proof -
  consider "build_generation e ch (m_rep m) f d = (r, d')"
    | g0 where "map_of (k_gens d) (m_declared m) = Some g0" "r = Inr g0" "d' = d"
  proof (cases "map_of (k_gens d) (m_declared m)")
    case (Some g0)
    then show thesis using that assms(2) by (cases "gi_store_epoch g0 = t") (simp_all add: rebuild_open_def)
  qed (use that(1) assms(2) in \<open>simp add: rebuild_open_def\<close>)
  then have "disk_ok e f d' \<and> k_ckpts d' = k_ckpts d \<and> (r = Inr g \<longrightarrow> gi_store_epoch g = fs_epoch f \<longrightarrow> genuine e f g)"
  proof cases
    case 1
    show ?thesis using build_disk [OF assms(1) 1] build_result(1,3) [OF 1] by blast
  next
    case (2 g0)
    show ?thesis using assms(1) disk_gen [OF assms(1) 2(1)] 2(2,3) by auto
  qed
  then show "disk_ok e f d'" "k_ckpts d' = k_ckpts d"
    "r = Inr g \<Longrightarrow> gi_store_epoch g = fs_epoch f \<Longrightarrow> genuine e f g" by simp_all
qed

lemma dinv_disk: "dinv e s \<Longrightarrow> disk_ok e (y_facts s) d \<Longrightarrow> k_ckpts d = k_ckpts (y_disk s) \<Longrightarrow> dinv e (s\<lparr>y_disk := d\<rparr>)"
  by (simp add: dinv_def path_ok_def served_checkpoint_def)

lemma installed_inv:
  assumes inv: "dinv e s" and pc: "y_pc s = WOpen t" and disk: "disk_ok e (y_facts s) d" "k_ckpts d = k_ckpts (y_disk s)"
    and g: "gi_store_epoch g = fs_epoch (y_facts s) \<Longrightarrow> genuine e (y_facts s) g"
    and fresh: "gi_id g \<notin> fst ` set (k_ckpts (y_disk s))"
  shows "dinv e (s\<lparr>y_disk := d, y_machine := installed (y_facts s) g (y_machine s), y_pc := WIdle\<rparr>)"
proof -
  let ?f = "y_facts s" and ?m = "installed (y_facts s) g (y_machine s)"
  have e: "m_events (y_machine s) = []" "m_retractions (y_machine s) = []" "m_snapshot (y_machine s) = None"
    using inv pc by (simp_all add: dinv_def)
  have ok: "facts_ok ?f" using inv by (simp add: dinv_def)
  have "map_of (k_ckpts d) (gi_id g) = None" using fresh disk(2) by (simp add: map_of_eq_None_iff)
  then have "path_ok ?f ?m d"
    by (simp add: path_ok_def holds_def served_checkpoint_def installed_def e fresh_checkpoint_def)
  moreover have "mirrors e ?f ?m"
    using g mirror_start [OF ok] by (simp add: mirrors_def installed_def e)
  moreover have "serves e ?f ?m" by (simp add: serves_def installed_def e)
  ultimately show ?thesis using inv disk by (simp add: dinv_def)
qed

lemma open_inv:
  assumes inv: "dinv e s" and pc: "y_pc s = WOpen t"
    and fresh: "\<And>g d. rebuild_open e ch (y_facts s) t (y_machine s) (y_disk s) = (Inr g, d) \<Longrightarrow>
      gi_id g \<notin> fst ` set (k_ckpts (y_disk s))"
  shows "dinv e (open_step e ok ch t s)"
proof -
  have disk: "disk_ok e (y_facts s) (y_disk s)" using inv by (simp add: dinv_def)
  obtain r d where r: "rebuild_open e ch (y_facts s) t (y_machine s) (y_disk s) = (r, d)" by fastforce
  note res = open_result [OF disk r]
  have idle: "dinv e (s\<lparr>y_disk := d, y_pc := WIdle\<rparr>)"
    using dinv_disk [OF dinv_pc [OF inv, of WIdle], of d] res(1,2) by (simp add: dinv_def)
  show ?thesis
  proof (cases r)
    case (Inl x)
    then show ?thesis using faulted_inv [of e "s\<lparr>y_disk := d\<rparr>" ok x] idle r by (simp add: open_step_def)
  next
    case (Inr g)
    let ?m = "installed (y_facts s) g (y_machine s)"
    have m: "dinv e (s\<lparr>y_disk := d, y_machine := ?m, y_pc := WIdle\<rparr>)"
      by (rule installed_inv [OF inv pc res(1,2)]) (use res(3) fresh r Inr in auto)
    show ?thesis
    proof (cases "publish_snapshot ?m")
      case (Inl x)
      then show ?thesis
        using faulted_inv [of e "s\<lparr>y_disk := d, y_machine := ?m\<rparr>" ok x] m idle r \<open>r = Inr g\<close>
        by (simp add: open_step_def Let_def)
    next
      case (Inr m')
      then show ?thesis
        using publish_inv [OF m, of m' WIdle] idle r \<open>r = Inr g\<close> by (simp add: open_step_def Let_def)
    qed
  qed
qed

lemma worker_inv:
  assumes inv: "dinv e s"
    and fresh: "\<And>t g d. y_pc s = WOpen t \<Longrightarrow> rebuild_open e ch (y_facts s) t (y_machine s) (y_disk s) = (Inr g, d) \<Longrightarrow>
      gi_id g \<notin> fst ` set (k_ckpts (y_disk s))"
  shows "dinv e (worker_step e blob_ok ok ch s)"
proof -
  have bad: "dinv e (faulted ok x s)" for x by (rule faulted_inv [OF dinv_pc [OF inv]]) simp
  show ?thesis
  proof (cases "y_pc s")
    case (WIdent ep)
    then show ?thesis
      using bad identify_inv [OF inv WIdent] by (simp add: worker_step_def Let_def split: sum.split)
  next
    case (WBatch ep u)
    then show ?thesis
      using bad read_batch_inv [OF inv WBatch] by (simp add: worker_step_def Let_def split: sum.split)
  next
    case (WChanges ep u evs rets)
    then show ?thesis
      using bad write_inv [OF inv WChanges] by (auto simp: worker_step_def Let_def split: sum.split)
  next
    case (WOpen t)
    then show ?thesis using open_inv [OF inv WOpen] fresh by (simp add: worker_step_def Let_def)
  qed (use inv bad pick_inv [OF inv] publish_inv [OF inv] republish_inv [OF inv] switch_inv [OF inv] rebuild_inv [OF inv]
       in \<open>simp_all add: worker_step_def Let_def split: sum.split\<close>)
qed

subsection \<open>The other actors\<close>

lemma served_filter:
  assumes "\<forall>r\<in>set xs. fst r = k \<longrightarrow> Q r"
  shows "map_of (filter Q xs) k = map_of xs k"
  using assms by (induction xs) auto

lemma sweep_inv: "dinv e s \<Longrightarrow> swept (m_path (y_machine s)) (y_disk s) d \<Longrightarrow> dinv e (s\<lparr>y_disk := d\<rparr>)"
  by (auto simp: dinv_def swept_def disk_ok_def path_ok_def served_checkpoint_def served_filter)

lemma machine_inv:
  assumes "dinv e s" "mirrors e (y_facts s) m" "serves e (y_facts s) m" "path_ok (y_facts s) m (y_disk s)"
    and "at_point (y_facts s) m (y_pc s)"
  shows "dinv e (s\<lparr>y_machine := m\<rparr>)"
  using assms by (simp add: dinv_def)

lemma stop_inv: "dinv e s \<Longrightarrow> dinv e (s\<lparr>y_machine := (y_machine s)\<lparr>m_stopped := b\<rparr>\<rparr>)"
  by (rule machine_inv, assumption) (auto simp: dinv_def elim!: at_point_cong [rotated -1])

lemma request_inv: "dinv e s \<Longrightarrow> dinv e (s\<lparr>y_machine := request_rebuild t (y_machine s)\<rparr>)"
  by (rule machine_inv, assumption) (auto simp: dinv_def request_rebuild_def elim!: at_point_cong [rotated -1])

lemma queue_inv: "dinv e s \<Longrightarrow> dinv e (s\<lparr>y_machine := queue_publish p (y_machine s)\<rparr>)"
  by (rule machine_inv, assumption) (auto simp: dinv_def queue_publish_def elim!: at_point_cong [rotated -1])

lemma close_inv: "dinv e s \<Longrightarrow> dinv e (s\<lparr>y_machine := close_machine (y_machine s)\<rparr>)"
  by (rule machine_inv, assumption)
    (auto simp: dinv_def close_machine_def serves_def elim!: at_point_cong [rotated -1])

lemma discard_inv:
  assumes "dinv e s" "y_pc s = WIdle"
  shows "dinv e (s\<lparr>y_machine := invalidate (y_machine s), y_disk := drop_checkpoint (m_path (y_machine s)) (y_disk s)\<rparr>)"
  using assms disk_drop
  by (auto simp: dinv_def invalidate_def clear_mirror_def mirrors_def serves_def path_ok_def)

lemma retry_inv:
  assumes "dinv e s"
  shows "dinv e (s\<lparr>y_machine := retry_machine (y_machine s), y_disk := retry_disk ok (y_machine s) (y_disk s)\<rparr>)"
proof -
  let ?f = "y_facts s" and ?m = "y_machine s" and ?d = "y_disk s"
  have dk: "disk_ok e ?f ?d" and pk: "path_ok ?f ?m ?d" using assms by (simp_all add: dinv_def)
  have "disk_ok e ?f (retry_disk ok ?m ?d) \<and> path_ok ?f ?m (retry_disk ok ?m ?d)"
  proof (cases "map_of (k_ckpts ?d) (m_path ?m)")
    case (Some ck)
    have "ck_mirror e ?f (ck\<lparr>ck_blocked := None\<rparr>)" if "ck_epoch ck = fs_epoch ?f"
      using disk_ckpt [OF dk Some that] by (simp add: ck_mirror_def)
    then have "disk_ok e ?f (store_checkpoint (m_path ?m) (ck\<lparr>ck_blocked := None\<rparr>) ?d)"
      by (intro disk_store [OF dk]) simp
    moreover have "path_ok ?f ?m (store_checkpoint (m_path ?m) (ck\<lparr>ck_blocked := None\<rparr>) ?d)"
      using pk Some by (auto simp: path_ok_def holds_def served_checkpoint_def store_checkpoint_def map_of_update)
    ultimately show ?thesis using dk pk Some by (simp add: retry_disk_def)
  qed (use dk pk in \<open>simp add: retry_disk_def\<close>)
  moreover have "mirrors e ?f (retry_machine ?m)" "serves e ?f (retry_machine ?m)"
    "path_ok ?f (retry_machine ?m) d = path_ok ?f ?m d" "at_point ?f (retry_machine ?m) (y_pc s)" for d
    using assms by (auto simp: dinv_def retry_machine_def elim!: at_point_cong [rotated -1])
  ultimately show ?thesis using assms by (simp add: dinv_def)
qed

lemma stage_inv:
  assumes inv: "dinv e s" and h: "h \<le> fs_clock (y_facts s)" "h \<le> upper"
    and g: "g = target_of e rep (fs_epoch (y_facts s)) h (read_active_events (y_facts s) h)"
    and ck: "build_staging_delta e (y_facts s) g upper before after = Inr ck"
    and other: "gi_id g \<noteq> m_path (y_machine s)"
  shows "dinv e (s\<lparr>y_disk := (store_checkpoint (gi_id g) ck (y_disk s))\<lparr>k_gens := (gi_id g, g) # k_gens (y_disk s)\<rparr>\<rparr>)"
proof -
  let ?f = "y_facts s"
  have ok: "facts_ok ?f" and dk: "disk_ok e ?f (y_disk s)" using inv by (simp_all add: dinv_def)
  have gen: "genuine e ?f g" unfolding g by (rule target_genuine [OF h(1)])
  have hg: "gi_hlc g = h" by (simp add: g)
  have "ck_base_hlc ck = gi_hlc g" "ck_consumed ck = upper" by (rule staged_parts [OF ck], simp)+
  then have "ck_mirror e ?f ck"
    using staged_mirror(1) [OF ok gen ck] h(2) hg by (intro mirror_of_served [of e ?f g]) simp_all
  then have "disk_ok e ?f (store_checkpoint (gi_id g) ck (y_disk s))" by (intro disk_store [OF dk])
  then have "disk_ok e ?f ((store_checkpoint (gi_id g) ck (y_disk s))\<lparr>k_gens := (gi_id g, g) # k_gens (y_disk s)\<rparr>)"
    using gen dk by (simp add: disk_ok_def store_checkpoint_def)
  then show ?thesis
    using inv other by (simp add: dinv_def path_ok_def served_checkpoint_def store_checkpoint_def map_of_update)
qed

subsection \<open>A start\<close>

text \<open>What every way to load a generation leaves: a disk in order, a machine that mirrors nothing
  yet, and a generation that is genuine when it belongs to the epoch.\<close>

definition empty_handed :: "machine \<Rightarrow> bool" where
  "empty_handed m \<longleftrightarrow> m_gen m = None \<and> m_snapshot m = None \<and> m_consumed m = None"

definition loaded :: "denv \<Rightarrow> facts \<Rightarrow> loading \<Rightarrow> bool" where
  "loaded e f l \<longleftrightarrow>
     (case l of (r, m, d) \<Rightarrow> empty_handed m \<and> disk_ok e f d \<and>
        (\<forall>g. r = Inr (Some g) \<longrightarrow> gi_store_epoch g = fs_epoch f \<longrightarrow> genuine e f g))"

lemma loaded_refused: "empty_handed m \<Longrightarrow> disk_ok e f d \<Longrightarrow> loaded e f (refused b q why m d)"
  by (simp add: loaded_def refused_def refuse_recovery_def empty_handed_def disk_ok_def)

lemma loaded_build:
  assumes "empty_handed m" "disk_ok e f d"
  shows "loaded e f (build_now e q f m d)"
proof -
  obtain r d' where r: "build_generation e (q_changed q) (m_rep m) f d = (r, d')" by fastforce
  show ?thesis
    using assms build_disk [OF assms(2) r] build_result(3) [OF r] r
    by (cases r) (simp_all add: build_now_def loaded_def)
qed

lemma disk_isolate: "disk_ok e f d \<Longrightarrow> disk_ok e f (isolate b gid d)"
  using set_delete [of gid "k_gens d"] by (auto simp: disk_ok_def isolate_def)

lemma disk_activate: "disk_ok e f d \<Longrightarrow> disk_ok e f (snd (activate_rollback q g m d))"
  by (auto simp: disk_ok_def activate_rollback_def)

lemma loaded_recover_from:
  assumes ok: "facts_ok f" and m: "empty_handed m" and d: "disk_ok e f d"
  shows "loaded e f (recover_from e q f rid m d)"
proof (cases "rid = m_declared m \<or> map_of (k_gens d) rid = None")
  case True
  then show ?thesis using loaded_refused [OF m d] by (auto simp: recover_from_def)
next
  case False
  then obtain g where g: "map_of (k_gens d) rid = Some g" and r: "rid \<noteq> m_declared m" by auto
  show ?thesis
  proof (cases "read_identity f")
    case (Inl x)
    then show ?thesis using g r m d by (simp add: recover_from_def loaded_def)
  next
    case (Inr i)
    then have i: "read_identity f = Inr (fs_epoch f, fs_clock f)" using identity_facts by blast
    show ?thesis
    proof (cases "\<exists>ck. gi_store_epoch g = fs_epoch f \<and>
        build_staging_delta e f g (fs_clock f) (fs_epoch f) (Some (fs_epoch f)) = Inr ck")
      case False
      then show ?thesis
        using g r i loaded_refused [OF m d]
        by (cases "build_staging_delta e f g (fs_clock f) (fs_epoch f) (Some (fs_epoch f))")
          (auto simp: recover_from_def)
    next
      case True
      then obtain ck where ep: "gi_store_epoch g = fs_epoch f"
        and ck: "build_staging_delta e f g (fs_clock f) (fs_epoch f) (Some (fs_epoch f)) = Inr ck" by blast
      have gen: "genuine e f g" using disk_gen [OF d g ep] .
      have "ck_base_hlc ck = gi_hlc g" "ck_consumed ck = fs_clock f" by (rule staged_parts [OF ck], simp)+
      then have "ck_mirror e f ck"
        using staged_mirror(1) [OF ok gen ck] gen by (intro mirror_of_served [of e f g]) (simp_all add: genuine_def)
      then have d1: "disk_ok e f (store_checkpoint (gi_id g) ck d)" by (intro disk_store [OF d])
      then have d2: "disk_ok e f ((store_checkpoint (gi_id g) ck d)\<lparr>k_active := rollback_manifest_file q g\<rparr>)"
        by (simp add: disk_ok_def)
      have "empty_handed (fst (activate_rollback q g m d'))" for d'
        using m by (simp add: activate_rollback_def empty_handed_def)
      then have act: "loaded e f (Inr (Some g), activate_rollback q g m (store_checkpoint (gi_id g) ck d))"
        using disk_activate [OF d1] gen by (simp add: loaded_def case_prod_beta)
      show ?thesis
        using g r i ep ck loaded_refused [OF m d] loaded_refused [OF m d1] loaded_refused [OF m d2] act
        by (simp add: recover_from_def Let_def)
    qed
  qed
qed

lemma loaded_recover:
  assumes "facts_ok f" "empty_handed m" "disk_ok e f d"
  shows "loaded e f (recover e q b f m d)"
proof -
  define d' where "d' = (if b then isolate (q_isolates q) (m_declared m) d else d)"
  have d: "disk_ok e f d'" using assms(3) disk_isolate by (simp add: d'_def)
  have "loaded e f (case read_rollback_manifest (k_rollback d') of
        (None, _) \<Rightarrow> refused False q ''no usable rollback'' m d'
      | (Some r, _) \<Rightarrow> recover_from e q f (str_of_val (dget r ''generation_id'')) m d')"
    using loaded_refused [OF assms(2) d] loaded_recover_from [OF assms(1,2) d]
    by (simp split: prod.split option.split)
  then show ?thesis unfolding recover_def Let_def d'_def .
qed

lemma loaded_load:
  assumes "facts_ok f" "empty_handed m" "disk_ok e f d"
  shows "loaded e f (load_or_build e q f m d)"
proof -
  have "loaded e f (Inl x, m, d)" for x using assms by (simp add: loaded_def)
  moreover have "loaded e f (Inr (Some g), m, d)" if "map_of (k_gens d) gid = Some g" for g gid
    using assms disk_gen [OF assms(3) that] by (simp add: loaded_def)
  ultimately show ?thesis
    using loaded_recover [OF assms] loaded_build [OF assms(2,3)]
    by (simp add: load_or_build_def split: prod.split option.split sum.split)
qed

text \<open>The machine over a loaded generation.\<close>

definition machine_ok :: "denv \<Rightarrow> facts \<Rightarrow> machine \<Rightarrow> ddisk \<Rightarrow> bool" where
  "machine_ok e f m d \<longleftrightarrow> disk_ok e f d \<and> mirrors e f m \<and> serves e f m \<and> path_ok f m d"

lemma empty_machine: "empty_handed m \<Longrightarrow> disk_ok e f d \<Longrightarrow> machine_ok e f m d"
  by (simp add: machine_ok_def empty_handed_def mirrors_def serves_def path_ok_def)

lemma published_machine:
  assumes "facts_ok f" "disk_ok e f d" "mirrors e f m" "path_ok f m d" "publish_snapshot m = Inr m'"
  shows "machine_ok e f m' d"
  by (rule publish_serves [OF assms(1,3,5)]) (use assms in \<open>auto simp: machine_ok_def\<close>)

lemma install_ok:
  assumes ok: "facts_ok f" and d: "disk_ok e f d" and g: "genuine e f g"
    and i: "install_base blob_ok f g m0 d = (r, d')"
  shows "disk_ok e f d' \<and> (\<forall>m. r = Inr m \<longrightarrow> machine_ok e f m d')"
proof -
  let ?m = "m0\<lparr>m_gen := Some g, m_commits := read_base_commits f (gi_hlc g)\<rparr>"
  let ?fresh = "(publish_snapshot (replay_from g ?m), drop_checkpoint (m_path ?m) d)"
  have "map_of (AList.delete k xs) k = None" for k :: string and xs :: "(string \<times> checkpoint) list"
    by (simp add: delete_conv')
  then have path: "path_ok f (replay_from g ?m) (drop_checkpoint (m_path ?m) d)"
    by (simp add: path_ok_def holds_def served_checkpoint_def replay_from_def drop_checkpoint_def fresh_checkpoint_def)
  have mir: "mirrors e f (replay_from g ?m)"
    using g mirror_start [OF ok g] by (simp add: mirrors_def replay_from_def)
  have fresh: "?thesis" if "(r, d') = ?fresh"
    using that disk_drop [OF d, of "m_path ?m"] published_machine [OF ok disk_drop [OF d] mir path] by auto
  show ?thesis
  proof (cases "list_ex (\<lambda>r. map_of (m_commits ?m) (gr_id r) = None) (g_rows g)")
    case True
    then show ?thesis using i d by (auto simp: install_base_def Let_def)
  next
    case has: False
    show ?thesis
    proof (cases "\<exists>ck. usable_checkpoint blob_ok g (m_rep ?m) f (map_of (k_ckpts d) (m_path ?m)) = Inr (Some ck)")
      case False
      then have "(r, d') = ?fresh \<or> (\<exists>x. (r, d') = (Inl x, d))"
        using i has by (cases "usable_checkpoint blob_ok g (m_rep ?m) f (map_of (k_ckpts d) (m_path ?m))")
          (auto simp: install_base_def Let_def split: option.splits)
      then show ?thesis using fresh d by auto
    next
      case True
      then obtain ck where u: "usable_checkpoint blob_ok g (m_rep ?m) f (map_of (k_ckpts d) (m_path ?m)) = Inr (Some ck)"
        by blast
      then have k: "map_of (k_ckpts d) (m_path ?m) = Some ck" "open_checkpoint blob_ok ck g (m_rep ?m) f = None"
        by (auto simp: usable_checkpoint_def split: option.splits fault.splits)
      note o = open_checkpoint_facts [OF k(2)]
      have "ck_mirror e f ck" using disk_ckpt [OF d k(1)] o by simp
      then have mo: "mirror_ok e f g (plain_events (ck_events ck)) (plain_retractions (ck_retractions ck)) (ck_consumed ck)"
        using g o by (simp add: ck_mirror_def)
      let ?t = "take_checkpoint ck ?m"
      have t: "mirrors e f ?t"
        using g mo by (simp add: mirrors_def take_checkpoint_def plain_events_def plain_retractions_def)
      have "holds ck g ?t (ck_consumed ck)"
        using o by (simp add: holds_def take_checkpoint_def plain_events_def plain_retractions_def)
      then have p: "path_ok f ?t d"
        using k(1) by (simp add: path_ok_def served_checkpoint_def take_checkpoint_def)
      show ?thesis
      proof (cases "publish_snapshot ?t")
        case (Inl x)
        then show ?thesis using i u d has by (auto simp: install_base_def Let_def)
      next
        case (Inr m')
        have m': "machine_ok e f m' d" by (rule published_machine [OF ok d t p Inr])
        then have b: "machine_ok e f (m'\<lparr>m_blocked := x\<rparr>) d" for x by (simp add: machine_ok_def)
        have "(r, d') = (case ck_blocked ck of
                    Some b \<Rightarrow> (Inr (m'\<lparr>m_blocked := Some b\<rparr>), d)
                  | None \<Rightarrow> if case m_snapshot m' of None \<Rightarrow> False | Some sn \<Rightarrow> snapshot_matches f sn then (Inr m', d) else ?fresh)"
          using i u Inr has by (simp add: install_base_def Let_def)
        then have "(r, d') = ?fresh \<or> (r, d') = (Inr m', d) \<or> (\<exists>x. (r, d') = (Inr (m'\<lparr>m_blocked := x\<rparr>), d))"
          by (cases "ck_blocked ck") (auto simp only: option.case split: if_splits)
        then show ?thesis using fresh d m' b by auto
      qed
    qed
  qed
qed

lemma start_ok:
  assumes ok: "facts_ok f" and d: "disk_ok e f d"
    and st: "start_machine e blob_ok q f declared rep refuse d = (r, d')"
  shows "disk_ok e f d'" "r = Inr m \<Longrightarrow> machine_ok e f m d'"
proof -
  let ?m0 = "(blank_machine declared rep)\<lparr>m_refuse := refuse\<rparr>"
  have "empty_handed ?m0" by (simp add: empty_handed_def blank_machine_def)
  then have "loaded e f (if refuse \<noteq> None then recover e q False f ?m0 d else load_or_build e q f ?m0 d)"
    using loaded_recover [OF ok _ d, of ?m0] loaded_load [OF ok _ d, of ?m0] by (cases "refuse = None") simp_all
  moreover obtain l m1 d1 where l: "(if refuse \<noteq> None then recover e q False f ?m0 d else load_or_build e q f ?m0 d) = (l, m1, d1)"
    by (metis prod_cases3)
  ultimately have ld: "empty_handed m1" "disk_ok e f d1"
    "\<And>g. l = Inr (Some g) \<Longrightarrow> gi_store_epoch g = fs_epoch f \<Longrightarrow> genuine e f g" by (auto simp: loaded_def)
  have st': "(case (l, m1, d1) of
        (Inl (DeltaBlocked evs why), m, d') \<Rightarrow> (Inr (m\<lparr>m_blocked := Some (evs, why)\<rparr>), d')
      | (Inl x, m, d') \<Rightarrow> (Inl x, d')
      | (Inr None, m, d') \<Rightarrow> (Inr m, d')
      | (Inr (Some g), m, d') \<Rightarrow>
          if gi_representation g \<noteq> m_rep m \<or> g_dimension g \<noteq> d_dimension e (m_rep m)
          then (Inl (DeltaError ''generation does not match provider''), d')
          else (case read_identity f of
            Inl x \<Rightarrow> (Inl x, d')
          | Inr (epoch, clock) \<Rightarrow>
              if epoch \<noteq> gi_store_epoch g then (Inl (DeltaError ''generation epoch does not match facts''), d')
              else install_base blob_ok f g m d')) = (r, d')"
    using st unfolding start_machine_def Let_def l .
  have "disk_ok e f d' \<and> (\<forall>m. r = Inr m \<longrightarrow> machine_ok e f m d')"
  proof (cases "\<exists>g. l = Inr (Some g) \<and> gi_store_epoch g = fs_epoch f \<and> install_base blob_ok f g m1 d1 = (r, d')")
    case True
    then show ?thesis using install_ok [OF ok ld(2)] ld(3) by blast
  next
    case False
    then have "d' = d1 \<and> ((\<exists>x. r = Inl x) \<or> r = Inr m1 \<or> (\<exists>b. r = Inr (m1\<lparr>m_blocked := b\<rparr>)))"
      using st' by (auto split: sum.splits option.splits fault.splits if_splits dest!: identity_facts)
    moreover have "machine_ok e f m1 d1" by (rule empty_machine [OF ld(1,2)])
    ultimately show ?thesis using ld(2) by (auto simp: machine_ok_def)
  qed
  then show "disk_ok e f d'" "r = Inr m \<Longrightarrow> machine_ok e f m d'" by simp_all
qed

lemma empty_blank [simp]: "empty_handed (blank_machine declared rep)"
  by (simp add: empty_handed_def blank_machine_def)

lemma empty_inv:
  assumes "dinv e s" "empty_handed m" "disk_ok e (y_facts s) d"
  shows "dinv e (s\<lparr>y_machine := m, y_pc := WIdle, y_disk := d\<rparr>)"
  using assms empty_machine [OF assms(2,3)] by (simp add: dinv_def machine_ok_def)

subsection \<open>Every reachable state\<close>

text \<open>Between a crash and the next start there is no machine.\<close>

definition ginv :: "denv \<Rightarrow> dsys \<Rightarrow> bool" where
  "ginv e s \<longleftrightarrow> dinv e s \<and> (y_running s \<or> y_pc s = WIdle \<and> empty_handed (y_machine s))"

lemma worker_running: "y_running (worker_step e blob_ok ok ch s) = y_running s"
  by (cases "y_pc s")
    (auto simp: worker_step_def faulted_def open_step_def rebuild_step_def Let_def split: sum.splits option.splits prod.splits)

lemma dstep_ginv:
  assumes "dstep e blob_ok s s'" "ginv e s"
  shows "ginv e s'"
  using assms(1)
proof cases
  case (work changed ok)
  have i: "dinv e s" using assms(2) by (simp add: ginv_def)
  show ?thesis
    using work worker_inv [OF i, of changed blob_ok ok] worker_running [of e blob_ok ok changed s] by (simp add: ginv_def)
next
  case crash
  then show ?thesis using assms(2) empty_inv [of e s "blank_machine [] []" "y_disk s"] by (simp add: ginv_def dinv_def)
next
  case (start q declared rep refuse m d)
  have i: "dinv e s" "y_pc s = WIdle" using assms(2) start(2) by (simp_all add: ginv_def)
  have "facts_ok (y_facts s)" "disk_ok e (y_facts s) (y_disk s)" using i by (simp_all add: dinv_def)
  then have "machine_ok e (y_facts s) m d" using start_ok(2) [OF _ _ start(3)] by simp
  then show ?thesis using start i by (simp add: ginv_def dinv_def machine_ok_def)
next
  case (start_fails q declared rep refuse x d)
  have i: "dinv e s" "y_pc s = WIdle" "empty_handed (y_machine s)" using assms(2) start_fails(2) by (simp_all add: ginv_def)
  have "facts_ok (y_facts s)" "disk_ok e (y_facts s) (y_disk s)" using i by (simp_all add: dinv_def)
  then have "disk_ok e (y_facts s) d" using start_ok(1) [OF _ _ start_fails(3)] by simp
  then show ?thesis using empty_machine [OF i(3)] start_fails i by (simp add: ginv_def dinv_def machine_ok_def)
next
  case (ask i)
  then show ?thesis using assms(2) by (auto simp: ginv_def dinv_def gate_open_def split: if_splits sum.splits dest!: identity_facts)
next
  case (answer i t)
  then show ?thesis using assms(2) by (auto simp: ginv_def dinv_def)
qed (use assms(2) in \<open>simp_all add: ginv_def dinv_facts dinv_replace stop_inv request_inv discard_inv retry_inv
    close_inv queue_inv sweep_inv stage_inv\<close>)

lemma dreach_ginv: "dreach e blob_ok s \<Longrightarrow> ginv e s"
proof (induction rule: dreach.induct)
  case (first f)
  then show ?case
    by (simp add: ginv_def dinv_def first_state_def empty_ddisk_def disk_ok_def mirrors_def serves_def path_ok_def blank_machine_def
        empty_handed_def)
qed (rule dstep_ginv)

end
