(* ===== verification/Delta_Claims.thy ===== *)
theory Delta_Claims
  imports Delta_System
begin

text \<open>
  What the delta machine promises: the snapshot a query is given is the facts at its watermark,
  the watermark is never before the query, a staged publication can be switched to, a cycle
  without disturbance opens the gate; and the rebuild that cannot be repeated.
\<close>

subsection \<open>Steps of an undisturbed cycle\<close>

definition quiet :: "machine \<Rightarrow> bool" where
  "quiet m \<longleftrightarrow> \<not> m_stopped m \<and> \<not> m_closed m \<and> m_pending_publish m = None \<and> m_pending_rebuild m = None \<and>
     m_refuse m = None \<and> m_blocked m = None"

lemma read_changes_identity: "read_changes f c u = Inr x \<Longrightarrow> read_identity f = Inr (fs_epoch f, fs_clock f)"
  by (auto simp: read_changes_def read_identity_def split: if_splits)

lemma window_nonempty:
  assumes "read_changes f c u = Inr (evs, rets)" "evs \<noteq> [] \<or> rets \<noteq> []"
  shows "c < u"
proof -
  have "set evs \<noteq> {} \<or> set rets \<noteq> {}" using assms(2) by simp
  then show ?thesis using window_read(2,3) [OF assms(1)] by (auto intro: order.strict_trans2)
qed

lemma window_distinct:
  assumes "facts_ok f" "read_changes f c u = Inr (evs, rets)"
  shows "distinct (map se_id evs)" "distinct (map fst rets)"
  using assms by (auto simp: read_changes_def facts_ok_def distinct_sorted_keys distinct_map_filter split: sum.splits if_splits)

text \<open>No primary key of the checkpoint collides in a reachable state.\<close>

lemma batch_writes:
  assumes inv: "dinv e s" and g: "m_gen (y_machine s) = Some g" "gi_store_epoch g = fs_epoch (y_facts s)"
    and c: "m_consumed (y_machine s) = Some c" and r: "read_changes (y_facts s) c u = Inr (evs, rets)"
    and ne: "evs \<noteq> [] \<or> rets \<noteq> []"
    and vs: "absorb e (m_rep (y_machine s)) (g_dimension g) evs rets = Inr vs"
  obtains m' d' where "embed_and_write e True ep u evs rets (y_machine s) (y_disk s) = Inr (m', d')"
    "m_gen m' = Some g" "m_consumed m' = Some u" "quiet (y_machine s) \<Longrightarrow> quiet m'" "m_snapshot m' = m_snapshot (y_machine s)"
proof -
  let ?f = "y_facts s" and ?m = "y_machine s" and ?d = "y_disk s"
  let ?old = "served_checkpoint ?m g ?d"
  have f: "facts_ok ?f" and mo: "mirror_ok e ?f g (m_events ?m) (m_retractions ?m) c"
    and h: "holds ?old g ?m c"
    using inv g c by (auto simp: dinv_def mirrors_def path_ok_def)
  obtain seq ces crs where i: "insert_changes (blob_of e vs) (merge_changes evs rets) (m_seq ?m) [] [] = (seq, ces, crs)"
    by (cases "insert_changes (blob_of e vs) (merge_changes evs rets) (m_seq ?m) [] []")
  note w = window_read [OF r] and n = insert_merged [OF i] and d = insert_distinct [OF i window_distinct [OF f r]]
  have "mirror_ok e ?f g (m_events ?m @ plain_events ces) (m_retractions ?m @ plain_retractions crs) u"
    by (rule mirror_advance [OF f mo less_imp_le [OF window_nonempty [OF r ne]] w]) (use n d in simp_all)
  then have k: "distinct (map (se_id \<circ> fst) (m_events ?m @ plain_events ces))"
    "distinct (map fst (m_retractions ?m @ plain_retractions crs))" by (simp_all add: mirror_ok_def)
  have "map (se_id \<circ> fst) (m_events ?m) = map (se_id \<circ> fst) (ck_events ?old)"
    "map fst (m_retractions ?m) = map fst (ck_retractions ?old)"
    using h by (metis holds_def plain_sel(2), metis holds_def plain_keys)
  then have "keys_distinct (ck_events ?old @ ces) (ck_retractions ?old @ crs)"
    using k by (simp only: keys_distinct_def map_append plain_sel(2) plain_keys simp_thms)
  then have "embed_and_write e True ep u evs rets ?m ?d = Inr (?m\<lparr>m_seq := seq, m_consumed := Some u,
       m_events := m_events ?m @ plain_events ces, m_retractions := m_retractions ?m @ plain_retractions crs\<rparr>,
     store_checkpoint (m_path ?m) (?old\<lparr>ck_base := gi_id g, ck_epoch := ep,
       ck_representation := gi_representation g, ck_dimension := g_dimension g, ck_base_hlc := gi_hlc g,
       ck_consumed := u, ck_seq := seq, ck_events := ck_events ?old @ ces,
       ck_retractions := ck_retractions ?old @ crs\<rparr>) ?d)"
    using g vs i by (simp add: embed_and_write_def write_batch_def served_checkpoint_def plain_events_def plain_retractions_def Let_def)
  then show thesis by (rule that) (use g in \<open>simp_all add: quiet_def\<close>)
qed

lemma publish_from_mirror:
  assumes inv: "dinv e s" and g: "m_gen (y_machine s) = Some g" "gi_store_epoch g = fs_epoch (y_facts s)"
    and c: "m_consumed (y_machine s) = Some c"
  obtains sn where "publish_snapshot (y_machine s) = Inr ((y_machine s)\<lparr>m_snapshot := Some sn\<rparr>)"
    "sn_consumed sn = c" "sn_epoch sn = fs_epoch (y_facts s)"
proof -
  have f: "facts_ok (y_facts s)" and mo: "mirror_ok e (y_facts s) g (m_events (y_machine s)) (m_retractions (y_machine s)) c"
    and cm: "m_commits (y_machine s) = read_base_commits (y_facts s) (gi_hlc g)"
    using inv g c by (auto simp: dinv_def mirrors_def)
  obtain sn where "build_snapshot g (read_base_commits (y_facts s) (gi_hlc g)) (m_events (y_machine s))
      (m_retractions (y_machine s)) c (m_seq (y_machine s)) = Inr sn" "sn_consumed sn = c" "sn_epoch sn = gi_store_epoch g"
    by (rule snapshot_of_mirror [OF f mo])
  then show thesis by (intro that [of sn]) (use g c cm in \<open>simp_all add: publish_snapshot_def\<close>)
qed

subsection \<open>A small store and a start over it\<close>

definition delta_demo_env :: denv where
  "delta_demo_env = \<lparr>d_embed = (\<lambda>_ _. Inr [FFin 1]), d_dimension = (\<lambda>_. 1), d_norm = (\<lambda>_. FFin 1),
     d_pack = (\<lambda>_. ''v''), d_nfc = (\<lambda>s. s), d_layers = demo_generation,
     d_compose_id = (\<lambda>g _. if gi_hlc g = (5, 0) then ''gen-1'' else ''gen-2'')\<rparr>"

definition delta_demo_event :: "string \<Rightarrow> hlc \<Rightarrow> fact_event" where
  "delta_demo_event n h = \<lparr>se_id = n, se_commit = n, se_schema = ''s'', se_input = ''i'', se_category = ''t'',
     se_text = ''x'', se_hlc = h, fe_preceding = []\<rparr>"

definition delta_demo_facts :: facts where
  "delta_demo_facts = \<lparr>fs_epoch = ''e1'', fs_clock = (5, 0), fs_events = [delta_demo_event ''a'' (5, 0)], fs_retractions = []\<rparr>"

definition delta_demo_later :: facts where
  "delta_demo_later = the (persist_batch ''b'' [(6, delta_demo_event ''b'' (0, 0))] delta_demo_facts)"

definition delta_demo_start :: start_env where
  "delta_demo_start = \<lparr>q_isolates = True, q_unlinks = True, q_manifest = Written, q_changed = False, q_schema = ''1'',
     q_now = 7, q_live = []\<rparr>"

definition delta_demo_load :: "(fault + machine) \<times> ddisk" where
  "delta_demo_load = start_machine delta_demo_env (\<lambda>_ _. True) delta_demo_start delta_demo_facts ''gen-0'' ''r'' None empty_ddisk"

definition delta_demo_state :: dsys where
  "delta_demo_state = (first_state delta_demo_facts)
     \<lparr>y_machine := projr (fst delta_demo_load), y_disk := snd delta_demo_load, y_running := True\<rparr>"

definition delta_demo_gen :: base_gen where
  "delta_demo_gen = the (m_gen (y_machine delta_demo_state))"

definition delta_demo_staged :: checkpoint where
  "delta_demo_staged = projr (build_staging_delta delta_demo_env delta_demo_later delta_demo_gen (6, 0) ''e1'' (Some ''e1''))"

lemma not_isl: "\<not> isl x \<Longrightarrow> x = Inr (projr x)"
  by (cases x) simp_all

lemma delta_demo_ok: "facts_ok delta_demo_facts" "facts_ok delta_demo_later"
  by code_simp+

lemma delta_demo_reached: "dreach delta_demo_env (\<lambda>_ _. True) delta_demo_state"
proof -
  have "\<not> isl (fst delta_demo_load)" by code_simp
  then have "delta_demo_load = (Inr (projr (fst delta_demo_load)), snd delta_demo_load)"
    by (simp add: prod_eq_iff not_isl)
  then have "dstep delta_demo_env (\<lambda>_ _. True) (first_state delta_demo_facts) delta_demo_state"
    unfolding delta_demo_state_def delta_demo_load_def by (intro dstep.start) (simp_all add: first_state_def)
  then show ?thesis using dreach.more dreach.first [OF delta_demo_ok(1)] by blast
qed

lemma delta_demo_serves:
  "m_snapshot (y_machine delta_demo_state) = Some (the (m_snapshot (y_machine delta_demo_state)))"
  "sn_epoch (the (m_snapshot (y_machine delta_demo_state))) = ''e1''"
  "sn_consumed (the (m_snapshot (y_machine delta_demo_state))) = (5, 0)"
proof -
  have "m_snapshot (y_machine delta_demo_state) \<noteq> None" by code_simp
  then show "m_snapshot (y_machine delta_demo_state) = Some (the (m_snapshot (y_machine delta_demo_state)))" by simp
qed code_simp+

lemma delta_demo_writes: "facts_step delta_demo_facts delta_demo_later"
proof (rule facts_step.persist)
  have "persist_batch ''b'' [(6, delta_demo_event ''b'' (0, 0))] delta_demo_facts \<noteq> None" by code_simp
  then show "persist_batch ''b'' [(6, delta_demo_event ''b'' (0, 0))] delta_demo_facts = Some delta_demo_later"
    by (simp add: delta_demo_later_def)
qed

lemma delta_demo_staging:
  "build_staging_delta delta_demo_env delta_demo_later delta_demo_gen (6, 0) ''e1'' (Some ''e1'') = Inr delta_demo_staged"
  "genuine delta_demo_env delta_demo_later delta_demo_gen"
proof -
  have "\<not> isl (build_staging_delta delta_demo_env delta_demo_later delta_demo_gen (6, 0) ''e1'' (Some ''e1''))" by code_simp
  then show "build_staging_delta delta_demo_env delta_demo_later delta_demo_gen (6, 0) ''e1'' (Some ''e1'') = Inr delta_demo_staged"
    unfolding delta_demo_staged_def by (rule not_isl)
qed code_simp

subsection \<open>Properties\<close>

text \<open>C11. The snapshot served for the current epoch is the projection of the facts at its
  watermark: the committed events that no retraction up to it removes, in the order of the fact
  store, the rows of the base generation with their input canonicalized. It holds in every
  reachable state, whatever rebuilds, switches, sweeps, crashes and starts came before.\<close>

theorem served_snapshot_is_the_facts:
  assumes "dreach e blob_ok s" "m_snapshot (y_machine s) = Some sn" "sn_epoch sn = fs_epoch (y_facts s)"
  shows "sn_consumed sn \<le> fs_clock (y_facts s) \<and>
    (\<exists>h. sn_events sn = map (shown e h) (read_active_events (y_facts s) (sn_consumed sn)))"
  using dreach_ginv [OF assms(1)] assms(2,3) by (auto simp: ginv_def dinv_def serves_def snapshot_ok_def)

theorem served_snapshot_is_the_facts_witness:
  "\<exists>h. sn_events (the (m_snapshot (y_machine delta_demo_state))) =
     map (shown delta_demo_env h) (read_active_events delta_demo_facts (5, 0))"
  using served_snapshot_is_the_facts [OF delta_demo_reached delta_demo_serves(1)] delta_demo_serves(2,3)
  by (simp add: delta_demo_state_def first_state_def delta_demo_facts_def)

text \<open>C10. A query is never answered from the past: when the gate lets a query through that read
  the clock \<open>h\<close> at its start, every event committed by then is in the snapshot unless a
  retraction up to the snapshot's watermark removes it, and no event is whose commit was
  retracted by then.\<close>

theorem query_is_never_stale:
  assumes "dreach e blob_ok s" "(ep, h) \<in> y_waiting s" "gate_turn (y_machine s) ep h t = Ready sn"
  shows "(\<forall>ev\<in>set (fs_events (y_facts s)). se_hlc ev \<le> h \<longrightarrow>
      \<not> retracted_at (y_facts s) (sn_consumed sn) (se_commit ev) \<longrightarrow> se_id ev \<in> set (map se_id (sn_events sn))) \<and>
    (\<forall>s'\<in>set (sn_events sn). \<not> retracted_at (y_facts s) h (se_commit s'))"
proof -
  have inv: "dinv e s" using dreach_ginv [OF assms(1)] by (simp add: ginv_def)
  have sn: "m_snapshot (y_machine s) = Some sn" "sn_epoch sn = ep" "h \<le> sn_consumed sn"
    using assms(3) by (auto simp: gate_turn_def split: if_splits option.splits)
  have "ep = fs_epoch (y_facts s)" using inv assms(2) by (auto simp: dinv_def)
  then obtain k where k: "sn_events sn = map (shown e k) (read_active_events (y_facts s) (sn_consumed sn))"
    using inv sn by (auto simp: dinv_def serves_def snapshot_ok_def)
  show ?thesis
    using sn(3) retracted_mono [OF sn(3)] unfolding k by (auto simp: set_active image_image intro: order.trans)
qed

theorem query_is_never_stale_witness:
  "''a'' \<in> set (map se_id (sn_events (the (m_snapshot (y_machine delta_demo_state)))))"
proof -
  let ?s = "delta_demo_state\<lparr>y_waiting := insert (''e1'', 5, 0) (y_waiting delta_demo_state)\<rparr>"
  have "gate_open (y_machine delta_demo_state) (y_facts delta_demo_state) = Inr (''e1'', 5, 0)" "y_running delta_demo_state"
    by code_simp+
  then have "dreach delta_demo_env (\<lambda>_ _. True) ?s" using dreach.more [OF delta_demo_reached] dstep.ask by blast
  moreover have "gate_turn (y_machine ?s) ''e1'' (5, 0) False = Ready (the (m_snapshot (y_machine delta_demo_state)))"
    by code_simp
  ultimately have "\<forall>ev\<in>set (fs_events (y_facts ?s)). se_hlc ev \<le> (5, 0) \<longrightarrow>
      \<not> retracted_at (y_facts ?s) (sn_consumed (the (m_snapshot (y_machine delta_demo_state)))) (se_commit ev) \<longrightarrow>
      se_id ev \<in> set (map se_id (sn_events (the (m_snapshot (y_machine delta_demo_state)))))"
    using query_is_never_stale [of delta_demo_env "\<lambda>_ _. True" ?s "''e1''" "(5, 0)" False] dsys.select_convs(6)
    by simp
  moreover have "delta_demo_event ''a'' (5, 0) \<in> set (fs_events (y_facts ?s))" "se_hlc (delta_demo_event ''a'' (5, 0)) \<le> (5, 0)"
    "\<not> retracted_at (y_facts ?s) (sn_consumed (the (m_snapshot (y_machine delta_demo_state))))
       (se_commit (delta_demo_event ''a'' (5, 0)))" "se_id (delta_demo_event ''a'' (5, 0)) = ''a''"
    by code_simp+
  ultimately show ?thesis by metis
qed

text \<open>Comparing event ids is as good as comparing everything: for a checkpoint of rows copied
  from the facts that passes the checks on opening, the snapshot over its generation has the
  event ids of the facts at the watermark exactly when it is the projection of the facts, event
  by event and in order.\<close>

theorem id_check_is_exact:
  assumes "facts_ok f" "genuine e f g" "ck_genuine f ck" "open_checkpoint blob_ok ck g rep f = None"
    and "build_snapshot g (read_base_commits f (gi_hlc g)) (plain_events (ck_events ck))
      (plain_retractions (ck_retractions ck)) (ck_consumed ck) seq = Inr sn"
  shows "snapshot_matches f sn \<longleftrightarrow> sn_events sn = map (shown e (gi_hlc g)) (read_active_events f (ck_consumed ck))"
proof
  assume "snapshot_matches f sn"
  note m = matching_checkpoint [OF assms this]
  obtain sn' where "build_snapshot g (read_base_commits f (gi_hlc g)) (plain_events (ck_events ck))
      (plain_retractions (ck_retractions ck)) (ck_consumed ck) seq = Inr sn'"
    "sn_events sn' = map (shown e (gi_hlc g)) (read_active_events f (ck_consumed ck))"
    by (rule snapshot_of_mirror [OF assms(1) m])
  then show "sn_events sn = map (shown e (gi_hlc g)) (read_active_events f (ck_consumed ck))" using assms(5) by simp
next
  assume eq: "sn_events sn = map (shown e (gi_hlc g)) (read_active_events f (ck_consumed ck))"
  obtain sn' where "build_snapshot g (read_base_commits f (gi_hlc g)) (plain_events (ck_events ck))
      (plain_retractions (ck_retractions ck)) (ck_consumed ck) seq = Inr sn'" "sn_consumed sn' = ck_consumed ck"
    by (rule built_snapshot [OF assms(1,2)])
  then have "sn_consumed sn = ck_consumed ck" using assms(5) by simp
  then show "snapshot_matches f sn" by (simp add: snapshot_matches_def eq image_image)
qed

theorem id_check_is_exact_witness:
  "\<exists>sn. snapshot_matches delta_demo_later sn \<and>
     sn_events sn = map (shown delta_demo_env (5, 0)) (read_active_events delta_demo_later (6, 0))"
proof -
  let ?b = "build_snapshot delta_demo_gen (read_base_commits delta_demo_later (gi_hlc delta_demo_gen))
      (plain_events (ck_events delta_demo_staged)) (plain_retractions (ck_retractions delta_demo_staged))
      (ck_consumed delta_demo_staged) 0"
  have b: "\<not> isl ?b" by code_simp
  have m: "snapshot_matches delta_demo_later (projr ?b)" by code_simp
  have c: "open_checkpoint (\<lambda>_ _. True) delta_demo_staged delta_demo_gen ''r'' delta_demo_later = None"
    "ck_genuine delta_demo_later delta_demo_staged" "gi_hlc delta_demo_gen = (5, 0)" "ck_consumed delta_demo_staged = (6, 0)"
    by code_simp+
  show ?thesis
    using id_check_is_exact [OF delta_demo_ok(2) delta_demo_staging(2) c(2,1) not_isl [OF b]] m c(3,4) by auto
qed

lemma stamp_identity: "0 \<le> fst h \<Longrightarrow> 0 \<le> snd h \<Longrightarrow> 0 \<le> fst (fst (stamp c h b)) \<and> 0 \<le> snd (fst (stamp c h b))"
  by (induction c h b rule: stamp.induct) (auto simp: tick_def Let_def)

lemma step_identity:
  assumes "facts_step f f'" "read_identity f = Inr (fs_epoch f, fs_clock f)"
  shows "read_identity f' = Inr (fs_epoch f', fs_clock f')"
  using assms(1)
proof cases
  case (persist c batch)
  then show ?thesis
    using assms(2) stamp_identity [of "fs_clock f" c batch]
    by (auto simp: persist_batch_def Let_def read_identity_def split: if_splits)
next
  case (retract now c)
  then show ?thesis using assms(2) by (auto simp: append_retraction_def read_identity_def tick_def split: if_splits)
qed

lemma facts_grow_trans:
  assumes "facts_grow f f'" "facts_grow f' f''"
  shows "facts_grow f f''"
proof -
  obtain es rs es' rs' where g: "fs_events f' = fs_events f @ es" "fs_retractions f' = fs_retractions f @ rs"
    "fs_events f'' = fs_events f' @ es'" "fs_retractions f'' = fs_retractions f' @ rs'"
    and late: "\<forall>e\<in>set es. fs_clock f < se_hlc e" "\<forall>r\<in>set rs. fs_clock f < snd r"
      "\<forall>e\<in>set es'. fs_clock f' < se_hlc e" "\<forall>r\<in>set rs'. fs_clock f' < snd r"
    using assms unfolding facts_grow_def by metis
  have le: "fs_clock f \<le> fs_clock f'" using assms(1) by (simp add: facts_grow_def)
  have "\<forall>e\<in>set (es @ es'). fs_clock f < se_hlc e" "\<forall>r\<in>set (rs @ rs'). fs_clock f < snd r"
    using late order.strict_trans1 [OF le] unfolding set_append by blast+
  then show ?thesis using assms g unfolding facts_grow_def by (metis append.assoc order.trans)
qed

lemma steps_grow:
  assumes "rtranclp facts_step f f'" "facts_ok f" "read_identity f = Inr (fs_epoch f, fs_clock f)"
  shows "facts_grow f f' \<and> facts_ok f' \<and> read_identity f' = Inr (fs_epoch f', fs_clock f')"
  using assms(1)
proof (induction rule: rtranclp_induct)
  case base
  then show ?case using assms(2,3) by (simp add: facts_grow_def)
next
  case (step y z)
  then show ?case using facts_step_grows facts_step_ok step_identity facts_grow_trans by blast
qed

lemma staged_opens:
  assumes ck: "build_staging_delta e f g upper ep (Some ep) = Inr ck" and le: "gi_hlc g \<le> upper"
    and pack: "\<forall>v. vector_problem e (g_dimension g) v = None \<longrightarrow> blob_ok (g_dimension g) (d_pack e v)"
    and f': "read_identity f' = Inr (gi_store_epoch g, clock)" "upper \<le> clock"
  shows "open_checkpoint blob_ok ck g (gi_representation g) f' = None"
proof -
  obtain evs rets vs where p: "read_changes f (gi_hlc g) upper = Inr (evs, rets)"
    "absorb e (gi_representation g) (g_dimension g) evs rets = Inr vs"
    "insert_changes (blob_of e vs) (merge_changes evs rets) (-1) [] [] = (ck_seq ck, ck_events ck, ck_retractions ck)"
    "ck_base ck = gi_id g" "ck_epoch ck = gi_store_epoch g" "ck_representation ck = gi_representation g"
    "ck_dimension ck = g_dimension g" "ck_base_hlc ck = gi_hlc g" "ck_consumed ck = upper"
    by (rule staged_parts [OF ck])
  have blobs: "blob_ok (g_dimension g) (fst (snd r))" if r: "r \<in> set (ck_events ck)" for r
  proof -
    obtain ev where ev: "EventChange ev \<in> set (merge_changes evs rets)" "fst (snd r) = blob_of e vs ev"
      using insert_changes_blobs [OF p(3) r] by auto
    then obtain v where "map_of vs (se_id ev) = Some v" "vector_problem e (g_dimension g) v = None"
      using absorbed_vectors [OF p(2)] by (auto simp: set_merge)
    then show ?thesis using pack ev(2) by (simp add: blob_of_def)
  qed
  have late: "gi_hlc g < se_hlc (fst r)" if r: "r \<in> set (ck_events ck)" for r
  proof -
    have "fst r \<in> stored.truncate ` set (surviving evs rets)" using insert_merged(1) [OF p(3)] r by auto
    then show ?thesis using window_read(2) [OF p(1)] by (auto simp: surviving_def)
  qed
  show ?thesis
    using p(4-) f' le staged_sequence [OF ck] blobs late by (auto simp: open_checkpoint_def not_less not_le)
qed



text \<open>C12. The gate opens: when changes lie between the watermark and the clock, the store's window
  can be read, the provider embeds what survives of it and the transaction commits, five steps
  of an undisturbed worker publish a snapshot at the clock, and the queries that wait for it
  are let through. No primary key of the checkpoint is ever in the way.\<close>

theorem one_cycle_opens_the_gate:
  assumes "dreach e blob_ok s" "y_pc s = WIdle" "quiet (y_machine s)"
    and "m_snapshot (y_machine s) = Some sn0" "sn_epoch sn0 = fs_epoch (y_facts s)"
    and "m_gen (y_machine s) = Some g" "m_consumed (y_machine s) = Some c"
    and "read_changes (y_facts s) c (fs_clock (y_facts s)) = Inr (evs, rets)" "evs \<noteq> [] \<or> rets \<noteq> []"
    and "absorb e (m_rep (y_machine s)) (g_dimension g) evs rets = Inr vs"
  shows "\<exists>sn. sn_consumed sn = fs_clock (y_facts s) \<and>
    gate_turn (y_machine ((worker_step e blob_ok True ch ^^ 5) s)) (fs_epoch (y_facts s)) (fs_clock (y_facts s)) t = Ready sn"
proof -
  let ?f = "y_facts s" and ?m = "y_machine s" and ?step = "worker_step e blob_ok True ch"
  let ?ep = "fs_epoch ?f" and ?u = "fs_clock ?f"
  have inv: "dinv e s" using dreach_ginv [OF assms(1)] by (simp add: ginv_def)
  then have g: "gi_store_epoch g = ?ep" using assms(4-6) by (auto simp: dinv_def serves_def)
  note q = assms(3) [unfolded quiet_def]
  obtain m' d' where w: "embed_and_write e True ?ep ?u evs rets ?m (y_disk s) = Inr (m', d')"
    "m_gen m' = Some g" "m_consumed m' = Some ?u" "quiet m'"
    by (rule batch_writes [OF inv assms(6) g assms(7-10)]) (use assms(3) in blast)
  have at: "at_point ?f ?m (WChanges ?ep ?u evs rets)"
    using window_read [OF assms(8)] window_nonempty [OF assms(8,9)] assms(6,7) g by (auto simp: has_epoch_def)
  have inv4: "dinv e (s\<lparr>y_machine := m', y_disk := d', y_pc := WCommitted\<rparr>)"
    using write_inv [OF dinv_pc [OF inv at], of ?ep ?u evs rets True m' d'] w(1) by simp
  obtain sn where sn: "publish_snapshot m' = Inr (m'\<lparr>m_snapshot := Some sn\<rparr>)" "sn_consumed sn = ?u" "sn_epoch sn = ?ep"
    using publish_from_mirror [OF inv4, of g ?u] w(2,3) g by auto
  have "?step s = s\<lparr>y_pc := WIdent (Some ?ep)\<rparr>"
    using assms(2,4,5) q by (simp add: worker_step_def pick_def Let_def)
  moreover have "?step (s\<lparr>y_pc := WIdent (Some ?ep)\<rparr>) = s\<lparr>y_pc := WBatch ?ep ?u\<rparr>"
    using read_changes_identity [OF assms(8)] by (simp add: worker_step_def identify_def Let_def)
  moreover have "?step (s\<lparr>y_pc := WBatch ?ep ?u\<rparr>) = s\<lparr>y_pc := WChanges ?ep ?u evs rets\<rparr>"
    using assms(7-9) window_nonempty [OF assms(8,9)] by (auto simp: worker_step_def read_batch_def Let_def)
  moreover have "?step (s\<lparr>y_pc := WChanges ?ep ?u evs rets\<rparr>) = s\<lparr>y_machine := m', y_disk := d', y_pc := WCommitted\<rparr>"
    using w(1) by (simp add: worker_step_def Let_def)
  moreover have "?step (s\<lparr>y_machine := m', y_disk := d', y_pc := WCommitted\<rparr>) =
      s\<lparr>y_machine := m'\<lparr>m_snapshot := Some sn\<rparr>, y_disk := d', y_pc := WAfter\<rparr>"
    using sn(1) by (simp add: worker_step_def Let_def)
  ultimately have "(?step ^^ 5) s = s\<lparr>y_machine := m'\<lparr>m_snapshot := Some sn\<rparr>, y_disk := d', y_pc := WAfter\<rparr>"
    by (simp add: eval_nat_numeral)
  then show ?thesis using sn w(4) by (auto simp: gate_turn_def quiet_def)
qed

theorem one_cycle_opens_the_gate_witness:
  "\<exists>sn. sn_consumed sn = (6, 0) \<and>
     gate_turn (y_machine ((worker_step delta_demo_env (\<lambda>_ _. True) True False ^^ 5) (delta_demo_state\<lparr>y_facts := delta_demo_later\<rparr>)))
       ''e1'' (6, 0) False = Ready sn"
proof -
  let ?s = "delta_demo_state\<lparr>y_facts := delta_demo_later\<rparr>" and ?m = "y_machine delta_demo_state"
  let ?r = "read_changes delta_demo_later (5, 0) (6, 0)"
  let ?a = "absorb delta_demo_env (m_rep ?m) (g_dimension delta_demo_gen) (fst (projr ?r)) (snd (projr ?r))"
  have "y_facts delta_demo_state = delta_demo_facts" by (simp add: delta_demo_state_def first_state_def)
  then have reach: "dreach delta_demo_env (\<lambda>_ _. True) ?s"
    using dreach.more [OF delta_demo_reached dstep.facts] delta_demo_writes by simp
  have b: "\<not> isl ?r" "\<not> isl ?a" "fst (projr ?r) \<noteq> []" "m_gen ?m \<noteq> None" "m_consumed ?m = Some (5, 0)" "quiet ?m"
    "fs_clock delta_demo_later = (6, 0)" "fs_epoch delta_demo_later = ''e1''" "y_pc delta_demo_state = WIdle" by code_simp+
  have g: "m_gen ?m = Some delta_demo_gen" using b(4) by (simp add: delta_demo_gen_def)
  have r: "?r = Inr (fst (projr ?r), snd (projr ?r))" using not_isl [OF b(1)] by simp
  show ?thesis
    using one_cycle_opens_the_gate [OF reach, of "the (m_snapshot ?m)" delta_demo_gen "(5, 0)" "fst (projr ?r)"
        "snd (projr ?r)" "projr ?a" False False]
      b(3,5-) g r not_isl [OF b(2)] delta_demo_serves by simp
qed

lemma built_again:
  assumes b: "build_generation e ch rep f d = (Inr g, d')" and same: "k_gens d2 = k_gens d'"
  shows "build_generation e ch' rep f d2 = (Inl (DeltaError ''generation already exists''), d2)"
proof -
  obtain epoch h where i: "read_identity f = Inr (epoch, h)" using b by (cases "read_identity f") (auto simp: build_generation_def)
  let ?evs = "read_active_events f h"
  have no: "List.find (\<lambda>ev. event_problem ev \<noteq> None) ?evs = None"
    using b i by (cases "List.find (\<lambda>ev. event_problem ev \<noteq> None) ?evs") (simp_all add: build_generation_def Let_def)
  have g: "g = target_of e rep epoch h ?evs" and d': "k_gens d' = (gi_id g, g) # k_gens d"
    using b i no by (auto simp: build_generation_def Let_def split: if_splits sum.splits)
  show ?thesis using i no g d' same by (simp add: build_generation_def Let_def)
qed

lemma open_again:
  assumes o: "rebuild_open e ch f t m d = (Inr g, d')" "k_gens d' \<noteq> k_gens d" "gi_id g \<noteq> m_declared m"
    and m: "m_declared m' = m_declared m" "m_rep m' = m_rep m" and same: "k_gens d2 = k_gens d'"
  shows "rebuild_open e ch' f t m' d2 = (Inl (DeltaError ''generation already exists''), d2)"
proof -
  have b: "build_generation e ch (m_rep m) f d = (Inr g, d')"
  proof (cases "map_of (k_gens d) (m_declared m)")
    case (Some g0)
    then show ?thesis using o(1,2) by (cases "gi_store_epoch g0 = t") (auto simp: rebuild_open_def)
  qed (use o(1) in \<open>simp add: rebuild_open_def\<close>)
  have again: "build_generation e ch' (m_rep m') f d2 = (Inl (DeltaError ''generation already exists''), d2)"
    using built_again [OF b same] m(2) by simp
  have d': "map_of (k_gens d2) (m_declared m) = map_of (k_gens d) (m_declared m)"
    using build_result(4) [OF b] o(3) same by simp
  show ?thesis
  proof (cases "map_of (k_gens d) (m_declared m)")
    case (Some g0)
    then have "gi_store_epoch g0 \<noteq> t" using o(1,2) by (auto simp: rebuild_open_def)
    then show ?thesis using again d' m(1) Some by (simp add: rebuild_open_def)
  qed (use again d' m(1) in \<open>simp add: rebuild_open_def\<close>)
qed

text \<open>C14. A rebuild that built a new generation cannot be repeated: the declared identity stays the
  old one, so the next rebuild for the same facts builds the same generation once more, finds it
  on disk and fails, after it has already dropped the snapshot, the mirror and the checkpoint.
  The machine serves nothing, and the cycle that follows asks for the same rebuild again.\<close>

theorem second_rebuild_is_stuck:
  assumes "rebuild_open e ch (y_facts s) t m d = (Inr g, y_disk s)" "k_gens (y_disk s) \<noteq> k_gens d"
    and "gi_id g \<noteq> m_declared m" "m_declared (y_machine s) = m_declared m" "m_rep (y_machine s) = m_rep m"
    and "y_pc s = WRebuild (Some t)" "\<not> m_closed (y_machine s)" "m_refuse (y_machine s) = None"
  shows "m_snapshot (y_machine (worker_step e blob_ok ok ch' (worker_step e blob_ok ok ch' s))) = None \<and>
    m_last_error (y_machine (worker_step e blob_ok ok ch' (worker_step e blob_ok ok ch' s))) =
      Some (DeltaError ''generation already exists'') \<and>
    pick (y_machine (worker_step e blob_ok ok ch' (worker_step e blob_ok ok ch' s))) = WIdent None"
proof -
  let ?m = "clear_mirror (rebuild_clear (y_machine s))"
  let ?s = "s\<lparr>y_machine := ?m, y_disk := drop_checkpoint (m_path (y_machine s)) (y_disk s), y_pc := WOpen t\<rparr>"
  have one: "worker_step e blob_ok ok ch' s = ?s"
    using assms(6,7) by (simp add: worker_step_def rebuild_step_def rebuild_clear_def Let_def)
  have "rebuild_open e ch' (y_facts s) t ?m (drop_checkpoint p (y_disk s)) =
      (Inl (DeltaError ''generation already exists''), drop_checkpoint p (y_disk s))" for p
    by (rule open_again [OF assms(1-3)])
      (use assms(4,5) in \<open>simp_all add: clear_mirror_def rebuild_clear_def drop_checkpoint_def\<close>)
  then show ?thesis
    using assms(8) unfolding one
    by (simp add: worker_step_def open_step_def faulted_def take_fault_def pick_def clear_mirror_def rebuild_clear_def Let_def)
qed

theorem second_rebuild_is_stuck_witness:
  "m_snapshot (y_machine (worker_step delta_demo_env (\<lambda>_ _. True) True False (worker_step delta_demo_env (\<lambda>_ _. True) True False
     (delta_demo_state\<lparr>y_pc := WRebuild (Some ''e1'')\<rparr>)))) = None"
proof -
  let ?s = "delta_demo_state\<lparr>y_pc := WRebuild (Some ''e1'')\<rparr>" and ?m = "blank_machine ''gen-0'' ''r''"
  let ?o = "rebuild_open delta_demo_env False (y_facts ?s) ''e1'' ?m empty_ddisk"
  have b: "\<not> isl (fst ?o)" "gi_id (projr (fst ?o)) \<noteq> m_declared ?m" "snd ?o = y_disk ?s"
    "k_gens (y_disk ?s) \<noteq> k_gens empty_ddisk" "m_declared (y_machine ?s) = m_declared ?m"
    "m_rep (y_machine ?s) = m_rep ?m" "\<not> m_closed (y_machine ?s)" "m_refuse (y_machine ?s) = None" by code_simp+
  have "?o = (Inr (projr (fst ?o)), y_disk ?s)" using b(3) not_isl [OF b(1)] by (metis prod.collapse)
  then show ?thesis
    using second_rebuild_is_stuck [of delta_demo_env False ?s "''e1''" ?m empty_ddisk "projr (fst ?o)" "\<lambda>_ _. True" True False]
      b(2,4-) by simp
qed

lemma install_keeps:
  assumes "install_base blob_ok f g m d = (r, d')"
  shows "k_gens d' = k_gens d" "k_damaged d' = k_damaged d" "k_active d' = k_active d" "r = Inr m' \<Longrightarrow> m_gen m' = Some g"
proof -
  have pub: "publish_snapshot m1 = Inr m2 \<Longrightarrow> m_gen m2 = m_gen m1" for m1 m2
    by (auto simp: publish_snapshot_def split: option.splits sum.splits)
  have "d' \<in> {d, drop_checkpoint (m_path m) d}"
    using assms by (auto simp: install_base_def Let_def split: sum.splits option.splits if_splits)
  then show "k_gens d' = k_gens d" "k_damaged d' = k_damaged d" "k_active d' = k_active d"
    by (auto simp: drop_checkpoint_def)
  show "m_gen m' = Some g" if "r = Inr m'"
    using assms that
    by (auto simp: install_base_def replay_from_def take_checkpoint_def Let_def split: sum.splits option.splits if_splits
        dest!: pub)
qed

text \<open>A daemon that starts without an active manifest, under a declared identity other than
  the content of the generation it builds, cannot be started again on the same facts: the second
  start looks for the declared generation, builds the same content and fails because it is
  already there.\<close>

theorem restart_before_publication_fails:
  assumes "start_machine e blob_ok q f declared rep None d = (Inr m, d1)"
    and "k_active d = NoFile" "map_of (k_gens d) declared = None" "m_gen m = Some g" "gi_id g \<noteq> declared"
  shows "start_machine e blob_ok q' f declared rep None d1 = (Inl (DeltaError ''generation already exists''), d1)"
proof -
  let ?m0 = "(blank_machine declared rep)\<lparr>m_refuse := None\<rparr>"
  have b0: "m_declared ?m0 = declared" "m_rep ?m0 = rep" by (simp_all add: blank_machine_def)
  have load: "load_or_build e q2 f ?m0 d2 = build_now e q2 f ?m0 d2"
    if "k_active d2 = NoFile" "map_of (k_gens d2) declared = None" for q2 d2
    using that by (simp add: load_or_build_def published_identity_state_def read_active_manifest_def read_manifest_def blank_machine_def)
  obtain r d' where b: "build_generation e (q_changed q) rep f d = (r, d')" by fastforce
  have st: "start_machine e blob_ok q f declared rep None d =
      (case build_now e q f ?m0 d of
        (Inl (DeltaBlocked evs why), m, d') \<Rightarrow> (Inr (m\<lparr>m_blocked := Some (evs, why)\<rparr>), d')
      | (Inl x, m, d') \<Rightarrow> (Inl x, d')
      | (Inr None, m, d') \<Rightarrow> (Inr m, d')
      | (Inr (Some g), m, d') \<Rightarrow>
          if gi_representation g \<noteq> m_rep m \<or> g_dimension g \<noteq> d_dimension e (m_rep m)
          then (Inl (DeltaError ''generation does not match provider''), d')
          else (case read_identity f of
            Inl x \<Rightarrow> (Inl x, d')
          | Inr (epoch, clock) \<Rightarrow>
              if epoch \<noteq> gi_store_epoch g then (Inl (DeltaError ''generation epoch does not match facts''), d')
              else install_base blob_ok f g m d'))"
    using load [OF assms(2,3), of q] by (simp add: start_machine_def Let_def)
  have "\<exists>g'. r = Inr g' \<and> install_base blob_ok f g' ?m0 d' = (Inr m, d1)"
  proof (cases r)
    case (Inl x)
    then have "m_gen m = None"
      using assms(1) st b b0 by (cases x) (auto simp: build_now_def blank_machine_def)
    then show ?thesis using assms(4) by simp
  next
    case (Inr g')
    then show ?thesis using assms(1) st b b0 by (auto simp: build_now_def split: if_splits sum.splits)
  qed
  then obtain g' where g': "r = Inr g'" "install_base blob_ok f g' ?m0 d' = (Inr m, d1)" by blast
  note k = install_keeps [OF g'(2)]
  have "g' = g" using k(4) [OF refl] assms(4) by simp
  then have bg: "build_generation e (q_changed q) rep f d = (Inr g, d')" using b g'(1) by simp
  have again: "build_generation e (q_changed q') rep f d1 = (Inl (DeltaError ''generation already exists''), d1)"
    by (rule built_again [OF bg k(1)])
  have "k_active d' = k_active d"
    using bg by (auto simp: build_generation_def Let_def split: sum.splits option.splits if_splits)
  then have "k_active d1 = NoFile" "map_of (k_gens d1) declared = None"
    using k(1,3) assms(2,3,5) build_result(4) [OF bg refl] by simp_all
  then show ?thesis using again load [of d1 q'] b0 by (simp add: start_machine_def build_now_def Let_def)
qed

theorem restart_before_publication_fails_witness:
  "start_machine delta_demo_env (\<lambda>_ _. True) delta_demo_start delta_demo_facts ''gen-0'' ''r'' None (y_disk delta_demo_state) =
     (Inl (DeltaError ''generation already exists''), y_disk delta_demo_state)"
proof -
  have b: "\<not> isl (fst delta_demo_load)" "m_gen (projr (fst delta_demo_load)) \<noteq> None"
    "gi_id (the (m_gen (projr (fst delta_demo_load)))) \<noteq> ''gen-0''" by code_simp+
  then have "delta_demo_load = (Inr (projr (fst delta_demo_load)), y_disk delta_demo_state)"
    by (simp add: prod_eq_iff not_isl delta_demo_state_def)
  then show ?thesis
    using restart_before_publication_fails [of delta_demo_env "\<lambda>_ _. True" delta_demo_start delta_demo_facts "''gen-0''" "''r''"
        empty_ddisk "projr (fst delta_demo_load)" "y_disk delta_demo_state" "the (m_gen (projr (fst delta_demo_load)))"] b(2,3)
    by (simp add: delta_demo_load_def empty_ddisk_def)
qed

end
