(* ===== verification/Publication.thy ===== *)
theory Publication
  imports Retention Delta
begin

text \<open>
  The publication of a ready staging (\<open>_publish_locked\<close> of \<open>src/daemon/publish.py\<close>) as a state
  machine over the derived root: one step per system call that can fail, so that a crash or a
  loss of power can come between any two. A directory is its entries now and its earlier
  versions since the last \<open>fsync\<close>; a loss of power leaves any version of each directory. What
  the immutable files of a container verify to is a function of its id.
\<close>

subsection \<open>Disk and transaction\<close>

text \<open>Where a reconciliation was called: first of all, or by the handler of the transaction's
  exceptions, with the knowledge that the manifest was replaced.\<close>

datatype pub_ctx = Leading | Handling bool

datatype ppc =
    PIdle
  | PRead pub_ctx | PRestore pub_ctx | PRestoreGens pub_ctx | PRestoreStag pub_ctx
  | PDropTmp pub_ctx | PSyncRoot pub_ctx | PReread bool
  | PFacts | PVerify | PIdentity | PDelta
  | PPark | PMove | PSyncGens | PSyncStag | PSchema | PRetire | PRetireSync | POpen | PReplace
  | PCommitSync | PUnpark | PEndSync
  | PBack | PBackSync | PBackPark
  | PSwitch | PSweep
  | PDone bool bool
  | PRaised

text \<open>\<open>progress.json\<close> parked outside the containers, by generation.\<close>

type_synonym parked = "(string \<times> json_file) list"

record pub_sys =
  z_now :: droot
  z_parked :: parked
  z_gens :: "fs_entries list"
  z_stag :: "(fs_entries \<times> parked) list"
  z_root :: "(json_file \<times> json_file) list"
  z_served :: "string option"
  z_pc :: ppc
  z_gid :: string
  z_tmp :: bool
  z_ref :: bool

record pub_env =
  b_content :: "string \<Rightarrow> gen_identity option"
  b_schema :: string
  b_now :: int
  b_rm :: "string \<Rightarrow> string \<Rightarrow> bool"

text \<open>How a call ends: it works, it fails, an \<open>fsync\<close> is skipped because the directory could not be
  opened, a manifest cannot be read, a deterministic block of the delta.\<close>

datatype pub_answer = Works | Fails | Skips | Garbles | Blocks

text \<open>\<open>open_generation\<close>: exactly the immutable files, and they verify.\<close>

definition opened :: "pub_env \<Rightarrow> fs_entries \<Rightarrow> string \<Rightarrow> gen_identity option" where
  "opened b es gid =
     (case map_of es gid of
        Some (DirEntry n NoFile) \<Rightarrow>
          (case b_content b gid of
             Some g \<Rightarrow> if gi_id g = gid \<and> complete_identity g then Some g else None
           | None \<Rightarrow> None)
      | _ \<Rightarrow> None)"

definition is_dir_in :: "string \<Rightarrow> fs_entries \<Rightarrow> bool" where
  "is_dir_in gid es \<longleftrightarrow> (case map_of es gid of Some node \<Rightarrow> is_dir node | None \<Rightarrow> False)"

definition without :: "string \<Rightarrow> fs_entries \<Rightarrow> fs_entries" where
  "without gid es = filter (\<lambda>e. fst e \<noteq> gid) es"

definition set_gens :: "fs_entries \<Rightarrow> pub_sys \<Rightarrow> pub_sys" where
  "set_gens es s = s\<lparr>z_now := (z_now s)\<lparr>d_generations := es\<rparr>, z_gens := d_generations (z_now s) # z_gens s\<rparr>"

definition set_stag :: "fs_entries \<Rightarrow> parked \<Rightarrow> pub_sys \<Rightarrow> pub_sys" where
  "set_stag es p s = s\<lparr>z_now := (z_now s)\<lparr>d_staging := es\<rparr>, z_parked := p,
     z_stag := (d_staging (z_now s), z_parked s) # z_stag s\<rparr>"

definition set_root :: "json_file \<Rightarrow> json_file \<Rightarrow> pub_sys \<Rightarrow> pub_sys" where
  "set_root a r s = s\<lparr>z_now := (z_now s)\<lparr>d_active := a, d_rollback := r\<rparr>,
     z_root := (d_active (z_now s), d_rollback (z_now s)) # z_root s\<rparr>"

text \<open>\<open>_fsync_directory\<close>: a directory that cannot be opened is silently not synced.\<close>

definition sync_gens :: "pub_answer \<Rightarrow> pub_sys \<Rightarrow> pub_sys" where
  "sync_gens a s = (if a \<in> {Fails, Skips} then s else s\<lparr>z_gens := []\<rparr>)"

definition sync_stag :: "pub_answer \<Rightarrow> pub_sys \<Rightarrow> pub_sys" where
  "sync_stag a s = (if a \<in> {Fails, Skips} then s else s\<lparr>z_stag := []\<rparr>)"

definition sync_root :: "pub_answer \<Rightarrow> pub_sys \<Rightarrow> pub_sys" where
  "sync_root a s = (if a \<in> {Fails, Skips} then s else s\<lparr>z_root := []\<rparr>)"

text \<open>A rename of the container from \<open>staging/\<close> to \<open>generations/\<close> or back.\<close>

definition move_in :: "pub_sys \<Rightarrow> pub_sys" where
  "move_in s =
     (case map_of (d_staging (z_now s)) (z_gid s) of
        None \<Rightarrow> s
      | Some node \<Rightarrow>
          set_stag (without (z_gid s) (d_staging (z_now s))) (z_parked s)
            (set_gens ((z_gid s, node) # d_generations (z_now s)) s))"

definition move_out :: "pub_sys \<Rightarrow> pub_sys" where
  "move_out s =
     (case map_of (d_generations (z_now s)) (z_gid s) of
        None \<Rightarrow> s
      | Some node \<Rightarrow>
          set_gens (without (z_gid s) (d_generations (z_now s)))
            (set_stag ((z_gid s, node) # d_staging (z_now s)) (z_parked s) s))"

text \<open>The progress record of a staging, replaced, and its status marked.\<close>

definition put_progress :: "string \<Rightarrow> json_file \<Rightarrow> fs_entries \<Rightarrow> fs_entries" where
  "put_progress gid p es =
     map (\<lambda>e. if fst e = gid then (fst e, (case snd e of DirEntry n q \<Rightarrow> DirEntry n p | x \<Rightarrow> x)) else e) es"

fun mark_status :: "string \<Rightarrow> json_file \<Rightarrow> json_file" where
  "mark_status st (JsonFile (PDict d)) = JsonFile (PDict (dset ''status'' (PStr st) d))"
| "mark_status st f = f"

definition staging_progress :: "pub_sys \<Rightarrow> json_file" where
  "staging_progress s =
     (case map_of (d_staging (z_now s)) (z_gid s) of Some (DirEntry n p) \<Rightarrow> p | _ \<Rightarrow> NoFile)"

definition staging_state :: "pub_sys \<Rightarrow> string option" where
  "staging_state s =
     (case map_of (d_staging (z_now s)) (z_gid s) of None \<Rightarrow> None | Some node \<Rightarrow> staging_status (z_gid s) node)"

definition mark_staging :: "string \<Rightarrow> pub_sys \<Rightarrow> pub_sys" where
  "mark_staging st s =
     set_stag (put_progress (z_gid s) (mark_status st (staging_progress s)) (d_staging (z_now s))) (z_parked s) s"

definition active_id :: "json_file \<Rightarrow> string option" where
  "active_id f = manifest_id (read_active_manifest f)"

definition rollback_id :: "json_file \<Rightarrow> string option" where
  "rollback_id f = manifest_id (read_rollback_manifest f)"

subsection \<open>The transaction\<close>

definition handler :: "bool \<Rightarrow> pub_sys \<Rightarrow> pub_sys" where
  "handler post s = s\<lparr>z_pc := PRead (Handling post)\<rparr>"

text \<open>\<open>reconcile_active_manifest_commit\<close>. At the start an exception in it leaves the function; in
  the handler it leads to a second look at the manifest.\<close>

definition reconcile_raises :: "pub_ctx \<Rightarrow> pub_sys \<Rightarrow> pub_sys" where
  "reconcile_raises c s = s\<lparr>z_pc := (case c of Leading \<Rightarrow> PRaised | Handling post \<Rightarrow> PReread post)\<rparr>"

definition read_step :: "pub_ctx \<Rightarrow> pub_answer \<Rightarrow> pub_sys \<Rightarrow> pub_sys" where
  "read_step c a s =
     (if active_id (if a = Garbles then Unreadable else d_active (z_now s)) = Some (z_gid s)
      then s\<lparr>z_ref := True, z_pc := PRestore c\<rparr> else s\<lparr>z_ref := False, z_pc := PSyncRoot c\<rparr>)"

definition restore_step :: "pub_ctx \<Rightarrow> pub_answer \<Rightarrow> pub_sys \<Rightarrow> pub_sys" where
  "restore_step c a s =
     (if is_dir_in (z_gid s) (d_generations (z_now s)) \<or> \<not> is_dir_in (z_gid s) (d_staging (z_now s))
      then s\<lparr>z_pc := PDropTmp c\<rparr>
      else if a = Fails \<or> z_gid s \<in> fst ` set (d_generations (z_now s)) then reconcile_raises c s
      else (move_in s)\<lparr>z_pc := PRestoreGens c\<rparr>)"

definition drop_tmp :: "pub_answer \<Rightarrow> pub_sys \<Rightarrow> pub_sys" where
  "drop_tmp a s =
     (if z_tmp s \<and> a \<noteq> Fails
      then set_stag (d_staging (z_now s)) (filter (\<lambda>e. fst e \<noteq> z_gid s) (z_parked s)) s else s)"

definition settle_step :: "pub_ctx \<Rightarrow> pub_answer \<Rightarrow> pub_sys \<Rightarrow> pub_sys" where
  "settle_step c a s =
     (let durable = (a \<noteq> Fails); t = sync_root a s;
          present = is_dir_in (z_gid s) (d_generations (z_now s));
          consistent = (present \<or> \<not> z_ref s) in
      case c of
        Leading \<Rightarrow>
          if z_ref s \<and> consistent
          then t\<lparr>z_pc := (if durable then PFacts else PDone False True)\<rparr> else t\<lparr>z_pc := PVerify\<rparr>
      | Handling post \<Rightarrow>
          if z_ref s \<or> post
          then t\<lparr>z_pc := (if consistent \<and> durable then PSwitch else PDone False True)\<rparr>
          else t\<lparr>z_pc := PBack\<rparr>)"

text \<open>The preconditions: the staging is ready and its container verifies once its progress record
  is set aside; otherwise it is marked discarded.\<close>

definition verify_step :: "pub_env \<Rightarrow> pub_answer \<Rightarrow> pub_sys \<Rightarrow> pub_sys" where
  "verify_step b a s =
     (if a \<noteq> Fails \<and> staging_state s = Some ''ready'' \<and>
         opened b (put_progress (z_gid s) NoFile (d_staging (z_now s))) (z_gid s) \<noteq> None
      then s\<lparr>z_pc := PIdentity\<rparr>
      else (if staging_state s \<noteq> None \<and> a \<noteq> Skips then mark_staging ''discarded'' s else s)\<lparr>z_pc := PDone False False\<rparr>)"

text \<open>The staging delta (\<open>build_staging_delta\<close> of \<open>Delta\<close>): here only its file.\<close>

definition delta_step :: "pub_answer \<Rightarrow> pub_sys \<Rightarrow> pub_sys" where
  "delta_step a s =
     (if a = Fails then s\<lparr>z_pc := PDone False False\<rparr>
      else if a = Blocks
      then (if staging_state s = Some ''ready'' then mark_staging ''blocked'' s else s)\<lparr>z_pc := PDone False False\<rparr>
      else s\<lparr>z_now := (z_now s)\<lparr>d_delta := (z_gid s, DirEntry 0 NoFile) # without (z_gid s) (d_delta (z_now s))\<rparr>,
             z_pc := PPark\<rparr>)"

text \<open>\<open>_park_progress\<close>: an older parked record goes first.\<close>

definition park_step :: "pub_answer \<Rightarrow> pub_sys \<Rightarrow> pub_sys" where
  "park_step a s =
     (let others = filter (\<lambda>e. fst e \<noteq> z_gid s) (z_parked s) in
      if a = Fails \<or> staging_progress s = NoFile
      then handler False (set_stag (d_staging (z_now s)) others s)
      else (set_stag (put_progress (z_gid s) NoFile (d_staging (z_now s)))
              ((z_gid s, staging_progress s) # others) s)\<lparr>z_tmp := True, z_pc := PMove\<rparr>)"

definition move_step :: "pub_answer \<Rightarrow> pub_sys \<Rightarrow> pub_sys" where
  "move_step a s =
     (if a = Fails \<or> z_gid s \<in> fst ` set (d_generations (z_now s)) \<or> z_gid s \<notin> fst ` set (d_staging (z_now s))
      then handler False s else (move_in s)\<lparr>z_pc := PSyncGens\<rparr>)"

text \<open>\<open>register_healthy_rollback\<close> of the generation the delta machine serves; whatever goes wrong
  here is ignored.\<close>

definition retire_step :: "pub_env \<Rightarrow> pub_answer \<Rightarrow> pub_sys \<Rightarrow> pub_sys" where
  "retire_step b a s =
     (case z_served s of
        Some r \<Rightarrow>
          (case opened b (d_generations (z_now s)) r of
             Some g \<Rightarrow>
               if r \<noteq> z_gid s \<and> r \<noteq> [] \<and> a \<noteq> Fails
               then (set_root (d_active (z_now s))
                      (write_manifest (compose_rollback_manifest g (checkpoint_path r) (b_schema b) (b_now b))) s)
                      \<lparr>z_pc := PRetireSync\<rparr>
               else s\<lparr>z_pc := POpen\<rparr>
           | None \<Rightarrow> s\<lparr>z_pc := POpen\<rparr>)
      | None \<Rightarrow> s\<lparr>z_pc := POpen\<rparr>)"

definition replace_step :: "pub_env \<Rightarrow> pub_answer \<Rightarrow> pub_sys \<Rightarrow> pub_sys" where
  "replace_step b a s =
     (case b_content b (z_gid s) of
        Some g \<Rightarrow>
          if a = Fails then handler False s
          else (set_root (write_manifest (compose_active_manifest g (checkpoint_path (z_gid s)) (b_schema b) (b_now b)))
                 (d_rollback (z_now s)) s)\<lparr>z_pc := PCommitSync\<rparr>
      | None \<Rightarrow> handler False s)"

text \<open>Before the commit: the container goes back and its progress record too.\<close>

definition back_step :: "pub_answer \<Rightarrow> pub_sys \<Rightarrow> pub_sys" where
  "back_step a s =
     (if \<not> is_dir_in (z_gid s) (d_generations (z_now s)) then s\<lparr>z_pc := PBackPark\<rparr>
      else if a = Fails \<or> z_gid s \<in> fst ` set (d_staging (z_now s)) then s\<lparr>z_pc := PDone False False\<rparr>
      else (move_out s)\<lparr>z_pc := PBackSync\<rparr>)"

definition unpark_step :: "pub_answer \<Rightarrow> pub_sys \<Rightarrow> pub_sys" where
  "unpark_step a s =
     (case map_of (z_parked s) (z_gid s) of
        Some p \<Rightarrow>
          (if z_tmp s \<and> a \<noteq> Fails \<and> is_dir_in (z_gid s) (d_staging (z_now s))
           then set_stag (put_progress (z_gid s) p (d_staging (z_now s)))
                  (filter (\<lambda>e. fst e \<noteq> z_gid s) (z_parked s)) s
           else s)\<lparr>z_pc := PDone False False\<rparr>
      | None \<Rightarrow> s\<lparr>z_pc := PDone False False\<rparr>)"

text \<open>\<open>_complete_publish_switch\<close>: the pointer swap, then the sweep.\<close>

definition sweep_step :: "pub_env \<Rightarrow> pub_answer \<Rightarrow> pub_sys \<Rightarrow> pub_sys" where
  "sweep_step b a s =
     (let d = z_now s;
          swept = sweep_from_manifests (b_rm b) (Some (z_gid s)) None
            (if a = Garbles then d\<lparr>d_rollback := Unreadable\<rparr> else d) in
      (set_stag (d_staging swept) (z_parked s) (set_gens (d_generations swept) s))
        \<lparr>z_now := swept\<lparr>d_rollback := d_rollback d\<rparr>, z_pc := PDone True True\<rparr>)"

definition pub_step :: "pub_env \<Rightarrow> pub_answer \<Rightarrow> pub_sys \<Rightarrow> pub_sys" where
  "pub_step b a s =
     (case z_pc s of
        PRead c \<Rightarrow> read_step c a s
      | PRestore c \<Rightarrow> restore_step c a s
      | PRestoreGens c \<Rightarrow> if a = Fails then reconcile_raises c s else (sync_gens a s)\<lparr>z_pc := PRestoreStag c\<rparr>
      | PRestoreStag c \<Rightarrow> if a = Fails then reconcile_raises c s else (sync_stag a s)\<lparr>z_pc := PDropTmp c\<rparr>
      | PDropTmp c \<Rightarrow> (if c = Leading then s else drop_tmp a s)\<lparr>z_pc := PSyncRoot c\<rparr>
      | PSyncRoot c \<Rightarrow> settle_step c a s
      | PReread post \<Rightarrow>
          if post \<or> active_id (if a = Garbles then Unreadable else d_active (z_now s)) = Some (z_gid s)
          then s\<lparr>z_pc := PDone False True\<rparr> else s\<lparr>z_pc := PBack\<rparr>
      | PFacts \<Rightarrow> s\<lparr>z_pc := (if a = Fails then PDone False True else PSwitch)\<rparr>
      | PVerify \<Rightarrow> verify_step b a s
      | PIdentity \<Rightarrow> s\<lparr>z_pc := (if a = Fails then PDone False False else PDelta)\<rparr>
      | PDelta \<Rightarrow> delta_step a s
      | PPark \<Rightarrow> park_step a s
      | PMove \<Rightarrow> move_step a s
      | PSyncGens \<Rightarrow> if a = Fails then handler False s else (sync_gens a s)\<lparr>z_pc := PSyncStag\<rparr>
      | PSyncStag \<Rightarrow> if a = Fails then handler False s else (sync_stag a s)\<lparr>z_pc := PSchema\<rparr>
      | PSchema \<Rightarrow> if a = Fails \<or> b_schema b = [] then handler False s else s\<lparr>z_pc := PRetire\<rparr>
      | PRetire \<Rightarrow> retire_step b a s
      | PRetireSync \<Rightarrow> (sync_root a s)\<lparr>z_pc := POpen\<rparr>
      | POpen \<Rightarrow>
          if a = Fails \<or> opened b (d_generations (z_now s)) (z_gid s) = None
          then handler False s else s\<lparr>z_pc := PReplace\<rparr>
      | PReplace \<Rightarrow> replace_step b a s
      | PCommitSync \<Rightarrow> if a = Fails then handler True s else (sync_root a s)\<lparr>z_pc := PUnpark\<rparr>
      | PUnpark \<Rightarrow> (drop_tmp a s)\<lparr>z_pc := PEndSync\<rparr>
      | PEndSync \<Rightarrow> if a = Fails then handler False s else (sync_stag a s)\<lparr>z_pc := PSwitch\<rparr>
      | PBack \<Rightarrow> back_step a s
      | PBackSync \<Rightarrow> if a = Fails then s\<lparr>z_pc := PDone False False\<rparr> else (sync_stag a s)\<lparr>z_pc := PBackPark\<rparr>
      | PBackPark \<Rightarrow> unpark_step a s
      | PSwitch \<Rightarrow>
          if a = Fails \<or> opened b (d_generations (z_now s)) (z_gid s) = None then s\<lparr>z_pc := PDone False True\<rparr>
          else s\<lparr>z_served := Some (z_gid s), z_pc := PSweep\<rparr>
      | PSweep \<Rightarrow> sweep_step b a s
      | _ \<Rightarrow> s)"

definition begin_publish :: "string \<Rightarrow> pub_sys \<Rightarrow> pub_sys" where
  "begin_publish gid s = s\<lparr>z_gid := gid, z_tmp := False, z_ref := False, z_pc := PRead Leading\<rparr>"

fun run_transaction :: "pub_env \<Rightarrow> pub_answer list \<Rightarrow> pub_sys \<Rightarrow> pub_sys" where
  "run_transaction b [] s = s"
| "run_transaction b (a # as) s = run_transaction b as (pub_step b a s)"

subsection \<open>The system\<close>

text \<open>A name that is one path component.\<close>

definition component_name :: "string \<Rightarrow> bool" where
  "component_name gid \<longleftrightarrow> gid \<noteq> [] \<and> CHR ''/'' \<notin> set gid \<and> gid \<noteq> ''.'' \<and> gid \<noteq> ''..''"

definition at_rest :: "pub_sys \<Rightarrow> bool" where
  "at_rest s \<longleftrightarrow> (z_pc s = PIdle \<or> z_pc s = PRaised \<or> (\<exists>k c. z_pc s = PDone k c))"

definition powered_off :: "pub_sys \<Rightarrow> pub_sys \<Rightarrow> bool" where
  "powered_off s s' \<longleftrightarrow>
     (\<exists>es sp r. es \<in> insert (d_generations (z_now s)) (set (z_gens s)) \<and>
        sp \<in> insert (d_staging (z_now s), z_parked s) (set (z_stag s)) \<and>
        r \<in> insert (d_active (z_now s), d_rollback (z_now s)) (set (z_root s)) \<and>
        s' = s\<lparr>z_now := (z_now s)\<lparr>d_generations := es, d_staging := fst sp, d_active := fst r, d_rollback := snd r\<rparr>,
               z_parked := snd sp, z_gens := [], z_stag := [], z_root := [], z_served := None, z_pc := PIdle\<rparr>)"

definition startup_sweep :: "pub_env \<Rightarrow> pub_sys \<Rightarrow> pub_sys" where
  "startup_sweep b s =
     (let swept = sweep_from_manifests (b_rm b) None None (z_now s) in
      (set_stag (d_staging swept) (z_parked s) (set_gens (d_generations swept) s))\<lparr>z_now := swept\<rparr>)"

text \<open>The sweep at the end of a rebuild by the delta machine, which runs beside the publisher.\<close>

definition rebuild_sweep :: "pub_env \<Rightarrow> string \<Rightarrow> pub_sys \<Rightarrow> pub_sys" where
  "rebuild_sweep b gid s =
     (let d = (z_now s)\<lparr>d_rollback := NoFile\<rparr>;
          swept = retention_sweep (b_rm b) (Some gid) None (live_staging_generation_ids d) d in
      (set_root (d_active d) NoFile (set_stag (d_staging swept) (z_parked s) (set_gens (d_generations swept) s)))
        \<lparr>z_now := swept\<rparr>)"

text \<open>
  The steps. A \<open>strict\<close> run is one where no \<open>fsync\<close> is skipped, no manifest is unreadable for a
  moment, the startup sweep finds the root directory synced, and no rebuild of the delta machine
  sweeps. A build by the delta machine is one step with its \<open>fsync\<close>; of a start only the sweep is
  here, the recovery from the rollback is in \<open>Delta\<close>.
\<close>

inductive pubsys_step :: "pub_env \<Rightarrow> bool \<Rightarrow> pub_sys \<Rightarrow> pub_sys \<Rightarrow> bool" for b strict where
  work: "strict \<Longrightarrow> a \<notin> {Skips, Garbles} \<Longrightarrow> pubsys_step b strict s (pub_step b a s)"
| work_loose: "\<not> strict \<Longrightarrow> pubsys_step b strict s (pub_step b a s)"
| publish: "at_rest s \<Longrightarrow> component_name gid \<Longrightarrow> pubsys_step b strict s (begin_publish gid s)"
| stage: "gid \<notin> fst ` set (d_staging (z_now s)) \<Longrightarrow>
    pubsys_step b strict s (set_stag ((gid, node) # d_staging (z_now s)) (z_parked s) s)"
| build: "gid \<notin> fst ` set (d_generations (z_now s)) \<Longrightarrow>
    pubsys_step b strict s (s\<lparr>z_now := (z_now s)\<lparr>d_generations := (gid, DirEntry n NoFile) # d_generations (z_now s)\<rparr>,
      z_gens := []\<rparr>)"
| serve: "pubsys_step b strict s (s\<lparr>z_served := g\<rparr>)"
| crash: "pubsys_step b strict s (s\<lparr>z_served := None, z_pc := PIdle\<rparr>)"
| power: "powered_off s s' \<Longrightarrow> pubsys_step b strict s s'"
| start: "z_pc s = PIdle \<Longrightarrow> strict \<longrightarrow> z_root s = [] \<Longrightarrow> pubsys_step b strict s (startup_sweep b s)"
| rebuild: "\<not> strict \<Longrightarrow> is_dir_in gid (d_generations (z_now s)) \<Longrightarrow> pubsys_step b strict s (rebuild_sweep b gid s)"

definition empty_root :: pub_sys where
  "empty_root = \<lparr>z_now = \<lparr>d_generations = [], d_delta = [], d_staging = [], d_isolated = [], d_active = NoFile,
       d_rollback = NoFile\<rparr>, z_parked = [], z_gens = [], z_stag = [], z_root = [], z_served = None, z_pc = PIdle,
     z_gid = [], z_tmp = False, z_ref = False\<rparr>"

inductive pub_reach :: "pub_env \<Rightarrow> bool \<Rightarrow> pub_sys \<Rightarrow> bool" for b strict where
  first: "pub_reach b strict empty_root"
| more: "pub_reach b strict s \<Longrightarrow> pubsys_step b strict s s' \<Longrightarrow> pub_reach b strict s'"


subsection \<open>The publisher\<close>

text \<open>
  \<open>GenerationPublisher._cycle\<close>: a committed publication whose switch is missing is retried and
  nothing else; otherwise the ready staging is published. A publication is its generation, the
  provider's representation and the epoch of its record.
\<close>

type_synonym pub_record = "string \<times> string \<times> string"

record publisher =
  u_committed :: "pub_record option"
  u_switched :: "string option"
  u_error :: "string option"

definition publisher_retry :: "(pub_record \<Rightarrow> bool \<times> string) \<Rightarrow> pub_record \<Rightarrow> publisher \<Rightarrow> publisher" where
  "publisher_retry switch r p =
     (case switch r of (ok, why) \<Rightarrow>
        if ok then p\<lparr>u_switched := Some (fst r), u_error := None\<rparr>
        else p\<lparr>u_error := Some (''switch pending: '' @ why)\<rparr>)"

definition publisher_take :: "bool \<times> bool \<times> string \<Rightarrow> pub_record \<Rightarrow> publisher \<Rightarrow> publisher" where
  "publisher_take result q p =
     (case result of (ok, committed, why) \<Rightarrow>
        if committed
        then p\<lparr>u_committed := Some q, u_switched := (if ok then Some (fst q) else u_switched p),
               u_error := (if ok then None else Some why)\<rparr>
        else if ok then p else p\<lparr>u_error := Some why\<rparr>)"

definition publisher_cycle ::
  "(pub_record \<Rightarrow> bool \<times> string) \<Rightarrow> (pub_record \<Rightarrow> bool \<times> bool \<times> string) \<Rightarrow> pub_record option \<Rightarrow>
     publisher \<Rightarrow> bool \<times> publisher" where
  "publisher_cycle switch transact ready p =
     (case u_committed p of
        Some r \<Rightarrow> if u_switched p \<noteq> Some (fst r) then (False, publisher_retry switch r p) else
          (case ready of None \<Rightarrow> (False, p) | Some q \<Rightarrow> (True, publisher_take (transact q) q p))
      | None \<Rightarrow>
          (case ready of None \<Rightarrow> (False, p) | Some q \<Rightarrow> (True, publisher_take (transact q) q p)))"

text \<open>The answer of \<open>publish_switch\<close>, from the machine of \<open>Delta\<close>.\<close>

definition switch_answer :: "(int \<Rightarrow> string \<Rightarrow> bool) \<Rightarrow> facts \<Rightarrow> machine \<Rightarrow> ddisk \<Rightarrow> pub_record \<Rightarrow> bool \<times> string" where
  "switch_answer blob_ok f m d r =
     (case m_publish_result (perform_switch blob_ok f r m d) of
        Some x \<Rightarrow> x | None \<Rightarrow> (False, ''publish switch produced no result''))"

text \<open>Cycles in a row, over the store, machine and disk each of them finds: whether each of them
  started a transaction, and the publisher after them.\<close>

fun publisher_cycles ::
  "(int \<Rightarrow> string \<Rightarrow> bool) \<Rightarrow> (pub_record \<Rightarrow> bool \<times> bool \<times> string) \<Rightarrow>
     (facts \<times> machine \<times> ddisk \<times> pub_record option) list \<Rightarrow> publisher \<Rightarrow> bool list \<times> publisher" where
  "publisher_cycles blob_ok transact [] p = ([], p)"
| "publisher_cycles blob_ok transact ((f, m, d, ready) # xs) p =
     (case publisher_cycle (switch_answer blob_ok f m d) transact ready p of
        (started, p') \<Rightarrow> (case publisher_cycles blob_ok transact xs p' of (bs, q) \<Rightarrow> (started # bs, q)))"

end
