(* ===== verification/Publication_Facts.thy ===== *)
theory Publication_Facts
  imports Publication
begin

text \<open>
  The invariant of the publication: what an active or rollback manifest names, now or in a version
  of the root directory that a loss of power can bring back, opens in every version of
  \<open>generations/\<close>; and what each step of the transaction has established. Every step of a strict
  run keeps it.
\<close>

subsection \<open>The invariant\<close>

definition named :: "pub_sys \<Rightarrow> string \<Rightarrow> bool" where
  "named s gid \<longleftrightarrow>
     (\<exists>r\<in>insert (d_active (z_now s), d_rollback (z_now s)) (set (z_root s)).
        active_id (fst r) = Some gid \<or> rollback_id (snd r) = Some gid)"

definition kept :: "pub_env \<Rightarrow> pub_sys \<Rightarrow> string \<Rightarrow> bool" where
  "kept b s gid \<longleftrightarrow> (\<forall>es\<in>insert (d_generations (z_now s)) (set (z_gens s)). opened b es gid \<noteq> None)"

definition current :: "pub_sys \<Rightarrow> bool" where
  "current s \<longleftrightarrow> active_id (d_active (z_now s)) = Some (z_gid s)"

definition in_staging :: "pub_sys \<Rightarrow> bool" where
  "in_staging s \<longleftrightarrow> z_gid s \<in> fst ` set (d_staging (z_now s))"

definition put_back :: "pub_sys \<Rightarrow> bool" where
  "put_back s \<longleftrightarrow> \<not> named s (z_gid s) \<or> in_staging s"

fun pub_at :: "pub_env \<Rightarrow> pub_sys \<Rightarrow> ppc \<Rightarrow> bool" where
  "pub_at b s (PRead (Handling post)) = ((post \<longrightarrow> current s) \<and> (current s \<or> put_back s))"
| "pub_at b s (PRestore c) = (z_ref s \<and> current s)"
| "pub_at b s (PRestoreGens c) = (z_ref s \<and> current s)"
| "pub_at b s (PRestoreStag c) = (z_ref s \<and> current s)"
| "pub_at b s (PDropTmp c) = (z_ref s \<and> current s)"
| "pub_at b s (PSyncRoot Leading) = (z_ref s = current s)"
| "pub_at b s (PSyncRoot (Handling post)) =
     (z_ref s = current s \<and> (post \<longrightarrow> current s) \<and> (current s \<or> put_back s))"
| "pub_at b s (PReread post) = current s"
| "pub_at b s PFacts = (current s \<and> z_root s = [])"
| "pub_at b s PVerify = (\<not> current s)"
| "pub_at b s PIdentity = (\<not> current s \<and> in_staging s)"
| "pub_at b s PDelta = (\<not> current s \<and> in_staging s)"
| "pub_at b s PPark = (\<not> current s \<and> in_staging s)"
| "pub_at b s PMove = (\<not> current s \<and> in_staging s)"
| "pub_at b s PSyncGens = (\<not> named s (z_gid s))"
| "pub_at b s PSyncStag = (\<not> named s (z_gid s) \<and> z_gens s = [])"
| "pub_at b s PSchema = (\<not> named s (z_gid s) \<and> z_gens s = [])"
| "pub_at b s PRetire = (\<not> named s (z_gid s) \<and> z_gens s = [] \<and> b_schema b \<noteq> [])"
| "pub_at b s PRetireSync = (\<not> named s (z_gid s) \<and> z_gens s = [] \<and> b_schema b \<noteq> [])"
| "pub_at b s POpen = (\<not> named s (z_gid s) \<and> z_gens s = [] \<and> b_schema b \<noteq> [])"
| "pub_at b s PReplace = (\<not> named s (z_gid s) \<and> z_gens s = [] \<and> b_schema b \<noteq> [] \<and>
     opened b (d_generations (z_now s)) (z_gid s) \<noteq> None)"
| "pub_at b s PCommitSync = current s"
| "pub_at b s PUnpark = (current s \<and> z_root s = [])"
| "pub_at b s PEndSync = (current s \<and> z_root s = [])"
| "pub_at b s PSwitch = (current s \<and> z_root s = [])"
| "pub_at b s PSweep = (current s \<and> z_root s = [])"
| "pub_at b s PBack = (\<not> current s \<and> put_back s)"
| "pub_at b s PBackSync = (\<not> current s)"
| "pub_at b s PBackPark = (\<not> current s)"
| "pub_at b s (PDone k c) = (c = current s \<and> (k \<longrightarrow> c \<and> z_root s = []))"
| "pub_at b s pc = True"

definition safe :: "pub_env \<Rightarrow> pub_sys \<Rightarrow> bool" where
  "safe b s \<longleftrightarrow> (\<forall>gid. named s gid \<longrightarrow> kept b s gid)"

definition pub_inv :: "pub_env \<Rightarrow> pub_sys \<Rightarrow> bool" where
  "pub_inv b s \<longleftrightarrow> safe b s \<and> pub_at b s (z_pc s) \<and> (z_pc s \<noteq> PIdle \<longrightarrow> component_name (z_gid s))"

text \<open>What the parts depend on.\<close>

lemma named_frame [simp]:
  "named (s\<lparr>z_pc := v1\<rparr>) = named s" "named (s\<lparr>z_ref := v2\<rparr>) = named s" "named (s\<lparr>z_tmp := v3\<rparr>) = named s"
  "named (s\<lparr>z_served := v4\<rparr>) = named s" "named (set_gens es s) = named s" "named (set_stag es p s) = named s"
  "named (s\<lparr>z_gid := v5\<rparr>) = named s"
  by (simp_all add: fun_eq_iff named_def set_gens_def set_stag_def)

lemma kept_frame [simp]:
  "kept b (s\<lparr>z_pc := v1\<rparr>) = kept b s" "kept b (s\<lparr>z_ref := v2\<rparr>) = kept b s" "kept b (s\<lparr>z_tmp := v3\<rparr>) = kept b s"
  "kept b (s\<lparr>z_served := v4\<rparr>) = kept b s" "kept b (set_root x r s) = kept b s" "kept b (set_stag es p s) = kept b s"
  "kept b (s\<lparr>z_gid := v5\<rparr>) = kept b s"
  by (simp_all add: fun_eq_iff kept_def set_root_def set_stag_def)

lemma current_frame [simp]:
  "current (s\<lparr>z_pc := v1\<rparr>) = current s" "current (s\<lparr>z_ref := v2\<rparr>) = current s" "current (s\<lparr>z_tmp := v3\<rparr>) = current s"
  "current (s\<lparr>z_served := v4\<rparr>) = current s" "current (set_gens es s) = current s" "current (set_stag es p s) = current s"
  by (simp_all add: current_def set_gens_def set_stag_def)

lemma set_sel [simp]:
  "z_root (set_gens es s) = z_root s" "z_root (set_stag es p s) = z_root s" "z_gens (set_stag es p s) = z_gens s"
  "z_gid (set_gens es s) = z_gid s" "z_gid (set_stag es p s) = z_gid s" "z_gid (set_root x r s) = z_gid s"
  "z_ref (set_gens es s) = z_ref s" "z_ref (set_stag es p s) = z_ref s" "z_gens (set_root x r s) = z_gens s"
  "d_staging (z_now (set_gens es s)) = d_staging (z_now s)" "d_staging (z_now (set_stag es p s)) = es"
  "d_generations (z_now (set_gens es s)) = es" "d_generations (z_now (set_stag es p s)) = d_generations (z_now s)"
  "d_generations (z_now (set_root x r s)) = d_generations (z_now s)" "d_staging (z_now (set_root x r s)) = d_staging (z_now s)"
  "z_gens (set_gens es s) = d_generations (z_now s) # z_gens s"
  by (simp_all add: set_gens_def set_stag_def set_root_def)

lemma put_back_frame [simp]:
  "put_back (s\<lparr>z_pc := v1\<rparr>) = put_back s" "put_back (s\<lparr>z_ref := v2\<rparr>) = put_back s" "put_back (s\<lparr>z_tmp := v3\<rparr>) = put_back s"
  "put_back (s\<lparr>z_served := v4\<rparr>) = put_back s" "put_back (set_gens es s) = put_back s"
  "in_staging (s\<lparr>z_pc := v1\<rparr>) = in_staging s" "in_staging (s\<lparr>z_ref := v2\<rparr>) = in_staging s" "in_staging (s\<lparr>z_tmp := v3\<rparr>) = in_staging s"
  "in_staging (s\<lparr>z_served := v4\<rparr>) = in_staging s" "in_staging (set_gens es s) = in_staging s" "in_staging (set_root x r s) = in_staging s"
  by (simp_all add: put_back_def in_staging_def)

lemma safe_frame [simp]:
  "safe b (s\<lparr>z_pc := v1\<rparr>) = safe b s" "safe b (s\<lparr>z_ref := v2\<rparr>) = safe b s" "safe b (s\<lparr>z_tmp := v3\<rparr>) = safe b s"
  "safe b (s\<lparr>z_served := v4\<rparr>) = safe b s" "safe b (set_stag es p s) = safe b s" "safe b (s\<lparr>z_gid := v5\<rparr>) = safe b s"
  by (simp_all add: safe_def)

text \<open>An \<open>fsync\<close> only forgets versions.\<close>

lemma named_sync: "named (sync_root a s) gid \<Longrightarrow> named s gid" "named (sync_gens a s) = named s" "named (sync_stag a s) = named s"
  by (auto simp: named_def sync_root_def sync_gens_def sync_stag_def fun_eq_iff split: if_splits)

lemma kept_sync: "kept b s gid \<Longrightarrow> kept b (sync_gens a s) gid" "kept b (sync_root a s) = kept b s" "kept b (sync_stag a s) = kept b s"
  by (auto simp: kept_def sync_root_def sync_gens_def sync_stag_def fun_eq_iff)

lemma sync_sel [simp]:
  "z_now (sync_gens a s) = z_now s" "z_now (sync_stag a s) = z_now s" "z_now (sync_root a s) = z_now s"
  "z_gid (sync_gens a s) = z_gid s" "z_gid (sync_stag a s) = z_gid s" "z_gid (sync_root a s) = z_gid s"
  "z_ref (sync_gens a s) = z_ref s" "z_ref (sync_stag a s) = z_ref s" "z_ref (sync_root a s) = z_ref s"
  "z_root (sync_gens a s) = z_root s" "z_root (sync_stag a s) = z_root s" "z_gens (sync_stag a s) = z_gens s"
  "z_gens (sync_root a s) = z_gens s" "current (sync_gens a s) = current s" "current (sync_stag a s) = current s"
  "current (sync_root a s) = current s"
  by (simp_all add: sync_gens_def sync_stag_def sync_root_def current_def)

lemma synced [simp]:
  "a \<notin> {Fails, Skips} \<Longrightarrow> z_gens (sync_gens a s) = []" "a \<notin> {Fails, Skips} \<Longrightarrow> z_root (sync_root a s) = []"
  by (auto simp: sync_gens_def sync_root_def)

lemma safe_sync: "safe b s \<Longrightarrow> safe b (sync_gens a s)" "safe b s \<Longrightarrow> safe b (sync_root a s)" "safe b (sync_stag a s) = safe b s"
  using kept_sync named_sync by (auto simp: safe_def)

lemma put_back_sync: "put_back s \<Longrightarrow> put_back (sync_root a s)"
  using named_sync(1) [of a s "z_gid s"] by (auto simp: put_back_def in_staging_def)

text \<open>What is named can be opened, so it is in \<open>generations/\<close>.\<close>

lemma opened_in: "opened b es gid \<noteq> None \<Longrightarrow> gid \<in> fst ` set es \<and> is_dir_in gid es \<and> gid \<noteq> []"
  by (auto simp: opened_def is_dir_in_def complete_identity_def image_iff split: option.splits fs_node.splits json_file.splits if_splits
      dest: map_of_SomeD intro: bexI [rotated])

lemma current_named: "current s \<Longrightarrow> named s (z_gid s)"
  by (auto simp: current_def named_def)

lemma current_in: "safe b s \<Longrightarrow> current s \<Longrightarrow> is_dir_in (z_gid s) (d_generations (z_now s))"
  using current_named [of s] opened_in [of b "d_generations (z_now s)" "z_gid s"] by (simp add: safe_def kept_def)

lemma opened_other: "gid \<noteq> k \<Longrightarrow> opened b ((k, node) # es) gid = opened b es gid"
  "gid \<noteq> k \<Longrightarrow> opened b (without k es) gid = opened b es gid"
proof -
  show "gid \<noteq> k \<Longrightarrow> opened b ((k, node) # es) gid = opened b es gid" by (simp add: opened_def)
  have "gid \<noteq> k \<Longrightarrow> map_of (without k es) gid = map_of es gid"
    by (induction es) (auto simp: without_def)
  then show "gid \<noteq> k \<Longrightarrow> opened b (without k es) gid = opened b es gid" by (simp add: opened_def)
qed

lemma safe_gens:
  assumes "safe b s" "\<And>gid. named s gid \<Longrightarrow> opened b es gid \<noteq> None"
  shows "safe b (set_gens es s)"
  using assms by (auto simp: safe_def kept_def set_gens_def named_def)


text \<open>A manifest written for a generation that opens names it.\<close>

lemma written_active:
  assumes "b_content b gid = Some g" "gi_id g = gid" "complete_identity g" "component_name gid" "b_schema b \<noteq> []"
  shows "active_id (write_manifest (compose_active_manifest g (checkpoint_path gid) (b_schema b) t)) = Some gid"
proof -
  have "validate_active_manifest (PDict (compose_active_manifest g (checkpoint_path gid) (b_schema b) t)) = None"
    using assms checkpoint_path_inside [of gid] by (intro compose_active_valid) (auto simp: component_name_def)
  then show ?thesis
    using assms(2)
    by (simp add: active_id_def manifest_id_def read_active_manifest_def read_manifest_def write_manifest_def
        compose_active_manifest_def)
qed

lemma written_rollback:
  "rollback_id (write_manifest (compose_rollback_manifest g cp fs t)) \<in> {None, Some (gi_id g)}"
  by (auto simp: rollback_id_def manifest_id_def read_rollback_manifest_def read_manifest_def write_manifest_def
      compose_rollback_manifest_def split: option.splits)

lemma pub_inv_pc:
  assumes "pub_inv b s" "z_pc s \<noteq> PIdle" "pub_at b s pc"
  shows "pub_inv b (s\<lparr>z_pc := pc\<rparr>)"
proof -
  have "pub_at b (s\<lparr>z_pc := pc\<rparr>) pc = pub_at b s pc"
    by (cases "(b, s, pc)" rule: pub_at.cases) simp_all
  then show ?thesis using assms by (simp add: pub_inv_def)
qed

lemma move_in_gens:
  "z_gid s \<notin> fst ` set (d_generations (z_now s)) \<Longrightarrow> safe b s \<Longrightarrow> safe b (move_in s)"
  "named (move_in s) = named s" "current (move_in s) = current s" "z_root (move_in s) = z_root s" "z_gid (move_in s) = z_gid s"
  "z_ref (move_in s) = z_ref s"
proof -
  show "named (move_in s) = named s" "current (move_in s) = current s" "z_root (move_in s) = z_root s"
    "z_gid (move_in s) = z_gid s" "z_ref (move_in s) = z_ref s"
    by (simp_all add: move_in_def split: option.split)
  assume n: "z_gid s \<notin> fst ` set (d_generations (z_now s))" and sf: "safe b s"
  have "opened b ((z_gid s, node) # d_generations (z_now s)) gid \<noteq> None" if "named s gid" for gid node
  proof -
    have o: "opened b (d_generations (z_now s)) gid \<noteq> None" using sf that by (simp add: safe_def kept_def)
    then have "gid \<in> fst ` set (d_generations (z_now s))" using opened_in by blast
    then have "gid \<noteq> z_gid s" using n by blast
    then show ?thesis using o opened_other(1) by simp
  qed
  then show "safe b (move_in s)"
    using sf by (auto simp: move_in_def intro: safe_gens split: option.split)
qed

lemma not_in_not_named:
  "safe b s \<Longrightarrow> gid \<notin> fst ` set (d_generations (z_now s)) \<Longrightarrow> \<not> named s gid"
  using opened_in [of b "d_generations (z_now s)" gid] by (auto simp: safe_def kept_def)

text \<open>The parts of the transaction.\<close>

lemma handler_inv:
  assumes "safe b s" "component_name (z_gid s)" "post \<longrightarrow> current s" "current s \<or> put_back s"
  shows "pub_inv b (handler post s)"
  using assms by (simp add: pub_inv_def handler_def)

lemma read_inv:
  assumes "pub_inv b s" "z_pc s = PRead c" "a \<noteq> Garbles"
  shows "pub_inv b (read_step c a s)"
  using assms by (cases c) (auto simp: pub_inv_def read_step_def current_def)

lemma restore_inv:
  assumes "pub_inv b s" "z_pc s = PRestore c"
  shows "pub_inv b (restore_step c a s)"
proof -
  have "safe b s" "current s" using assms by (simp_all add: pub_inv_def)
  then have "restore_step c a s = s\<lparr>z_pc := PDropTmp c\<rparr>" using current_in by (simp add: restore_step_def)
  then show ?thesis using assms by (simp add: pub_inv_def)
qed

lemma raises_inv:
  assumes "pub_inv b s" "z_pc s \<noteq> PIdle" "current s"
  shows "pub_inv b (reconcile_raises c s)"
  using assms pub_inv_pc by (cases c) (auto simp: reconcile_raises_def)

lemma drop_tmp_frame:
  "safe b (drop_tmp a s) = safe b s" "current (drop_tmp a s) = current s" "z_root (drop_tmp a s) = z_root s"
  "z_ref (drop_tmp a s) = z_ref s" "z_gid (drop_tmp a s) = z_gid s" "named (drop_tmp a s) = named s"
  "put_back (drop_tmp a s) = put_back s"
  by (simp_all add: drop_tmp_def put_back_def in_staging_def)

lemma settle_inv:
  assumes inv: "pub_inv b s" "z_pc s = PSyncRoot c" and a: "a \<notin> {Skips, Garbles}"
  shows "pub_inv b (settle_step c a s)"
proof -
  let ?t = "sync_root a s"
  have s: "safe b s" "z_ref s = current s" "component_name (z_gid s)" "c = Handling post \<Longrightarrow> (post \<longrightarrow> current s) \<and> (current s \<or> put_back s)" for post
    using inv by (cases c; simp add: pub_inv_def)+
  have t: "safe b ?t" "put_back s \<Longrightarrow> put_back ?t" "current ?t = current s" "a \<noteq> Fails \<Longrightarrow> z_root ?t = []"
    using safe_sync(2) [OF s(1)] put_back_sync a by simp_all
  have p: "current s \<Longrightarrow> is_dir_in (z_gid s) (d_generations (z_now s))" using current_in [OF s(1)] .
  show ?thesis
    using s t p by (cases c) (auto simp: settle_step_def Let_def pub_inv_def)
qed

lemma put_progress_ids [simp]: "fst ` set (put_progress gid p es) = fst ` set es"
proof -
  have "map fst (put_progress gid p es) = map fst es" by (induction es) (auto simp: put_progress_def)
  then show ?thesis by (metis set_map)
qed

lemma mark_frame [simp]:
  "safe b (mark_staging st s) = safe b s" "current (mark_staging st s) = current s" "z_gid (mark_staging st s) = z_gid s"
  "in_staging (mark_staging st s) = in_staging s"
  by (simp_all add: mark_staging_def in_staging_def)

lemma verify_inv:
  assumes "pub_inv b s" "z_pc s = PVerify"
  shows "pub_inv b (verify_step b a s)"
proof -
  have "staging_state s = Some x \<Longrightarrow> in_staging s" for x
    by (auto simp: staging_state_def in_staging_def image_iff split: option.splits dest: map_of_SomeD intro: bexI [rotated])
  then show ?thesis using assms by (auto simp: verify_step_def pub_inv_def)
qed

lemma delta_frame [simp]:
  "safe b (s\<lparr>z_now := (z_now s)\<lparr>d_delta := x\<rparr>\<rparr>) = safe b s"
  "current (s\<lparr>z_now := (z_now s)\<lparr>d_delta := x\<rparr>\<rparr>) = current s"
  "in_staging (s\<lparr>z_now := (z_now s)\<lparr>d_delta := x\<rparr>\<rparr>) = in_staging s"
  by (simp_all add: safe_def kept_def named_def current_def in_staging_def)

lemma delta_inv:
  assumes "pub_inv b s" "z_pc s = PDelta"
  shows "pub_inv b (delta_step a s)"
  using assms by (simp add: delta_step_def pub_inv_def)

lemma park_inv:
  assumes "pub_inv b s" "z_pc s = PPark"
  shows "pub_inv b (park_step a s)"
proof -
  have s: "safe b s" "\<not> current s" "in_staging s" "component_name (z_gid s)" using assms by (simp_all add: pub_inv_def)
  have "pub_inv b (handler False (set_stag (d_staging (z_now s)) p s))" for p
    using s by (intro handler_inv) (simp_all add: put_back_def in_staging_def)
  then show ?thesis using s by (simp add: park_step_def Let_def pub_inv_def in_staging_def)
qed

lemma move_inv:
  assumes "pub_inv b s" "z_pc s = PMove"
  shows "pub_inv b (move_step a s)"
proof -
  have s: "safe b s" "\<not> current s" "in_staging s" "component_name (z_gid s)" using assms by (simp_all add: pub_inv_def)
  have h: "pub_inv b (handler False s)" using s by (intro handler_inv) (simp_all add: put_back_def)
  have "pub_inv b ((move_in s)\<lparr>z_pc := PSyncGens\<rparr>)" if "z_gid s \<notin> fst ` set (d_generations (z_now s))"
    using s(1,4) move_in_gens [of s] not_in_not_named [OF s(1) that] that by (simp add: pub_inv_def)
  then show ?thesis using h by (simp add: move_step_def)
qed

lemma handler_free: "safe b s \<Longrightarrow> component_name (z_gid s) \<Longrightarrow> \<not> named s (z_gid s) \<Longrightarrow> pub_inv b (handler False s)"
  by (rule handler_inv) (simp_all add: put_back_def)

lemma safe_root:
  assumes "safe b s" "\<And>gid. active_id x = Some gid \<or> rollback_id r = Some gid \<Longrightarrow> kept b s gid"
  shows "safe b (set_root x r s)"
  using assms by (auto simp: safe_def named_def set_root_def kept_def)

lemma named_root: "named (set_root x r s) gid \<longleftrightarrow> active_id x = Some gid \<or> rollback_id r = Some gid \<or> named s gid"
  by (auto simp: named_def set_root_def)

lemma kept_now: "z_gens s = [] \<Longrightarrow> kept b s gid \<longleftrightarrow> opened b (d_generations (z_now s)) gid \<noteq> None"
  by (simp add: kept_def)

lemma named_now: "active_id (d_active (z_now s)) = Some gid \<Longrightarrow> named s gid" "rollback_id (d_rollback (z_now s)) = Some gid \<Longrightarrow> named s gid"
  by (auto simp: named_def)

lemma retire_inv:
  assumes "pub_inv b s" "z_pc s = PRetire"
  shows "pub_inv b (retire_step b a s)"
proof -
  have s: "safe b s" "\<not> named s (z_gid s)" "z_gens s = []" "b_schema b \<noteq> []" "component_name (z_gid s)"
    using assms by (simp_all add: pub_inv_def)
  have "pub_inv b ((set_root (d_active (z_now s)) (write_manifest (compose_rollback_manifest g cp fs t)) s)\<lparr>z_pc := PRetireSync\<rparr>)"
    if o: "opened b (d_generations (z_now s)) r = Some g" and r: "r \<noteq> z_gid s" for g r cp fs t
  proof -
    have g: "gi_id g = r" using o by (auto simp: opened_def split: option.splits fs_node.splits json_file.splits if_splits)
    have "rollback_id (write_manifest (compose_rollback_manifest g cp fs t)) = Some gid \<Longrightarrow> gid = r" for gid
      using written_rollback [of g cp fs t] g by auto
    moreover have "kept b s r" using o s(3) by (simp add: kept_now)
    moreover have "active_id (d_active (z_now s)) = Some gid \<Longrightarrow> kept b s gid" for gid
      using s(1) named_now(1) by (auto simp: safe_def)
    ultimately have "safe b (set_root (d_active (z_now s)) (write_manifest (compose_rollback_manifest g cp fs t)) s)"
      and "\<not> named (set_root (d_active (z_now s)) (write_manifest (compose_rollback_manifest g cp fs t)) s) (z_gid s)"
      using s(1,2) r named_now(1) by (auto simp: named_root intro!: safe_root)
    then show ?thesis using s by (simp add: pub_inv_def)
  qed
  moreover have "pub_inv b (s\<lparr>z_pc := POpen\<rparr>)" using s by (simp add: pub_inv_def)
  ultimately show ?thesis by (simp add: retire_step_def split: option.split)
qed

lemma replace_inv:
  assumes "pub_inv b s" "z_pc s = PReplace"
  shows "pub_inv b (replace_step b a s)"
proof -
  have s: "safe b s" "\<not> named s (z_gid s)" "z_gens s = []" "b_schema b \<noteq> []" "component_name (z_gid s)"
    "opened b (d_generations (z_now s)) (z_gid s) \<noteq> None"
    using assms by (simp_all add: pub_inv_def)
  obtain g where g: "b_content b (z_gid s) = Some g" "gi_id g = z_gid s" "complete_identity g"
    using s(6) by (auto simp: opened_def split: option.splits fs_node.splits json_file.splits if_splits)
  let ?m = "write_manifest (compose_active_manifest g (checkpoint_path (z_gid s)) (b_schema b) (b_now b))"
  have id: "active_id ?m = Some (z_gid s)" by (rule written_active [OF g s(5,4)])
  have "rollback_id (d_rollback (z_now s)) = Some gid \<Longrightarrow> kept b s gid" for gid
    using s(1) named_now(2) by (auto simp: safe_def)
  then have "safe b (set_root ?m (d_rollback (z_now s)) s)"
    using s(3,6) id by (intro safe_root [OF s(1)]) (auto simp: kept_now)
  then have "pub_inv b ((set_root ?m (d_rollback (z_now s)) s)\<lparr>z_pc := PCommitSync\<rparr>)"
    using s(5) id by (simp add: pub_inv_def current_def set_root_def)
  then show ?thesis using g(1) handler_free [OF s(1,5,2)] by (simp add: replace_step_def)
qed

lemma back_inv:
  assumes "pub_inv b s" "z_pc s = PBack"
  shows "pub_inv b (back_step a s)"
proof -
  have s: "safe b s" "\<not> current s" "put_back s" "component_name (z_gid s)" using assms by (simp_all add: pub_inv_def)
  have "pub_inv b ((move_out s)\<lparr>z_pc := PBackSync\<rparr>)" if "\<not> in_staging s"
  proof (cases "map_of (d_generations (z_now s)) (z_gid s)")
    case None
    then show ?thesis using s by (simp add: move_out_def pub_inv_def)
  next
    case (Some node)
    have free: "\<not> named s (z_gid s)" using s(3) that by (simp add: put_back_def)
    have "safe b (set_gens (without (z_gid s) (d_generations (z_now s))) s)"
    proof (rule safe_gens [OF s(1)])
      fix gid assume n: "named s gid"
      then have "gid \<noteq> z_gid s" using free by auto
      then show "opened b (without (z_gid s) (d_generations (z_now s))) gid \<noteq> None"
        using s(1) n opened_other(2) by (simp add: safe_def kept_def)
    qed
    moreover have "set_gens es (set_stag x y s) = set_stag x y (set_gens es s)" for es x y
      by (simp add: set_gens_def set_stag_def)
    ultimately show ?thesis using s Some by (simp add: move_out_def pub_inv_def)
  qed
  then show ?thesis using s by (simp add: back_step_def pub_inv_def in_staging_def)
qed

lemma unpark_inv:
  assumes "pub_inv b s" "z_pc s = PBackPark"
  shows "pub_inv b (unpark_step a s)"
  using assms by (simp add: unpark_step_def pub_inv_def split: option.split)


subsection \<open>Sweeps\<close>

lemma map_of_filter_key: "\<forall>e\<in>set es. fst e = k \<longrightarrow> P e \<Longrightarrow> map_of (filter P es) k = map_of es k"
  by (induction es) auto

lemma swept_gens:
  assumes "gid \<in> set (keep_ids act rb)"
  shows "opened b (d_generations (retention_sweep rm act rb live d)) gid = opened b (d_generations d) gid"
proof -
  have "map_of (sweep_dirs (rm ''generations'') (keep_ids act rb) (d_generations d)) gid = map_of (d_generations d) gid"
    unfolding sweep_dirs_def by (rule map_of_filter_key) (use assms in auto)
  then show ?thesis by (simp add: retention_sweep_def Let_def opened_def)
qed

lemma swept_root [simp]:
  "d_active (retention_sweep rm act rb live d) = d_active d" "d_rollback (retention_sweep rm act rb live d) = d_rollback d"
  by (simp_all add: retention_sweep_def Let_def)

text \<open>A sweep that keeps what the manifests name, with the root directory synced.\<close>

lemma sweep_safe:
  assumes sf: "safe b s" and root: "z_root s = []"
    and keep: "\<And>gid. active_id (d_active (z_now s)) = Some gid \<Longrightarrow> act = Some gid"
      "\<And>gid. rollback_id (d_rollback (z_now s)) = Some gid \<Longrightarrow> rb = Some gid"
    and now: "z_now s' = retention_sweep rm act rb live (z_now s)" "z_root s' = []"
      "z_gens s' = d_generations (z_now s) # z_gens s"
  shows "safe b s'" "current (s'\<lparr>z_gid := z_gid s\<rparr>) = current s"
proof -
  show "current (s'\<lparr>z_gid := z_gid s\<rparr>) = current s" using now(1) by (simp add: current_def)
  have "kept b s' gid" if n: "named s' gid" for gid
  proof -
    have n': "named s gid" "act = Some gid \<or> rb = Some gid"
      using n keep now(1,2) root by (auto simp: named_def)
    then have k: "kept b s gid" using sf by (simp add: safe_def)
    then have "gid \<noteq> []" using opened_in by (auto simp: kept_def)
    then have "gid \<in> set (keep_ids act rb)" using n'(2) by (auto simp: keep_ids_def)
    then have "opened b (d_generations (z_now s')) gid = opened b (d_generations (z_now s)) gid"
      unfolding now(1) by (rule swept_gens)
    then show ?thesis using k now(3) by (simp add: kept_def)
  qed
  then show "safe b s'" by (simp add: safe_def)
qed

lemma pub_sweep_inv:
  assumes inv: "pub_inv b s" "z_pc s = PSweep" and a: "a \<noteq> Garbles"
  shows "pub_inv b (sweep_step b a s)"
proof -
  have s: "safe b s" "current s" "z_root s = []" "component_name (z_gid s)" using inv by (simp_all add: pub_inv_def)
  let ?swept = "retention_sweep (b_rm b) (Some (z_gid s)) (rollback_id (d_rollback (z_now s)))
      (live_staging_generation_ids (z_now s)) (z_now s)"
  have eq: "sweep_step b a s = (set_stag (d_staging ?swept) (z_parked s) (set_gens (d_generations ?swept) s))
        \<lparr>z_now := ?swept, z_pc := PDone True True\<rparr>"
    using a by (simp add: sweep_step_def sweep_from_manifests_def rollback_id_def Let_def)
  have "safe b (sweep_step b a s)" "current ((sweep_step b a s)\<lparr>z_gid := z_gid s\<rparr>) = current s"
    by (rule sweep_safe [OF s(1,3), where act = "Some (z_gid s)" and rb = "rollback_id (d_rollback (z_now s))"];
        use s(2,3) in \<open>simp add: eq current_def\<close>)+
  then show ?thesis using s by (simp add: pub_inv_def eq current_def)
qed

lemma start_inv:
  assumes inv: "pub_inv b s" "z_pc s = PIdle" "z_root s = []"
  shows "pub_inv b (startup_sweep b s)"
proof -
  have s: "safe b s" using inv by (simp add: pub_inv_def)
  let ?swept = "retention_sweep (b_rm b) (active_id (d_active (z_now s))) (rollback_id (d_rollback (z_now s)))
      (live_staging_generation_ids (z_now s)) (z_now s)"
  have eq: "startup_sweep b s = (set_stag (d_staging ?swept) (z_parked s) (set_gens (d_generations ?swept) s))\<lparr>z_now := ?swept\<rparr>"
    by (simp add: startup_sweep_def sweep_from_manifests_def active_id_def rollback_id_def Let_def)
  have "safe b (startup_sweep b s)"
    by (rule sweep_safe(1) [OF s inv(3), where act = "active_id (d_active (z_now s))" and rb = "rollback_id (d_rollback (z_now s))"])
      (use inv(3) in \<open>simp_all add: eq\<close>)
  then show ?thesis using inv(2) by (simp add: pub_inv_def eq set_gens_def set_stag_def)
qed

subsection \<open>Every step\<close>

lemma pub_step_inv:
  assumes inv: "pub_inv b s" and a: "a \<notin> {Skips, Garbles}"
  shows "pub_inv b (pub_step b a s)"
proof -
  note [simp] = safe_sync named_sync(2,3) drop_tmp_frame
  have g: "a \<noteq> Garbles" using a by simp
  have s: "safe b s" "pub_at b s (z_pc s)" "z_pc s \<noteq> PIdle \<Longrightarrow> component_name (z_gid s)" using inv by (simp_all add: pub_inv_def)
  show ?thesis
  proof (cases "z_pc s")
    case (PRead c)
    then show ?thesis using read_inv [OF inv PRead g] by (simp add: pub_step_def)
  next
    case (PRestore c)
    then show ?thesis using restore_inv [OF inv PRestore] by (simp add: pub_step_def)
  next
    case (PRestoreGens c)
    then show ?thesis using raises_inv [OF inv] s by (simp add: pub_step_def pub_inv_def)
  next
    case (PRestoreStag c)
    then show ?thesis using raises_inv [OF inv] s by (simp add: pub_step_def pub_inv_def)
  next
    case (PDropTmp c)
    then show ?thesis using s current_named [of s] by (cases c) (auto simp: pub_step_def pub_inv_def)
  next
    case (PSyncRoot c)
    then show ?thesis using settle_inv [OF inv PSyncRoot a] by (simp add: pub_step_def)
  next
    case (PReread post)
    then show ?thesis using s g by (auto simp: pub_step_def pub_inv_def current_def)
  next
    case PVerify
    then show ?thesis using verify_inv [OF inv PVerify] by (simp add: pub_step_def)
  next
    case PDelta
    then show ?thesis using delta_inv [OF inv PDelta] by (simp add: pub_step_def)
  next
    case PPark
    then show ?thesis using park_inv [OF inv PPark] by (simp add: pub_step_def)
  next
    case PMove
    then show ?thesis using move_inv [OF inv PMove] by (simp add: pub_step_def)
  next
    case PSyncGens
    then show ?thesis using s a handler_free by (simp add: pub_step_def pub_inv_def)
  next
    case PSyncStag
    then show ?thesis using s a handler_free by (simp add: pub_step_def pub_inv_def)
  next
    case PSchema
    then show ?thesis using s handler_free by (simp add: pub_step_def pub_inv_def)
  next
    case PRetire
    then show ?thesis using retire_inv [OF inv PRetire] by (simp add: pub_step_def)
  next
    case PRetireSync
    then show ?thesis using s named_sync(1) by (auto simp: pub_step_def pub_inv_def)
  next
    case POpen
    then show ?thesis using s handler_free by (auto simp: pub_step_def pub_inv_def)
  next
    case PReplace
    then show ?thesis using replace_inv [OF inv PReplace] by (simp add: pub_step_def)
  next
    case PCommitSync
    then show ?thesis using s a handler_inv [of b s True] by (simp add: pub_step_def pub_inv_def)
  next
    case PUnpark
    then show ?thesis using s by (simp add: pub_step_def pub_inv_def)
  next
    case PEndSync
    then show ?thesis using s handler_inv [of b s False] by (simp add: pub_step_def pub_inv_def)
  next
    case PBack
    then show ?thesis using back_inv [OF inv PBack] by (simp add: pub_step_def)
  next
    case PBackSync
    then show ?thesis using s by (simp add: pub_step_def pub_inv_def)
  next
    case PBackPark
    then show ?thesis using unpark_inv [OF inv PBackPark] by (simp add: pub_step_def)
  next
    case PSweep
    then show ?thesis using pub_sweep_inv [OF inv PSweep g] by (simp add: pub_step_def)
  qed (use s inv in \<open>simp_all add: pub_step_def pub_inv_def\<close>)
qed

lemma pub_stage_inv:
  assumes "pub_inv b s"
  shows "pub_inv b (set_stag ((gid, node) # d_staging (z_now s)) (z_parked s) s)"
proof -
  let ?s = "set_stag ((gid, node) # d_staging (z_now s)) (z_parked s) s"
  have st: "in_staging s \<Longrightarrow> in_staging ?s" "put_back s \<Longrightarrow> put_back ?s" by (auto simp: put_back_def in_staging_def)
  have pc: "z_pc ?s = z_pc s" by (simp add: set_stag_def)
  have "pub_at b s pc \<Longrightarrow> pub_at b ?s pc" for pc
    by (cases "(b, s, pc)" rule: pub_at.cases) (use st in auto)
  then show ?thesis using assms pc by (simp add: pub_inv_def)
qed

lemma build_inv:
  assumes inv: "pub_inv b s" and new: "gid \<notin> fst ` set (d_generations (z_now s))"
  shows "pub_inv b (s\<lparr>z_now := (z_now s)\<lparr>d_generations := (gid, node) # d_generations (z_now s)\<rparr>, z_gens := []\<rparr>)"
proof -
  let ?s = "s\<lparr>z_now := (z_now s)\<lparr>d_generations := (gid, node) # d_generations (z_now s)\<rparr>, z_gens := []\<rparr>"
  have sf: "safe b s" using inv by (simp add: pub_inv_def)
  have o: "opened b ((gid, node) # d_generations (z_now s)) k = opened b (d_generations (z_now s)) k"
    if "opened b (d_generations (z_now s)) k \<noteq> None" for k
    using opened_in [OF that] new by (intro opened_other(1)) auto
  have fr: "named ?s = named s" "current ?s = current s" "in_staging ?s = in_staging s" "put_back ?s = put_back s"
    by (simp_all add: fun_eq_iff named_def current_def in_staging_def put_back_def)
  have "kept b ?s k" if "named s k" for k
    using sf that o [of k] by (simp add: safe_def kept_def)
  then have "safe b ?s" by (simp add: safe_def fr)
  moreover have "pub_at b s pc \<Longrightarrow> pub_at b ?s pc" for pc
    by (cases "(b, s, pc)" rule: pub_at.cases) (use o [of "z_gid s"] fr in auto)
  ultimately show ?thesis using inv by (simp add: pub_inv_def)
qed

lemma power_inv:
  assumes "pub_inv b s" "powered_off s s'"
  shows "pub_inv b s'"
proof -
  obtain es sp r where p: "es \<in> insert (d_generations (z_now s)) (set (z_gens s))"
    "r \<in> insert (d_active (z_now s), d_rollback (z_now s)) (set (z_root s))"
    "s' = s\<lparr>z_now := (z_now s)\<lparr>d_generations := es, d_staging := fst sp, d_active := fst r, d_rollback := snd r\<rparr>,
               z_parked := snd sp, z_gens := [], z_stag := [], z_root := [], z_served := None, z_pc := PIdle\<rparr>"
    using assms(2) unfolding powered_off_def by blast
  have "kept b s' gid" if n: "named s' gid" for gid
  proof -
    have "named s gid" using n p(2) unfolding named_def p(3) by auto
    then have "kept b s gid" using assms(1) by (simp add: pub_inv_def safe_def)
    then show ?thesis using p(1) unfolding kept_def p(3) by auto
  qed
  then show ?thesis by (simp add: pub_inv_def safe_def p(3))
qed

lemma pubsys_inv:
  assumes "pubsys_step b True s s'" "pub_inv b s"
  shows "pub_inv b s'"
  using assms(1)
proof cases
  case (publish gid)
  then show ?thesis using assms(2) by (simp add: pub_inv_def begin_publish_def)
next
  case crash
  then show ?thesis using assms(2) by (simp add: pub_inv_def)
next
  case (serve g)
  have "pub_at b s pc \<Longrightarrow> pub_at b (s\<lparr>z_served := g\<rparr>) pc" for pc
    by (cases "(b, s, pc)" rule: pub_at.cases) auto
  then show ?thesis using assms(2) serve by (simp add: pub_inv_def)
qed (use assms(2) in \<open>simp_all add: pub_step_inv pub_stage_inv build_inv power_inv start_inv\<close>)

lemma reach_inv: "pub_reach b True s \<Longrightarrow> pub_inv b s"
proof (induction rule: pub_reach.induct)
  case first
  then show ?case
    by (simp add: pub_inv_def empty_root_def safe_def named_def active_id_def rollback_id_def manifest_id_def
        read_active_manifest_def read_rollback_manifest_def read_manifest_def)
qed (rule pubsys_inv)

end
