(* ===== verification/Publication_Claims.thy ===== *)
theory Publication_Claims
  imports Publication_Facts
begin

text \<open>
  What the publication promises: an active or rollback manifest always names a generation that
  can be opened, whatever the order of crashes and losses of power; its result is the truth; it
  always returns; a failure before the commit is undone. And what the promise rests on.
\<close>

subsection \<open>Properties\<close>

text \<open>C15. A publication never loses the active: at every moment of any sequence of publications,
  stagings, builds, crashes, losses of power and starts, and after a loss of power at that moment,
  the generation that the active manifest names, and the one the rollback manifest names, is in
  \<open>generations/\<close> and opens. The run is strict: no \<open>fsync\<close> is skipped and no manifest unreadable,
  the startup sweep finds the root directory synced, no rebuild of the delta machine sweeps.\<close>

theorem publication_never_loses_the_active:
  assumes "pub_reach b True s" "s' = s \<or> powered_off s s'"
    and "active_id (d_active (z_now s')) = Some gid \<or> rollback_id (d_rollback (z_now s')) = Some gid"
  shows "opened b (d_generations (z_now s')) gid \<noteq> None"
proof -
  have "pub_inv b s'" using reach_inv [OF assms(1)] assms(2) power_inv by blast
  moreover have "named s' gid" using assms(3) by (auto simp: named_def)
  ultimately show ?thesis by (simp add: pub_inv_def safe_def kept_def)
qed


text \<open>The distance of a step of the transaction from its end.\<close>

fun ppc_rank :: "ppc \<Rightarrow> nat" where
  "ppc_rank PSweep = 1" | "ppc_rank PSwitch = 2" | "ppc_rank PFacts = 3"
| "ppc_rank PBackPark = 1" | "ppc_rank PBackSync = 2" | "ppc_rank PBack = 3" | "ppc_rank (PReread post) = 4"
| "ppc_rank (PSyncRoot (Handling post)) = 4" | "ppc_rank (PDropTmp (Handling post)) = 5"
| "ppc_rank (PRestoreStag (Handling post)) = 6" | "ppc_rank (PRestoreGens (Handling post)) = 7"
| "ppc_rank (PRestore (Handling post)) = 8" | "ppc_rank (PRead (Handling post)) = 9"
| "ppc_rank PEndSync = 10" | "ppc_rank PUnpark = 11" | "ppc_rank PCommitSync = 12" | "ppc_rank PReplace = 13"
| "ppc_rank POpen = 14" | "ppc_rank PRetireSync = 15" | "ppc_rank PRetire = 16" | "ppc_rank PSchema = 17"
| "ppc_rank PSyncStag = 18" | "ppc_rank PSyncGens = 19" | "ppc_rank PMove = 20" | "ppc_rank PPark = 21"
| "ppc_rank PDelta = 22" | "ppc_rank PIdentity = 23" | "ppc_rank PVerify = 24"
| "ppc_rank (PSyncRoot Leading) = 25" | "ppc_rank (PDropTmp Leading) = 26" | "ppc_rank (PRestoreStag Leading) = 27"
| "ppc_rank (PRestoreGens Leading) = 28" | "ppc_rank (PRestore Leading) = 29" | "ppc_rank (PRead Leading) = 30"
| "ppc_rank pc = 0"

lemmas step_functions = read_step_def restore_step_def settle_step_def verify_step_def delta_step_def park_step_def
  move_step_def retire_step_def replace_step_def back_step_def unpark_step_def sweep_step_def handler_def
  reconcile_raises_def

lemma step_nearer:
  assumes "ppc_rank (z_pc s) \<noteq> 0"
  shows "ppc_rank (z_pc (pub_step b a s)) < ppc_rank (z_pc s)"
  using assms
  by (cases "z_pc s" rule: ppc_rank.cases)
    (auto simp: pub_step_def step_functions Let_def split: option.split)

lemma rank_done: "ppc_rank pc = 0 \<longleftrightarrow> pc = PIdle \<or> pc = PRaised \<or> (\<exists>k c. pc = PDone k c)"
  by (cases pc rule: ppc_rank.cases) auto

lemma done_stays: "ppc_rank (z_pc s) = 0 \<Longrightarrow> pub_step b a s = s"
  by (auto simp: rank_done pub_step_def)

lemma run_nearer: "ppc_rank (z_pc (run_transaction b as s)) \<le> ppc_rank (z_pc s) - length as"
proof (induction as arbitrary: s)
  case (Cons a as)
  show ?case
  proof (cases "ppc_rank (z_pc s) = 0")
    case True
    then show ?thesis using Cons.IH [of s] done_stays [OF True] by simp
  next
    case False
    then show ?thesis using Cons.IH [of "pub_step b a s"] step_nearer [OF False, of b a] by simp
  qed
qed simp

lemma step_not_idle: "z_pc s \<noteq> PIdle \<Longrightarrow> z_pc (pub_step b a s) \<noteq> PIdle"
  by (cases "z_pc s") (auto simp: pub_step_def step_functions Let_def split: option.split pub_ctx.split)

lemma run_not_idle: "z_pc s \<noteq> PIdle \<Longrightarrow> z_pc (run_transaction b as s) \<noteq> PIdle"
  by (induction as arbitrary: s) (simp_all add: step_not_idle)

text \<open>C17. A publication always returns: whatever the calls answer, failures and skipped syncs
  included, thirty steps are enough to reach a result or, when the reconciliation at the
  beginning fails, the exception that leaves the function.\<close>

theorem publication_always_returns:
  assumes "30 \<le> length as"
  shows "(\<exists>ok committed. z_pc (run_transaction b as (begin_publish gid s)) = PDone ok committed) \<or>
    z_pc (run_transaction b as (begin_publish gid s)) = PRaised"
proof -
  have "ppc_rank (z_pc (run_transaction b as (begin_publish gid s))) = 0"
    using run_nearer [of b as "begin_publish gid s"] assms by (simp add: begin_publish_def)
  moreover have "z_pc (run_transaction b as (begin_publish gid s)) \<noteq> PIdle"
    by (rule run_not_idle) (simp add: begin_publish_def)
  ultimately show ?thesis by (auto simp: rank_done)
qed

subsection \<open>A failure before the commit\<close>

definition still_staged :: "json_file \<Rightarrow> string \<Rightarrow> nat \<Rightarrow> json_file \<Rightarrow> pub_sys \<Rightarrow> bool" where
  "still_staged act gid n p s \<longleftrightarrow>
     z_gid s = gid \<and> d_active (z_now s) = act \<and> active_id act \<noteq> Some gid \<and>
     map_of (d_staging (z_now s)) gid = Some (DirEntry n p) \<and> gid \<notin> fst ` set (d_generations (z_now s))"

definition moved :: "json_file \<Rightarrow> string \<Rightarrow> nat \<Rightarrow> json_file \<Rightarrow> pub_sys \<Rightarrow> bool" where
  "moved act gid n p s \<longleftrightarrow>
     z_gid s = gid \<and> d_active (z_now s) = act \<and> active_id act \<noteq> Some gid \<and> z_tmp s \<and> map_of (z_parked s) gid = Some p \<and>
     map_of (d_generations (z_now s)) gid = Some (DirEntry n NoFile) \<and> gid \<notin> fst ` set (d_staging (z_now s))"

definition being_parked :: "json_file \<Rightarrow> string \<Rightarrow> nat \<Rightarrow> json_file \<Rightarrow> pub_sys \<Rightarrow> bool" where
  "being_parked act gid n p s \<longleftrightarrow> still_staged act gid n NoFile s \<and> z_tmp s \<and> map_of (z_parked s) gid = Some p"

fun in_flight :: "json_file \<Rightarrow> string \<Rightarrow> nat \<Rightarrow> json_file \<Rightarrow> pub_sys \<Rightarrow> ppc \<Rightarrow> bool" where
  "in_flight act gid n p s (PRead Leading) = still_staged act gid n p s"
| "in_flight act gid n p s (PSyncRoot Leading) = (still_staged act gid n p s \<and> \<not> z_ref s)"
| "in_flight act gid n p s PVerify = still_staged act gid n p s" | "in_flight act gid n p s PIdentity = still_staged act gid n p s"
| "in_flight act gid n p s PDelta = still_staged act gid n p s" | "in_flight act gid n p s PPark = still_staged act gid n p s"
| "in_flight act gid n p s PMove = being_parked act gid n p s"
| "in_flight act gid n p s PSyncGens = moved act gid n p s" | "in_flight act gid n p s PSyncStag = moved act gid n p s"
| "in_flight act gid n p s PSchema = moved act gid n p s" | "in_flight act gid n p s PRetire = moved act gid n p s"
| "in_flight act gid n p s PRetireSync = moved act gid n p s" | "in_flight act gid n p s POpen = moved act gid n p s"
| "in_flight act gid n p s PReplace = moved act gid n p s"
| "in_flight act gid n p s (PRestore Leading) = False" | "in_flight act gid n p s (PRestoreGens Leading) = False"
| "in_flight act gid n p s (PRestoreStag Leading) = False" | "in_flight act gid n p s (PDropTmp Leading) = False"
| "in_flight act gid n p s pc = True"

definition before_commit :: "ppc \<Rightarrow> bool" where
  "before_commit pc \<longleftrightarrow> pc \<in> {PPark, PMove, PSyncGens, PSyncStag, PSchema, POpen, PReplace}"

lemma map_of_put: "map_of (put_progress gid q es) k =
    (case map_of es k of Some (DirEntry n p) \<Rightarrow> Some (DirEntry n (if k = gid then q else p)) | x \<Rightarrow> x)"
  by (induction es) (auto simp: put_progress_def split: fs_node.split option.split)

lemma map_of_without: "map_of (without gid es) k = (if k = gid then None else map_of es k)"
  by (induction es) (auto simp: without_def)

lemma without_ids [simp]: "fst ` set (without gid es) = fst ` set es - {gid}"
  by (force simp: without_def)

lemma map_of_drop: "map_of (filter (\<lambda>e. fst e \<noteq> gid) xs) gid = None"
  by (induction xs) auto

lemma staged_frame [simp]:
  "still_staged act gid n p (s\<lparr>z_pc := pc\<rparr>) = still_staged act gid n p s" "moved act gid n p (s\<lparr>z_pc := pc\<rparr>) = moved act gid n p s"
  "being_parked act gid n p (s\<lparr>z_pc := pc\<rparr>) = being_parked act gid n p s"
  "still_staged act gid n p (s\<lparr>z_ref := r\<rparr>) = still_staged act gid n p s"
  "moved act gid n p (sync_gens a s) = moved act gid n p s" "moved act gid n p (sync_stag a s) = moved act gid n p s"
  "moved act gid n p (sync_root a s) = moved act gid n p s" "still_staged act gid n p (sync_root a s) = still_staged act gid n p s"
  by (simp_all add: still_staged_def moved_def being_parked_def sync_gens_def sync_stag_def sync_root_def)

lemma in_flight_pc: "in_flight act gid n p (s\<lparr>z_pc := pc'\<rparr>) pc = in_flight act gid n p s pc"
  by (cases "(act, gid, n, p, s, pc)" rule: in_flight.cases) simp_all

lemma in_flight_step:
  assumes "in_flight act gid n p s (z_pc s)" "p \<noteq> NoFile"
  shows "in_flight act gid n p (pub_step b a s) (z_pc (pub_step b a s))"
proof (cases "z_pc s")
  case (PRead c)
  then show ?thesis using assms
    by (cases c) (auto simp: pub_step_def read_step_def still_staged_def active_id_def manifest_id_def read_active_manifest_def read_manifest_def)
next
  case (PSyncRoot c)
  then show ?thesis using assms by (cases c) (simp_all add: pub_step_def settle_step_def Let_def in_flight_pc)
next
  case PVerify
  then show ?thesis using assms by (simp add: pub_step_def verify_step_def in_flight_pc)
next
  case PDelta
  then show ?thesis using assms by (auto simp: pub_step_def delta_step_def still_staged_def)
next
  case PPark
  then show ?thesis using assms
    by (auto simp: pub_step_def park_step_def handler_def Let_def being_parked_def still_staged_def set_stag_def map_of_put
        staging_progress_def)
next
  case PMove
  then show ?thesis using assms
    by (auto simp: pub_step_def move_step_def handler_def being_parked_def still_staged_def moved_def move_in_def set_stag_def
        set_gens_def map_of_eq_None_iff)
next
  case PRetire
  have "moved act gid n p s \<Longrightarrow> moved act gid n p (set_root (d_active (z_now s)) r s)" for r
    by (simp add: moved_def set_root_def)
  then show ?thesis using assms PRetire by (auto simp: pub_step_def retire_step_def split: option.split)
next
  case PReplace
  then show ?thesis using assms by (auto simp: pub_step_def replace_step_def handler_def split: option.split)
next
  case (PRestore c)
  then show ?thesis using assms by (cases c) (auto simp: pub_step_def step_functions)
next
  case (PRestoreGens c)
  then show ?thesis using assms by (cases c) (auto simp: pub_step_def step_functions)
next
  case (PRestoreStag c)
  then show ?thesis using assms by (cases c) (auto simp: pub_step_def step_functions)
next
  case (PDropTmp c)
  then show ?thesis using assms by (cases c) (auto simp: pub_step_def step_functions)
qed (use assms in \<open>auto simp: pub_step_def handler_def step_functions Let_def split: option.split pub_ctx.split\<close>)

lemma run_append: "run_transaction b (as @ bs) s = run_transaction b bs (run_transaction b as s)"
  by (induction as arbitrary: s) simp_all

lemma in_flight_run:
  "in_flight act gid n p s (z_pc s) \<Longrightarrow> p \<noteq> NoFile \<Longrightarrow>
     in_flight act gid n p (run_transaction b as s) (z_pc (run_transaction b as s))"
  by (induction as arbitrary: s) (simp_all add: in_flight_step)

definition unmoved :: "json_file \<Rightarrow> string \<Rightarrow> nat \<Rightarrow> json_file \<Rightarrow> pub_sys \<Rightarrow> bool" where
  "unmoved act gid n p s \<longleftrightarrow> still_staged act gid n p s \<and> map_of (z_parked s) gid = None \<or> being_parked act gid n p s"

lemma unmoved_frame [simp]:
  "unmoved act gid n p (s\<lparr>z_pc := pc\<rparr>) = unmoved act gid n p s" "unmoved act gid n p (s\<lparr>z_ref := r\<rparr>) = unmoved act gid n p s"
  "unmoved act gid n p (sync_root a s) = unmoved act gid n p s" "unmoved act gid n p (sync_stag a s) = unmoved act gid n p s"
  "moved act gid n p (s\<lparr>z_ref := r\<rparr>) = moved act gid n p s"
  by (simp_all add: unmoved_def still_staged_def moved_def being_parked_def sync_stag_def sync_root_def)

lemma fail_handled:
  assumes "in_flight act gid n p t (z_pc t)" "p \<noteq> NoFile" "before_commit (z_pc t)"
  shows "z_pc (pub_step b Fails t) = PRead (Handling False)"
    "unmoved act gid n p (pub_step b Fails t) \<or> moved act gid n p (pub_step b Fails t)"
proof -
  have "pub_step b Fails t = handler False (if z_pc t = PPark then set_stag (d_staging (z_now t))
      (filter (\<lambda>e. fst e \<noteq> z_gid t) (z_parked t)) t else t)"
    using assms(3) by (auto simp: before_commit_def pub_step_def park_step_def move_step_def replace_step_def split: option.split)
  moreover have "still_staged act gid n p t \<Longrightarrow>
      unmoved act gid n p (set_stag (d_staging (z_now t)) (filter (\<lambda>e. fst e \<noteq> z_gid t) (z_parked t)) t)"
    by (auto simp: unmoved_def still_staged_def set_stag_def map_of_drop)
  moreover have "being_parked act gid n p t \<Longrightarrow> unmoved act gid n p t" by (simp add: unmoved_def)
  ultimately show "z_pc (pub_step b Fails t) = PRead (Handling False)"
    "unmoved act gid n p (pub_step b Fails t) \<or> moved act gid n p (pub_step b Fails t)"
    using assms(1,3) by (auto simp: before_commit_def handler_def)
qed

lemma handled_back:
  assumes "z_pc s = PRead (Handling False)" "unmoved act gid n p s \<or> moved act gid n p s"
  shows "run_transaction b [Works, Works] s = (sync_root Works (s\<lparr>z_ref := False, z_pc := PSyncRoot (Handling False)\<rparr>))\<lparr>z_pc := PBack\<rparr>"
proof -
  have "active_id (d_active (z_now s)) \<noteq> Some (z_gid s)"
    using assms(2) by (auto simp: unmoved_def being_parked_def still_staged_def moved_def)
  then show ?thesis using assms(1) by (simp add: pub_step_def read_step_def settle_step_def Let_def)
qed

lemma unmoved_back:
  assumes "z_pc s = PBack" "unmoved act gid n p s"
  shows "pub_step b Works s = s\<lparr>z_pc := PBackPark\<rparr>"
proof -
  have "z_gid s \<notin> fst ` set (d_generations (z_now s))"
    using assms(2) by (auto simp: unmoved_def being_parked_def still_staged_def)
  then have "map_of (d_generations (z_now s)) (z_gid s) = None" by (simp add: map_of_eq_None_iff)
  then show ?thesis using assms(1) by (simp add: pub_step_def back_step_def is_dir_in_def)
qed

lemma moved_back:
  assumes "z_pc s = PBack" "moved act gid n p s"
  shows "z_pc (run_transaction b [Works, Works] s) = PBackPark" "unmoved act gid n p (run_transaction b [Works, Works] s)"
proof -
  have m: "map_of (d_generations (z_now s)) (z_gid s) = Some (DirEntry n NoFile)" "z_gid s \<notin> fst ` set (d_staging (z_now s))"
    "z_gid s = gid" "active_id act \<noteq> Some gid" "d_active (z_now s) = act" "z_tmp s" "map_of (z_parked s) gid = Some p"
    using assms(2) by (auto simp: moved_def)
  then have st: "run_transaction b [Works, Works] s = (sync_stag Works ((move_out s)\<lparr>z_pc := PBackSync\<rparr>))\<lparr>z_pc := PBackPark\<rparr>"
    using assms(1) by (simp add: pub_step_def back_step_def is_dir_in_def)
  show "z_pc (run_transaction b [Works, Works] s) = PBackPark" by (simp only: st) simp
  have "being_parked act gid n p (move_out s)"
    using m by (simp add: move_out_def being_parked_def still_staged_def set_gens_def set_stag_def)
  then have "unmoved act gid n p (move_out s)" by (simp add: unmoved_def)
  then show "unmoved act gid n p (run_transaction b [Works, Works] s)" by (simp only: st) simp
qed

lemma unmoved_unpark:
  assumes "z_pc s = PBackPark" "unmoved act gid n p s"
  shows "z_pc (pub_step b Works s) = PDone False False \<and> still_staged act gid n p (pub_step b Works s) \<and>
    map_of (z_parked (pub_step b Works s)) gid = None"
  using assms(2) unfolding unmoved_def
proof
  assume "still_staged act gid n p s \<and> map_of (z_parked s) gid = None"
  then show ?thesis using assms(1) by (auto simp: pub_step_def unpark_step_def still_staged_def)
next
  assume "being_parked act gid n p s"
  then show ?thesis using assms(1)
    by (auto simp: pub_step_def unpark_step_def being_parked_def still_staged_def is_dir_in_def set_stag_def map_of_put map_of_drop)
qed

definition undone :: "json_file \<Rightarrow> string \<Rightarrow> nat \<Rightarrow> json_file \<Rightarrow> pub_sys \<Rightarrow> bool" where
  "undone act gid n p u \<longleftrightarrow> z_pc u = PDone False False \<and> still_staged act gid n p u \<and> map_of (z_parked u) gid = None"

lemma back_undone:
  assumes "z_pc v = PBack" "unmoved act gid n p v \<or> moved act gid n p v"
  shows "undone act gid n p (run_transaction b [Works, Works, Works] v)"
  using assms(2)
proof
  assume m: "unmoved act gid n p v"
  have "undone act gid n p (pub_step b Works (v\<lparr>z_pc := PBackPark\<rparr>))"
    unfolding undone_def using m by (intro unmoved_unpark) simp_all
  moreover have "undone act gid n p x \<Longrightarrow> pub_step b Works x = x" for x
    by (rule done_stays) (simp add: undone_def)
  ultimately show ?thesis using unmoved_back [OF assms(1) m, of b] by (simp only: run_transaction.simps)
next
  assume m: "moved act gid n p v"
  have "run_transaction b [Works, Works, Works] v = pub_step b Works (run_transaction b [Works, Works] v)" by simp
  then show ?thesis using unmoved_unpark [OF moved_back [OF assms(1) m]] by (simp only: undone_def)
qed

lemma failed_undone:
  assumes "in_flight act gid n p t (z_pc t)" "p \<noteq> NoFile" "before_commit (z_pc t)"
  shows "undone act gid n p (run_transaction b (Fails # replicate 5 Works) t)"
proof -
  let ?w = "pub_step b Fails t"
  have r: "run_transaction b (Fails # replicate 5 Works) t = run_transaction b [Works, Works, Works] (run_transaction b [Works, Works] ?w)"
    by (simp add: numeral_eq_Suc)
  note h = fail_handled [OF assms, of b]
  show ?thesis unfolding r using h(2) by (intro back_undone) (simp_all only: handled_back [OF h], simp_all)
qed

text \<open>C19. A failure before the commit is undone: when the parking of the progress record, the move,
  one of its two syncs, the schema, the reopening or the replacement of the manifest fails, the
  five steps that follow put the container back into \<open>staging/\<close> with its progress record, no
  longer in \<open>generations/\<close>, and the publication reports that nothing is committed. The active
  manifest is the one it found.\<close>

theorem failed_publication_is_undone:
  assumes "map_of (d_staging (z_now s)) gid = Some (DirEntry n p)" "p \<noteq> NoFile"
    and "gid \<notin> fst ` set (d_generations (z_now s))" "active_id (d_active (z_now s)) \<noteq> Some gid"
    and "before_commit (z_pc (run_transaction b as (begin_publish gid s)))"
    and "u = run_transaction b (as @ Fails # replicate 5 Works) (begin_publish gid s)"
  shows "z_pc u = PDone False False \<and> map_of (d_staging (z_now u)) gid = Some (DirEntry n p) \<and>
    gid \<notin> fst ` set (d_generations (z_now u)) \<and> map_of (z_parked u) gid = None \<and>
    d_active (z_now u) = d_active (z_now s)"
proof -
  let ?t = "run_transaction b as (begin_publish gid s)"
  have "in_flight (d_active (z_now s)) gid n p (begin_publish gid s) (z_pc (begin_publish gid s))"
    using assms(1,3,4) by (simp add: begin_publish_def still_staged_def)
  then have f: "in_flight (d_active (z_now s)) gid n p ?t (z_pc ?t)" using assms(2) by (rule in_flight_run)
  have "run_transaction b (Fails # replicate 5 Works) ?t = u" unfolding assms(6) by (rule run_append [symmetric])
  then have "undone (d_active (z_now s)) gid n p u" using failed_undone [OF f assms(2,5), of b] by (simp only:)
  then show ?thesis unfolding undone_def still_staged_def by blast
qed

subsection \<open>A publication without failures\<close>

definition publishable :: "pub_env \<Rightarrow> string \<Rightarrow> nat \<Rightarrow> json_file \<Rightarrow> bool" where
  "publishable b gid n p \<longleftrightarrow>
     staging_status gid (DirEntry n p) = Some ''ready'' \<and> component_name gid \<and> b_schema b \<noteq> [] \<and>
     (case b_content b gid of Some g \<Rightarrow> gi_id g = gid \<and> complete_identity g | None \<Rightarrow> False)"

definition committed_now :: "pub_env \<Rightarrow> string \<Rightarrow> pub_sys \<Rightarrow> bool" where
  "committed_now b gid s \<longleftrightarrow> z_gid s = gid \<and> active_id (d_active (z_now s)) = Some gid \<and>
     opened b (d_generations (z_now s)) gid \<noteq> None"

text \<open>Up to the commit every call that works leads to the next step.\<close>

definition early_pc :: "ppc \<Rightarrow> bool" where
  "early_pc pc \<longleftrightarrow> pc \<in> {PRead Leading, PSyncRoot Leading, PVerify, PIdentity, PDelta, PPark, PMove, PSyncGens, PSyncStag,
     PSchema, PRetire, PRetireSync, POpen}"

definition on_course :: "pub_env \<Rightarrow> json_file \<Rightarrow> string \<Rightarrow> nat \<Rightarrow> json_file \<Rightarrow> pub_sys \<Rightarrow> ppc \<Rightarrow> bool" where
  "on_course b act gid n p s pc \<longleftrightarrow>
     (if early_pc pc \<or> pc = PReplace then in_flight act gid n p s pc
      else committed_now b gid s \<and>
        (case pc of
           PCommitSync \<Rightarrow> True
         | PUnpark \<Rightarrow> z_root s = [] | PEndSync \<Rightarrow> z_root s = [] | PSwitch \<Rightarrow> z_root s = []
         | PSweep \<Rightarrow> z_root s = [] \<and> z_served s = Some gid
         | PDone ok committed \<Rightarrow> ok \<and> committed \<and> z_root s = [] \<and> z_served s = Some gid
         | _ \<Rightarrow> False))"

lemma moved_opens:
  "publishable b gid n p \<Longrightarrow> moved act gid n p s \<Longrightarrow> opened b (d_generations (z_now s)) gid = b_content b gid \<and> b_content b gid \<noteq> None"
  by (auto simp: publishable_def moved_def opened_def split: option.splits)

lemma committed_frame [simp]:
  "committed_now b gid (s\<lparr>z_pc := pc\<rparr>) = committed_now b gid s" "committed_now b gid (sync_root a s) = committed_now b gid s"
  "committed_now b gid (sync_stag a s) = committed_now b gid s" "committed_now b gid (drop_tmp a s) = committed_now b gid s"
  "committed_now b gid (s\<lparr>z_served := x\<rparr>) = committed_now b gid s"
  by (simp_all add: committed_now_def drop_tmp_def set_stag_def)

lemma replace_commits:
  assumes "publishable b gid n p" "moved act gid n p s"
  shows "committed_now b gid (replace_step b Works s) \<and> z_pc (replace_step b Works s) = PCommitSync"
proof -
  have id: "z_gid s = gid" using assms(2) by (simp add: moved_def)
  obtain g where g: "b_content b gid = Some g" "gi_id g = gid" "complete_identity g" "component_name gid" "b_schema b \<noteq> []"
    using assms(1) by (auto simp: publishable_def split: option.splits)
  show ?thesis
    using written_active [OF g, of "b_now b"] moved_opens [OF assms]
    by (simp add: replace_step_def id g(1) committed_now_def set_root_def)
qed

lemma sweep_keeps_committed:
  assumes "committed_now b gid s"
  shows "committed_now b gid (sweep_step b Works s)"
proof -
  have "gid \<noteq> []" using assms opened_in by (auto simp: committed_now_def)
  then have "gid \<in> set (keep_ids (Some gid) rb)" for rb by (simp add: keep_ids_def)
  then show ?thesis
    using assms by (simp add: committed_now_def sweep_step_def sweep_from_manifests_def Let_def swept_gens set_gens_def set_stag_def)
qed

lemma early_course:
  "early_pc pc \<or> pc = PReplace \<Longrightarrow> on_course b act gid n p s pc = in_flight act gid n p s pc"
  "on_course b act gid n p s pc \<Longrightarrow> early_pc pc \<or> pc \<in> {PReplace, PCommitSync, PUnpark, PEndSync, PSwitch, PSweep} \<or> (\<exists>k c. pc = PDone k c)"
  by (auto simp add: on_course_def split: if_splits ppc.splits)

lemma early_next:
  assumes pub: "publishable b gid n p" and p: "p \<noteq> NoFile" and s: "in_flight act gid n p s (z_pc s)" "early_pc (z_pc s)"
  shows "early_pc (z_pc (pub_step b Works s)) \<or> z_pc (pub_step b Works s) = PReplace"
proof -
  have st: "still_staged act gid n p s \<Longrightarrow> staging_state s = Some ''ready'' \<and> staging_progress s = p \<and>
      opened b (put_progress (z_gid s) NoFile (d_staging (z_now s))) (z_gid s) \<noteq> None"
    using pub by (auto simp: publishable_def still_staged_def staging_state_def staging_progress_def opened_def map_of_put split: option.splits)
  have pk: "being_parked act gid n p s \<Longrightarrow> z_gid s \<notin> fst ` set (d_generations (z_now s)) \<and> z_gid s \<in> fst ` set (d_staging (z_now s))"
    by (auto simp: being_parked_def still_staged_def image_iff intro: bexI [rotated] dest: map_of_SomeD)
  have mv: "moved act gid n p s \<Longrightarrow> opened b (d_generations (z_now s)) (z_gid s) \<noteq> None" "b_schema b \<noteq> []"
    using moved_opens [OF pub, of act s] pub by (auto simp: moved_def publishable_def)
  have na: "still_staged act gid n p s \<Longrightarrow> active_id (d_active (z_now s)) \<noteq> Some (z_gid s)" by (simp add: still_staged_def)
  show ?thesis
    using s(2) [unfolded early_pc_def]
  proof (elim insertE emptyE)
    assume "z_pc s = PVerify" then show ?thesis using s(1) st by (simp add: pub_step_def verify_step_def early_pc_def)
  next
    assume "z_pc s = PPark" then show ?thesis using s(1) st p by (simp add: pub_step_def park_step_def Let_def early_pc_def)
  next
    assume "z_pc s = PMove" then show ?thesis using s(1) pk by (simp add: pub_step_def move_step_def early_pc_def)
  next
    assume "z_pc s = PRetire" then show ?thesis by (auto simp: pub_step_def retire_step_def early_pc_def split: option.split)
  next
    assume "z_pc s = POpen" then show ?thesis using s(1) mv by (auto simp: pub_step_def early_pc_def)
  qed (use s(1) mv(2) na in \<open>simp_all add: pub_step_def read_step_def settle_step_def delta_step_def Let_def early_pc_def\<close>)
qed

lemma on_course_step:
  assumes pub: "publishable b gid n p" and p: "p \<noteq> NoFile" and s: "on_course b act gid n p s (z_pc s)"
  shows "on_course b act gid n p (pub_step b Works s) (z_pc (pub_step b Works s))"
proof (cases "early_pc (z_pc s)")
  case True
  then have f: "in_flight act gid n p s (z_pc s)" using s early_course(1) by blast
  show ?thesis using early_next [OF pub p f True] in_flight_step [OF f p] early_course(1) by blast
next
  case False
  have gid: "committed_now b gid s \<Longrightarrow> z_gid s = gid \<and> opened b (d_generations (z_now s)) gid \<noteq> None"
    by (simp add: committed_now_def)
  from False have "z_pc s \<in> {PReplace, PCommitSync, PUnpark, PEndSync, PSwitch, PSweep} \<or> (\<exists>k c. z_pc s = PDone k c)"
    using early_course(2) [OF s] by blast
  then show ?thesis
  proof (elim disjE exE insertE emptyE; simp only: insert_iff)
    assume "z_pc s = PReplace"
    then show ?thesis using s replace_commits [OF pub, of act s] by (simp add: pub_step_def on_course_def early_pc_def)
  next
    assume "z_pc s = PSweep"
    then show ?thesis using s sweep_keeps_committed [of b gid s]
      by (simp add: pub_step_def on_course_def early_pc_def) (simp add: sweep_step_def Let_def set_gens_def set_stag_def)
  qed (use s gid in \<open>auto simp: pub_step_def drop_tmp_frame on_course_def early_pc_def\<close>)
qed

lemma on_course_run:
  "publishable b gid n p \<Longrightarrow> p \<noteq> NoFile \<Longrightarrow> on_course b act gid n p s (z_pc s) \<Longrightarrow>
     on_course b act gid n p (run_transaction b (replicate k Works) s) (z_pc (run_transaction b (replicate k Works) s))"
  by (induction k arbitrary: s) (simp_all add: on_course_step)

text \<open>C18. A ready staging is published: when every call works, a ready staging whose container
  verifies, whose name is free in \<open>generations/\<close> and which is not the active already, is after
  thirty steps the active generation and the one the delta machine serves; it opens in
  \<open>generations/\<close>, the manifest is durable, and the result is success.\<close>

theorem ready_staging_is_published:
  assumes "publishable b gid n p" "p \<noteq> NoFile"
    and "map_of (d_staging (z_now s)) gid = Some (DirEntry n p)"
    and "gid \<notin> fst ` set (d_generations (z_now s))" "active_id (d_active (z_now s)) \<noteq> Some gid"
    and "u = run_transaction b (replicate 30 Works) (begin_publish gid s)"
  shows "z_pc u = PDone True True \<and> active_id (d_active (z_now u)) = Some gid \<and> z_root u = [] \<and>
    opened b (d_generations (z_now u)) gid \<noteq> None \<and> z_served u = Some gid"
proof -
  let ?s = "begin_publish gid s"
  have "on_course b (d_active (z_now s)) gid n p ?s (z_pc ?s)"
    using assms(3-5) by (simp add: begin_publish_def still_staged_def on_course_def early_pc_def)
  then have c: "on_course b (d_active (z_now s)) gid n p u (z_pc u)"
    unfolding assms(6) by (rule on_course_run [OF assms(1,2)])
  have "ppc_rank (z_pc u) = 0" using run_nearer [of b "replicate 30 Works" ?s] unfolding assms(6) by (simp add: begin_publish_def)
  then show ?thesis using c by (auto simp: rank_done committed_now_def on_course_def early_pc_def)
qed

subsection \<open>What the promise rests on\<close>

definition pub_demo_env :: pub_env where
  "pub_demo_env = \<lparr>b_content = (\<lambda>gid. Some (demo_generation\<lparr>gi_id := gid\<rparr>)), b_schema = ''1'', b_now = 0,
     b_rm = (\<lambda>_ _. True)\<rparr>"

definition ready_record :: "string \<Rightarrow> json_file" where
  "ready_record gid = JsonFile (PDict [(''progress_version'', PStr STAGING_PROGRESS_VERSION),
     (''generation_id'', PStr gid), (''status'', PStr ''ready'')])"

definition stage_demo :: "string \<Rightarrow> pub_sys \<Rightarrow> pub_sys" where
  "stage_demo gid s = set_stag ((gid, DirEntry 3 (ready_record gid)) # d_staging (z_now s)) (z_parked s) s"

definition demo_publish :: "string \<Rightarrow> pub_answer list \<Rightarrow> pub_sys \<Rightarrow> pub_sys" where
  "demo_publish gid as s = run_transaction pub_demo_env as (begin_publish gid (stage_demo gid s))"

definition one_published :: pub_sys where
  "one_published = demo_publish ''g1'' (replicate 18 Works) empty_root"

definition built_demo :: "string \<Rightarrow> pub_sys \<Rightarrow> pub_sys" where
  "built_demo gid s = s\<lparr>z_now := (z_now s)\<lparr>d_generations := (gid, DirEntry 3 NoFile) # d_generations (z_now s)\<rparr>, z_gens := []\<rparr>"

text \<open>The \<open>fsync\<close> of \<open>generations/\<close> is skipped.\<close>

definition skipped_run :: pub_sys where
  "skipped_run = demo_publish ''g1'' (replicate 7 Works @ [Skips] @ replicate 10 Works) empty_root"

text \<open>The last \<open>fsync\<close> fails and the handler cannot read the manifest.\<close>

definition garbled_run :: pub_sys where
  "garbled_run = demo_publish ''g1'' (replicate 15 Works @ [Fails, Garbles] @ replicate 4 Works) empty_root"

text \<open>The replaced manifest is not synced; a restart sweeps.\<close>

definition unsynced_run :: pub_sys where
  "unsynced_run = demo_publish ''g2'' (replicate 13 Works @ [Fails, Works, Works, Works, Fails]) (one_published\<lparr>z_served := None\<rparr>)"

definition unsynced_start :: pub_sys where
  "unsynced_start = startup_sweep pub_demo_env (unsynced_run\<lparr>z_served := None, z_pc := PIdle\<rparr>)"

text \<open>A rebuild of the delta machine sweeps while the container of a publication is in
  \<open>generations/\<close>.\<close>

definition before_rebuild :: pub_sys where
  "before_rebuild = built_demo ''g9'' (demo_publish ''g2'' (replicate 13 Works) one_published)"

definition rebuilt_run :: pub_sys where
  "rebuilt_run = run_transaction pub_demo_env (replicate 6 Works) (rebuild_sweep pub_demo_env ''g9'' before_rebuild)"

text \<open>The replacement of the manifest fails; a restart sweeps.\<close>

definition two_published :: pub_sys where
  "two_published = demo_publish ''g2'' (replicate 19 Works) one_published"

definition failed_third :: pub_sys where
  "failed_third = demo_publish ''g3'' (replicate 13 Works @ [Fails] @ replicate 5 Works) two_published"

lemma reach_run: "pub_reach b False s \<Longrightarrow> pub_reach b False (run_transaction b as s)"
  by (induction as arbitrary: s) (simp_all add: pub_reach.more work_loose)

lemma reach_publish:
  assumes "pub_reach pub_demo_env False s" "z_pc s \<in> {PIdle, PDone True True}" "gid \<notin> fst ` set (d_staging (z_now s))" "component_name gid"
  shows "pub_reach pub_demo_env False (demo_publish gid as s)"
proof -
  have "pub_reach pub_demo_env False (stage_demo gid s)"
    unfolding stage_demo_def by (rule pub_reach.more [OF assms(1) stage [OF assms(3)]])
  moreover have "at_rest (stage_demo gid s)" using assms(2) by (auto simp: at_rest_def stage_demo_def set_stag_def)
  ultimately have "pub_reach pub_demo_env False (begin_publish gid (stage_demo gid s))"
    using assms(4) by (blast intro: pub_reach.more publish)
  then show ?thesis unfolding demo_publish_def by (rule reach_run)
qed

lemma reach_one: "pub_reach pub_demo_env False one_published"
  unfolding one_published_def by (rule reach_publish [OF pub_reach.first]) (simp_all add: empty_root_def component_name_def)

lemma one_published_state: "z_pc one_published = PDone True True" "map fst (d_staging (z_now one_published)) = []"
  by code_simp+

lemma built_fresh: "''g9'' \<notin> fst ` set (d_generations (z_now (demo_publish ''g2'' (replicate 13 Works) one_published)))"
  by code_simp

lemma rest_of_runs:
  "z_pc (one_published\<lparr>z_served := None\<rparr>) = PDone True True" "''g2'' \<notin> fst ` set (d_staging (z_now (one_published\<lparr>z_served := None\<rparr>)))"
  "''g2'' \<notin> fst ` set (d_staging (z_now one_published))"
  by code_simp+

text \<open>The states at which an old root directory or an old \<open>generations/\<close> comes back.\<close>

definition lost_power :: "fs_entries \<Rightarrow> json_file \<times> json_file \<Rightarrow> pub_sys \<Rightarrow> pub_sys" where
  "lost_power es r s = s\<lparr>z_now := (z_now s)\<lparr>d_generations := es, d_active := fst r, d_rollback := snd r\<rparr>,
     z_gens := [], z_stag := [], z_root := [], z_served := None, z_pc := PIdle\<rparr>"

lemma lost_power_off:
  "es \<in> insert (d_generations (z_now s)) (set (z_gens s)) \<Longrightarrow> r \<in> insert (d_active (z_now s), d_rollback (z_now s)) (set (z_root s)) \<Longrightarrow>
     powered_off s (lost_power es r s)"
  unfolding powered_off_def lost_power_def
  by (rule exI [of _ es], rule exI [of _ "(d_staging (z_now s), z_parked s)"], rule exI [of _ r]) simp

definition broken :: "pub_env \<Rightarrow> pub_sys \<Rightarrow> bool" where
  "broken b s \<longleftrightarrow> (case active_id (d_active (z_now s)) of
     Some gid \<Rightarrow> opened b (d_generations (z_now s)) gid = None | None \<Rightarrow> False)"

definition forgets_generations :: pub_sys where
  "forgets_generations = lost_power [] (d_active (z_now skipped_run), d_rollback (z_now skipped_run)) skipped_run"

definition old_root_back :: pub_sys where
  "old_root_back = lost_power (d_generations (z_now unsynced_start)) (hd (z_root unsynced_start)) unsynced_start"

lemma loses_after_skip:
  "z_pc skipped_run = PDone True True" "[] \<in> set (z_gens skipped_run)" "broken pub_demo_env forgets_generations"
  by code_simp+

lemma loses_after_garble: "z_pc garbled_run = PDone False False" "broken pub_demo_env garbled_run"
  by code_simp+

lemma loses_after_start:
  "z_root unsynced_start \<noteq> []" "broken pub_demo_env old_root_back"
  by code_simp+

lemma loses_after_rebuild:
  "z_pc before_rebuild = PReplace" "is_dir_in ''g9'' (d_generations (z_now before_rebuild))"
  "z_pc rebuilt_run = PDone False True" "broken pub_demo_env rebuilt_run"
  by code_simp+

lemma reach_runs:
  "pub_reach pub_demo_env False skipped_run" "pub_reach pub_demo_env False garbled_run"
  "pub_reach pub_demo_env False unsynced_start" "pub_reach pub_demo_env False rebuilt_run"
proof -
  show "pub_reach pub_demo_env False skipped_run" "pub_reach pub_demo_env False garbled_run"
    unfolding skipped_run_def garbled_run_def
    by (rule reach_publish [OF pub_reach.first]; simp add: empty_root_def component_name_def)+
  have "pub_reach pub_demo_env False (one_published\<lparr>z_served := None\<rparr>)" by (rule pub_reach.more [OF reach_one serve])
  then have "pub_reach pub_demo_env False unsynced_run"
    unfolding unsynced_run_def using rest_of_runs(1,2) by (intro reach_publish) (simp_all add: component_name_def)
  then have "pub_reach pub_demo_env False (unsynced_run\<lparr>z_served := None, z_pc := PIdle\<rparr>)" by (rule pub_reach.more [OF _ crash])
  then show "pub_reach pub_demo_env False unsynced_start"
    unfolding unsynced_start_def by (rule pub_reach.more) (rule start; simp)
  have "pub_reach pub_demo_env False (demo_publish ''g2'' (replicate 13 Works) one_published)"
    using one_published_state(1) rest_of_runs(3) by (intro reach_publish [OF reach_one]) (simp_all add: component_name_def)
  then have "pub_reach pub_demo_env False before_rebuild"
    unfolding before_rebuild_def built_demo_def using built_fresh by (intro pub_reach.more [OF _ build])
  then have "pub_reach pub_demo_env False (rebuild_sweep pub_demo_env ''g9'' before_rebuild)"
    by (rule pub_reach.more [OF _ rebuild]) (simp_all add: loses_after_rebuild(2))
  then show "pub_reach pub_demo_env False rebuilt_run" unfolding rebuilt_run_def by (rule reach_run)
qed

text \<open>C20. What never losing the active rests on: each of the four conditions on the run is needed.
  When the \<open>fsync\<close> of \<open>generations/\<close> is skipped because the directory could not be opened, a
  publication that reports success names after a loss of power a generation that is gone. When
  the last \<open>fsync\<close> fails and the handler cannot read the manifest, the committed container is
  moved back to \<open>staging/\<close> and the result denies the commit. When the manifest was replaced but
  not synced, a restart sweeps the generation that a loss of power makes active again. And a
  rebuild sweeps the container of a publication that then commits to it.\<close>

theorem promise_needs_its_conditions:
  "(pub_reach pub_demo_env False skipped_run \<and> z_pc skipped_run = PDone True True \<and>
     powered_off skipped_run forgets_generations \<and> broken pub_demo_env forgets_generations) \<and>
   (pub_reach pub_demo_env False garbled_run \<and> z_pc garbled_run = PDone False False \<and>
     broken pub_demo_env garbled_run) \<and>
   (pub_reach pub_demo_env False unsynced_start \<and> powered_off unsynced_start old_root_back \<and>
     broken pub_demo_env old_root_back) \<and>
   (pub_reach pub_demo_env False rebuilt_run \<and> z_pc rebuilt_run = PDone False True \<and>
     broken pub_demo_env rebuilt_run)"
  using reach_runs loses_after_skip loses_after_garble loses_after_start loses_after_rebuild
  by (simp add: forgets_generations_def old_root_back_def lost_power_off)


subsection \<open>The publisher\<close>

lemma finish_result: "m_publish_result (finish_publish ok why m) = Some (ok, why)"
  by (simp add: finish_publish_def)

lemma dead_switch:
  assumes "fs_epoch f \<noteq> snd (snd r)"
  shows "\<exists>why. switch_answer blob_ok f m d r = (False, why)"
proof -
  obtain gid rep ep where r: "r = (gid, rep, ep)" by (cases r)
  show ?thesis
    using assms by (auto simp: r switch_answer_def perform_switch_def finish_result read_identity_def split: sum.split prod.split)
qed

lemma publisher_cycles_dead:
  assumes "u_committed p = Some r" "u_switched p \<noteq> Some (fst r)" "\<forall>x\<in>set xs. fs_epoch (fst x) \<noteq> snd (snd r)"
  shows "True \<notin> set (fst (publisher_cycles blob_ok transact xs p)) \<and>
    u_committed (snd (publisher_cycles blob_ok transact xs p)) = Some r \<and>
    u_switched (snd (publisher_cycles blob_ok transact xs p)) = u_switched p"
  using assms
proof (induction xs arbitrary: p)
  case (Cons x xs)
  obtain f m d ready where x: "x = (f, m, d, ready)" by (cases x) auto
  obtain why where w: "switch_answer blob_ok f m d r = (False, why)"
    using dead_switch [of f r blob_ok m d] Cons.prems(3) x by auto
  let ?p = "p\<lparr>u_error := Some (''switch pending: '' @ why)\<rparr>"
  have "publisher_cycle (switch_answer blob_ok f m d) transact ready p = (False, ?p)"
    using Cons.prems(1,2) w by (simp add: publisher_cycle_def publisher_retry_def)
  then show ?case using Cons.IH [of ?p] Cons.prems x by (simp add: case_prod_beta)
qed simp

text \<open>A committed publication whose epoch is gone blocks the publisher: in whatever cycles
  follow over a fact store of another epoch, no transaction is started any more, however many
  stagings become ready, and the switch stays pending.\<close>

theorem dead_switch_blocks_the_publisher:
  assumes "u_committed p = Some r" "u_switched p \<noteq> Some (fst r)"
    and "\<forall>x\<in>set xs. fs_epoch (fst x) \<noteq> snd (snd r)"
    and "publisher_cycles blob_ok transact xs p = (started, q)"
  shows "True \<notin> set started \<and> u_committed q = Some r \<and> u_switched q = u_switched p"
  using publisher_cycles_dead [OF assms(1-3), of blob_ok transact] unfolding assms(4) by simp

subsection \<open>Witnesses\<close>

lemma reach_strict_run:
  "pub_reach b True s \<Longrightarrow> set as \<subseteq> {Works, Fails, Blocks} \<Longrightarrow> pub_reach b True (run_transaction b as s)"
proof (induction as arbitrary: s)
  case (Cons a as)
  then have "a \<notin> {Skips, Garbles}" by auto
  then have "pub_reach b True (pub_step b a s)" using Cons.prems(1) by (blast intro: pub_reach.more work)
  then show ?case using Cons by simp
qed simp

lemma reach_one_strict: "pub_reach pub_demo_env True one_published"
proof -
  have "pub_reach pub_demo_env True (stage_demo ''g1'' empty_root)"
    unfolding stage_demo_def by (rule pub_reach.more [OF pub_reach.first stage]) (simp add: empty_root_def)
  then have "pub_reach pub_demo_env True (begin_publish ''g1'' (stage_demo ''g1'' empty_root))"
    by (rule pub_reach.more [OF _ publish]) (simp_all add: at_rest_def stage_demo_def set_stag_def empty_root_def component_name_def)
  then show ?thesis unfolding one_published_def demo_publish_def by (rule reach_strict_run) simp
qed

lemma one_published_active: "active_id (d_active (z_now one_published)) = Some ''g1''"
  by code_simp

theorem publication_never_loses_the_active_witness:
  "opened pub_demo_env (d_generations (z_now one_published)) ''g1'' \<noteq> None"
  by (rule publication_never_loses_the_active [OF reach_one_strict disjI1 [OF refl] disjI1 [OF one_published_active]])


theorem publication_always_returns_witness:
  "length (replicate 30 Fails) = 30 \<and>
   ((\<exists>ok committed. z_pc (run_transaction pub_demo_env (replicate 30 Fails) (begin_publish ''g1'' empty_root)) = PDone ok committed) \<or>
    z_pc (run_transaction pub_demo_env (replicate 30 Fails) (begin_publish ''g1'' empty_root)) = PRaised)"
  using publication_always_returns [of "replicate 30 Fails" pub_demo_env "''g1''" empty_root] by (simp only: length_replicate order_refl)

lemma staged_demo_state:
  "map_of (d_staging (z_now (stage_demo ''g1'' empty_root))) ''g1'' = Some (DirEntry 3 (ready_record ''g1''))"
  "''g1'' \<notin> fst ` set (d_generations (z_now (stage_demo ''g1'' empty_root)))"
  "active_id (d_active (z_now (stage_demo ''g1'' empty_root))) \<noteq> Some ''g1''"
  "ready_record ''g1'' \<noteq> NoFile"
  by code_simp+

lemma replacing_demo:
  "before_commit (z_pc (run_transaction pub_demo_env (replicate 12 Works) (begin_publish ''g1'' (stage_demo ''g1'' empty_root))))"
  by code_simp

theorem failed_publication_is_undone_witness:
  "map_of (d_staging (z_now (run_transaction pub_demo_env (replicate 12 Works @ Fails # replicate 5 Works)
     (begin_publish ''g1'' (stage_demo ''g1'' empty_root))))) ''g1'' = Some (DirEntry 3 (ready_record ''g1''))"
  using failed_publication_is_undone [OF staged_demo_state(1,4,2,3) replacing_demo refl] by (simp only: simp_thms)

lemma publishable_demo: "publishable pub_demo_env ''g1'' 3 (ready_record ''g1'')"
  by code_simp

theorem ready_staging_is_published_witness:
  "z_pc (run_transaction pub_demo_env (replicate 30 Works) (begin_publish ''g1'' (stage_demo ''g1'' empty_root))) = PDone True True"
  using ready_staging_is_published [OF publishable_demo staged_demo_state(4,1,2,3) refl] by (simp only: simp_thms)

theorem dead_switch_blocks_the_publisher_witness:
  "let f = \<lparr>fs_epoch = ''e2'', fs_clock = (0, 0), fs_events = [], fs_retractions = []\<rparr>;
       d = \<lparr>k_gens = [], k_damaged = [], k_leftover = [], k_ckpts = [], k_active = NoFile, k_rollback = NoFile\<rparr>;
       p = \<lparr>u_committed = Some (''g1'', ''r'', ''e1''), u_switched = None, u_error = None\<rparr>
   in True \<notin> set (fst (publisher_cycles (\<lambda>_ _. True) (\<lambda>_. (True, True, [])) [(f, blank_machine [] [], d, Some (''g2'', ''r'', ''e2''))] p))"
  unfolding Let_def
  by (rule dead_switch_blocks_the_publisher [where r = "(''g1'', ''r'', ''e1'')", OF _ _ _ prod.collapse [symmetric], THEN conjunct1])
    simp_all

end
