(* ===== verification/Annotations.thy ===== *)
theory Annotations
  imports Archive_Base
begin

text \<open>
  The journal of human annotations (\<open>src/archive/annotations.py\<close>): the validation of an edit, the
  store with its index, its append and publication, its start. The journal is its complete lines
  with their lengths and the bytes after them; a line holds the value that \<open>json.loads\<close> reads
  from it, \<open>None\<close> where it reads none. Parameters (\<open>nenv\<close>): the SHA-256 and the length of
  \<open>canonical_bytes\<close>, the length of a string in UTF-8 (\<open>None\<close> for a lone surrogate).
\<close>

record nenv =
  n_digest :: "pyval \<Rightarrow> string"
  n_size :: "pyval \<Rightarrow> nat"
  n_utf8 :: "string \<Rightarrow> nat option"

subsection \<open>Edits\<close>

definition ANNOTATION_VERSION :: string where "ANNOTATION_VERSION = ''input-archive-annotations-v1''"

definition EDIT_KINDS :: "string list" where "EDIT_KINDS = [''confirm'', ''correct'', ''exclude'', ''experience'']"

definition TEXT_BYTES :: nat where "TEXT_BYTES = 8192"
definition NOTE_BYTES :: nat where "NOTE_BYTES = 2048"
definition LINE_BYTES :: nat where "LINE_BYTES = 131072"
definition MAX_REVISION :: int where "MAX_REVISION = 9223372036854775807"

definition EXPERIENCES :: "string list" where
  "EXPERIENCES = [''input_difficulty'', ''candidate_issue'', ''unexpected_behavior'', ''other'']"

definition EXPERIENCE_VALUES :: "string list" where "EXPERIENCE_VALUES = [''minor'', ''major'', ''blocking'']"

definition EXCLUDE_REASONS :: "string list" where
  "EXCLUDE_REASONS = [''private'', ''sensitive'', ''unrepresentative'', ''other'']"

definition ZERO :: string where "ZERO = replicate 64 (CHR ''0'')"

definition an_integer :: "int \<Rightarrow> pyval \<Rightarrow> bool" where
  "an_integer minimum v \<longleftrightarrow> is_exact_int v \<and> minimum \<le> int_of_val v \<and> int_of_val v \<le> MAX_REVISION"

definition bounded_text :: "nenv \<Rightarrow> pyval \<Rightarrow> nat \<Rightarrow> bool \<Rightarrow> string outcome" where
  "bounded_text e v bnd allow_empty =
     demand (is_str v \<and> (str_of_val v \<noteq> [] \<or> allow_empty)) ''invalid_request''
       (case n_utf8 e (str_of_val v) of
          None \<Rightarrow> Refused ''invalid_request''
        | Some n \<Rightarrow> demand (n \<le> bnd) ''annotation_input_bound'' (Value (str_of_val v)))"

definition edit_value :: "nenv \<Rightarrow> string \<Rightarrow> pydict \<Rightarrow> pydict outcome" where
  "edit_value e kind value =
     (if kind = ''confirm'' then demand (value = []) ''invalid_request'' (Value [])
      else if kind = ''correct'' then
        demand (keys_are value [''text'']) ''invalid_request''
          (and_then (bounded_text e (dget value ''text'') TEXT_BYTES False) (\<lambda>t. Value [(''text'', PStr t)]))
      else if kind = ''exclude'' then
        demand (keys_are value [''reason''] \<and> str_in (dget value ''reason'') EXCLUDE_REASONS) ''invalid_request''
          (Value [(''reason'', dget value ''reason''), (''excluded'', PBool True)])
      else
        demand (fst ` set value \<subseteq> {''kind'', ''value'', ''note''} \<and>
                str_in (dget value ''kind'') EXPERIENCES \<and> str_in (dget value ''value'') EXPERIENCE_VALUES) ''invalid_request''
          (and_then (bounded_text e (dget_or value ''note'' (PStr [])) NOTE_BYTES True)
             (\<lambda>t. Value [(''kind'', dget value ''kind''), (''value'', dget value ''value''), (''note'', PStr t)])))"

definition normalize_edit :: "nenv \<Rightarrow> pydict \<Rightarrow> (string \<times> pydict) outcome" where
  "normalize_edit e body =
     (let value = dget_or body ''value'' (PDict []) in
      demand (fst ` set body \<subseteq> {''annotation_version'', ''source_reference'', ''expected_revision'',
                ''operation_id'', ''kind'', ''value''}) ''invalid_request''
     (demand (str_in (dget body ''kind'') EDIT_KINDS \<and> is_dict value) ''invalid_request''
     (demand (an_integer 0 (dget body ''expected_revision'') \<and> safe_token (dget body ''operation_id'') \<noteq> None)
        ''invalid_request''
     (and_then (edit_value e (str_of_val (dget body ''kind'')) (dict_of_val value))
        (\<lambda>v. Value (str_of_val (dget body ''kind''), v))))))"

subsection \<open>The store\<close>

type_synonym source_key = "string \<times> int \<times> string"

text \<open>An entry of the history of a source and kind: revision, offset, length and digest of a row.\<close>

type_synonym hist_entry = "int \<times> nat \<times> nat \<times> string"

record astore =
  h_archive :: string
  h_history :: "(source_key \<times> hist_entry list) list"
  h_operations :: "(string \<times> string \<times> int) list"
  h_revision :: int
  h_offset :: nat
  h_chain :: string
  h_failed :: bool

definition new_store :: "string \<Rightarrow> astore" where
  "new_store aid = \<lparr>h_archive = aid, h_history = [], h_operations = [], h_revision = 0, h_offset = 0,
     h_chain = ZERO, h_failed = False\<rparr>"

definition manifest_value :: "string \<Rightarrow> int \<Rightarrow> nat \<Rightarrow> string \<Rightarrow> pyval" where
  "manifest_value aid rv off ch =
     PDict [(''version'', PStr ANNOTATION_VERSION), (''archive_id'', PStr aid), (''revision'', PInt rv),
       (''offset'', PInt (int off)), (''chain'', PStr ch)]"

definition is_hex :: "nat \<Rightarrow> pyval \<Rightarrow> bool" where
  "is_hex n v \<longleftrightarrow> is_str v \<and> length (str_of_val v) = n \<and> all_in (str_of_val v) lower_hex"

definition reference_shape :: "string \<Rightarrow> pyval \<Rightarrow> unit outcome" where
  "reference_shape aid ref =
     (let r = dict_of_val ref in
      demand (is_dict ref \<and> keys_are r [''archive_id'', ''source_instance_id'', ''source_local_sequence'',
                ''durable_seq'', ''record_digest'']) ''invalid_request''
     (demand (eq_str (dget r ''archive_id'') aid) ''annotation_foreign_archive''
     (demand (safe_token (dget r ''source_instance_id'') \<noteq> None \<and> an_integer 0 (dget r ''source_local_sequence'') \<and>
              an_integer 1 (dget r ''durable_seq'')) ''invalid_request''
     (demand (is_hex 64 (dget r ''record_digest'')) ''invalid_request'' (Value ())))))"

definition row_keys :: "string list" where
  "row_keys = [''version'', ''archive_id'', ''revision'', ''operation_id'', ''semantic'', ''semantic_hash'',
     ''previous'', ''chain'']"

definition semantic_keys :: "string list" where
  "semantic_keys = [''source_reference'', ''kind'', ''value'', ''provenance'', ''expected_revision'']"

text \<open>The value of a stored row as it was requested.\<close>

definition requested_value :: "string \<Rightarrow> pyval \<Rightarrow> pyval option" where
  "requested_value kind value =
     (if kind \<noteq> ''exclude'' then Some value
      else if is_dict value \<and> dget (dict_of_val value) ''excluded'' = PBool True \<and>
              keys_are (dict_of_val value) [''excluded'', ''reason'']
      then Some (PDict [(''reason'', dget (dict_of_val value) ''reason'')]) else None)"

definition semantic_ok :: "nenv \<Rightarrow> astore \<Rightarrow> string \<Rightarrow> pyval \<Rightarrow> bool" where
  "semantic_ok e s opid sem =
     (let d = dict_of_val sem in
      is_dict sem \<and> keys_are d semantic_keys \<and> str_in (dget d ''kind'') EDIT_KINDS \<and>
      eq_str (dget d ''provenance'') ''human'' \<and> is_exact_int (dget d ''expected_revision'') \<and>
      int_of_val (dget d ''expected_revision'') = h_revision s \<and>
      (case requested_value (str_of_val (dget d ''kind'')) (dget d ''value'') of
         None \<Rightarrow> False
       | Some value \<Rightarrow>
           (case normalize_edit e [(''kind'', dget d ''kind''), (''value'', value),
                   (''expected_revision'', dget d ''expected_revision''), (''operation_id'', PStr opid)] of
              Value (_, normalized) \<Rightarrow> py_eq (PDict normalized) (dget d ''value'')
            | _ \<Rightarrow> False)) \<and>
      reference_shape (h_archive s) (dget d ''source_reference'') = Value ())"

definition validate_row :: "nenv \<Rightarrow> astore \<Rightarrow> pyval \<Rightarrow> bool" where
  "validate_row e s row =
     (let d = dict_of_val row; opid = dget d ''operation_id'' in
      is_dict row \<and> keys_are d row_keys \<and>
      eq_str (dget d ''version'') ANNOTATION_VERSION \<and> eq_str (dget d ''archive_id'') (h_archive s) \<and>
      an_integer 1 (dget d ''revision'') \<and> int_of_val (dget d ''revision'') = h_revision s + 1 \<and>
      eq_str (dget d ''previous'') (h_chain s) \<and>
      safe_token opid \<noteq> None \<and> str_of_val opid \<notin> fst ` set (h_operations s) \<and>
      eq_str (dget d ''semantic_hash'') (n_digest e (dget d ''semantic'')) \<and>
      eq_str (dget d ''chain'') (n_digest e (PDict (filter (\<lambda>kv. fst kv \<noteq> ''chain'') d))) \<and>
      semantic_ok e s (str_of_val opid) (dget d ''semantic''))"

definition row_key :: "pyval \<Rightarrow> source_key" where
  "row_key row =
     (let sem = dict_of_val (dget (dict_of_val row) ''semantic''); r = dict_of_val (dget sem ''source_reference'') in
      (str_of_val (dget r ''source_instance_id''), int_of_val (dget r ''source_local_sequence''),
       str_of_val (dget sem ''kind'')))"

definition row_revision :: "pyval \<Rightarrow> int" where
  "row_revision row = int_of_val (dget (dict_of_val row) ''revision'')"

definition history_of :: "astore \<Rightarrow> source_key \<Rightarrow> hist_entry list" where
  "history_of s k = (case map_of (h_history s) k of None \<Rightarrow> [] | Some es \<Rightarrow> es)"

text \<open>\<open>_remember\<close>, with the offset after the row.\<close>

definition remember_row :: "nenv \<Rightarrow> pyval \<Rightarrow> nat \<Rightarrow> astore \<Rightarrow> astore" where
  "remember_row e row n s =
     (let d = dict_of_val row; k = row_key row in
      s\<lparr>h_history := dset k (history_of s k @ [(row_revision row, h_offset s, n, n_digest e row)]) (h_history s),
        h_operations := dset (str_of_val (dget d ''operation_id''))
          (str_of_val (dget d ''semantic_hash''), row_revision row) (h_operations s),
        h_revision := row_revision row, h_chain := str_of_val (dget d ''chain''), h_offset := h_offset s + n\<rparr>)"

subsection \<open>An edit\<close>

text \<open>\<open>_ack\<close>: the revision of the edit, the current one, whether it was there already.\<close>

type_synonym ack = "int \<times> int \<times> bool"

definition edit_semantic :: "pyval \<Rightarrow> string \<Rightarrow> pydict \<Rightarrow> pyval \<Rightarrow> pyval" where
  "edit_semantic ref kind value expected =
     PDict [(''source_reference'', ref), (''kind'', PStr kind), (''value'', PDict value),
       (''provenance'', PStr ''human''), (''expected_revision'', expected)]"

definition edit_row :: "nenv \<Rightarrow> astore \<Rightarrow> string \<Rightarrow> pyval \<Rightarrow> pyval" where
  "edit_row e s opid sem =
     (let body = [(''version'', PStr ANNOTATION_VERSION), (''archive_id'', PStr (h_archive s)),
            (''revision'', PInt (h_revision s + 1)), (''operation_id'', PStr opid), (''semantic'', sem),
            (''semantic_hash'', PStr (n_digest e sem)), (''previous'', PStr (h_chain s))]
      in PDict (body @ [(''chain'', PStr (n_digest e (PDict body)))]))"

datatype edit_plan = Replay ack | Write pyval

text \<open>\<open>mutate\<close> up to the append. The resolver answers whether the source has an observed target.\<close>

definition plan_edit :: "nenv \<Rightarrow> (pyval \<Rightarrow> bool outcome) \<Rightarrow> astore \<Rightarrow> pydict \<Rightarrow> edit_plan outcome" where
  "plan_edit e resolve s body =
     demand (\<not> h_failed s) ''annotation_state_invalid''
    (demand (eq_str (dget body ''annotation_version'') ANNOTATION_VERSION) ''unsupported_annotation_version''
    (and_then (normalize_edit e body) (\<lambda>(kind, value).
     let ref = dget body ''source_reference'' in
     and_then (reference_shape (h_archive s) ref) (\<lambda>_.
     and_then (resolve ref) (\<lambda>has_target.
     demand (kind = ''confirm'' \<longrightarrow> has_target) ''annotation_target_unavailable''
    (let expected = dget body ''expected_revision''; opid = str_of_val (dget body ''operation_id'');
         sem = edit_semantic ref kind value expected in
     (case map_of (h_operations s) opid of
        Some (hash, rv) \<Rightarrow>
          demand (hash = n_digest e sem) ''annotation_operation_conflict'' (Value (Replay (rv, h_revision s, True)))
      | None \<Rightarrow>
          demand (int_of_val expected = h_revision s) ''annotation_stale_revision''
         (demand (h_revision s \<noteq> MAX_REVISION) ''annotation_input_bound''
            (Value (Write (edit_row e s opid sem)))))))))))"

subsection \<open>Start\<close>

type_synonym jline = "pyval option \<times> nat"

text \<open>The loop over the published prefix: from the line at the store's offset to the manifest's.\<close>

fun load_rows :: "nenv \<Rightarrow> nat \<Rightarrow> jline list \<Rightarrow> astore \<Rightarrow> astore option" where
  "load_rows e limit [] s = (if h_offset s < limit then None else Some s)"
| "load_rows e limit ((v, n) # ls) s =
     (if limit \<le> h_offset s then Some s
      else if LINE_BYTES < n \<or> limit < h_offset s + n then None
      else case v of
        None \<Rightarrow> None
      | Some row \<Rightarrow> if validate_row e s row then load_rows e limit ls (remember_row e row n s) else None)"

datatype afile = Absent | Json pyval | Garbled

definition read_bounded :: "nenv \<Rightarrow> afile \<Rightarrow> pydict option" where
  "read_bounded e f =
     (case f of
        Json v \<Rightarrow> if is_dict v \<and> n_size e v \<le> 4096 then Some (dict_of_val v) else None
      | _ \<Rightarrow> None)"

definition identity_value :: "string \<Rightarrow> pyval" where
  "identity_value aid = PDict [(''version'', PStr ANNOTATION_VERSION), (''archive_id'', PStr aid)]"

definition read_identity_file :: "nenv \<Rightarrow> afile \<Rightarrow> string option" where
  "read_identity_file e f =
     (case read_bounded e f of
        None \<Rightarrow> None
      | Some d \<Rightarrow>
          if keys_are d [''version'', ''archive_id''] \<and> eq_str (dget d ''version'') ANNOTATION_VERSION \<and>
             is_hex 32 (dget d ''archive_id'')
          then Some (str_of_val (dget d ''archive_id'')) else None)"

definition read_state_file :: "nenv \<Rightarrow> string \<Rightarrow> afile \<Rightarrow> (int \<times> nat \<times> pyval) option" where
  "read_state_file e aid f =
     (case read_bounded e f of
        None \<Rightarrow> None
      | Some d \<Rightarrow>
          if keys_are d [''version'', ''archive_id'', ''revision'', ''offset'', ''chain''] \<and>
             eq_str (dget d ''version'') ANNOTATION_VERSION \<and> eq_str (dget d ''archive_id'') aid \<and>
             an_integer 0 (dget d ''revision'') \<and> an_integer 0 (dget d ''offset'')
          then Some (int_of_val (dget d ''revision''), nat (int_of_val (dget d ''offset'')), dget d ''chain'')
          else None)"

record adisk =
  k_identity :: afile
  k_manifest :: afile
  k_journal :: "(jline list \<times> nat) option"

text \<open>Lines up to an offset: what a truncation leaves.\<close>

fun lines_upto :: "nat \<Rightarrow> jline list \<Rightarrow> jline list" where
  "lines_upto n [] = []"
| "lines_upto n (l # ls) = (if snd l \<le> n then l # lines_upto (n - snd l) ls else [])"

text \<open>\<open>prepare\<close> when the three files exist.\<close>

definition open_store :: "nenv \<Rightarrow> adisk \<Rightarrow> (astore \<times> adisk) option" where
  "open_store e d =
     (case (read_identity_file e (k_identity d), k_journal d) of
        (Some aid, Some (ls, tail)) \<Rightarrow>
          (case read_state_file e aid (k_manifest d) of
             None \<Rightarrow> None
           | Some (rv, off, ch) \<Rightarrow>
               (case load_rows e off ls (new_store aid) of
                  None \<Rightarrow> None
                | Some s \<Rightarrow>
                    if h_revision s = rv \<and> eq_str ch (h_chain s) \<and> h_offset s = off
                    then Some (s, d\<lparr>k_journal := Some (lines_upto off ls, 0)\<rparr>) else None))
      | _ \<Rightarrow> None)"

text \<open>The first start: the journal, the manifest and the identity, in this order.\<close>

datatype found_state = NoFiles | AllFiles

definition found_files :: "adisk \<Rightarrow> found_state option" where
  "found_files d =
     (if k_identity d = Absent \<and> k_manifest d = Absent \<and> k_journal d = None then Some NoFiles
      else if k_identity d \<noteq> Absent \<and> k_manifest d \<noteq> Absent \<and> k_journal d \<noteq> None then Some AllFiles else None)"

definition init_files :: "string \<Rightarrow> nat \<Rightarrow> adisk \<Rightarrow> adisk" where
  "init_files aid steps d =
     (let d1 = (if 1 \<le> steps then d\<lparr>k_journal := Some ([], 0)\<rparr> else d);
          d2 = (if 2 \<le> steps then d1\<lparr>k_manifest := Json (manifest_value aid 0 0 ZERO)\<rparr> else d1) in
      if 3 \<le> steps then d2\<lparr>k_identity := Json (identity_value aid)\<rparr> else d2)"

text \<open>\<open>prepare\<close>: \<open>aid\<close> is the fresh identifier, \<open>steps\<close> how many of the three files a first start
  manages to create.\<close>

definition prepare_store :: "nenv \<Rightarrow> string \<Rightarrow> nat \<Rightarrow> adisk \<Rightarrow> astore option \<times> adisk" where
  "prepare_store e aid steps d =
     (case found_files d of
        None \<Rightarrow> (None, d)
      | Some NoFiles \<Rightarrow>
          (let d' = init_files aid steps d in
           if steps < 3 then (None, d')
           else (case open_store e d' of Some (s, d'') \<Rightarrow> (Some s, d'') | None \<Rightarrow> (None, d')))
      | Some AllFiles \<Rightarrow> (case open_store e d of Some (s, d') \<Rightarrow> (Some s, d') | None \<Rightarrow> (None, d)))"

subsection \<open>The effective edits of a source\<close>

text \<open>\<open>bisect.bisect_right\<close> with the key \<open>(revision, MAX_REVISION, MAX_REVISION, ''z'')\<close>; a digest is
  hexadecimal and so never after \<open>''z''\<close>.\<close>

definition after_key :: "int \<Rightarrow> hist_entry \<Rightarrow> bool" where
  "after_key r h = (case h of (rv, off, len, dig) \<Rightarrow>
     r < rv \<or> r = rv \<and> (MAX_REVISION < int off \<or> MAX_REVISION = int off \<and> MAX_REVISION < int len))"

function bisect_right :: "('a \<Rightarrow> bool) \<Rightarrow> 'a list \<Rightarrow> nat \<Rightarrow> nat \<Rightarrow> nat" where
  "bisect_right after xs lo hi =
     (if hi \<le> lo then lo
      else let mid = (lo + hi) div 2 in
        if after (xs ! mid) then bisect_right after xs lo mid else bisect_right after xs (Suc mid) hi)"
  by pat_completeness auto

termination by (relation "measure (\<lambda>(after, xs, lo, hi). hi - lo)") auto

declare bisect_right.simps [simp del]

text \<open>The line that begins at an offset.\<close>

fun line_at :: "jline list \<Rightarrow> nat \<Rightarrow> jline option" where
  "line_at [] off = None"
| "line_at (l # ls) off = (if off = 0 then Some l else if off < snd l then None else line_at ls (off - snd l))"

type_synonym effective_edit = "int \<times> pydict"

definition effective_kind :: "nenv \<Rightarrow> jline list \<Rightarrow> astore \<Rightarrow> pyval \<Rightarrow> int \<Rightarrow> string \<Rightarrow> effective_edit option outcome" where
  "effective_kind e ls s ref r kind =
     (let d = dict_of_val ref;
          h = history_of s (str_of_val (dget d ''source_instance_id''), int_of_val (dget d ''source_local_sequence''), kind);
          n = bisect_right (after_key r) h 0 (length h) in
      if n = 0 then Value None
      else (case h ! (n - 1) of (rv, off, len, dig) \<Rightarrow>
        (case line_at ls off of
           Some (Some row, len') \<Rightarrow>
             (let sem = dict_of_val (dget (dict_of_val row) ''semantic'') in
              demand (len' = len \<and> n_digest e row = dig \<and> py_eq (dget sem ''source_reference'') ref)
                ''annotation_state_invalid'' (Value (Some (rv, sem))))
         | _ \<Rightarrow> Refused ''annotation_state_invalid'')))"

fun effective_kinds ::
  "nenv \<Rightarrow> jline list \<Rightarrow> astore \<Rightarrow> pyval \<Rightarrow> int \<Rightarrow> string list \<Rightarrow> (string \<times> effective_edit) list outcome" where
  "effective_kinds e ls s ref r [] = Value []"
| "effective_kinds e ls s ref r (k # ks) =
     and_then (effective_kind e ls s ref r k) (\<lambda>x.
     and_then (effective_kinds e ls s ref r ks) (\<lambda>found.
       Value (case x of None \<Rightarrow> found | Some ed \<Rightarrow> (k, ed) # found)))"

definition effective :: "nenv \<Rightarrow> jline list \<Rightarrow> astore \<Rightarrow> pyval \<Rightarrow> int \<Rightarrow> (string \<times> effective_edit) list outcome" where
  "effective e ls s ref r = effective_kinds e ls s ref r EDIT_KINDS"

subsection \<open>The system\<close>

text \<open>
  One store beneath its collector, with crashes and losses of power. An edit under way has passed
  the checks (\<open>EAppend\<close>), appended and synced its line (\<open>EPublish\<close>), replaced the manifest
  (\<open>ESync\<close>). \<open>y_durable\<close> lines of the journal are synced; \<open>y_older\<close> are the manifests replaced
  since the last \<open>fsync\<close> of the directory. \<open>y_acks\<close> are the edits acknowledged: operation, hash,
  revision, whether it was a replay.
\<close>

datatype edit_pc = EIdle | EAppend pyval | EPublish pyval | ESync pyval

type_synonym given_ack = "string \<times> string \<times> int \<times> bool"

record jsys =
  y_disk :: adisk
  y_durable :: nat
  y_older :: "afile list"
  y_store :: "astore option"
  y_pc :: edit_pc
  y_acks :: "given_ack list"

definition journal :: "jsys \<Rightarrow> jline list" where
  "journal y = (case k_journal (y_disk y) of None \<Rightarrow> [] | Some j \<Rightarrow> fst j)"

definition put_journal :: "jline list \<Rightarrow> nat \<Rightarrow> jsys \<Rightarrow> jsys" where
  "put_journal ls tail y = y\<lparr>y_disk := (y_disk y)\<lparr>k_journal := Some (ls, tail)\<rparr>\<rparr>"

text \<open>A failed write poisons the store.\<close>

definition poisoned :: "jsys \<Rightarrow> jsys" where
  "poisoned y = y\<lparr>y_store := map_option (\<lambda>s. s\<lparr>h_failed := True\<rparr>) (y_store y), y_pc := EIdle\<rparr>"

definition line_of :: "nenv \<Rightarrow> pyval \<Rightarrow> jline" where
  "line_of e row = (Some row, Suc (n_size e row))"

definition row_ack :: "pyval \<Rightarrow> bool \<Rightarrow> given_ack" where
  "row_ack row replayed = (let d = dict_of_val row in
     (str_of_val (dget d ''operation_id''), str_of_val (dget d ''semantic_hash''), row_revision row, replayed))"

text \<open>The manifest that publishes a row.\<close>

definition next_manifest :: "nenv \<Rightarrow> pyval \<Rightarrow> astore \<Rightarrow> pyval" where
  "next_manifest e row s =
     manifest_value (h_archive s) (row_revision row) (h_offset s + Suc (n_size e row))
       (str_of_val (dget (dict_of_val row) ''chain''))"

text \<open>The operation and the hash of a request that is answered as a replay.\<close>

definition replay_ack :: "nenv \<Rightarrow> pydict \<Rightarrow> string \<times> pydict \<Rightarrow> ack \<Rightarrow> given_ack" where
  "replay_ack e body kv a =
     (str_of_val (dget body ''operation_id''),
      n_digest e (edit_semantic (dget body ''source_reference'') (fst kv) (snd kv) (dget body ''expected_revision'')),
      fst a, True)"

inductive jstep :: "nenv \<Rightarrow> (pyval \<Rightarrow> bool) \<Rightarrow> jsys \<Rightarrow> jsys \<Rightarrow> bool" for e known where
  request: "y_pc y = EIdle \<Longrightarrow> y_store y = Some s \<Longrightarrow> plan_edit e resolve s body = Value (Write row) \<Longrightarrow>
    known (dget body ''source_reference'') \<Longrightarrow> wf_dict (dict_of_val (dget body ''source_reference'')) \<Longrightarrow>
    jstep e known y (y\<lparr>y_pc := EAppend row\<rparr>)"
| replay: "y_pc y = EIdle \<Longrightarrow> y_store y = Some s \<Longrightarrow> plan_edit e resolve s body = Value (Replay a) \<Longrightarrow>
    normalize_edit e body = Value kv \<Longrightarrow> jstep e known y (y\<lparr>y_acks := replay_ack e body kv a # y_acks y\<rparr>)"
| append: "y_pc y = EAppend row \<Longrightarrow> y_store y = Some s \<Longrightarrow> int (h_offset s + Suc (n_size e row)) \<le> MAX_REVISION \<Longrightarrow>
    jstep e known y ((put_journal (journal y @ [line_of e row]) 0 y)\<lparr>y_durable := Suc (length (journal y)), y_pc := EPublish row\<rparr>)"
| append_torn: "y_pc y = EAppend row \<Longrightarrow> n \<le> n_size e row \<Longrightarrow> jstep e known y (poisoned (put_journal (journal y) n y))"
| append_unsynced: "y_pc y = EAppend row \<Longrightarrow> jstep e known y (poisoned (put_journal (journal y @ [line_of e row]) 0 y))"
| publish: "y_pc y = EPublish row \<Longrightarrow> y_store y = Some s \<Longrightarrow>
    jstep e known y (y\<lparr>y_disk := (y_disk y)\<lparr>k_manifest := Json (next_manifest e row s)\<rparr>,
      y_older := k_manifest (y_disk y) # y_older y, y_pc := ESync row\<rparr>)"
| publish_fails: "y_pc y \<in> {EPublish row, ESync row} \<Longrightarrow> jstep e known y (poisoned y)"
| synced: "y_pc y = ESync row \<Longrightarrow> y_store y = Some s \<Longrightarrow>
    jstep e known y (y\<lparr>y_older := [], y_store := Some (remember_row e row (Suc (n_size e row)) s), y_pc := EIdle,
      y_acks := row_ack row False # y_acks y\<rparr>)"
| crash: "jstep e known y (y\<lparr>y_store := None, y_pc := EIdle\<rparr>)"
| power: "m \<in> insert (k_manifest (y_disk y)) (set (y_older y)) \<Longrightarrow> list_all (\<lambda>l. 0 < snd l) extra \<Longrightarrow>
    jstep e known y ((put_journal (take (y_durable y) (journal y) @ extra) n
       (y\<lparr>y_disk := (y_disk y)\<lparr>k_manifest := m\<rparr>, y_older := []\<rparr>))\<lparr>y_store := None, y_pc := EIdle\<rparr>)"
| start: "y_store y = None \<Longrightarrow> prepare_store e aid 3 (y_disk y) = (Some s, d) \<Longrightarrow>
    jstep e known y (y\<lparr>y_disk := d, y_store := Some s, y_pc := EIdle,
      y_durable := (case k_journal d of None \<Rightarrow> 0 | Some j \<Rightarrow> length (fst j))\<rparr>)"

definition first_files :: "string \<Rightarrow> jsys" where
  "first_files aid = \<lparr>y_disk = init_files aid 3 \<lparr>k_identity = Absent, k_manifest = Absent, k_journal = None\<rparr>,
     y_durable = 0, y_older = [], y_store = None, y_pc = EIdle, y_acks = []\<rparr>"

inductive jreach :: "nenv \<Rightarrow> (pyval \<Rightarrow> bool) \<Rightarrow> string \<Rightarrow> jsys \<Rightarrow> bool" for e known aid where
  first: "jreach e known aid (first_files aid)"
| more: "jreach e known aid y \<Longrightarrow> jstep e known y y' \<Longrightarrow> jreach e known aid y'"

end
