(* ===== verification/Annotations_Facts.thy ===== *)
theory Annotations_Facts
  imports Annotations
begin

text \<open>
  The invariant of the annotation journal: every manifest that a start can find describes a
  prefix of valid rows in the synced part of the journal, and every edit acknowledged as new is in
  all of them.
\<close>

subsection \<open>An edit that is written is a valid row\<close>

lemma EDIT_KINDS_cases: "k \<in> set EDIT_KINDS \<longleftrightarrow> k = ''confirm'' \<or> k = ''correct'' \<or> k = ''exclude'' \<or> k = ''experience''"
  by (simp add: EDIT_KINDS_def)

lemma str_in_str: "str_in (PStr s) S \<longleftrightarrow> s \<in> set S"
  by (simp add: str_in_def)

lemma str_in_eq: "str_in v S \<Longrightarrow> v = PStr (str_of_val v)"
  by (cases v) (simp_all add: str_in_def)

lemma bounded_text_again: "bounded_text e v n a = Value t \<Longrightarrow> bounded_text e (PStr t) n a = Value t \<and> v = PStr t"
  by (cases v) (auto simp: bounded_text_def split: option.splits)

lemma edit_value_again:
  assumes "edit_value e kind value = Value v" "kind \<in> set EDIT_KINDS"
  obtains w where "requested_value kind (PDict v) = Some (PDict w)" "edit_value e kind w = Value v"
proof -
  consider "kind = ''confirm''" | "kind = ''correct''" | "kind = ''exclude''" | "kind = ''experience''"
    using assms(2) EDIT_KINDS_cases by blast
  then show thesis
  proof cases
    case 1
    then have "v = []" using assms(1) by (simp add: edit_value_def)
    then show thesis using 1 that [of "[]"] by (simp add: edit_value_def requested_value_def demand_def)
  next
    case 2
    then obtain t where t: "v = [(''text'', PStr t)]" "bounded_text e (dget value ''text'') TEXT_BYTES False = Value t"
      using assms(1) by (auto simp: edit_value_def elim!: outcome_elims)
    then have "bounded_text e (PStr t) TEXT_BYTES False = Value t" using bounded_text_again by blast
    then show thesis using 2 t(1) that [of v] by (simp add: edit_value_def requested_value_def keys_are_def)
  next
    case 3
    then obtain r where r: "v = [(''reason'', r), (''excluded'', PBool True)]" "str_in r EXCLUDE_REASONS"
      using assms(1) by (auto simp: edit_value_def elim!: outcome_elims)
    have "keys_are v [''excluded'', ''reason'']" by (auto simp: r(1) keys_are_def)
    then show thesis using 3 r that [of "[(''reason'', r)]"] by (simp add: edit_value_def requested_value_def keys_are_def)
  next
    case 4
    then obtain k x t where t: "v = [(''kind'', k), (''value'', x), (''note'', PStr t)]" "str_in k EXPERIENCES"
      "str_in x EXPERIENCE_VALUES" "bounded_text e (dget_or value ''note'' (PStr [])) NOTE_BYTES True = Value t"
      using assms(1) by (auto simp: edit_value_def elim!: outcome_elims)
    moreover have "bounded_text e (PStr t) NOTE_BYTES True = Value t" using bounded_text_again [OF t(4)] by blast
    ultimately show thesis using 4 that [of v] by (simp add: edit_value_def requested_value_def dget_or_def)
  qed
qed

text \<open>A normalized value is equal to itself: it holds strings and booleans.\<close>

lemma edit_value_eq:
  assumes "edit_value e kind value = Value v"
  shows "py_eq (PDict v) (PDict v)"
proof -
  have "str_in x S \<Longrightarrow> py_eq x x" for x S by (cases x) (simp_all add: str_in_def)
  then show ?thesis
    using assms by (auto simp: edit_value_def elim!: outcome_elims split: if_splits)
qed

lemma edit_row_fields [simp]:
  "is_dict (edit_row e s opid sem)"
  "dget (dict_of_val (edit_row e s opid sem)) ''version'' = PStr ANNOTATION_VERSION"
  "dget (dict_of_val (edit_row e s opid sem)) ''archive_id'' = PStr (h_archive s)"
  "dget (dict_of_val (edit_row e s opid sem)) ''revision'' = PInt (h_revision s + 1)"
  "dget (dict_of_val (edit_row e s opid sem)) ''operation_id'' = PStr opid"
  "dget (dict_of_val (edit_row e s opid sem)) ''semantic'' = sem"
  "dget (dict_of_val (edit_row e s opid sem)) ''semantic_hash'' = PStr (n_digest e sem)"
  "dget (dict_of_val (edit_row e s opid sem)) ''previous'' = PStr (h_chain s)"
  "dget (dict_of_val (edit_row e s opid sem)) ''chain'' =
     PStr (n_digest e (PDict (filter (\<lambda>kv. fst kv \<noteq> ''chain'') (dict_of_val (edit_row e s opid sem)))))"
  by (simp_all add: edit_row_def Let_def)

lemma edit_row_keys: "keys_are (dict_of_val (edit_row e s opid sem)) row_keys"
  by (auto simp: edit_row_def Let_def keys_are_def row_keys_def)

text \<open>What a planned write has passed.\<close>

definition written_row :: "nenv \<Rightarrow> (pyval \<Rightarrow> bool) \<Rightarrow> astore \<Rightarrow> pyval \<Rightarrow> bool" where
  "written_row e known s row \<longleftrightarrow>
     (\<exists>ref kind value v opid.
        row = edit_row e s opid (edit_semantic ref kind v (PInt (h_revision s))) \<and>
        edit_value e kind value = Value v \<and> kind \<in> set EDIT_KINDS \<and> is_token opid \<and>
        opid \<notin> fst ` set (h_operations s) \<and> reference_shape (h_archive s) ref = Value () \<and>
        wf_dict (dict_of_val ref) \<and> known ref \<and> 0 \<le> h_revision s \<and> h_revision s < MAX_REVISION \<and> \<not> h_failed s)"

lemma plan_written:
  assumes "plan_edit e resolve s body = Value (Write row)" "known (dget body ''source_reference'')"
    "wf_dict (dict_of_val (dget body ''source_reference''))"
  shows "written_row e known s row"
proof -
  obtain kv t where p: "\<not> h_failed s" "normalize_edit e body = Value kv" "reference_shape (h_archive s) (dget body ''source_reference'') = Value ()"
    "resolve (dget body ''source_reference'') = Value t" "map_of (h_operations s) (str_of_val (dget body ''operation_id'')) = None"
    "int_of_val (dget body ''expected_revision'') = h_revision s" "h_revision s \<noteq> MAX_REVISION"
    "row = edit_row e s (str_of_val (dget body ''operation_id''))
       (edit_semantic (dget body ''source_reference'') (fst kv) (snd kv) (dget body ''expected_revision''))"
    using assms(1) by (auto simp: plan_edit_def Let_def elim!: outcome_elims split: option.splits)
  have n: "edit_value e (fst kv) (dict_of_val (dget_or body ''value'' (PDict []))) = Value (snd kv)"
    "fst kv \<in> set EDIT_KINDS" "an_integer 0 (dget body ''expected_revision'')" "safe_token (dget body ''operation_id'') \<noteq> None"
    using p(2) by (auto simp: normalize_edit_def Let_def str_in_iff elim!: outcome_elims)
  have i: "dget body ''expected_revision'' = PInt (h_revision s)" "0 \<le> h_revision s" "h_revision s < MAX_REVISION"
    using n(3) p(6,7) by (cases "dget body ''expected_revision''"; simp add: an_integer_def)+
  have o: "is_token (str_of_val (dget body ''operation_id''))" using n(4) unfolding safe_token_not_None by auto
  have "str_of_val (dget body ''operation_id'') \<notin> fst ` set (h_operations s)" using p(5) by (simp add: map_of_eq_None_iff)
  moreover have "row = edit_row e s (str_of_val (dget body ''operation_id''))
      (edit_semantic (dget body ''source_reference'') (fst kv) (snd kv) (PInt (h_revision s)))"
    using p(8) by (simp only: i(1))
  ultimately show ?thesis unfolding written_row_def using p(1,3) n(1,2) i(2,3) o assms(2,3) by blast
qed

lemma written_valid:
  assumes "written_row e known s row"
  shows "validate_row e s row"
proof -
  obtain ref kind val v opid where w: "row = edit_row e s opid (edit_semantic ref kind v (PInt (h_revision s)))"
    "edit_value e kind val = Value v" "kind \<in> set EDIT_KINDS" "is_token opid" "opid \<notin> fst ` set (h_operations s)"
    "reference_shape (h_archive s) ref = Value ()" "0 \<le> h_revision s" "h_revision s < MAX_REVISION"
    using assms unfolding written_row_def by blast
  obtain w' where r: "requested_value kind (PDict v) = Some (PDict w')" "edit_value e kind w' = Value v"
    by (rule edit_value_again [OF w(2,3)])
  have tok: "safe_token (PStr opid) \<noteq> None" using w(4) unfolding safe_token_not_None by simp
  have "normalize_edit e [(''kind'', PStr kind), (''value'', PDict w'), (''expected_revision'', PInt (h_revision s)),
      (''operation_id'', PStr opid)] = Value (kind, v)"
    using w(3,7,8) r(2) tok by (simp add: normalize_edit_def dget_or_def an_integer_def str_in_str demand_def)
  then have "semantic_ok e s opid (edit_semantic ref kind v (PInt (h_revision s)))"
    using w(3,6) r(1) edit_value_eq [OF w(2)]
    by (auto simp: semantic_ok_def edit_semantic_def Let_def str_in_str eq_str_def keys_are_def semantic_keys_def)
  then show ?thesis
    using w(5,7,8) tok unfolding validate_row_def Let_def w(1)
    by (simp add: edit_row_keys eq_str_def an_integer_def del: py_eq.simps)
qed

lemma row_revision_edit [simp]: "row_revision (edit_row e s opid sem) = h_revision s + 1"
  by (simp add: row_revision_def)

subsection \<open>The published prefix\<close>

definition total_len :: "jline list \<Rightarrow> nat" where
  "total_len ls = sum_list (map snd ls)"

lemma total_len_simps [simp]:
  "total_len [] = 0" "total_len (l # ls) = snd l + total_len ls" "total_len (ls @ ms) = total_len ls + total_len ms"
  by (simp_all add: total_len_def)

definition state_after :: "nenv \<Rightarrow> string \<Rightarrow> jline list \<Rightarrow> astore option" where
  "state_after e aid ls = load_rows e (total_len ls) ls (new_store aid)"

lemma remember_sel [simp]:
  "h_offset (remember_row e row n s) = h_offset s + n" "h_archive (remember_row e row n s) = h_archive s"
  "h_revision (remember_row e row n s) = row_revision row" "h_failed (remember_row e row n s) = h_failed s"
  by (simp_all add: remember_row_def Let_def)

text \<open>The loop stops at the manifest's offset: what follows does not matter.\<close>

lemma load_stops:
  "list_all (\<lambda>l. 0 < snd l) ls \<Longrightarrow>
     load_rows e (h_offset s + total_len ls) (ls @ ms) s = load_rows e (h_offset s + total_len ls) ls s"
proof (induction ls arbitrary: s)
  case Nil
  then show ?case by (cases ms) auto
next
  case (Cons l ls)
  obtain v n where l: "l = (v, n)" by (cases l)
  show ?case
  proof (cases v)
    case (Some row)
    have "load_rows e (h_offset s + (n + total_len ls)) (ls @ ms) (remember_row e row n s) =
        load_rows e (h_offset s + (n + total_len ls)) ls (remember_row e row n s)"
      using Cons.IH [of "remember_row e row n s"] Cons.prems by (simp add: l add.assoc)
    then show ?thesis by (simp add: l Some)
  qed (simp add: l)
qed

lemma load_offset:
  "load_rows e limit ls s = Some t \<Longrightarrow> h_offset s \<le> limit \<Longrightarrow> h_offset t = limit"
proof (induction ls arbitrary: s)
  case (Cons l ls)
  then show ?case by (cases l) (auto split: if_splits option.splits)
qed (auto split: if_splits)

lemma load_archive: "load_rows e limit ls s = Some t \<Longrightarrow> h_archive t = h_archive s \<and> h_failed t = h_failed s"
proof (induction ls arbitrary: s)
  case (Cons l ls)
  then show ?case by (cases l) (fastforce split: if_splits option.splits)
qed (auto split: if_splits)

text \<open>One more row.\<close>

lemma load_snoc:
  assumes "load_rows e (h_offset s + total_len ls) ls s = Some t" "list_all (\<lambda>l. 0 < snd l) ls"
    "validate_row e t row" "0 < n" "n \<le> LINE_BYTES"
  shows "load_rows e (h_offset s + total_len ls + n) (ls @ [(Some row, n)]) s = Some (remember_row e row n t)"
  using assms(1,2)
proof (induction ls arbitrary: s)
  case Nil
  then have "t = s" by (simp split: if_splits)
  then show ?case using assms(3-5) by simp
next
  case (Cons l ls)
  obtain v k where l: "l = (v, k)" by (cases l)
  obtain r where r: "v = Some r" "k \<le> LINE_BYTES" "validate_row e s r"
    "load_rows e (h_offset s + (k + total_len ls)) ls (remember_row e r k s) = Some t"
    using Cons.prems by (auto simp: l split: if_splits option.splits)
  have "load_rows e (h_offset s + k + total_len ls + n) (ls @ [(Some row, n)]) (remember_row e r k s) =
      Some (remember_row e row n t)"
    using Cons.IH [of "remember_row e r k s"] r(4) Cons.prems(2) by (simp add: l add.assoc)
  then show ?case using r(1-3) Cons.prems(2) by (simp add: l add.assoc)
qed

lemma state_after_snoc:
  assumes "state_after e aid ls = Some t" "list_all (\<lambda>l. 0 < snd l) ls" "validate_row e t row" "0 < n" "n \<le> LINE_BYTES"
  shows "state_after e aid (ls @ [(Some row, n)]) = Some (remember_row e row n t)"
  using load_snoc [of e "new_store aid" ls t row n] assms by (simp add: state_after_def new_store_def)

lemma state_after_sel:
  assumes "state_after e aid ls = Some t"
  shows "h_offset t = total_len ls" "h_archive t = aid" "\<not> h_failed t"
  using load_offset [of e "total_len ls" ls "new_store aid" t] load_archive [of e "total_len ls" ls "new_store aid" t] assms
  by (simp_all add: state_after_def new_store_def)

lemma lines_upto_total:
  "list_all (\<lambda>l. 0 < snd l) (ls @ ms) \<Longrightarrow> lines_upto (total_len ls) (ls @ ms) = ls"
proof (induction ls)
  case Nil
  then show ?case by (cases ms) auto
qed simp

subsection \<open>Start\<close>

text \<open>What is assumed of the serializer and the digest: the digest is at most 64 characters, the
  manifest and the identity fit in 4096 bytes and a line in \<open>LINE_BYTES\<close>.\<close>

definition store_shape :: "astore \<Rightarrow> bool" where
  "store_shape s \<longleftrightarrow> is_hex 32 (PStr (h_archive s)) \<and> 0 \<le> h_revision s \<and> h_revision s \<le> MAX_REVISION \<and>
     length (h_chain s) \<le> 64 \<and> int (h_offset s) \<le> MAX_REVISION"

definition fits :: "nenv \<Rightarrow> bool" where
  "fits e \<longleftrightarrow>
     (\<forall>v. length (n_digest e v) \<le> 64) \<and>
     (\<forall>aid. is_hex 32 (PStr aid) \<longrightarrow> n_size e (identity_value aid) \<le> 4096) \<and>
     (\<forall>s. store_shape s \<longrightarrow> n_size e (manifest_value (h_archive s) (h_revision s) (h_offset s) (h_chain s)) \<le> 4096) \<and>
     (\<forall>s row. store_shape s \<longrightarrow> written_row e (\<lambda>_. True) s row \<longrightarrow> Suc (n_size e row) \<le> LINE_BYTES)"

definition manifest_of :: "astore \<Rightarrow> afile" where
  "manifest_of s = Json (manifest_value (h_archive s) (h_revision s) (h_offset s) (h_chain s))"

lemma read_state_manifest:
  assumes "fits e" "store_shape s"
  shows "read_state_file e (h_archive s) (manifest_of s) = Some (h_revision s, h_offset s, PStr (h_chain s))"
  using assms
  by (auto simp: fits_def store_shape_def read_state_file_def read_bounded_def manifest_of_def manifest_value_def keys_are_def
      eq_str_def an_integer_def)

lemma read_identity_value:
  "fits e \<Longrightarrow> is_hex 32 (PStr aid) \<Longrightarrow> read_identity_file e (Json (identity_value aid)) = Some aid"
  by (simp add: fits_def read_identity_file_def read_bounded_def identity_value_def keys_are_def eq_str_def)

lemma open_covered:
  assumes e: "fits e" and files: "k_identity d = Json (identity_value aid)" "k_manifest d = manifest_of s"
      "k_journal d = Some (ls @ ms, tail)"
    and ls: "state_after e aid ls = Some s" "list_all (\<lambda>l. 0 < snd l) (ls @ ms)" "store_shape s"
  shows "open_store e d = Some (s, d\<lparr>k_journal := Some (ls, 0)\<rparr>)"
proof -
  have sel: "h_offset s = total_len ls" "h_archive s = aid" using state_after_sel [OF ls(1)] by simp_all
  have "load_rows e (total_len ls) (ls @ ms) (new_store aid) = Some s"
    using load_stops [of ls e "new_store aid" ms] ls(1,2) by (simp add: state_after_def new_store_def)
  moreover have "read_identity_file e (k_identity d) = Some aid"
    using read_identity_value [OF e] ls(3) sel(2) files(1) by (simp add: store_shape_def)
  ultimately show ?thesis
    using read_state_manifest [OF e ls(3)] sel files(2,3) lines_upto_total [OF ls(2)]
    by (simp add: open_store_def eq_str_def)
qed

subsection \<open>The invariant\<close>

definition journal_covers :: "nenv \<Rightarrow> string \<Rightarrow> jline list \<Rightarrow> afile \<Rightarrow> nat \<Rightarrow> astore \<Rightarrow> bool" where
  "journal_covers e aid ls m k s \<longleftrightarrow>
     k \<le> length ls \<and> state_after e aid (take k ls) = Some s \<and> store_shape s \<and> m = manifest_of s"

definition acked_in :: "given_ack list \<Rightarrow> astore \<Rightarrow> bool" where
  "acked_in acks s \<longleftrightarrow>
     (\<forall>opid hash r. (opid, hash, r, False) \<in> set acks \<longrightarrow> map_of (h_operations s) opid = Some (hash, r))"

definition in_edit :: "nenv \<Rightarrow> (pyval \<Rightarrow> bool) \<Rightarrow> jsys \<Rightarrow> nat \<Rightarrow> astore \<Rightarrow> astore \<Rightarrow> edit_pc \<Rightarrow> bool" where
  "in_edit e known y k s st pc \<longleftrightarrow>
     y_durable y = length (journal y) \<and>
     (case pc of
        EIdle \<Rightarrow> st = s \<and> k = length (journal y)
      | EAppend row \<Rightarrow> st = s \<and> k = length (journal y) \<and> written_row e known st row
      | EPublish row \<Rightarrow> st = s \<and> written_row e known st row \<and> length (journal y) = Suc k \<and>
          journal y = take k (journal y) @ [line_of e row] \<and> int (h_offset s + Suc (n_size e row)) \<le> MAX_REVISION
      | ESync row \<Rightarrow> s = remember_row e row (Suc (n_size e row)) st \<and> k = length (journal y) \<and> written_row e known st row)"

definition running :: "nenv \<Rightarrow> (pyval \<Rightarrow> bool) \<Rightarrow> jsys \<Rightarrow> nat \<Rightarrow> astore \<Rightarrow> bool" where
  "running e known y k s \<longleftrightarrow>
     (case y_store y of
        None \<Rightarrow> y_pc y = EIdle
      | Some st \<Rightarrow> if h_failed st then y_pc y = EIdle else in_edit e known y k s st (y_pc y))"

definition older_ok :: "nenv \<Rightarrow> string \<Rightarrow> jline list \<Rightarrow> nat \<Rightarrow> given_ack list \<Rightarrow> afile list \<Rightarrow> bool" where
  "older_ok e aid ls k acks ms \<longleftrightarrow> (\<forall>m\<in>set ms. \<exists>k' s'. journal_covers e aid ls m k' s' \<and> k' \<le> k \<and> acked_in acks s')"

definition jinv_at :: "nenv \<Rightarrow> (pyval \<Rightarrow> bool) \<Rightarrow> string \<Rightarrow> jsys \<Rightarrow> nat \<Rightarrow> astore \<Rightarrow> bool" where
  "jinv_at e known aid y k s \<longleftrightarrow>
     k_identity (y_disk y) = Json (identity_value aid) \<and> k_journal (y_disk y) \<noteq> None \<and>
     list_all (\<lambda>l. 0 < snd l) (journal y) \<and> k \<le> y_durable y \<and> y_durable y \<le> length (journal y) \<and>
     journal_covers e aid (journal y) (k_manifest (y_disk y)) k s \<and> acked_in (y_acks y) s \<and>
     older_ok e aid (journal y) k (y_acks y) (y_older y) \<and> running e known y k s"

lemma covers_prefix: "journal_covers e aid ls m k s \<Longrightarrow> take k ms = take k ls \<Longrightarrow> k \<le> length ms \<Longrightarrow> journal_covers e aid ms m k s"
  by (simp add: journal_covers_def)

lemma older_prefix:
  assumes "older_ok e aid ls k acks os" "take k ms = take k ls" "k \<le> length ms"
  shows "older_ok e aid ms k acks os"
proof -
  have "take k' ms = take k' ls" if "k' \<le> k" for k'
    using assms(2) that by (metis min.absorb1 take_take)
  then have "journal_covers e aid ls m k' s' \<Longrightarrow> k' \<le> k \<Longrightarrow> journal_covers e aid ms m k' s'" for m k' s'
    using assms(3) by (simp add: journal_covers_def)
  then show ?thesis using assms(1) by (fastforce simp: older_ok_def)
qed

lemma journal_put [simp]: "journal (put_journal ls t y) = ls"
  by (simp add: journal_def put_journal_def)

lemma journal_frame [simp]:
  "journal (y\<lparr>y_pc := a\<rparr>) = journal y" "journal (y\<lparr>y_acks := b\<rparr>) = journal y" "journal (y\<lparr>y_store := c\<rparr>) = journal y"
  "journal (y\<lparr>y_durable := d\<rparr>) = journal y" "journal (y\<lparr>y_older := f\<rparr>) = journal y"
  "journal (y\<lparr>y_disk := (y_disk y)\<lparr>k_manifest := g\<rparr>\<rparr>) = journal y" "journal (poisoned y) = journal y"
  by (simp_all add: journal_def poisoned_def)

lemma written_extends:
  assumes "written_row e known s row" "acked_in acks s"
  shows "acked_in acks (remember_row e row n s)"
    "map_of (h_operations (remember_row e row n s)) (str_of_val (dget (dict_of_val row) ''operation_id'')) =
       Some (str_of_val (dget (dict_of_val row) ''semantic_hash''), row_revision row)"
proof -
  obtain opid sem where r: "row = edit_row e s opid sem" "opid \<notin> fst ` set (h_operations s)"
    using assms(1) unfolding written_row_def by blast
  then have "map_of (h_operations s) opid = None" by (simp add: map_of_eq_None_iff)
  then show "acked_in acks (remember_row e row n s)"
    using assms(2) r(1) by (fastforce simp: acked_in_def remember_row_def Let_def)
qed (simp add: remember_row_def Let_def)

lemma next_manifest_of:
  "written_row e known s row \<Longrightarrow> Json (next_manifest e row s) = manifest_of (remember_row e row (Suc (n_size e row)) s)"
  by (simp add: manifest_of_def next_manifest_def) (simp add: remember_row_def Let_def)

lemma written_any: "written_row e known s row \<Longrightarrow> written_row e (\<lambda>_. True) s row"
  unfolding written_row_def by blast

lemma shape_remember:
  assumes "fits e" "store_shape s" "written_row e known s row" "int (h_offset s + n) \<le> MAX_REVISION"
  shows "store_shape (remember_row e row n s)"
proof -
  obtain opid sem where r: "row = edit_row e s opid sem" "0 \<le> h_revision s" "h_revision s < MAX_REVISION"
    using assms(3) unfolding written_row_def by blast
  have "h_chain (remember_row e row n s) = n_digest e (PDict (filter (\<lambda>kv. fst kv \<noteq> ''chain'') (dict_of_val row)))"
    by (simp add: remember_row_def Let_def r(1))
  then show ?thesis using assms(1,2,4) r by (simp add: store_shape_def fits_def)
qed

text \<open>The steps.\<close>

lemma poisoned_inv:
  assumes "jinv_at e known aid y k s"
  shows "jinv_at e known aid (poisoned y) k s"
  using assms by (auto simp: jinv_at_def poisoned_def running_def split: option.splits)

lemma journal_grows_inv:
  assumes inv: "jinv_at e known aid y k s" and ls: "take (y_durable y) ls = take (y_durable y) (journal y)" "y_durable y \<le> length ls"
    "list_all (\<lambda>l. 0 < snd l) ls"
  shows "jinv_at e known aid (poisoned (put_journal ls t y)) k s"
proof -
  have k: "take k ls = take k (journal y)" "k \<le> length ls"
    using inv ls(1,2) by (auto simp: jinv_at_def) (metis min.absorb1 take_take)
  have c: "journal_covers e aid ls (k_manifest (y_disk y)) k s" using inv k by (auto simp: jinv_at_def intro: covers_prefix)
  have o: "older_ok e aid ls k (y_acks y) (y_older y)" using inv k by (auto simp: jinv_at_def intro: older_prefix)
  have j: "journal (poisoned (put_journal ls t y)) = ls" by simp
  show ?thesis
    unfolding jinv_at_def j using inv ls(2,3) c o
    by (auto simp: jinv_at_def poisoned_def put_journal_def running_def split: option.splits)
qed

lemma append_inv:
  assumes inv: "jinv_at e known aid y k s" and at: "y_pc y = EAppend row" "y_store y = Some st"
    and room: "int (h_offset st + Suc (n_size e row)) \<le> MAX_REVISION"
  shows "jinv_at e known aid ((put_journal (journal y @ [line_of e row]) 0 y)\<lparr>y_durable := Suc (length (journal y)), y_pc := EPublish row\<rparr>) k s"
proof -
  have r: "\<not> h_failed st" "st = s" "k = length (journal y)" "written_row e known s row"
    using inv at by (auto simp: jinv_at_def running_def in_edit_def split: if_splits)
  have c: "journal_covers e aid (journal y @ [line_of e row]) (k_manifest (y_disk y)) k s"
    using inv r(3) by (auto simp: jinv_at_def intro: covers_prefix)
  have o: "older_ok e aid (journal y @ [line_of e row]) k (y_acks y) (y_older y)"
    using inv r(3) by (auto simp: jinv_at_def intro: older_prefix)
  let ?y = "(put_journal (journal y @ [line_of e row]) 0 y)\<lparr>y_durable := Suc (length (journal y)), y_pc := EPublish row\<rparr>"
  have j: "journal ?y = journal y @ [line_of e row]" by simp
  have f: "y_disk ?y = (y_disk y)\<lparr>k_journal := Some (journal y @ [line_of e row], 0)\<rparr>" "y_store ?y = y_store y"
    "y_acks ?y = y_acks y" "y_older ?y = y_older y" "y_pc ?y = EPublish row" "y_durable ?y = Suc (length (journal y))"
    by (simp_all add: put_journal_def)
  have "list_all (\<lambda>l. 0 < snd l) (journal y @ [line_of e row])" using inv by (simp add: jinv_at_def line_of_def)
  then show ?thesis
    using inv c o r room at(2) unfolding jinv_at_def running_def in_edit_def j f by simp
qed

lemma publish_manifest_inv:
  assumes e: "fits e" and inv: "jinv_at e known aid y k s" and at: "y_pc y = EPublish row" "y_store y = Some st"
  shows "jinv_at e known aid (y\<lparr>y_disk := (y_disk y)\<lparr>k_manifest := Json (next_manifest e row st)\<rparr>,
      y_older := k_manifest (y_disk y) # y_older y, y_pc := ESync row\<rparr>) (Suc k) (remember_row e row (Suc (n_size e row)) s)"
proof -
  let ?n = "Suc (n_size e row)"
  have r: "\<not> h_failed st" "st = s" "written_row e known s row" "length (journal y) = Suc k"
    "journal y = take k (journal y) @ [line_of e row]" "int (h_offset s + ?n) \<le> MAX_REVISION" "y_durable y = length (journal y)"
    using inv at by (auto simp: jinv_at_def running_def in_edit_def split: if_splits)
  have i: "journal_covers e aid (journal y) (k_manifest (y_disk y)) k s" "acked_in (y_acks y) s"
    "older_ok e aid (journal y) k (y_acks y) (y_older y)" "list_all (\<lambda>l. 0 < snd l) (journal y)"
    using inv by (simp_all add: jinv_at_def)
  have sh: "store_shape s" "state_after e aid (take k (journal y)) = Some s" using i(1) by (simp_all add: journal_covers_def)
  have "?n \<le> LINE_BYTES" using e sh(1) written_any [OF r(3)] by (auto simp: fits_def)
  moreover have "list_all (\<lambda>l. 0 < snd l) (take k (journal y))" using i(4) by (metis append_take_drop_id list_all_append)
  ultimately have "state_after e aid (take k (journal y) @ [line_of e row]) = Some (remember_row e row ?n s)"
    unfolding line_of_def using state_after_snoc [OF sh(2)] written_valid [OF r(3)] by simp
  then have "state_after e aid (take (Suc k) (journal y)) = Some (remember_row e row ?n s)"
    using r(4,5) by simp
  then have c: "journal_covers e aid (journal y) (Json (next_manifest e row s)) (Suc k) (remember_row e row ?n s)"
    using shape_remember [OF e sh(1) r(3,6)] next_manifest_of [OF r(3)] r(4) by (simp add: journal_covers_def)
  have o: "older_ok e aid (journal y) (Suc k) (y_acks y) (k_manifest (y_disk y) # y_older y)"
    using i(1-3) unfolding older_ok_def by (simp only: set_simps ball_simps) (meson le_SucI le_refl)
  have a: "acked_in (y_acks y) (remember_row e row ?n s)" by (rule written_extends(1) [OF r(3) i(2)])
  have j: "journal (y\<lparr>y_disk := (y_disk y)\<lparr>k_manifest := Json (next_manifest e row st)\<rparr>,
      y_older := k_manifest (y_disk y) # y_older y, y_pc := ESync row\<rparr>) = journal y"
    by (simp add: journal_def)
  show ?thesis
    unfolding jinv_at_def j using inv c o a r at(2) by (simp add: jinv_at_def running_def in_edit_def j)
qed

lemma synced_inv:
  assumes inv: "jinv_at e known aid y k s" and at: "y_pc y = ESync row" "y_store y = Some st"
  shows "jinv_at e known aid (y\<lparr>y_older := [], y_store := Some (remember_row e row (Suc (n_size e row)) st), y_pc := EIdle,
      y_acks := row_ack row False # y_acks y\<rparr>) k s"
proof -
  let ?s = "remember_row e row (Suc (n_size e row)) st"
  let ?y = "y\<lparr>y_older := [], y_store := Some ?s, y_pc := EIdle, y_acks := row_ack row False # y_acks y\<rparr>"
  have r: "\<not> h_failed st" "s = ?s" "k = length (journal y)" "written_row e known st row" "y_durable y = length (journal y)"
    using inv at by (auto simp: jinv_at_def running_def in_edit_def split: if_splits)
  have "map_of (h_operations s) (str_of_val (dget (dict_of_val row) ''operation_id'')) =
      Some (str_of_val (dget (dict_of_val row) ''semantic_hash''), row_revision row)"
    unfolding r(2) by (rule written_extends(2) [where acks = "[]", OF r(4)]) (simp add: acked_in_def)
  then have a: "acked_in (row_ack row False # y_acks y) s"
    using inv by (auto simp: jinv_at_def acked_in_def row_ack_def Let_def)
  have j: "journal ?y = journal y" by (simp add: journal_def)
  have "\<not> h_failed s" using r(1,2) by (metis remember_sel(4))
  then show ?thesis
    using inv r a unfolding jinv_at_def running_def in_edit_def j by (simp add: older_ok_def)
qed

lemma request_edit_inv:
  assumes inv: "jinv_at e known aid y k s" and at: "y_pc y = EIdle" "y_store y = Some st" "written_row e known st row"
  shows "jinv_at e known aid (y\<lparr>y_pc := EAppend row\<rparr>) k s"
proof -
  have "\<not> h_failed st" using at(3) unfolding written_row_def by blast
  then show ?thesis using inv at by (auto simp: jinv_at_def running_def in_edit_def)
qed

lemma in_edit_acks: "in_edit e known (y\<lparr>y_acks := x\<rparr>) k s st pc = in_edit e known y k s st pc"
  by (cases pc) (simp_all add: in_edit_def)

lemma replay_inv:
  assumes inv: "jinv_at e known aid y k s"
  shows "jinv_at e known aid (y\<lparr>y_acks := replay_ack e body kv a # y_acks y\<rparr>) k s"
proof -
  have "acked_in (replay_ack e body kv a # acks) s' = acked_in acks s'" for acks s'
    by (simp add: acked_in_def replay_ack_def)
  then show ?thesis
    using inv by (cases "y_store y") (simp_all add: jinv_at_def older_ok_def running_def in_edit_acks)
qed

lemma crash_inv: "jinv_at e known aid y k s \<Longrightarrow> jinv_at e known aid (y\<lparr>y_store := None, y_pc := EIdle\<rparr>) k s"
  by (simp add: jinv_at_def running_def)

lemma power_inv_journal:
  assumes inv: "jinv_at e known aid y k s" and m: "m \<in> insert (k_manifest (y_disk y)) (set (y_older y))"
    and extra: "list_all (\<lambda>l. 0 < snd l) extra"
  obtains k' s' where "jinv_at e known aid ((put_journal (take (y_durable y) (journal y) @ extra) n
       (y\<lparr>y_disk := (y_disk y)\<lparr>k_manifest := m\<rparr>, y_older := []\<rparr>))\<lparr>y_store := None, y_pc := EIdle\<rparr>) k' s'"
proof -
  let ?ls = "take (y_durable y) (journal y) @ extra"
  let ?y = "(put_journal ?ls n (y\<lparr>y_disk := (y_disk y)\<lparr>k_manifest := m\<rparr>, y_older := []\<rparr>))\<lparr>y_store := None, y_pc := EIdle\<rparr>"
  obtain k' s' where c: "journal_covers e aid (journal y) m k' s'" "k' \<le> k" "acked_in (y_acks y) s'"
    using inv m by (auto simp: jinv_at_def older_ok_def)
  have d: "k \<le> y_durable y" "y_durable y \<le> length (journal y)" "list_all (\<lambda>l. 0 < snd l) (journal y)"
    using inv by (simp_all add: jinv_at_def)
  have "take k' ?ls = take k' (journal y)" using c(2) d(1,2) by (simp add: min_absorb1)
  then have c': "journal_covers e aid ?ls m k' s'" using c(2) d(1,2) by (intro covers_prefix [OF c(1)]) simp_all
  have "list_all (\<lambda>l. 0 < snd l) (take (y_durable y) (journal y))" using d(3) by (metis append_take_drop_id list_all_append)
  then have l: "list_all (\<lambda>l. 0 < snd l) ?ls" using extra by simp
  have j: "journal ?y = ?ls" by (simp add: journal_def put_journal_def)
  have "jinv_at e known aid ?y k' s'"
    using inv c' c(2,3) d l unfolding jinv_at_def j by (simp add: older_ok_def running_def) (simp add: put_journal_def)
  then show thesis by (rule that)
qed

lemma found_all: "k_identity d = Json x \<Longrightarrow> k_manifest d = Json m \<Longrightarrow> k_journal d \<noteq> None \<Longrightarrow> found_files d = Some AllFiles"
  by (simp add: found_files_def)

lemma start_covered:
  assumes e: "fits e" and inv: "jinv_at e known aid y k s"
  shows "prepare_store e x 3 (y_disk y) = (Some s, (y_disk y)\<lparr>k_journal := Some (take k (journal y), 0)\<rparr>)"
proof -
  obtain ls t where j: "k_journal (y_disk y) = Some (ls, t)" using inv by (auto simp: jinv_at_def)
  have ls: "journal y = ls" by (simp add: journal_def j)
  have i: "k_identity (y_disk y) = Json (identity_value aid)" "journal_covers e aid ls (k_manifest (y_disk y)) k s" "list_all (\<lambda>l. 0 < snd l) ls"
    using inv by (simp_all add: jinv_at_def ls)
  have "open_store e (y_disk y) = Some (s, (y_disk y)\<lparr>k_journal := Some (take k ls, 0)\<rparr>)"
    using i(2) j i(3) by (intro open_covered [OF e i(1), where ms = "drop k ls" and tail = t]) (simp_all add: journal_covers_def)
  moreover have "found_files (y_disk y) = Some AllFiles"
    using i(1,2) j by (intro found_all) (simp_all add: journal_covers_def manifest_of_def)
  ultimately show ?thesis by (simp add: prepare_store_def ls)
qed

lemma start_inv_journal:
  assumes e: "fits e" and inv: "jinv_at e known aid y k s"
    and st: "prepare_store e x 3 (y_disk y) = (Some t, d)"
  shows "jinv_at e known aid (y\<lparr>y_disk := d, y_store := Some t, y_pc := EIdle,
      y_durable := (case k_journal d of None \<Rightarrow> 0 | Some j \<Rightarrow> length (fst j))\<rparr>) k s"
proof -
  have d: "t = s" "d = (y_disk y)\<lparr>k_journal := Some (take k (journal y), 0)\<rparr>" using start_covered [OF e inv, of x] st by auto
  have i: "journal_covers e aid (journal y) (k_manifest (y_disk y)) k s" "list_all (\<lambda>l. 0 < snd l) (journal y)"
    using inv by (simp_all add: jinv_at_def)
  have k: "k \<le> length (journal y)" and f: "\<not> h_failed s" using i(1) state_after_sel(3) by (auto simp: journal_covers_def)
  have c: "journal_covers e aid (take k (journal y)) (k_manifest (y_disk y)) k s" using k by (intro covers_prefix [OF i(1)]) simp_all
  have o: "older_ok e aid (take k (journal y)) k (y_acks y) (y_older y)"
    by (rule older_prefix [of e aid "journal y" k]) (use inv k in \<open>simp_all add: jinv_at_def\<close>)
  have l: "list_all (\<lambda>l. 0 < snd l) (take k (journal y))" using i(2) by (metis append_take_drop_id list_all_append)
  define z where "z = y\<lparr>y_disk := d, y_store := Some t, y_pc := EIdle,
      y_durable := (case k_journal d of None \<Rightarrow> 0 | Some j \<Rightarrow> length (fst j))\<rparr>"
  have j: "journal z = take k (journal y)" by (simp add: z_def journal_def d(2))
  have g: "y_disk z = (y_disk y)\<lparr>k_journal := Some (take k (journal y), 0)\<rparr>" "y_store z = Some s" "y_pc z = EIdle"
    "y_acks z = y_acks y" "y_older z = y_older y" "y_durable z = k"
    using k by (simp_all add: z_def d)
  have "jinv_at e known aid z k s"
    using inv c o l f k unfolding jinv_at_def running_def in_edit_def by (simp add: j g)
  then show ?thesis by (simp add: z_def)
qed

lemma first_inv:
  assumes "fits e" "is_hex 32 (PStr aid)"
  shows "jinv_at e known aid (first_files aid) 0 (new_store aid)"
proof -
  have "store_shape (new_store aid)" using assms(2) by (simp add: store_shape_def new_store_def MAX_REVISION_def ZERO_def)
  then show ?thesis
    by (simp add: jinv_at_def first_files_def init_files_def journal_def journal_covers_def state_after_def manifest_of_def acked_in_def
        older_ok_def running_def) (simp add: new_store_def)
qed

lemma jstep_inv:
  assumes e: "fits e" and inv: "jinv_at e known aid y k s" and step: "jstep e known y y'"
  shows "\<exists>k' s'. jinv_at e known aid y' k' s'"
  using step
proof cases
  case (request st resolve body row)
  then show ?thesis using request_edit_inv [OF inv] plan_written by blast
next
  case (replay st resolve body a kv)
  then show ?thesis using replay_inv [OF inv] by blast
next
  case (append row st)
  then show ?thesis using append_inv [OF inv] by blast
next
  case (append_torn row n)
  have "take (y_durable y) (journal y) = take (y_durable y) (journal y)" "y_durable y \<le> length (journal y)"
    "list_all (\<lambda>l. 0 < snd l) (journal y)" using inv by (simp_all add: jinv_at_def)
  then show ?thesis unfolding append_torn using journal_grows_inv [OF inv] by blast
next
  case (append_unsynced row)
  have "take (y_durable y) (journal y @ [line_of e row]) = take (y_durable y) (journal y)" "y_durable y \<le> length (journal y @ [line_of e row])"
    "list_all (\<lambda>l. 0 < snd l) (journal y @ [line_of e row])" using inv by (simp_all add: jinv_at_def line_of_def)
  then show ?thesis unfolding append_unsynced using journal_grows_inv [OF inv] by blast
next
  case (publish row st)
  then show ?thesis using publish_manifest_inv [OF e inv] by blast
next
  case (publish_fails row)
  then show ?thesis using poisoned_inv [OF inv] by blast
next
  case (synced row st)
  then show ?thesis using synced_inv [OF inv] by blast
next
  case crash
  then show ?thesis using crash_inv [OF inv] by blast
next
  case (power m extra n)
  then obtain k' s' where "jinv_at e known aid y' k' s'" using power_inv_journal [OF inv] by blast
  then show ?thesis by blast
next
  case (start x t d)
  then show ?thesis using start_inv_journal [OF e inv] by blast
qed

lemma jreach_inv:
  assumes "fits e" "is_hex 32 (PStr aid)" "jreach e known aid y"
  shows "\<exists>k s. jinv_at e known aid y k s"
  using assms(3)
proof (induction rule: jreach.induct)
  case first
  then show ?case using first_inv [OF assms(1,2)] by blast
next
  case (more y y')
  then show ?case using jstep_inv [OF assms(1)] by blast
qed

text \<open>Every synced row names a source the collector knows.\<close>

definition row_reference :: "pyval \<Rightarrow> pyval" where
  "row_reference row = dget (dict_of_val (dget (dict_of_val row) ''semantic'')) ''source_reference''"

definition known_line :: "(pyval \<Rightarrow> bool) \<Rightarrow> jline \<Rightarrow> bool" where
  "known_line known l \<longleftrightarrow> (\<exists>row. fst l = Some row \<and> known (row_reference row))"

lemma written_known: "written_row e known s row \<Longrightarrow> known_line known (line_of e row)"
  unfolding written_row_def known_line_def line_of_def row_reference_def by (force simp: edit_semantic_def)

lemma known_step:
  assumes e: "fits e" and inv: "jinv_at e known aid y k s" and kn: "list_all (known_line known) (take (y_durable y) (journal y))"
    and step: "jstep e known y y'"
  shows "list_all (known_line known) (take (y_durable y') (journal y'))"
  using step
proof cases
  case (append row st)
  have "written_row e known st row" "y_durable y = length (journal y)"
    using inv append by (auto simp: jinv_at_def running_def in_edit_def split: if_splits)
  then show ?thesis using kn written_known append by simp
next
  case (append_torn row n)
  have "y_durable y' = y_durable y" by (simp add: append_torn poisoned_def put_journal_def)
  then show ?thesis using kn by (simp add: append_torn)
next
  case (append_unsynced row)
  have "y_durable y' = y_durable y" by (simp add: append_unsynced poisoned_def put_journal_def)
  then show ?thesis using kn inv by (simp add: append_unsynced jinv_at_def)
next
  case (publish row st)
  have "journal y' = journal y" "y_durable y' = y_durable y" by (simp_all add: publish journal_def)
  then show ?thesis using kn by simp
next
  case (publish_fails row)
  have "y_durable y' = y_durable y" by (simp add: publish_fails poisoned_def)
  then show ?thesis using kn by (simp add: publish_fails)
next
  case (synced row st)
  have "journal y' = journal y" "y_durable y' = y_durable y" by (simp_all add: synced journal_def)
  then show ?thesis using kn by simp
next
  case crash
  have "journal y' = journal y" "y_durable y' = y_durable y" by (simp_all add: crash journal_def)
  then show ?thesis using kn by simp
next
  case (power m extra n)
  have "journal y' = take (y_durable y) (journal y) @ extra" "y_durable y' = y_durable y"
    by (simp_all add: power journal_def put_journal_def)
  then show ?thesis using kn inv by (simp add: jinv_at_def)
next
  case (start x t d)
  have d: "d = (y_disk y)\<lparr>k_journal := Some (take k (journal y), 0)\<rparr>" using start_covered [OF e inv, of x] start by auto
  have k: "k \<le> y_durable y" "y_durable y \<le> length (journal y)" using inv by (simp_all add: jinv_at_def)
  have "journal y' = take k (journal y)" "y_durable y' = k" using k by (simp_all add: start d journal_def)
  moreover have "list_all (known_line known) (take k (journal y))"
    using kn k by (metis append_take_drop_id list_all_append min.absorb1 take_take)
  ultimately show ?thesis by simp
qed (use kn in simp_all)

lemma jreach_known:
  assumes "fits e" "is_hex 32 (PStr aid)" "jreach e known aid y"
  shows "list_all (known_line known) (take (y_durable y) (journal y))"
  using assms(3)
proof (induction rule: jreach.induct)
  case first
  then show ?case by (simp add: first_files_def)
next
  case (more y y')
  obtain k s where "jinv_at e known aid y k s" using jreach_inv [OF assms(1,2) more.hyps(1)] by blast
  then show ?case using known_step [OF assms(1)] more by blast
qed

end
