(* ===== verification/Choice_Rollup.thy ===== *)
theory Choice_Rollup
  imports Archive_Base
begin

text \<open>
  The roll-up of candidate choices (\<open>choice_group_rollup\<close> of \<open>src/archive/querying.py\<close>): the rows of
  a captured group, accumulated into one projection that says whether it may count as evidence. A
  row is an entry of the collector's index, as \<open>_remember\<close> of \<open>src/archive/collector.py\<close> makes it.
\<close>

subsection \<open>Rows of the index\<close>

text \<open>The fields that the roll-up and the annotations use; \<open>i_plugin\<close> is present when the record's
  \<open>plugin\<close> is a dictionary, \<open>i_read\<close> is what \<open>json.loads\<close> reads at the entry's offset.\<close>

record ientry =
  i_seq :: int
  i_source :: pyval
  i_local :: pyval
  i_process :: pyval
  i_plugin :: "pydict option"
  i_digest :: string
  i_read :: "pyval option"

subsection \<open>One group\<close>

definition CHOICE_COMPLETE_BASIS :: string where "CHOICE_COMPLETE_BASIS = ''captured_group_members_and_target''"
definition CHOICE_IDENTITY_BASIS :: string where "CHOICE_IDENTITY_BASIS = ''source_instance_window_group''"

record rollup =
  c_source :: pyval
  c_process :: pyval
  c_window :: pyval
  c_group :: pyval
  c_missing :: "string list"
  c_stages :: "(pyval \<times> int) list"
  c_observations :: int
  c_plan :: pyval
  c_lm_state :: pyval
  c_lm_ids :: "pyval list"
  c_apply :: pyval
  c_submission :: pyval
  c_membership :: pyval
  c_coverage :: pyval
  c_basis :: pyval
  c_accepted :: bool
  c_captured :: pyval
  c_members :: pyval
  c_seqs :: "int list"
  c_seqs_cut :: bool
  c_retracted :: bool
  c_outcome :: string
  c_association :: pyval
  c_why :: string

definition coverage_accepted :: "pydict \<Rightarrow> bool" where
  "coverage_accepted plugin \<longleftrightarrow>
     (let captured = dget plugin ''captured_candidate_count''; members = dget plugin ''group_member_count'' in
      eq_str (dget plugin ''coverage'') ''complete'' \<and> eq_str (dget plugin ''coverage_basis'') CHOICE_COMPLETE_BASIS \<and>
      dget plugin ''truncated'' \<noteq> PBool True \<and> is_int captured \<and> is_int members \<and>
      1 \<le> int_of_val captured \<and> int_of_val captured = int_of_val members)"

definition choice_entry :: "ientry \<Rightarrow> pyval \<Rightarrow> pyval \<Rightarrow> string list \<Rightarrow> rollup" where
  "choice_entry row window grp missing =
     \<lparr>c_source = i_source row, c_process = i_process row, c_window = window, c_group = grp, c_missing = missing,
      c_stages = [], c_observations = 0, c_plan = PNone, c_lm_state = PStr ''unknown'', c_lm_ids = [],
      c_apply = PStr ''unknown'', c_submission = PStr ''unknown'', c_membership = PStr ''unknown'',
      c_coverage = PStr ''unknown'', c_basis = PNone, c_accepted = False, c_captured = PNone, c_members = PNone,
      c_seqs = [], c_seqs_cut = False, c_retracted = False, c_outcome = ''unknown'', c_association = PNone,
      c_why = ''no_captured_group_members_and_target_evidence''\<rparr>"

text \<open>\<open>d[k] = d.get(k, 0) + 1\<close>\<close>

definition count_one :: "pyval \<Rightarrow> (pyval \<times> int) list \<Rightarrow> (pyval \<times> int) list" where
  "count_one k d = dset k ((case map_of d k of None \<Rightarrow> 0 | Some n \<Rightarrow> n) + 1) d"

text \<open>\<open>v not in (None, ...)\<close> for string constants.\<close>

definition stated :: "pyval \<Rightarrow> string list \<Rightarrow> bool" where
  "stated v names \<longleftrightarrow> v \<noteq> PNone \<and> \<not> str_in v names"

text \<open>\<open>_accumulate_choice\<close>, in three parts: the states, the coverage, the outcome.\<close>

definition accumulate_states :: "pydict \<Rightarrow> rollup \<Rightarrow> rollup" where
  "accumulate_states plugin c =
     (let stage = dget plugin ''plugin_stage''; plan = dget plugin ''plan_identity''; state = dget plugin ''lm_request_state'';
          lm = dget plugin ''lm_request_id''; apply = dget plugin ''apply_state''; sub = dget plugin ''submission'';
          target = dget plugin ''target_membership'' in
      c\<lparr>c_observations := c_observations c + 1, c_stages := count_one stage (c_stages c),
        c_plan := (if plan \<noteq> PNone then plan else c_plan c),
        c_lm_state := (if str_in state [''issued_succeeded'', ''issued_failed''] then state
           else if state \<noteq> PNone \<and> eq_str (c_lm_state c) ''unknown'' then state else c_lm_state c),
        c_lm_ids := (if truthy lm \<and> \<not> list_ex (\<lambda>x. py_eq x lm) (c_lm_ids c) then c_lm_ids c @ [lm] else c_lm_ids c),
        c_apply := (if stated apply [''not_applicable'', ''unknown''] then apply else c_apply c),
        c_submission := (if stated sub [''not_applicable'', ''unknown''] then sub else c_submission c),
        c_membership := (if stated target [''unknown''] then target else c_membership c)\<rparr>)"

definition accumulate_coverage :: "nat \<Rightarrow> ientry \<Rightarrow> pydict \<Rightarrow> rollup \<Rightarrow> rollup" where
  "accumulate_coverage members_max row plugin c =
     (if \<not> stated (dget plugin ''coverage'') [''unknown''] then c
      else let d = c\<lparr>c_coverage := dget plugin ''coverage'', c_basis := dget plugin ''coverage_basis''\<rparr> in
        if c_missing c = [] \<and> coverage_accepted plugin
        then (let a = d\<lparr>c_accepted := True, c_captured := dget plugin ''captured_candidate_count'',
                    c_members := dget plugin ''group_member_count''\<rparr> in
              if length (c_seqs c) < members_max then a\<lparr>c_seqs := c_seqs c @ [i_seq row]\<rparr> else a\<lparr>c_seqs_cut := True\<rparr>)
        else if eq_str (dget plugin ''coverage'') ''complete'' \<and> dget plugin ''truncated'' = PBool True
        then d\<lparr>c_why := ''truncated_window_not_group_complete''\<rparr> else d)"

definition accumulate_outcome :: "pydict \<Rightarrow> rollup \<Rightarrow> rollup" where
  "accumulate_outcome plugin c =
     (let stage = dget plugin ''plugin_stage''; role = dget plugin ''association_role'' in
      c\<lparr>c_outcome := (if eq_str stage ''commit'' then ''engine_commit_observed''
            else if eq_str stage ''cancellation'' then ''cancelled'' else c_outcome c),
        c_retracted := (eq_str stage ''retraction'' \<or> c_retracted c),
        c_association := (if stated role [''absent''] then role else c_association c)\<rparr>)"

definition accumulate_choice :: "nat \<Rightarrow> ientry \<Rightarrow> pydict \<Rightarrow> rollup \<Rightarrow> rollup" where
  "accumulate_choice members_max row plugin c =
     accumulate_outcome plugin (accumulate_coverage members_max row plugin (accumulate_states plugin c))"

text \<open>\<open>_finish_choice\<close>\<close>

definition choice_complete :: "rollup \<Rightarrow> bool" where
  "choice_complete c \<longleftrightarrow> c_missing c = [] \<and> c_accepted c"

definition evidence_permitted :: "rollup \<Rightarrow> bool" where
  "evidence_permitted c \<longleftrightarrow> choice_complete c \<and> str_in (c_membership c) [''present'', ''absent'']"

definition finish_choice :: "rollup \<Rightarrow> pyval" where
  "finish_choice c = PDict
     [(''source_instance_id'', c_source c), (''process_id'', c_process c), (''window_id'', c_window c),
      (''group_id'', c_group c),
      (''group_identity'', PDict
         [(''status'', PStr (if c_missing c = [] then ''scoped''
             else if c_window c = PNone \<and> c_group c = PNone then ''missing'' else ''partial'')),
          (''basis'', if c_missing c = [] then PStr CHOICE_IDENTITY_BASIS else PNone),
          (''missing'', PList (map PStr (c_missing c)))]),
      (''stages'', PDict (map (\<lambda>(k, n). (str_of_val k, PInt n)) (c_stages c))),
      (''observations'', PInt (c_observations c)), (''plan_identity'', c_plan c), (''lm_request_state'', c_lm_state c),
      (''lm_request_ids'', PList (c_lm_ids c)), (''apply_state'', c_apply c), (''submission'', c_submission c),
      (''target_membership'', c_membership c), (''coverage'', c_coverage c), (''coverage_basis'', c_basis c),
      (''coverage_claim_accepted'', PBool (c_accepted c)), (''captured_candidate_count'', c_captured c),
      (''group_member_count'', c_members c), (''member_durable_seqs'', PList (map PInt (c_seqs c))),
      (''member_evidence_truncated'', PBool (c_seqs_cut c)), (''retracted'', PBool (c_retracted c)),
      (''request_outcome'', PStr (c_outcome c)), (''association_status'', c_association c),
      (''completeness'', PDict
         [(''complete'', PBool (choice_complete c)),
          (''basis'', if choice_complete c then PStr CHOICE_COMPLETE_BASIS else PNone),
          (''why'', PStr (if c_missing c \<noteq> [] then ''scoped_group_identity_unavailable''
             else if choice_complete c then ''captured_group_members_and_target_with_consistent_counts'' else c_why c))]),
      (''scope'', PStr (if c_missing c = [] then ''captured_rerank_group_span_and_category''
         else ''single_observation_without_scoped_group_identity'')),
      (''content_included'', PBool False), (''evidence_permitted'', PBool (evidence_permitted c)),
      (''evidence_not_permitted_reason'',
         if evidence_permitted c then PNone
         else if c_missing c \<noteq> [] then PStr ''scoped_group_identity_required''
         else PStr ''complete_captured_group_members_and_target_evidence_required''),
      (''human_correctness_proof'', PBool False), (''application_proof'', PBool False), (''ranking_benefit'', PBool False)]"

subsection \<open>All groups\<close>

type_synonym group_key = "pyval \<times> pyval \<times> pyval"

record choices =
  o_groups :: "(group_key \<times> rollup) list"
  o_cut :: bool
  o_unidentified :: "(int \<times> rollup) list"
  o_unidentified_total :: nat

definition row_group :: "ientry \<Rightarrow> pydict \<Rightarrow> group_key" where
  "row_group row plugin = (i_source row, dget plugin ''window_id'', dget plugin ''group_id'')"

definition missing_parts :: "group_key \<Rightarrow> string list" where
  "missing_parts k = map fst (filter (\<lambda>nv. snd nv = PNone)
     [(''source_instance_id'', fst k), (''window_id'', fst (snd k)), (''group_id'', snd (snd k))])"

text \<open>The three \<open>continue\<close>s before the identity.\<close>

definition row_considered :: "pyval \<Rightarrow> pyval \<Rightarrow> ientry \<Rightarrow> bool" where
  "row_considered process grp row \<longleftrightarrow>
     (case i_plugin row of
        None \<Rightarrow> False
      | Some plugin \<Rightarrow> (process = PNone \<or> py_eq (i_process row) process) \<and> (grp = PNone \<or> py_eq (dget plugin ''group_id'') grp))"

definition rollup_row :: "nat \<Rightarrow> nat \<Rightarrow> ientry \<Rightarrow> choices \<Rightarrow> choices" where
  "rollup_row groups_max members_max row o1 =
     (let plugin = (case i_plugin row of None \<Rightarrow> [] | Some p \<Rightarrow> p); key = row_group row plugin;
          missing = missing_parts key; entry = choice_entry row (fst (snd key)) (snd (snd key)) missing in
      if missing \<noteq> [] then
        (let o2 = o1\<lparr>o_unidentified_total := Suc (o_unidentified_total o1)\<rparr> in
         if groups_max \<le> length (o_unidentified o1) then o2
         else o2\<lparr>o_unidentified := o_unidentified o1 @ [(i_seq row, accumulate_choice members_max row plugin entry)]\<rparr>)
      else
        (case map_of (o_groups o1) key of
           Some c \<Rightarrow> o1\<lparr>o_groups := dset key (accumulate_choice members_max row plugin c) (o_groups o1)\<rparr>
         | None \<Rightarrow>
             if groups_max \<le> length (o_groups o1) then o1\<lparr>o_cut := True\<rparr>
             else o1\<lparr>o_groups := dset key (accumulate_choice members_max row plugin entry) (o_groups o1)\<rparr>))"

fun rollup_rows :: "nat \<Rightarrow> nat \<Rightarrow> pyval \<Rightarrow> pyval \<Rightarrow> ientry list \<Rightarrow> choices \<Rightarrow> choices" where
  "rollup_rows groups_max members_max process grp [] o1 = o1"
| "rollup_rows groups_max members_max process grp (row # rows) o1 =
     rollup_rows groups_max members_max process grp rows
       (if row_considered process grp row then rollup_row groups_max members_max row o1 else o1)"

definition no_choices :: choices where
  "no_choices = \<lparr>o_groups = [], o_cut = False, o_unidentified = [], o_unidentified_total = 0\<rparr>"

definition limit_nat :: "pydict \<Rightarrow> string \<Rightarrow> nat" where
  "limit_nat limits k = nat (int_of_val (dget limits k))"

definition choice_groups :: "pydict \<Rightarrow> pyval \<Rightarrow> pyval \<Rightarrow> ientry list \<Rightarrow> choices" where
  "choice_groups limits process grp rows =
     rollup_rows (limit_nat limits ''query_choice_groups_max'') (limit_nat limits ''query_group_members_max'')
       process grp rows no_choices"

definition opt_bound :: "bool \<Rightarrow> pyval" where
  "opt_bound lost = (if lost then PStr ''choice_group_bound'' else PNone)"

definition choice_group_rollup :: "pydict \<Rightarrow> pyval \<Rightarrow> pyval \<Rightarrow> ientry list \<Rightarrow> pydict" where
  "choice_group_rollup limits process grp rows =
     (let res = choice_groups limits process grp rows;
          lost = length (o_unidentified res) < o_unidentified_total res in
      [(''projection_version'', PInt 1), (''scope'', PStr ''captured_rerank_group_span_and_category''),
       (''identity_rule'', PStr ''scoped_source_window_group_required''), (''group_id_filter'', grp),
       (''groups'', PList (map (\<lambda>(k, c). finish_choice c) (o_groups res))),
       (''groups_total'', PInt (int (length (o_groups res)))), (''groups_truncated'', PBool (o_cut res)),
       (''groups_truncation_reason'', opt_bound (o_cut res)),
       (''groups_limit'', PInt (int_of_val (dget limits ''query_choice_groups_max''))),
       (''unidentified_observations'', PList (map (\<lambda>(seq, c).
          PDict (dset ''durable_seq'' (PInt seq) (dict_of_val (finish_choice c)))) (o_unidentified res))),
       (''unidentified_observations_total'', PInt (int (o_unidentified_total res))),
       (''unidentified_observations_truncated'', PBool lost),
       (''unidentified_observations_truncation_reason'', opt_bound lost),
       (''no_whole_window_flag'', PBool True), (''candidate_count_shortcut'', PBool False),
       (''label_rules'', PDict
          [(''explicit_committed_preference'', PStr ''not_human_correctness''),
           (''default_submission'', PStr ''weak_evidence''),
           (''cancelled_retracted_raw_unavailable_unknown'', PStr ''never_default_positive_label''),
           (''unselected'', PStr ''not_negative'')]),
       (''content_included'', PBool False)])"

end
