(* ===== verification/Annotations_Query.thy ===== *)
theory Annotations_Query
  imports Annotations_Facts Choice_Rollup
begin

text \<open>
  The reading side of the annotations: the published observation an annotation refers to
  (\<open>_annotation_source\<close> of \<open>src/archive/collector.py\<close>), its evidence (\<open>evidence\<close> of
  \<open>src/archive/annotations.py\<close>) and the paged query (\<open>_annotation_query\<close>). The text of a cursor stands for the value it
  encodes.
\<close>

subsection \<open>The source of an annotation\<close>

definition index_reference :: "string \<Rightarrow> ientry \<Rightarrow> pyval" where
  "index_reference aid en =
     PDict [(''archive_id'', PStr aid), (''source_instance_id'', i_source en),
       (''source_local_sequence'', i_local en), (''durable_seq'', PInt (i_seq en)),
       (''record_digest'', PStr (i_digest en))]"

definition visible_matches :: "ientry list \<Rightarrow> int \<Rightarrow> pydict \<Rightarrow> ientry list" where
  "visible_matches idx limit r =
     take 2 (takeWhile (\<lambda>en. i_seq en \<le> limit)
       (filter (\<lambda>en. i_source en = dget r ''source_instance_id'' \<and> i_local en = dget r ''source_local_sequence'') idx))"

definition SEMANTIC_EXCEPT :: "string list" where
  "SEMANTIC_EXCEPT = [''record_version'', ''durable_seq'', ''content_hash'', ''identity'', ''host_persistence'',
     ''host_persistence_proof'']"

definition observed_target :: "nenv \<Rightarrow> pydict \<Rightarrow> string option" where
  "observed_target e record =
     (let payload = dget record ''payload''; kind = dget record ''observation_kind'';
          plugin = dict_of_val (py_or (dget record ''plugin'') (PDict []));
          text = (if eq_str kind ''commit_attempt'' \<or>
                     eq_str kind ''plugin_observation'' \<and> eq_str (dget plugin ''plugin_stage'') ''commit''
                  then dget (dict_of_val payload) ''text'' else PNone) in
      if \<not> is_dict payload \<or> \<not> is_str text \<or> str_of_val text = [] then None
      else (case bounded_text e text TEXT_BYTES False of Value t \<Rightarrow> Some t | _ \<Rightarrow> None))"

text \<open>The rows of the entry's choice group at the prefix: the collector's index of groups, cut after
  one row more than the bound.\<close>

definition in_group :: "ientry \<Rightarrow> ientry \<Rightarrow> bool" where
  "in_group en row \<longleftrightarrow>
     (case i_plugin row of
        None \<Rightarrow> False
      | Some p \<Rightarrow>
          (let q = (case i_plugin en of None \<Rightarrow> [] | Some q \<Rightarrow> q) in
           truthy (dget p ''window_id'') \<and> truthy (dget p ''group_id'') \<and> i_source row = i_source en \<and>
           i_process row = i_process en \<and> dget p ''window_id'' = dget q ''window_id'' \<and>
           dget p ''group_id'' = dget q ''group_id''))"

definition group_rows :: "pydict \<Rightarrow> ientry list \<Rightarrow> int \<Rightarrow> ientry \<Rightarrow> ientry list" where
  "group_rows limits idx limit en =
     filter (\<lambda>row. i_seq row \<le> limit) (take (Suc (limit_nat limits ''query_group_members_max'')) (filter (in_group en) idx))"

definition group_choice :: "pydict \<Rightarrow> ientry list \<Rightarrow> int \<Rightarrow> ientry \<Rightarrow> pyval" where
  "group_choice limits idx limit en =
     (let rows = group_rows limits idx limit en; plugin = (case i_plugin en of None \<Rightarrow> [] | Some q \<Rightarrow> q) in
      if rows \<noteq> [] \<and> length rows \<le> limit_nat limits ''query_group_members_max''
      then (case list_of_val (dget (choice_group_rollup limits (i_process en) (dget plugin ''group_id'') rows) ''groups'') of
              [g] \<Rightarrow> g
            | _ \<Rightarrow> PNone)
      else PNone)"

type_synonym source = "pydict \<times> string option \<times> pyval"

text \<open>The record, its observed target and its choice group.\<close>

definition annotation_source ::
  "nenv \<Rightarrow> pydict \<Rightarrow> string \<Rightarrow> ientry list \<Rightarrow> int \<Rightarrow> pyval \<Rightarrow> source outcome" where
  "annotation_source e limits aid idx limit ref =
     and_then (reference_shape aid ref) (\<lambda>_.
     let r = dict_of_val ref in
     (case visible_matches idx limit r of
        [] \<Rightarrow> Refused ''not_found''
      | [en] \<Rightarrow>
          demand (dget r ''durable_seq'' = PInt (i_seq en) \<and> dget r ''record_digest'' = PStr (i_digest en))
            ''annotation_source_mismatch''
          (case i_read en of
             None \<Rightarrow> Refused ''annotation_source_mismatch''
           | Some record \<Rightarrow>
               demand (n_digest e record = i_digest en) ''annotation_source_mismatch''
              (if \<not> is_dict record then Raised ''AttributeError''
               else let d = dict_of_val record;
                        semantic = PDict (filter (\<lambda>kv. fst kv \<notin> set SEMANTIC_EXCEPT) d) in
                 demand (py_eq (dget d ''identity'') (PList [dget r ''source_instance_id'', dget r ''source_local_sequence'']) \<and>
                         dget d ''content_hash'' = PStr (n_digest e semantic)) ''annotation_source_mismatch''
                 (Value (d, observed_target e d, group_choice limits idx limit en))))
      | _ \<Rightarrow> Refused ''annotation_source_mismatch''))"

subsection \<open>Evidence\<close>

definition edit_kind_of :: "effective_edit \<Rightarrow> pyval" where
  "edit_kind_of ed = dget (snd ed) ''kind''"

definition edit_field :: "effective_edit \<Rightarrow> string \<Rightarrow> pyval" where
  "edit_field ed k = dget (dict_of_val (dget (snd ed) ''value'')) k"

text \<open>\<open>max\<close> by revision of the confirmation and the correction; the first of equal ones.\<close>

definition human_edit :: "(string \<times> effective_edit) list \<Rightarrow> effective_edit option" where
  "human_edit edits =
     (case (map_of edits ''confirm'', map_of edits ''correct'') of
        (None, c) \<Rightarrow> c
      | (Some a, None) \<Rightarrow> Some a
      | (Some a, Some c) \<Rightarrow> Some (if fst a < fst c then c else a))"

definition effective_target :: "string option \<Rightarrow> effective_edit option \<Rightarrow> pyval" where
  "effective_target observed human =
     (let obs = (case observed of None \<Rightarrow> PNone | Some t \<Rightarrow> PStr t) in
      case human of
        Some h \<Rightarrow> if eq_str (edit_kind_of h) ''confirm'' then obs else edit_field h ''text''
      | None \<Rightarrow> obs)"

definition target_provenance :: "string option \<Rightarrow> effective_edit option \<Rightarrow> pydict \<Rightarrow> string" where
  "target_provenance observed human plugin =
     (case human of
        Some h \<Rightarrow> if eq_str (edit_kind_of h) ''confirm'' then ''human_reviewed'' else ''human_corrected''
      | None \<Rightarrow>
          if observed = None then ''unavailable''
          else if eq_str (dget plugin ''submission'') ''explicit'' then ''observed_explicit_preference''
          else if eq_str (dget plugin ''submission'') ''default'' then ''observed_default_weak''
          else ''observed_submission_unknown'')"

definition ranking_eligible :: "string option \<Rightarrow> pyval \<Rightarrow> pyval \<Rightarrow> bool \<Rightarrow> bool" where
  "ranking_eligible observed target choice excluded \<longleftrightarrow>
     (let c = dict_of_val choice in
      truthy choice \<and> truthy (dget c ''evidence_permitted'') \<and> \<not> truthy (dget c ''retracted'') \<and>
      eq_str (dget c ''request_outcome'') ''engine_commit_observed'' \<and> target \<noteq> PNone \<and>
      (case observed of None \<Rightarrow> False | Some t \<Rightarrow> target = PStr t) \<and>
      eq_str (dget c ''target_membership'') ''present'' \<and> \<not> excluded)"

definition opt_revision :: "effective_edit option \<Rightarrow> pyval" where
  "opt_revision x = (case x of None \<Rightarrow> PNone | Some ed \<Rightarrow> PInt (fst ed))"

definition evidence_of ::
  "pyval \<Rightarrow> pydict \<Rightarrow> string option \<Rightarrow> pyval \<Rightarrow> (string \<times> effective_edit) list \<Rightarrow> bool \<Rightarrow> pydict" where
  "evidence_of ref record observed choice edits private =
     (let plugin = dict_of_val (py_or (dget record ''plugin'') (PDict []));
          human = human_edit edits; target = effective_target observed human;
          exclusion = map_of edits ''exclude''; experience = map_of edits ''experience'';
          eligible = ranking_eligible observed target choice (exclusion \<noteq> None) in
      [(''source_reference'', ref), (''observed_kind'', dget record ''observation_kind''),
       (''observed_outcome'', dget record ''outcome''),
       (''observed_submission'', dget_or plugin ''submission'' (PStr ''unknown'')),
       (''target_available'', PBool (target \<noteq> PNone)),
       (''target_provenance'', PStr (target_provenance observed human plugin)),
       (''human_revision'', opt_revision human), (''excluded'', PBool (exclusion \<noteq> None)),
       (''exclusion_reason'', (case exclusion of None \<Rightarrow> PNone | Some x \<Rightarrow> edit_field x ''reason'')),
       (''exclusion_revision'', opt_revision exclusion),
       (''experience'', (case experience of None \<Rightarrow> PNone | Some x \<Rightarrow>
          PDict [(''kind'', edit_field x ''kind''), (''value'', edit_field x ''value''), (''revision'', PInt (fst x))])),
       (''kind_revisions'', PDict (map (\<lambda>(k, ed). (k, PInt (fst ed))) edits)),
       (''language_material'', PDict [(''evidence_available'', PBool (target \<noteq> PNone)),
          (''excluded'', PBool (exclusion \<noteq> None)), (''admission'', PStr ''not_decided'')]),
       (''ranking_evaluation'', PDict [(''evidence_eligible'', PBool eligible),
          (''reason'', if eligible then PNone
             else PStr ''complete_scoped_observed_target_required_and_no_retraction_or_exclusion''),
          (''observed_choice'', choice)]),
       (''corrected_target_membership'',
          PStr (case human of
                  Some h \<Rightarrow> if eq_str (edit_kind_of h) ''correct'' then ''not_asserted'' else ''not_applicable''
                | None \<Rightarrow> ''not_applicable'')),
       (''objective_correctness_proof'', PBool False), (''host_persistence_proof'', PBool False),
       (''ranking_benefit'', PBool False)] @
      (if private then
         [(''private_values'', PDict [(''effective_target'', target),
             (''observed_target'', (case observed of None \<Rightarrow> PNone | Some t \<Rightarrow> PStr t)),
             (''experience_note'', (case experience of None \<Rightarrow> PNone | Some x \<Rightarrow> edit_field x ''note''))])]
       else []))"

subsection \<open>The query\<close>

text \<open>The collector at one request: its index and watermark, the store and its journal.\<close>

record moment =
  t_index :: "ientry list"
  t_durable :: int
  t_store :: astore
  t_journal :: "jline list"

text \<open>The page after \<open>after\<close>: the binary search, the slice and its cut at the prefix.\<close>

definition select_page :: "ientry list \<Rightarrow> nat \<Rightarrow> int \<Rightarrow> int \<Rightarrow> ientry list \<times> bool" where
  "select_page idx sz prefix after =
     (let start = bisect_right (\<lambda>en. after < i_seq en) idx 0 (length idx);
          xs = takeWhile (\<lambda>en. i_seq en \<le> prefix) (take (Suc sz) (drop start idx)) in
      (take sz xs, sz < length xs))"

definition paged_limits :: "pydict \<Rightarrow> pydict \<Rightarrow> nat outcome" where
  "paged_limits limits body =
     (let v = dget_or body ''page_size'' (dget limits ''page_size_default'') in
      demand (is_exact_int v \<and> 0 < int_of_val v) ''invalid_request''
     (demand (int_of_val v \<le> int_of_val (dget limits ''page_size_max'')) ''page_bound'' (Value (nat (int_of_val v)))))"

definition cursor_value :: "string \<Rightarrow> pyval \<Rightarrow> pyval \<Rightarrow> int \<Rightarrow> bool \<Rightarrow> pyval" where
  "cursor_value aid prefix revision after private =
     PDict [(''archive_id'', PStr aid), (''prefix'', prefix), (''revision'', revision), (''after'', PInt after),
       (''private'', PBool private)]"

definition QUERY_KEYS :: "string list" where
  "QUERY_KEYS = [''annotation_version'', ''source_reference'', ''as_of_durable_seq'', ''annotation_revision'',
     ''page_size'', ''cursor_token'', ''private_detail'', ''archive_id'']"

text \<open>The prefix, the revision and the position a request asks for.\<close>

definition query_position :: "string \<Rightarrow> moment \<Rightarrow> pydict \<Rightarrow> (pyval \<times> pyval \<times> pyval) outcome" where
  "query_position aid t body =
     (let prefix = dget_or body ''as_of_durable_seq'' (PInt (t_durable t));
          revision = dget_or body ''annotation_revision'' (PInt (h_revision (t_store t)));
          token = dget body ''cursor_token''; d = dict_of_val token;
          private = dget_or body ''private_detail'' (PBool False) in
      if \<not> truthy token then Value (prefix, revision, PInt 0)
      else demand (is_dict token \<and> keys_are d [''archive_id'', ''prefix'', ''revision'', ''after'', ''private''] \<and>
                   dget body ''source_reference'' = PNone \<and> is_bool (dget d ''private'') \<and> dget d ''private'' = private)
             ''invalid_request''
          (demand (eq_str (dget d ''archive_id'') aid) ''annotation_foreign_archive''
          (demand (\<not> (has_key body ''as_of_durable_seq'' \<and> \<not> py_eq prefix (dget d ''prefix'')) \<and>
                   \<not> (has_key body ''annotation_revision'' \<and> \<not> py_eq revision (dget d ''revision'')))
             ''annotation_revision_unknown'' (Value (dget d ''prefix'', dget d ''revision'', dget d ''after'')))))"

fun query_rows ::
  "nenv \<Rightarrow> pydict \<Rightarrow> string \<Rightarrow> moment \<Rightarrow> int \<Rightarrow> int \<Rightarrow> bool \<Rightarrow> pyval list \<Rightarrow> (pyval \<times> pydict) list outcome" where
  "query_rows e limits aid t prefix revision private [] = Value []"
| "query_rows e limits aid t prefix revision private (ref # refs) =
     and_then (annotation_source e limits aid (t_index t) prefix ref) (\<lambda>(record, observed, choice).
     and_then (effective e (t_journal t) (t_store t) ref revision) (\<lambda>edits.
     and_then (query_rows e limits aid t prefix revision private refs) (\<lambda>rows.
       Value ((ref, evidence_of ref record observed choice edits private) # rows))))"

record page =
  pg_prefix :: int
  pg_revision :: int
  pg_rows :: "(pyval \<times> pydict) list"
  pg_next :: "pyval option"

definition annotation_query :: "nenv \<Rightarrow> pydict \<Rightarrow> moment \<Rightarrow> pydict \<Rightarrow> page outcome" where
  "annotation_query e limits t body =
     (let s = t_store t; aid = h_archive s; private = dget_or body ''private_detail'' (PBool False);
          exact = dget body ''source_reference'' in
      demand (fst ` set body \<subseteq> set QUERY_KEYS \<and> is_bool private) ''invalid_request''
     (demand (eq_str (dget body ''annotation_version'') ANNOTATION_VERSION) ''unsupported_annotation_version''
     (demand (\<not> h_failed s) ''annotation_state_invalid''
     (demand (eq_str (dget_or body ''archive_id'' (PStr aid)) aid) ''annotation_foreign_archive''
     (and_then (paged_limits limits body) (\<lambda>sz.
      and_then (query_position aid t body) (\<lambda>(prefix, revision, after).
      let p = int_of_val prefix; r = int_of_val revision; a = int_of_val after in
      demand (an_integer 0 prefix \<and> an_integer 0 revision \<and> an_integer 0 after \<and> p \<le> t_durable t \<and>
              r \<le> h_revision s \<and> a \<le> p) ''annotation_revision_unknown''
     (let (ens, more) = (if exact \<noteq> PNone then ([], False) else select_page (t_index t) sz p a);
          refs = (if exact \<noteq> PNone then [exact] else map (index_reference aid) ens) in
      and_then (query_rows e limits aid t p r (private = PBool True) refs) (\<lambda>rows.
        Value \<lparr>pg_prefix = p, pg_revision = r, pg_rows = rows,
          pg_next = (if more then Some (cursor_value aid prefix revision (i_seq (last ens)) (private = PBool True)) else None)\<rparr>)))))))))"

text \<open>Reading page after page: each request repeats the first with the cursor of the page before.\<close>

definition with_cursor :: "pyval option \<Rightarrow> pydict \<Rightarrow> pydict" where
  "with_cursor c body = (case c of None \<Rightarrow> body | Some v \<Rightarrow> (''cursor_token'', v) # body)"

fun read_pages ::
  "nenv \<Rightarrow> pydict \<Rightarrow> pydict \<Rightarrow> pyval option \<Rightarrow> moment list \<Rightarrow> ((pyval \<times> pydict) list \<times> bool) outcome" where
  "read_pages e limits body c [] = Value ([], True)"
| "read_pages e limits body c (t # ts) =
     and_then (annotation_query e limits t (with_cursor c body)) (\<lambda>pg.
       (case pg_next pg of
          None \<Rightarrow> Value (pg_rows pg, False)
        | Some c' \<Rightarrow> and_then (read_pages e limits body (Some c') ts) (\<lambda>(rows, unfinished).
            Value (pg_rows pg @ rows, unfinished))))"

end
