(* ===== verification/Annotations_Claims.thy ===== *)
theory Annotations_Claims
  imports Annotations_Facts
begin

text \<open>
  What the annotation journal promises: an acknowledged edit survives crashes and losses of power,
  the journal is one chain with every operation once, the indexed lookup of the effective edits is
  the scan of the journal, a failed write is all or nothing. And the acknowledgement that does not
  hold what it says.
\<close>

text \<open>C32. An acknowledged edit survives: in every reachable state of the store, across failed
  writes, crashes, losses of power and restarts, the next start succeeds and finds every edit that
  was acknowledged as new, under its operation, hash and revision.\<close>

theorem acknowledged_edit_survives:
  assumes "fits e" "is_hex 32 (PStr aid)" "jreach e known aid y" "(opid, hash, r, False) \<in> set (y_acks y)"
  shows "\<exists>s d. prepare_store e x 3 (y_disk y) = (Some s, d) \<and> map_of (h_operations s) opid = Some (hash, r)"
proof -
  obtain k s where inv: "jinv_at e known aid y k s" using jreach_inv [OF assms(1-3)] by blast
  then have "acked_in (y_acks y) s" by (simp add: jinv_at_def)
  then show ?thesis using start_covered [OF assms(1) inv, of x] assms(4) by (auto simp: acked_in_def)
qed

subsection \<open>One chain\<close>

fun one_chain :: "nenv \<Rightarrow> int \<Rightarrow> string \<Rightarrow> jline list \<Rightarrow> bool" where
  "one_chain e rv ch [] = True"
| "one_chain e rv ch ((v, n) # ls) =
     (case v of
        None \<Rightarrow> False
      | Some row \<Rightarrow>
          (let d = dict_of_val row; ch' = n_digest e (PDict (filter (\<lambda>kv. fst kv \<noteq> ''chain'') d)) in
           row_revision row = rv + 1 \<and> dget d ''previous'' = PStr ch \<and> dget d ''chain'' = PStr ch' \<and>
           one_chain e (rv + 1) ch' ls))"

definition line_operation :: "jline \<Rightarrow> string" where
  "line_operation l = (case fst l of None \<Rightarrow> [] | Some row \<Rightarrow> str_of_val (dget (dict_of_val row) ''operation_id''))"

lemma load_chain:
  assumes "load_rows e (h_offset s + total_len ls) ls s = Some t" "list_all (\<lambda>l. 0 < snd l) ls"
  shows "one_chain e (h_revision s) (h_chain s) ls \<and> h_revision t = h_revision s + int (length ls) \<and>
    distinct (map line_operation ls) \<and> (\<forall>l\<in>set ls. line_operation l \<notin> fst ` set (h_operations s)) \<and>
    (\<forall>l\<in>set ls. fst l \<noteq> None)"
  using assms
proof (induction ls arbitrary: s)
  case (Cons l ls)
  obtain v n where l: "l = (v, n)" by (cases l)
  obtain row where r: "v = Some row" "validate_row e s row"
    "load_rows e (h_offset s + (n + total_len ls)) ls (remember_row e row n s) = Some t"
    using Cons.prems by (auto simp: l split: if_splits option.splits)
  let ?s = "remember_row e row n s"
  have v: "row_revision row = h_revision s + 1" "dget (dict_of_val row) ''previous'' = PStr (h_chain s)"
    "dget (dict_of_val row) ''chain'' = PStr (n_digest e (PDict (filter (\<lambda>kv. fst kv \<noteq> ''chain'') (dict_of_val row))))"
    "line_operation l \<notin> fst ` set (h_operations s)"
    using r(2) by (simp_all add: validate_row_def Let_def eq_str_def row_revision_def line_operation_def l r(1))
  have "h_chain ?s = n_digest e (PDict (filter (\<lambda>kv. fst kv \<noteq> ''chain'') (dict_of_val row)))"
    by (simp add: remember_row_def Let_def v(3))
  moreover have "fst ` set (h_operations ?s) = insert (line_operation l) (fst ` set (h_operations s))"
    by (simp add: remember_row_def Let_def line_operation_def l r(1))
  moreover note Cons.IH [of ?s] r(3) Cons.prems(2)
  ultimately have ih: "one_chain e (h_revision ?s) (h_chain ?s) ls" "h_revision t = h_revision ?s + int (length ls)"
    "distinct (map line_operation ls)" "\<forall>x\<in>set ls. line_operation x \<notin> insert (line_operation l) (fst ` set (h_operations s))"
    "\<forall>x\<in>set ls. fst x \<noteq> None"
    by (auto simp: l add.assoc)
  then have "line_operation l \<notin> line_operation ` set ls" by force
  then show ?case
    using ih v \<open>h_chain ?s = _\<close> by (simp add: l r(1) Let_def)
qed (simp split: if_splits)

text \<open>C33. The journal is one chain: whenever the store is healthy and no edit is under way, line by
  line the revisions count from one, each row names the chain digest of the row before it, its own
  is the digest of its contents, and no operation identifier occurs twice, however often a request
  was repeated around failures.\<close>

theorem journal_is_one_chain:
  assumes "fits e" "is_hex 32 (PStr aid)" "jreach e known aid y"
    and "y_store y = Some s" "\<not> h_failed s" "y_pc y = EIdle"
  shows "one_chain e 0 ZERO (journal y) \<and> h_revision s = int (length (journal y)) \<and>
    distinct (map line_operation (journal y))"
proof -
  obtain k t where inv: "jinv_at e known aid y k t" using jreach_inv [OF assms(1-3)] by blast
  then have "t = s" "k = length (journal y)" "state_after e aid (journal y) = Some s" "list_all (\<lambda>l. 0 < snd l) (journal y)"
    using assms(4-6) by (auto simp: jinv_at_def running_def in_edit_def journal_covers_def)
  then show ?thesis using load_chain [of e "new_store aid" "journal y" s] by (simp add: state_after_def new_store_def)
qed

subsection \<open>A failed write\<close>

text \<open>C34. A failed write is all or nothing: when an edit under way fails, or the collector dies, the
  next start finds the store as it was before the edit or as it is after it, with the index, the
  operations, the revision and the chain that belong to it.\<close>

theorem failed_edit_is_all_or_nothing:
  assumes "fits e" "is_hex 32 (PStr aid)" "jreach e known aid y"
    and "y_store y = Some s" "\<not> h_failed s" "y_pc y \<in> {EAppend row, EPublish row, ESync row}"
    and "y' \<in> {poisoned y, y\<lparr>y_store := None, y_pc := EIdle\<rparr>} \<or>
         (y_pc y = EAppend row \<and> n \<le> n_size e row \<and> y' = poisoned (put_journal (journal y) n y)) \<or>
         (y_pc y = EAppend row \<and> y' = poisoned (put_journal (journal y @ [line_of e row]) 0 y))"
  shows "fst (prepare_store e x 3 (y_disk y')) \<in> {Some s, Some (remember_row e row (Suc (n_size e row)) s)}"
proof -
  obtain k t where inv: "jinv_at e known aid y k t" using jreach_inv [OF assms(1-3)] by blast
  have t: "t = s \<or> t = remember_row e row (Suc (n_size e row)) s"
    using inv assms(4-6) by (auto simp: jinv_at_def running_def in_edit_def)
  have ls: "y_durable y \<le> length (journal y)" "list_all (\<lambda>l. 0 < snd l) (journal y)" using inv by (simp_all add: jinv_at_def)
  then have "jinv_at e known aid (poisoned (put_journal (journal y) n y)) k t"
    "jinv_at e known aid (poisoned (put_journal (journal y @ [line_of e row]) 0 y)) k t"
    by (auto intro!: journal_grows_inv [OF inv] simp: line_of_def)
  then have "jinv_at e known aid y' k t" using assms(7) poisoned_inv [OF inv] crash_inv [OF inv] by auto
  then show ?thesis using start_covered [OF assms(1), of known aid y' k t x] t by auto
qed

subsection \<open>One edit, step by step\<close>

text \<open>The states of the first edit of a store, from its start to the acknowledgement.\<close>

definition tr_started :: "string \<Rightarrow> jsys" where
  "tr_started aid = (first_files aid)\<lparr>y_store := Some (new_store aid)\<rparr>"

definition tr_append :: "string \<Rightarrow> pyval \<Rightarrow> jsys" where
  "tr_append aid row = (tr_started aid)\<lparr>y_pc := EAppend row\<rparr>"

definition tr_appended :: "nenv \<Rightarrow> string \<Rightarrow> pyval \<Rightarrow> jsys" where
  "tr_appended e aid row = (put_journal [line_of e row] 0 (tr_append aid row))\<lparr>y_durable := 1, y_pc := EPublish row\<rparr>"

definition tr_published :: "nenv \<Rightarrow> string \<Rightarrow> pyval \<Rightarrow> jsys" where
  "tr_published e aid row = (let y = tr_appended e aid row in
     y\<lparr>y_disk := (y_disk y)\<lparr>k_manifest := Json (next_manifest e row (new_store aid))\<rparr>,
       y_older := [k_manifest (y_disk y)], y_pc := ESync row\<rparr>)"

definition tr_edited :: "nenv \<Rightarrow> string \<Rightarrow> pyval \<Rightarrow> jsys" where
  "tr_edited e aid row = (tr_published e aid row)\<lparr>y_older := [],
     y_store := Some (remember_row e row (Suc (n_size e row)) (new_store aid)), y_pc := EIdle,
     y_acks := [row_ack row False]\<rparr>"

lemmas tr_defs = tr_started_def tr_append_def tr_appended_def tr_published_def tr_edited_def

definition first_edit :: "nenv \<Rightarrow> (pyval \<Rightarrow> bool) \<Rightarrow> string \<Rightarrow> pydict \<Rightarrow> pyval \<Rightarrow> bool" where
  "first_edit e known aid body row \<longleftrightarrow> fits e \<and> is_hex 32 (PStr aid) \<and>
     plan_edit e (\<lambda>_. Value True) (new_store aid) body = Value (Write row) \<and> known (dget body ''source_reference'') \<and>
     wf_dict (dict_of_val (dget body ''source_reference''))"

lemma reach_started: "fits e \<Longrightarrow> is_hex 32 (PStr aid) \<Longrightarrow> jreach e known aid (tr_started aid)"
proof -
  assume a: "fits e" "is_hex 32 (PStr aid)"
  let ?y = "first_files aid"
  have j: "journal ?y = []" by (simp add: journal_def first_files_def init_files_def)
  have "prepare_store e [] 3 (y_disk ?y) = (Some (new_store aid), y_disk ?y)"
    using start_covered [OF a(1) first_inv [OF a], where x = "[]"] by (simp add: j) (simp add: first_files_def init_files_def)
  then have "jstep e known ?y (?y\<lparr>y_disk := y_disk ?y, y_store := Some (new_store aid), y_pc := EIdle,
      y_durable := (case k_journal (y_disk ?y) of None \<Rightarrow> 0 | Some j \<Rightarrow> length (fst j))\<rparr>)"
    by (intro jstep.start) (simp_all add: first_files_def)
  then have "jstep e known ?y (tr_started aid)" by (simp add: tr_started_def first_files_def init_files_def)
  then show ?thesis using jreach.more [OF jreach.first] by blast
qed

lemma new_shape: "is_hex 32 (PStr aid) \<Longrightarrow> store_shape (new_store aid)"
  by (simp add: store_shape_def new_store_def MAX_REVISION_def ZERO_def)

lemma reach_edit:
  assumes "first_edit e known aid body row"
  shows "jreach e known aid (tr_appended e aid row)" "jreach e known aid (tr_published e aid row)"
    "jreach e known aid (tr_edited e aid row)"
proof -
  note a = assms [unfolded first_edit_def]
  have 1: "jreach e known aid (tr_started aid)" using a by (intro reach_started) simp_all
  have "jstep e known (tr_started aid) (tr_append aid row)"
    unfolding tr_append_def using a by (intro jstep.request [where body = body]) (auto simp: tr_started_def first_files_def)
  then have 2: "jreach e known aid (tr_append aid row)" by (rule jreach.more [OF 1])
  have "written_row e known (new_store aid) row" using a plan_written by blast
  then have "Suc (n_size e row) \<le> LINE_BYTES"
    using a written_any [of e known "new_store aid" row] new_shape [of aid] unfolding fits_def by blast
  then have room: "int (h_offset (new_store aid) + Suc (n_size e row)) \<le> MAX_REVISION"
    by (simp add: new_store_def LINE_BYTES_def MAX_REVISION_def)
  have j: "journal (tr_append aid row) = []" by (simp add: tr_defs journal_def first_files_def init_files_def)
  have "jstep e known (tr_append aid row)
      ((put_journal (journal (tr_append aid row) @ [line_of e row]) 0 (tr_append aid row))
       \<lparr>y_durable := Suc (length (journal (tr_append aid row))), y_pc := EPublish row\<rparr>)"
    using room by (intro jstep.append) (simp_all add: tr_append_def tr_started_def)
  then have "jstep e known (tr_append aid row) (tr_appended e aid row)" unfolding j by (simp add: tr_appended_def)
  then show 3: "jreach e known aid (tr_appended e aid row)" by (rule jreach.more [OF 2])
  let ?z = "tr_appended e aid row"
  have "jstep e known ?z (?z\<lparr>y_disk := (y_disk ?z)\<lparr>k_manifest := Json (next_manifest e row (new_store aid))\<rparr>,
      y_older := k_manifest (y_disk ?z) # y_older ?z, y_pc := ESync row\<rparr>)"
    by (rule jstep.publish) (simp_all add: tr_appended_def tr_append_def tr_started_def put_journal_def)
  then have "jstep e known ?z (tr_published e aid row)"
    by (simp add: tr_published_def Let_def) (simp add: tr_defs first_files_def put_journal_def)
  then show 4: "jreach e known aid (tr_published e aid row)" by (rule jreach.more [OF 3])
  let ?p = "tr_published e aid row"
  have "jstep e known ?p (?p\<lparr>y_older := [], y_store := Some (remember_row e row (Suc (n_size e row)) (new_store aid)), y_pc := EIdle,
      y_acks := row_ack row False # y_acks ?p\<rparr>)"
    by (rule jstep.synced) (simp_all add: tr_defs Let_def put_journal_def)
  then have "jstep e known ?p (tr_edited e aid row)"
    by (simp add: tr_edited_def) (simp add: tr_defs first_files_def put_journal_def Let_def)
  then show "jreach e known aid (tr_edited e aid row)" by (rule jreach.more [OF 4])
qed

text \<open>A concrete environment and its first edit.\<close>

definition demo_env :: nenv where
  "demo_env = \<lparr>n_digest = (\<lambda>_. ZERO), n_size = (\<lambda>_. 10), n_utf8 = (\<lambda>s. Some (length s))\<rparr>"

definition demo_aid :: string where "demo_aid = replicate 32 (CHR ''0'')"

definition demo_ref :: pyval where
  "demo_ref = PDict [(''archive_id'', PStr demo_aid), (''source_instance_id'', PStr ''s''),
     (''source_local_sequence'', PInt 0), (''durable_seq'', PInt 1), (''record_digest'', PStr ZERO)]"

definition demo_edit :: pydict where
  "demo_edit = [(''annotation_version'', PStr ANNOTATION_VERSION), (''source_reference'', demo_ref),
     (''expected_revision'', PInt 0), (''operation_id'', PStr ''op''), (''kind'', PStr ''correct''),
     (''value'', PDict [(''text'', PStr ''x'')])]"

definition demo_row :: pyval where
  "demo_row = edit_row demo_env (new_store demo_aid) ''op''
     (edit_semantic demo_ref ''correct'' [(''text'', PStr ''x'')] (PInt 0))"

lemma demo_hex: "is_hex 32 (PStr demo_aid)" "is_hex 64 (PStr ZERO)"
  by (simp_all add: is_hex_def demo_aid_def ZERO_def all_in_def lower_hex_def list_all_iff)

lemma demo_fits: "fits demo_env"
  by (simp add: fits_def demo_env_def ZERO_def LINE_BYTES_def)

lemma demo_first: "known demo_ref \<Longrightarrow> first_edit demo_env known demo_aid demo_edit demo_row"
proof -
  assume k: "known demo_ref"
  have tok: "safe_token (PStr ''op'') \<noteq> None" "safe_token (PStr ''s'') \<noteq> None" by code_simp+
  have shape: "reference_shape demo_aid demo_ref = Value ()"
    using tok demo_hex by (simp add: reference_shape_def demo_ref_def keys_are_def demand_def eq_str_def an_integer_def MAX_REVISION_def)
  have val: "edit_value demo_env ''correct'' [(''text'', PStr ''x'')] = Value [(''text'', PStr ''x'')]"
    by (simp add: edit_value_def keys_are_def demand_def bounded_text_def demo_env_def TEXT_BYTES_def)
  have "normalize_edit demo_env demo_edit = Value (''correct'', [(''text'', PStr ''x'')])"
    using tok val
    by (simp add: normalize_edit_def demo_edit_def dget_or_def demand_def str_in_def EDIT_KINDS_def an_integer_def MAX_REVISION_def)
  then have "plan_edit demo_env (\<lambda>_. Value True) (new_store demo_aid) demo_edit = Value (Write demo_row)"
    using shape by (simp add: plan_edit_def demo_edit_def demand_def eq_str_def new_store_def demo_row_def MAX_REVISION_def)
  moreover have "dget demo_edit ''source_reference'' = demo_ref" by (simp add: demo_edit_def)
  moreover have "wf_dict (dict_of_val demo_ref)" by (simp add: demo_ref_def wf_dict_def)
  ultimately show ?thesis using k demo_fits demo_hex(1) by (simp add: first_edit_def)
qed

text \<open>The first edit, acknowledged, survives.\<close>

theorem acknowledged_edit_survives_witness:
  "\<exists>s d. prepare_store demo_env [] 3 (y_disk (tr_edited demo_env demo_aid demo_row)) = (Some s, d) \<and>
     map_of (h_operations s) ''op'' = Some (ZERO, 1)"
proof (rule acknowledged_edit_survives [OF demo_fits demo_hex(1)])
  show "jreach demo_env (\<lambda>_. True) demo_aid (tr_edited demo_env demo_aid demo_row)" by (rule reach_edit(3) [OF demo_first]) simp
  show "(''op'', ZERO, 1, False) \<in> set (y_acks (tr_edited demo_env demo_aid demo_row))"
    by (simp add: tr_edited_def row_ack_def demo_row_def demo_env_def new_store_def)
qed

theorem journal_is_one_chain_witness:
  "one_chain demo_env 0 ZERO (journal (tr_edited demo_env demo_aid demo_row)) \<and>
   h_revision (remember_row demo_env demo_row 11 (new_store demo_aid)) = int (length (journal (tr_edited demo_env demo_aid demo_row))) \<and>
   distinct (map line_operation (journal (tr_edited demo_env demo_aid demo_row)))"
proof (rule journal_is_one_chain [OF demo_fits demo_hex(1)])
  show "jreach demo_env (\<lambda>_. True) demo_aid (tr_edited demo_env demo_aid demo_row)" by (rule reach_edit(3) [OF demo_first]) simp
qed (simp_all add: tr_edited_def demo_env_def new_store_def)

theorem failed_edit_is_all_or_nothing_witness:
  "fst (prepare_store demo_env [] 3 (y_disk (poisoned (tr_published demo_env demo_aid demo_row)))) \<in>
     {Some (new_store demo_aid), Some (remember_row demo_env demo_row (Suc (n_size demo_env demo_row)) (new_store demo_aid))}"
proof (rule failed_edit_is_all_or_nothing [OF demo_fits demo_hex(1)])
  show "jreach demo_env (\<lambda>_. True) demo_aid (tr_published demo_env demo_aid demo_row)" by (rule reach_edit(2) [OF demo_first]) simp
qed (simp_all add: tr_defs Let_def put_journal_def new_store_def)

subsection \<open>A repeated request\<close>

lemma replay_of_write:
  assumes "plan_edit e (\<lambda>_. Value True) s body = Value (Write row)"
  obtains kv where "normalize_edit e body = Value kv"
    "plan_edit e (\<lambda>_. Value True) (remember_row e row n s) body = Value (Replay (row_revision row, row_revision row, True))"
proof -
  obtain kind v where kv: "normalize_edit e body = Value (kind, v)" using assms by (auto simp: plan_edit_def elim!: outcome_elims)
  have row: "row = edit_row e s (str_of_val (dget body ''operation_id''))
      (edit_semantic (dget body ''source_reference'') kind v (dget body ''expected_revision''))"
    and ok: "\<not> h_failed s" "eq_str (dget body ''annotation_version'') ANNOTATION_VERSION"
      "reference_shape (h_archive s) (dget body ''source_reference'') = Value ()"
    using assms kv by (auto simp: plan_edit_def Let_def elim!: outcome_elims split: option.splits)
  have "plan_edit e (\<lambda>_. Value True) (remember_row e row n s) body = Value (Replay (row_revision row, row_revision row, True))"
    using ok kv by (simp add: plan_edit_def Let_def row demand_def remember_row_def row_revision_def)
  then show thesis using that kv by blast
qed

lemma first_manifest_store:
  assumes "jinv_at e known aid y k s" "k_manifest (y_disk y) = Json (manifest_value aid 0 0 ZERO)"
  shows "s = new_store aid"
proof -
  have c: "manifest_of s = Json (manifest_value aid 0 0 ZERO)" "state_after e aid (take k (journal y)) = Some s"
    "list_all (\<lambda>l. 0 < snd l) (journal y)"
    using assms by (auto simp: jinv_at_def journal_covers_def)
  have "h_revision s = 0" using c(1) by (simp add: manifest_of_def manifest_value_def)
  moreover have "list_all (\<lambda>l. 0 < snd l) (take k (journal y))" using c(3) by (metis append_take_drop_id list_all_append)
  ultimately have "take k (journal y) = []"
    using load_chain [of e "new_store aid" "take k (journal y)" s] c(2)
    by (auto simp: state_after_def new_store_def min_def split: if_splits)
  then have "state_after e aid [] = Some s" using c(2) by metis
  then show ?thesis by (simp add: state_after_def new_store_def)
qed

text \<open>C35. The acknowledgement of a repeated request can be wrong: when the directory could not be
  synced after the manifest was replaced, the edit fails; after a restart the same request is
  answered as done and durable; and a loss of power then brings back the older manifest, with which
  the store starts without the edit.\<close>

theorem repeated_edit_can_be_lost:
  assumes "first_edit e known aid body row"
  shows "\<exists>y hash. jreach e known aid y \<and> (str_of_val (dget body ''operation_id''), hash, 1, True) \<in> set (y_acks y) \<and>
    (\<forall>x. \<exists>d. prepare_store e x 3 (y_disk y) = (Some (new_store aid), d))"
proof -
  note a = assms [unfolded first_edit_def]
  let ?p = "tr_published e aid row" and ?s = "remember_row e row (Suc (n_size e row)) (new_store aid)"
  let ?c = "(poisoned ?p)\<lparr>y_store := None, y_pc := EIdle\<rparr>"
  have rv: "row_revision row = 1"
  proof -
    have "written_row e known (new_store aid) row" using a plan_written by blast
    then show ?thesis unfolding written_row_def by (auto simp: new_store_def)
  qed
  obtain k s where inv: "jinv_at e known aid ?p k s" using jreach_inv reach_edit(2) [OF assms] a by blast
  have "s = ?s" "k = 1"
    using inv by (auto simp: jinv_at_def running_def in_edit_def tr_defs Let_def put_journal_def new_store_def journal_def split: if_splits)
  then have ic: "jinv_at e known aid ?c 1 ?s" using crash_inv [OF poisoned_inv [OF inv]] by simp
  have "jstep e known ?p (poisoned ?p)" by (rule jstep.publish_fails [where row = row]) (simp add: tr_published_def Let_def)
  then have rc: "jreach e known aid ?c" using jreach.more [OF jreach.more [OF reach_edit(2) [OF assms]] jstep.crash] by blast
  let ?d = "(y_disk ?c)\<lparr>k_journal := Some (take 1 (journal ?c), 0)\<rparr>"
  let ?t = "?c\<lparr>y_disk := ?d, y_store := Some ?s, y_pc := EIdle,
      y_durable := (case k_journal ?d of None \<Rightarrow> 0 | Some j \<Rightarrow> length (fst j))\<rparr>"
  have "prepare_store e aid 3 (y_disk ?c) = (Some ?s, ?d)" using a ic by (intro start_covered) simp_all
  then have "jstep e known ?c ?t" by (intro jstep.start) simp_all
  then have rt: "jreach e known aid ?t" by (rule jreach.more [OF rc])
  obtain kv where kv: "normalize_edit e body = Value kv"
    "plan_edit e (\<lambda>_. Value True) ?s body = Value (Replay (row_revision row, row_revision row, True))"
    using replay_of_write a by blast
  let ?r = "?t\<lparr>y_acks := replay_ack e body kv (1, 1, True) # y_acks ?t\<rparr>"
  have "jstep e known ?t ?r" using kv rv by (intro jstep.replay [where s = ?s and resolve = "\<lambda>_. Value True"]) simp_all
  then have rr: "jreach e known aid ?r" by (rule jreach.more [OF rt])
  let ?m = "Json (manifest_value aid 0 0 ZERO)"
  let ?y = "(put_journal (take (y_durable ?r) (journal ?r) @ []) 0
       (?r\<lparr>y_disk := (y_disk ?r)\<lparr>k_manifest := ?m\<rparr>, y_older := []\<rparr>))\<lparr>y_store := None, y_pc := EIdle\<rparr>"
  have "?m \<in> set (y_older ?r)" by (simp add: poisoned_def tr_defs Let_def put_journal_def first_files_def init_files_def)
  then have "jstep e known ?r ?y" by (intro jstep.power) simp_all
  then have ry: "jreach e known aid ?y" by (rule jreach.more [OF rr])
  obtain k' s' where iy: "jinv_at e known aid ?y k' s'" using jreach_inv [OF _ _ ry] a by blast
  have "k_manifest (y_disk ?y) = ?m" by (simp add: put_journal_def)
  then have "s' = new_store aid" by (rule first_manifest_store [OF iy])
  then have "\<forall>x. \<exists>d. prepare_store e x 3 (y_disk ?y) = (Some (new_store aid), d)" using start_covered [OF _ iy] a by blast
  moreover have "(str_of_val (dget body ''operation_id''), fst (snd (replay_ack e body kv (1, 1, True))), 1, True) \<in> set (y_acks ?y)"
    by (simp add: put_journal_def replay_ack_def)
  ultimately show ?thesis using ry by blast
qed

theorem repeated_edit_can_be_lost_witness:
  "\<exists>y hash. jreach demo_env (\<lambda>_. True) demo_aid y \<and> (''op'', hash, 1, True) \<in> set (y_acks y) \<and>
    (\<forall>x. \<exists>d. prepare_store demo_env x 3 (y_disk y) = (Some (new_store demo_aid), d))"
  using repeated_edit_can_be_lost [OF demo_first, of "\<lambda>_. True"] by (simp add: demo_edit_def)

end
