(* ===== verification/Choice_Claims.thy ===== *)
theory Choice_Claims
  imports Choice_Rollup
begin

text \<open>
  What the roll-up of choices is: interleaved rows are accumulated group by group, in the order in
  which the groups appear, up to the bound; a group that permits evidence has it among its own rows.
\<close>

subsection \<open>Groups\<close>

definition plugin_of :: "ientry \<Rightarrow> pydict" where
  "plugin_of row = (case i_plugin row of None \<Rightarrow> [] | Some p \<Rightarrow> p)"

definition key_of :: "ientry \<Rightarrow> group_key" where
  "key_of row = row_group row (plugin_of row)"

text \<open>The distinct elements in the order of their first occurrence.\<close>

definition firsts :: "'a list \<Rightarrow> 'a list" where
  "firsts xs = rev (remdups (rev xs))"

lemma firsts_simps [simp]:
  "firsts [] = []"
  "firsts (xs @ [x]) = (if x \<in> set xs then firsts xs else firsts xs @ [x])"
  "set (firsts xs) = set xs"
  "distinct (firsts xs)"
  by (simp_all add: firsts_def)

definition identified :: "pyval \<Rightarrow> pyval \<Rightarrow> ientry list \<Rightarrow> ientry list" where
  "identified process grp rows = filter (\<lambda>row. row_considered process grp row \<and> missing_parts (key_of row) = []) rows"

definition rows_of :: "group_key \<Rightarrow> ientry list \<Rightarrow> ientry list" where
  "rows_of k rows = filter (\<lambda>row. key_of row = k) rows"

text \<open>The reference: one group's rows folded from its first row's entry.\<close>

definition roll_group :: "nat \<Rightarrow> ientry list \<Rightarrow> rollup" where
  "roll_group m rows =
     fold (\<lambda>row c. accumulate_choice m row (plugin_of row) c) rows
       (choice_entry (hd rows) (fst (snd (key_of (hd rows)))) (snd (snd (key_of (hd rows)))) (missing_parts (key_of (hd rows))))"

lemma roll_group_snoc:
  "rows \<noteq> [] \<Longrightarrow> roll_group m (rows @ [row]) = accumulate_choice m row (plugin_of row) (roll_group m rows)"
  by (simp add: roll_group_def)

lemma rollup_rows_snoc:
  "rollup_rows g m p q (xs @ [x]) o1 =
     (let o2 = rollup_rows g m p q xs o1 in if row_considered p q x then rollup_row g m x o2 else o2)"
  by (induction xs arbitrary: o1) (simp_all add: Let_def)

lemma dset_map_distinct:
  "distinct ks \<Longrightarrow> k \<in> set ks \<Longrightarrow> dset k v (map (\<lambda>k. (k, f k)) ks) = map (\<lambda>k'. (k', if k' = k then v else f k')) ks"
proof (induction ks)
  case (Cons a ks)
  have "map (\<lambda>k'. (k', if k' = a then v else f k')) ks = map (\<lambda>k. (k, f k)) ks" if "a \<notin> set ks"
    using that by (intro map_cong) auto
  then show ?case using Cons by auto
qed simp

lemma dset_map_new: "k \<notin> set ks \<Longrightarrow> dset k v (map (\<lambda>k. (k, f k)) ks) = map (\<lambda>k. (k, f k)) ks @ [(k, v)]"
  by (induction ks) auto

lemma map_of_pairs: "map_of (map (\<lambda>k. (k, f k)) ks) k = (if k \<in> set ks then Some (f k) else None)"
  by (induction ks) auto

text \<open>One identified row.\<close>

lemma rollup_row_groups:
  assumes gs: "o_groups o1 = map (\<lambda>k. (k, roll_group m (rows_of k rows))) (take g ks)"
    and ks: "distinct ks" "set ks = key_of ` set rows" and cut: "o_cut o1 = (g < length ks)"
    and x: "missing_parts (key_of x) = []"
  shows "o_groups (rollup_row g m x o1) = map (\<lambda>k. (k, roll_group m (rows_of k (rows @ [x]))))
            (take g (if key_of x \<in> set ks then ks else ks @ [key_of x]))"
    "o_cut (rollup_row g m x o1) = (g < length (if key_of x \<in> set ks then ks else ks @ [key_of x]))"
proof -
  let ?k = "key_of x" and ?f = "\<lambda>k. roll_group m (rows_of k rows)" and ?f' = "\<lambda>k. roll_group m (rows_of k (rows @ [x]))"
  have plug: "(case i_plugin x of None \<Rightarrow> [] | Some p \<Rightarrow> p) = plugin_of x" "row_group x (plugin_of x) = ?k"
    by (simp_all add: plugin_of_def key_of_def)
  have other: "?f' k = ?f k" if "k \<noteq> ?k" for k using that by (simp add: rows_of_def del: split_paired_All)
  have same: "map (\<lambda>k. (k, ?f' k)) (take g ks) = map (\<lambda>k. (k, ?f k)) (take g ks)" if "?k \<notin> set (take g ks)"
  proof (rule map_cong [OF refl])
    fix k assume "k \<in> set (take g ks)"
    then have "k \<noteq> ?k" using that by blast
    then show "(k, ?f' k) = (k, ?f k)" using other by simp
  qed
  have len: "g \<le> length (o_groups o1) \<longleftrightarrow> g \<le> length ks" by (simp add: gs)
  note unf = rollup_row_def Let_def plug x gs map_of_pairs
  let ?res = "rollup_row g m x o1" and ?ks = "if ?k \<in> set ks then ks else ks @ [?k]"
  have "o_groups ?res = map (\<lambda>k. (k, ?f' k)) (take g ?ks) \<and> o_cut ?res = (g < length ?ks)"
  proof -
    consider (known) "?k \<in> set (take g ks)" | (over) "?k \<in> set ks" "?k \<notin> set (take g ks)" | (new) "?k \<notin> set ks" by auto
    then show ?thesis
    proof cases
      case known
      then have "?k \<in> set ks" by (rule in_set_takeD)
      then have ne: "rows_of ?k rows \<noteq> []" "?k \<in> set ks" using ks(2) by (auto simp: rows_of_def filter_empty_conv)
      have "dset ?k (accumulate_choice m x (plugin_of x) (?f ?k)) (map (\<lambda>k. (k, ?f k)) (take g ks)) = map (\<lambda>k. (k, ?f' k)) (take g ks)"
        using ks(1) known other roll_group_snoc [OF ne(1), of m x]
        by (subst dset_map_distinct) (auto simp: rows_of_def)
      then show ?thesis using known ne cut by (simp add: unf)
    next
      case over
      then have "g < length ks" by (metis leI take_all)
      then show ?thesis using over same [OF over(2)] cut ks by (auto simp: unf len)
    next
      case new
      have t: "?k \<notin> set (take g ks)" using new by (auto dest: in_set_takeD)
      have "rows_of ?k rows = []" using new ks(2) by (auto simp: rows_of_def filter_empty_conv rev_image_eqI)
      then have one: "?f' ?k = accumulate_choice m x (plugin_of x) (choice_entry x (fst (snd ?k)) (snd (snd ?k)) [])"
        by (simp add: rows_of_def roll_group_def x)
      show ?thesis
        using t new cut one same [OF t] by (auto simp: unf dset_map_new len)
    qed
  qed
  then show "o_groups (rollup_row g m x o1) = map (\<lambda>k. (k, roll_group m (rows_of k (rows @ [x]))))
            (take g (if key_of x \<in> set ks then ks else ks @ [key_of x]))"
    "o_cut (rollup_row g m x o1) = (g < length (if key_of x \<in> set ks then ks else ks @ [key_of x]))" by blast+
qed

lemma rollup_row_missing:
  "missing_parts (key_of x) \<noteq> [] \<Longrightarrow> o_groups (rollup_row g m x o1) = o_groups o1 \<and> o_cut (rollup_row g m x o1) = o_cut o1"
  by (simp add: rollup_row_def Let_def key_of_def plugin_of_def)

lemma rollup_rows_groups:
  "o_groups (rollup_rows g m p q rows no_choices) =
     map (\<lambda>k. (k, roll_group m (rows_of k (identified p q rows)))) (take g (firsts (map key_of (identified p q rows)))) \<and>
   o_cut (rollup_rows g m p q rows no_choices) = (g < length (firsts (map key_of (identified p q rows))))"
proof (induction rows rule: rev_induct)
  case Nil
  then show ?case by (simp add: identified_def no_choices_def)
next
  case (snoc x rows)
  let ?I = "identified p q rows"
  show ?case
  proof (cases "row_considered p q x \<and> missing_parts (key_of x) = []")
    case True
    then have "identified p q (rows @ [x]) = ?I @ [x]" by (simp add: identified_def)
    then show ?thesis
      using rollup_row_groups [of "rollup_rows g m p q rows no_choices" m ?I g "firsts (map key_of ?I)" x] snoc True
      by (simp add: rollup_rows_snoc Let_def)
  next
    case False
    then have "identified p q (rows @ [x]) = ?I" by (simp add: identified_def)
    then show ?thesis using snoc False rollup_row_missing [of x g m] by (simp add: rollup_rows_snoc Let_def)
  qed
qed

text \<open>C40. The roll-up is a grouping: however the rows of different groups interleave, the projection
  of each group is the fold of its own rows alone, the groups stand in the order of their first row,
  no group appears twice, and what the bound cuts is whole groups, with the flag that says so.\<close>

theorem rollup_groups_by_key:
  "let g = limit_nat limits ''query_choice_groups_max''; m = limit_nat limits ''query_group_members_max'';
       I = identified process grp rows; ks = firsts (map key_of I); res = choice_groups limits process grp rows in
   o_groups res = map (\<lambda>k. (k, roll_group m (rows_of k I))) (take g ks) \<and> o_cut res = (g < length ks) \<and>
   distinct (map fst (o_groups res))"
  using rollup_rows_groups [of "limit_nat limits ''query_choice_groups_max''" "limit_nat limits ''query_group_members_max''" process grp rows]
  by (simp add: choice_groups_def Let_def o_def)


subsection \<open>What a group shows\<close>

text \<open>The last of the stated values, or the default.\<close>

definition last_stated :: "string list \<Rightarrow> string \<Rightarrow> ientry list \<Rightarrow> pyval" where
  "last_stated names k rows =
     last (PStr ''unknown'' # filter (\<lambda>v. stated v names) (map (\<lambda>row. dget (plugin_of row) k) rows))"

definition stage_is :: "string \<Rightarrow> ientry \<Rightarrow> bool" where
  "stage_is k row \<longleftrightarrow> eq_str (dget (plugin_of row) ''plugin_stage'') k"

definition group_outcome :: "ientry list \<Rightarrow> string" where
  "group_outcome rows =
     (case filter (\<lambda>row. stage_is ''commit'' row \<or> stage_is ''cancellation'' row) rows of
        [] \<Rightarrow> ''unknown''
      | es \<Rightarrow> if stage_is ''commit'' (last es) then ''engine_commit_observed'' else ''cancelled'')"

lemma coverage_accepted_stated: "coverage_accepted p \<Longrightarrow> stated (dget p ''coverage'') [''unknown'']"
  by (auto simp: coverage_accepted_def stated_def str_in_def eq_str_def Let_def)

lemma accumulate_sel [simp]:
  "c_missing (accumulate_choice m row p c) = c_missing c"
  "c_accepted (accumulate_choice m row p c) = (c_accepted c \<or> c_missing c = [] \<and> coverage_accepted p)"
  "c_membership (accumulate_choice m row p c) =
     (if stated (dget p ''target_membership'') [''unknown''] then dget p ''target_membership'' else c_membership c)"
  "c_retracted (accumulate_choice m row p c) = (eq_str (dget p ''plugin_stage'') ''retraction'' \<or> c_retracted c)"
  "c_outcome (accumulate_choice m row p c) =
     (if eq_str (dget p ''plugin_stage'') ''commit'' then ''engine_commit_observed''
      else if eq_str (dget p ''plugin_stage'') ''cancellation'' then ''cancelled'' else c_outcome c)"
  by (auto simp: accumulate_choice_def accumulate_states_def accumulate_coverage_def accumulate_outcome_def Let_def
      coverage_accepted_stated)

lemma choice_entry_sel [simp]:
  "c_missing (choice_entry row w g ms) = ms" "c_accepted (choice_entry row w g ms) = False"
  "c_membership (choice_entry row w g ms) = PStr ''unknown''" "c_retracted (choice_entry row w g ms) = False"
  "c_outcome (choice_entry row w g ms) = ''unknown''"
  by (simp_all add: choice_entry_def)

lemma roll_group_one:
  "roll_group m [x] = accumulate_choice m x (plugin_of x)
     (choice_entry x (fst (snd (key_of x))) (snd (snd (key_of x))) (missing_parts (key_of x)))"
  by (simp add: roll_group_def)

lemma roll_group_sel:
  assumes "rows \<noteq> []" "missing_parts (key_of (hd rows)) = []"
  shows "c_missing (roll_group m rows) = []"
    "c_accepted (roll_group m rows) \<longleftrightarrow> (\<exists>row\<in>set rows. coverage_accepted (plugin_of row))"
    "c_membership (roll_group m rows) = last_stated [''unknown''] ''target_membership'' rows"
    "c_retracted (roll_group m rows) \<longleftrightarrow> (\<exists>row\<in>set rows. stage_is ''retraction'' row)"
    "c_outcome (roll_group m rows) = group_outcome rows"
  using assms
proof (induction rows rule: rev_induct)
  case (snoc x rows)
  note one = roll_group_snoc roll_group_one stage_is_def
  {
    case 1
    then show ?case using snoc(1) by (cases "rows = []") (auto simp: one)
  next
    case 2
    then show ?case using snoc(1,2) by (cases "rows = []") (auto simp: one)
  next
    case 3
    then show ?case using snoc(3) by (cases "rows = []") (auto simp: one last_stated_def)
  next
    case 4
    then show ?case using snoc(4) by (cases "rows = []") (auto simp: one)
  next
    case 5
    then show ?case using snoc(5) by (cases "rows = []") (auto simp: one group_outcome_def split: list.splits)
  }
qed simp_all

lemma group_row:
  assumes "(k, c) \<in> set (o_groups (choice_groups limits process grp rows))"
  shows "c = roll_group (limit_nat limits ''query_group_members_max'') (rows_of k (identified process grp rows))"
    "rows_of k (identified process grp rows) \<noteq> []" "missing_parts k = []"
    "missing_parts (key_of (hd (rows_of k (identified process grp rows)))) = []"
proof -
  let ?I = "identified process grp rows" and ?g = "limit_nat limits ''query_choice_groups_max''"
  have "o_groups (choice_groups limits process grp rows) =
      map (\<lambda>k. (k, roll_group (limit_nat limits ''query_group_members_max'') (rows_of k ?I))) (take ?g (firsts (map key_of ?I)))"
    using rollup_rows_groups by (simp add: choice_groups_def)
  then have c: "c = roll_group (limit_nat limits ''query_group_members_max'') (rows_of k ?I)"
    "k \<in> set (take ?g (firsts (map key_of ?I)))"
    using assms by auto
  then have "k \<in> set (firsts (map key_of ?I))" by (meson in_set_takeD)
  then obtain row where row: "row \<in> set ?I" "key_of row = k" by auto
  then have "row \<in> set (rows_of k ?I)" by (simp add: rows_of_def)
  then show ne: "rows_of k ?I \<noteq> []" by auto
  show m: "missing_parts k = []" using row by (auto simp: identified_def)
  have "hd (rows_of k ?I) \<in> set (rows_of k ?I)" using ne by simp
  then show "missing_parts (key_of (hd (rows_of k ?I))) = []" using m by (simp add: rows_of_def)
  show "c = roll_group (limit_nat limits ''query_group_members_max'') (rows_of k ?I)" by (rule c(1))
qed

text \<open>A group permits evidence on its own rows only: exactly when one of its rows claims
  complete coverage on the accepted basis, not truncated, with as many captured candidates as
  members, and its last stated target membership is present or absent. Its identity is complete.\<close>

theorem group_evidence_is_its_own:
  assumes "(k, c) \<in> set (o_groups (choice_groups limits process grp rows))"
  shows "missing_parts k = [] \<and> (evidence_permitted c \<longleftrightarrow>
     (\<exists>row\<in>set (rows_of k (identified process grp rows)). coverage_accepted (plugin_of row)) \<and>
     str_in (last_stated [''unknown''] ''target_membership'' (rows_of k (identified process grp rows))) [''present'', ''absent''])"
  using group_row [OF assms] roll_group_sel [of "rows_of k (identified process grp rows)"]
  by (simp add: evidence_permitted_def choice_complete_def)

end
