(* ===== verification/Annotations_Views.thy ===== *)
theory Annotations_Views
  imports Annotations_Query Annotations_Claims Choice_Claims
begin

text \<open>
  What a reader of the annotations sees: the indexed lookup of the effective edits is a scan of the
  journal, a walk through the pages is the published prefix, an answer without private detail does
  not depend on the texts.
\<close>

subsection \<open>Binary search\<close>

definition splits_at :: "('a \<Rightarrow> bool) \<Rightarrow> 'a list \<Rightarrow> nat \<Rightarrow> bool" where
  "splits_at after xs p \<longleftrightarrow> p \<le> length xs \<and> (\<forall>i<p. \<not> after (xs ! i)) \<and> (\<forall>i. p \<le> i \<and> i < length xs \<longrightarrow> after (xs ! i))"

lemma bisect_right_split:
  assumes "\<And>i j. i < j \<Longrightarrow> j < length xs \<Longrightarrow> after (xs ! i) \<Longrightarrow> after (xs ! j)"
    and "lo \<le> hi" "hi \<le> length xs" "\<forall>i<lo. \<not> after (xs ! i)" "\<forall>i. hi \<le> i \<and> i < length xs \<longrightarrow> after (xs ! i)"
  shows "splits_at after xs (bisect_right after xs lo hi)"
  using assms(2-)
proof (induction "hi - lo" arbitrary: lo hi rule: less_induct)
  case less
  let ?mid = "(lo + hi) div 2"
  show ?case
  proof (cases "hi \<le> lo")
    case True
    then have "bisect_right after xs lo hi = lo" by (subst bisect_right.simps) simp
    then show ?thesis using True less.prems by (auto simp: splits_at_def)
  next
    case False
    then have m: "lo \<le> ?mid" "?mid < hi" "?mid < length xs" using less.prems by auto
    show ?thesis
    proof (cases "after (xs ! ?mid)")
      case True
      then have "after (xs ! i)" if "?mid \<le> i \<and> i < length xs" for i
        using assms(1) [of ?mid i] that by (cases "i = ?mid") auto
      moreover have "bisect_right after xs lo hi = bisect_right after xs lo ?mid"
        using False True by (subst bisect_right.simps) (simp add: Let_def)
      ultimately show ?thesis using less.hyps [of ?mid lo] less.prems m by simp
    next
      case no: False
      have "\<not> after (xs ! i)" if "i < Suc ?mid" for i
        using assms(1) [of i ?mid] no m that by (cases "i = ?mid") auto
      moreover have "bisect_right after xs lo hi = bisect_right after xs (Suc ?mid) hi"
        using False no by (subst bisect_right.simps) (simp add: Let_def)
      moreover have "hi - Suc ?mid < hi - lo" using m by simp
      ultimately show ?thesis using less.hyps [of hi "Suc ?mid"] less.prems m by simp
    qed
  qed
qed

lemma splits_at_filter:
  assumes "splits_at after xs p"
  shows "take p xs = filter (\<lambda>x. \<not> after x) xs" "drop p xs = filter after xs"
proof -
  have p: "p \<le> length xs" "\<forall>x\<in>set (take p xs). \<not> after x" "\<forall>x\<in>set (drop p xs). after x"
    using assms by (auto simp: splits_at_def in_set_conv_nth)
  have "filter (\<lambda>x. \<not> after x) (take p xs @ drop p xs) = take p xs" "filter after (take p xs @ drop p xs) = drop p xs"
    unfolding filter_append using p(2,3) by (simp_all add: filter_empty_conv)
  then show "take p xs = filter (\<lambda>x. \<not> after x) xs" "drop p xs = filter after xs" by simp_all
qed

lemma bisect_right_sorted:
  assumes "sorted_wrt (\<lambda>x y. after x \<longrightarrow> after y) xs"
  shows "splits_at after xs (bisect_right after xs 0 (length xs))"
  using assms by (intro bisect_right_split) (auto simp: sorted_wrt_iff_nth_less)

subsection \<open>The index of the store\<close>

text \<open>The history entries of a source and kind, each with its row.\<close>

fun history_rows :: "nenv \<Rightarrow> source_key \<Rightarrow> nat \<Rightarrow> jline list \<Rightarrow> (hist_entry \<times> pyval) list" where
  "history_rows e key off [] = []"
| "history_rows e key off ((v, n) # ls) =
     (case v of
        None \<Rightarrow> []
      | Some row \<Rightarrow> if row_key row = key then [((row_revision row, off, n, n_digest e row), row)] else []) @
     history_rows e key (off + n) ls"

lemma history_remember:
  "history_of (remember_row e row n s) key =
     history_of s key @ (if row_key row = key then [(row_revision row, h_offset s, n, n_digest e row)] else [])"
  by (simp add: history_of_def remember_row_def Let_def)

lemma load_history:
  assumes "load_rows e (h_offset s + total_len ls) ls s = Some t" "list_all (\<lambda>l. 0 < snd l) ls"
  shows "history_of t key = history_of s key @ map fst (history_rows e key (h_offset s) ls)"
  using assms
proof (induction ls arbitrary: s)
  case (Cons l ls)
  obtain v n where l: "l = (v, n)" by (cases l)
  obtain row where r: "v = Some row"
    "load_rows e (h_offset s + (n + total_len ls)) ls (remember_row e row n s) = Some t"
    using Cons.prems by (auto simp: l split: if_splits option.splits)
  then show ?case
    using Cons.IH [of "remember_row e row n s"] Cons.prems(2) history_remember [of e row n s key]
    by (simp add: l add.assoc)
qed (simp split: if_splits)

definition lines_rows :: "jline list \<Rightarrow> pyval list" where
  "lines_rows ls = map (\<lambda>l. the (fst l)) ls"

lemma history_rows_snd:
  "\<forall>l\<in>set ls. fst l \<noteq> None \<Longrightarrow> map snd (history_rows e key off ls) = filter (\<lambda>row. row_key row = key) (lines_rows ls)"
  by (induction ls arbitrary: off) (auto simp: lines_rows_def)

lemma history_rows_at:
  "((rv, o', n, dg), row) \<in> set (history_rows e key off ls) \<Longrightarrow> list_all (\<lambda>l. 0 < snd l) ls \<Longrightarrow>
     off \<le> o' \<and> o' < off + total_len ls \<and> line_at ls (o' - off) = Some (Some row, n) \<and> rv = row_revision row \<and>
     dg = n_digest e row \<and> row_key row = key \<and> row \<in> set (lines_rows ls)"
proof (induction ls arbitrary: off)
  case (Cons l ls)
  obtain v k where l: "l = (v, k)" by (cases l)
  consider (here) "v = Some row" "row_key row = key" "rv = row_revision row" "o' = off" "n = k" "dg = n_digest e row"
    | (later) "((rv, o', n, dg), row) \<in> set (history_rows e key (off + k) ls)"
    using Cons.prems(1) by (auto simp: l split: option.splits if_splits)
  then show ?case
  proof cases
    case here
    then show ?thesis using Cons.prems(2) by (simp add: l lines_rows_def)
  next
    case later
    then have "off + k \<le> o' \<and> o' < off + k + total_len ls \<and> line_at ls (o' - (off + k)) = Some (Some row, n) \<and>
        rv = row_revision row \<and> dg = n_digest e row \<and> row_key row = key \<and> row \<in> set (lines_rows ls)"
      using Cons.IH [of "off + k"] Cons.prems(2) by (simp add: l)
    then show ?thesis using Cons.prems(2) by (auto simp: l lines_rows_def)
  qed
qed simp

lemma chain_sorted:
  "one_chain e rv ch ls \<Longrightarrow> sorted_wrt (\<lambda>a b. row_revision a < row_revision b) (lines_rows ls) \<and>
     (\<forall>row\<in>set (lines_rows ls). rv < row_revision row)"
proof (induction ls arbitrary: rv ch)
  case (Cons l ls)
  obtain v n where l: "l = (v, n)" by (cases l)
  obtain row ch' where r: "v = Some row" "row_revision row = rv + 1" "one_chain e (rv + 1) ch' ls"
    using Cons.prems by (auto simp: l Let_def split: option.splits)
  then show ?case using Cons.IH [OF r(3)] by (fastforce simp: l lines_rows_def)
qed (simp add: lines_rows_def)

subsection \<open>The effective edits\<close>

text \<open>The reference: the last row of a source and kind up to a revision.\<close>

definition latest_row :: "pyval list \<Rightarrow> source_key \<Rightarrow> int \<Rightarrow> pyval option" where
  "latest_row rows key r =
     (case filter (\<lambda>row. row_key row = key \<and> row_revision row \<le> r) rows of [] \<Rightarrow> None | ms \<Rightarrow> Some (last ms))"

definition source_of :: "pyval \<Rightarrow> string \<times> int" where
  "source_of ref = (let d = dict_of_val ref in
     (str_of_val (dget d ''source_instance_id''), int_of_val (dget d ''source_local_sequence'')))"

definition row_edit :: "pyval \<Rightarrow> effective_edit" where
  "row_edit row = (row_revision row, dict_of_val (dget (dict_of_val row) ''semantic''))"

fun latest_edits :: "pyval list \<Rightarrow> pyval \<Rightarrow> int \<Rightarrow> string list \<Rightarrow> (string \<times> effective_edit) list" where
  "latest_edits rows ref r [] = []"
| "latest_edits rows ref r (k # ks) =
     (case latest_row rows (fst (source_of ref), snd (source_of ref), k) r of
        None \<Rightarrow> latest_edits rows ref r ks
      | Some row \<Rightarrow> (k, row_edit row) # latest_edits rows ref r ks)"

lemma row_key_source: "row_key row = (src, loc, k) \<Longrightarrow> source_of (row_reference row) = (src, loc)"
  by (simp add: row_key_def source_of_def row_reference_def Let_def)

lemma splits_at_map: "splits_at after (map f xs) p = splits_at (\<lambda>x. after (f x)) xs p"
  by (auto simp: splits_at_def)

lemma last_map_take: "n \<noteq> 0 \<Longrightarrow> n \<le> length xs \<Longrightarrow> last (map f (take n xs)) = f (xs ! (n - 1))"
  by (cases "take n xs = []") (auto simp: last_conv_nth min_absorb2)

lemma effective_kind_latest:
  assumes s: "state_after e aid ls = Some s" "list_all (\<lambda>l. 0 < snd l) ls" "store_shape s"
    and refs: "\<And>row. row \<in> set (lines_rows ls) \<Longrightarrow> source_of (row_reference row) = source_of ref \<Longrightarrow> py_eq (row_reference row) ref"
  shows "effective_kind e ls s ref r kind =
    Value (map_option row_edit (latest_row (lines_rows ls) (fst (source_of ref), snd (source_of ref), kind) r))"
proof -
  let ?key = "(fst (source_of ref), snd (source_of ref), kind)"
  let ?hr = "history_rows e ?key 0 ls"
  let ?after = "\<lambda>(x :: hist_entry \<times> pyval). r < row_revision (snd x)"
  have ch: "one_chain e 0 ZERO ls" "\<forall>l\<in>set ls. fst l \<noteq> None"
    using load_chain [of e "new_store aid" ls s] s(1,2) by (simp_all add: state_after_def new_store_def)
  have h: "history_of s ?key = map fst ?hr"
    using load_history [of e "new_store aid" ls s ?key] s(1,2) by (simp add: state_after_def new_store_def history_of_def)
  have off: "int (total_len ls) \<le> MAX_REVISION" using s(1,3) state_after_sel(1) by (auto simp: store_shape_def)
  have at: "after_key r (fst x) = ?after x" if x: "x \<in> set ?hr" for x
  proof -
    obtain rv off n dg row where y: "x = ((rv, off, n, dg), row)" by (metis surj_pair)
    then show ?thesis using history_rows_at [of rv off n dg row e ?key 0 ls] x s(2) off by (auto simp: after_key_def)
  qed
  let ?n = "bisect_right (after_key r) (map fst ?hr) 0 (length (map fst ?hr))"
  have rows: "map snd ?hr = filter (\<lambda>row. row_key row = ?key) (lines_rows ls)" by (rule history_rows_snd [OF ch(2)])
  have "sorted_wrt (\<lambda>a b. row_revision a < row_revision b) (map snd ?hr)"
    unfolding rows using chain_sorted [OF ch(1)] by (intro sorted_wrt_filter) blast
  then have "sorted_wrt (\<lambda>x y. row_revision (snd x) < row_revision (snd y)) ?hr" by (simp add: sorted_wrt_map)
  then have "sorted_wrt (\<lambda>x y. after_key r (fst x) \<longrightarrow> after_key r (fst y)) ?hr"
    by (rule sorted_wrt_mono_rel [rotated]) (auto simp: at)
  then have "splits_at (after_key r) (map fst ?hr) ?n" by (intro bisect_right_sorted) (simp add: sorted_wrt_map)
  then have sp: "splits_at (\<lambda>x. after_key r (fst x)) ?hr ?n" by (simp only: splits_at_map)
  have "filter (\<lambda>x. \<not> after_key r (fst x)) ?hr = filter (\<lambda>x. row_revision (snd x) \<le> r) ?hr"
    by (rule filter_cong) (auto simp: at)
  then have tk: "take ?n ?hr = filter (\<lambda>x. row_revision (snd x) \<le> r) ?hr" using splits_at_filter(1) [OF sp] by simp
  have "map snd (filter (\<lambda>x. row_revision (snd x) \<le> r) ?hr) = filter (\<lambda>row. row_revision row \<le> r) (map snd ?hr)"
    by (simp add: filter_map o_def)
  then have m: "map snd (take ?n ?hr) = filter (\<lambda>row. row_key row = ?key \<and> row_revision row \<le> r) (lines_rows ls)"
    unfolding tk rows by (simp add: conj_commute)
  have n: "?n \<le> length ?hr" using sp by (simp add: splits_at_def)
  show ?thesis
  proof (cases "?n = 0")
    case True
    then have "filter (\<lambda>row. row_key row = ?key \<and> row_revision row \<le> r) (lines_rows ls) = []" using m by simp
    then show ?thesis using True h by (simp add: effective_kind_def Let_def latest_row_def source_of_def)
  next
    case False
    obtain rv off k dg row where x: "?hr ! (?n - 1) = ((rv, off, k, dg), row)" by (metis surj_pair)
    have "?n - 1 < length ?hr" using n False by simp
    then have "((rv, off, k, dg), row) \<in> set ?hr" using x by (metis nth_mem)
    then have f: "line_at ls off = Some (Some row, k)" "rv = row_revision row" "dg = n_digest e row" "row_key row = ?key"
      "row \<in> set (lines_rows ls)"
      using history_rows_at [of rv off k dg row e ?key 0 ls] s(2) by auto
    have "last (map snd (take ?n ?hr)) = row" using last_map_take [OF False n, of snd] x by simp
    then have "latest_row (lines_rows ls) ?key r = Some row"
      using m False n unfolding latest_row_def by (cases "map snd (take ?n ?hr)") auto
    moreover have "history_of s ?key ! (?n - 1) = (rv, off, k, dg)" unfolding h using \<open>?n - 1 < length ?hr\<close> x by simp
    moreover have "py_eq (row_reference row) ref" using refs [OF f(5)] row_key_source [OF f(4)] by simp
    ultimately show ?thesis
      using False f h by (simp add: effective_kind_def Let_def source_of_def row_edit_def row_reference_def)
  qed
qed

lemma effective_kinds_latest:
  assumes "state_after e aid ls = Some s" "list_all (\<lambda>l. 0 < snd l) ls" "store_shape s"
    and "\<And>row. row \<in> set (lines_rows ls) \<Longrightarrow> source_of (row_reference row) = source_of ref \<Longrightarrow> py_eq (row_reference row) ref"
  shows "effective_kinds e ls s ref r ks = Value (latest_edits (lines_rows ls) ref r ks)"
  by (induction ks) (simp_all add: effective_kind_latest [OF assms] split: option.split)

text \<open>References accepted for one source agree.\<close>

definition one_reference :: "(pyval \<Rightarrow> bool) \<Rightarrow> bool" where
  "one_reference known \<longleftrightarrow> (\<forall>r1 r2. known r1 \<longrightarrow> known r2 \<longrightarrow> source_of r1 = source_of r2 \<longrightarrow> py_eq r1 r2)"

subsection \<open>An edit refers to one record\<close>

definition accepted :: "nenv \<Rightarrow> pydict \<Rightarrow> string \<Rightarrow> ientry list \<Rightarrow> pyval \<Rightarrow> bool" where
  "accepted e limits aid idx ref \<longleftrightarrow>
     wf_dict (dict_of_val ref) \<and> (\<exists>n limit x. annotation_source e limits aid (take n idx) limit ref = Value x)"

lemma matches_head:
  assumes "visible_matches (take n idx) limit r = [en]"
  shows "\<exists>ens. filter (\<lambda>x. i_source x = dget r ''source_instance_id'' \<and> i_local x = dget r ''source_local_sequence'') idx = en # ens"
proof -
  let ?P = "\<lambda>x. i_source x = dget r ''source_instance_id'' \<and> i_local x = dget r ''source_local_sequence''"
  obtain ens where "filter ?P (take n idx) = en # ens"
    using assms by (cases "filter ?P (take n idx)") (auto simp: visible_matches_def split: if_splits)
  moreover have "filter ?P idx = filter ?P (take n idx) @ filter ?P (drop n idx)" by (metis append_take_drop_id filter_append)
  ultimately show ?thesis by simp
qed

lemma accepted_fields:
  assumes "accepted e limits aid idx ref"
  obtains en where "\<exists>ens. filter (\<lambda>x. i_source x = dget (dict_of_val ref) ''source_instance_id'' \<and>
       i_local x = dget (dict_of_val ref) ''source_local_sequence'') idx = en # ens"
    "dget (dict_of_val ref) ''durable_seq'' = PInt (i_seq en)" "dget (dict_of_val ref) ''record_digest'' = PStr (i_digest en)"
    "reference_shape aid ref = Value ()" "wf_dict (dict_of_val ref)"
proof -
  obtain n limit x where a: "annotation_source e limits aid (take n idx) limit ref = Value x" "wf_dict (dict_of_val ref)"
    using assms by (auto simp: accepted_def)
  then obtain en where v: "visible_matches (take n idx) limit (dict_of_val ref) = [en]" "reference_shape aid ref = Value ()"
    "dget (dict_of_val ref) ''durable_seq'' = PInt (i_seq en)" "dget (dict_of_val ref) ''record_digest'' = PStr (i_digest en)"
    by (auto simp: annotation_source_def Let_def elim!: outcome_elims split: list.splits)
  have h: "\<exists>ens. filter (\<lambda>x. i_source x = dget (dict_of_val ref) ''source_instance_id'' \<and>
       i_local x = dget (dict_of_val ref) ''source_local_sequence'') idx = en # ens"
    by (rule matches_head [OF v(1)])
  then show thesis using that v a(2) by blast
qed

lemma dict_eq:
  assumes "wf_dict d" "wf_dict d'" "keys_are d ks" "keys_are d' ks" "\<And>k. k \<in> set ks \<Longrightarrow> py_eq (dget d k) (dget d' k)"
  shows "py_eq (PDict d) (PDict d')"
proof -
  have "set (map fst d) = set (map fst d')" using assms(3,4) by (simp add: keys_are_def)
  then have len: "length d = length d'" using assms(1,2) unfolding wf_dict_def by (metis distinct_card length_map)
  have "case map_of d' (fst kv) of None \<Rightarrow> False | Some w \<Rightarrow> py_eq (snd kv) w" if kv: "kv \<in> set d" for kv
  proof -
    have k: "fst kv \<in> set ks" using kv assms(3) by (force simp: keys_are_def)
    have "map_of d (fst kv) = Some (snd kv)" using kv assms(1) by (simp add: wf_dict_def)
    moreover obtain w where "map_of d' (fst kv) = Some w"
      using k assms(4) by (metis keys_are_def map_of_eq_None_iff not_None_eq set_map)
    ultimately show ?thesis using assms(5) [OF k] by (simp add: dget_def)
  qed
  then show ?thesis using len by (simp add: list_all_iff)
qed

lemma exact_eq: "is_exact_int v \<Longrightarrow> py_eq v v" "is_str v \<Longrightarrow> py_eq v v"
  by (cases v; simp)+

lemma accepted_agree: "one_reference (accepted e limits aid idx)"
  unfolding one_reference_def
proof (intro allI impI)
  fix r1 r2
  assume a: "accepted e limits aid idx r1" "accepted e limits aid idx r2" "source_of r1 = source_of r2"
  obtain e1 where e1: "\<exists>ens. filter (\<lambda>x. i_source x = dget (dict_of_val r1) ''source_instance_id'' \<and>
       i_local x = dget (dict_of_val r1) ''source_local_sequence'') idx = e1 # ens"
    "dget (dict_of_val r1) ''durable_seq'' = PInt (i_seq e1)" "dget (dict_of_val r1) ''record_digest'' = PStr (i_digest e1)"
    "reference_shape aid r1 = Value ()" "wf_dict (dict_of_val r1)"
    by (rule accepted_fields [OF a(1)])
  obtain e2 where e2: "\<exists>ens. filter (\<lambda>x. i_source x = dget (dict_of_val r2) ''source_instance_id'' \<and>
       i_local x = dget (dict_of_val r2) ''source_local_sequence'') idx = e2 # ens"
    "dget (dict_of_val r2) ''durable_seq'' = PInt (i_seq e2)" "dget (dict_of_val r2) ''record_digest'' = PStr (i_digest e2)"
    "reference_shape aid r2 = Value ()" "wf_dict (dict_of_val r2)"
    by (rule accepted_fields [OF a(2)])
  let ?ks = "[''archive_id'', ''source_instance_id'', ''source_local_sequence'', ''durable_seq'', ''record_digest'']"
  have sh: "is_dict r" "keys_are (dict_of_val r) ?ks" "dget (dict_of_val r) ''archive_id'' = PStr aid"
    "is_str (dget (dict_of_val r) ''source_instance_id'')" "is_exact_int (dget (dict_of_val r) ''source_local_sequence'')"
    if "reference_shape aid r = Value ()" for r
    using that by (auto simp: reference_shape_def Let_def eq_str_def an_integer_def safe_token_Some elim!: outcome_elims)
  have eq: "dget (dict_of_val r1) k = dget (dict_of_val r2) k" if "k \<in> set ?ks" for k
  proof -
    have "dget (dict_of_val r1) ''source_instance_id'' = dget (dict_of_val r2) ''source_instance_id''"
      using sh(4) [OF e1(4)] sh(4) [OF e2(4)] a(3)
      by (cases "dget (dict_of_val r1) ''source_instance_id''"; cases "dget (dict_of_val r2) ''source_instance_id''";
          simp add: source_of_def Let_def)
    moreover have "dget (dict_of_val r1) ''source_local_sequence'' = dget (dict_of_val r2) ''source_local_sequence''"
      using sh(5) [OF e1(4)] sh(5) [OF e2(4)] a(3)
      by (cases "dget (dict_of_val r1) ''source_local_sequence''"; cases "dget (dict_of_val r2) ''source_local_sequence''";
          simp add: source_of_def Let_def)
    ultimately have "e1 = e2" using e1(1) e2(1) by auto
    then show ?thesis using that e1(2,3) e2(2,3) sh(3) [OF e1(4)] sh(3) [OF e2(4)]
      \<open>dget (dict_of_val r1) ''source_instance_id'' = _\<close> \<open>dget (dict_of_val r1) ''source_local_sequence'' = _\<close> by auto
  qed
  have "py_eq (dget (dict_of_val r1) k) (dget (dict_of_val r2) k)" if "k \<in> set ?ks" for k
    using eq [OF that] that e2(2,3) sh(3-5) [OF e2(4)] exact_eq by auto
  then have "py_eq (PDict (dict_of_val r1)) (PDict (dict_of_val r2))"
    using dict_eq [OF e1(5) e2(5) sh(2) [OF e1(4)] sh(2) [OF e2(4)]] by blast
  then show "py_eq r1 r2" using sh(1) [OF e1(4)] sh(1) [OF e2(4)] by (cases r1; cases r2) simp_all
qed

text \<open>C36. The effective edits are the latest: whenever the store is healthy and no edit is under
  way, the lookup through the in-memory index, its binary search and one read per kind answers,
  for a reference the collector accepts, exactly the last row of each kind up to the asked
  revision, as a scan of the whole journal finds it. It never fails.\<close>

theorem effective_edits_are_the_latest:
  assumes "fits e" "is_hex 32 (PStr aid)" "jreach e (accepted e limits aid idx) aid y"
    and "y_store y = Some s" "\<not> h_failed s" "y_pc y = EIdle" "accepted e limits aid idx ref"
  shows "effective e (journal y) s ref r = Value (latest_edits (lines_rows (journal y)) ref r EDIT_KINDS)"
proof -
  obtain k t where inv: "jinv_at e (accepted e limits aid idx) aid y k t" using jreach_inv [OF assms(1-3)] by blast
  then have st: "state_after e aid (journal y) = Some s" "list_all (\<lambda>l. 0 < snd l) (journal y)" "store_shape s"
    "y_durable y = length (journal y)"
    using assms(4-6) by (auto simp: jinv_at_def running_def in_edit_def journal_covers_def)
  have "list_all (known_line (accepted e limits aid idx)) (journal y)" using jreach_known [OF assms(1-3)] st(4) by simp
  then have "accepted e limits aid idx (row_reference row)" if "row \<in> set (lines_rows (journal y))" for row
    using that by (force simp: lines_rows_def list_all_iff known_line_def)
  then show ?thesis
    unfolding effective_def using assms(7) accepted_agree [of e limits aid idx]
    by (intro effective_kinds_latest [OF st(1-3)]) (auto simp: one_reference_def)
qed

subsection \<open>A concrete archive\<close>

definition demo_plugin :: "string \<Rightarrow> pydict" where
  "demo_plugin stage = [(''window_id'', PStr ''w''), (''group_id'', PStr ''g''), (''plugin_stage'', PStr stage),
     (''coverage'', PStr ''complete''), (''coverage_basis'', PStr CHOICE_COMPLETE_BASIS),
     (''captured_candidate_count'', PInt 2), (''group_member_count'', PInt 2), (''target_membership'', PStr ''present''),
     (''submission'', PStr ''explicit'')]"

definition demo_entry :: "int \<Rightarrow> string \<Rightarrow> ientry" where
  "demo_entry n stage = \<lparr>i_seq = n + 1, i_source = PStr ''s'', i_local = PInt n, i_process = PStr ''p'',
     i_plugin = Some (demo_plugin stage), i_digest = ZERO,
     i_read = Some (PDict [(''observation_kind'', PStr ''plugin_observation''), (''plugin'', PDict (demo_plugin stage)),
       (''payload'', PDict [(''text'', PStr ''x'')]), (''identity'', PList [PStr ''s'', PInt n]),
       (''content_hash'', PStr ZERO)])\<rparr>"

definition demo_index :: "ientry list" where
  "demo_index = [demo_entry 0 ''commit'', demo_entry 1 ''competition'']"

definition demo_limits :: pydict where
  "demo_limits = [(''page_size_default'', PInt 1), (''page_size_max'', PInt 10), (''query_group_members_max'', PInt 8),
     (''query_choice_groups_max'', PInt 4)]"

definition is_value :: "'a outcome \<Rightarrow> bool" where
  "is_value m = (case m of Value _ \<Rightarrow> True | _ \<Rightarrow> False)"

lemma is_value_ex: "is_value m \<Longrightarrow> \<exists>x. m = Value x"
  by (cases m) (simp_all add: is_value_def)

lemma demo_accepted: "accepted demo_env demo_limits demo_aid demo_index demo_ref"
proof -
  have "is_value (annotation_source demo_env demo_limits demo_aid (take 1 demo_index) 1 demo_ref)" by code_simp
  moreover have "wf_dict (dict_of_val demo_ref)" by (simp add: demo_ref_def wf_dict_def)
  ultimately show ?thesis unfolding accepted_def using is_value_ex by blast
qed

theorem effective_edits_are_the_latest_witness:
  "effective demo_env (journal (tr_edited demo_env demo_aid demo_row)) (remember_row demo_env demo_row 11 (new_store demo_aid)) demo_ref 1 =
   Value (latest_edits (lines_rows (journal (tr_edited demo_env demo_aid demo_row))) demo_ref 1 EDIT_KINDS)"
proof (rule effective_edits_are_the_latest [OF demo_fits demo_hex(1) _ _ _ _ demo_accepted])
  show "jreach demo_env (accepted demo_env demo_limits demo_aid demo_index) demo_aid (tr_edited demo_env demo_aid demo_row)"
    by (rule reach_edit(3) [OF demo_first]) (rule demo_accepted)
qed (simp_all add: tr_edited_def demo_env_def new_store_def)

subsection \<open>Pages\<close>

text \<open>The collector and its store at a request, and later.\<close>

definition sound_moment :: "nenv \<Rightarrow> string \<Rightarrow> moment \<Rightarrow> bool" where
  "sound_moment e aid t \<longleftrightarrow>
     state_after e aid (t_journal t) = Some (t_store t) \<and> list_all (\<lambda>l. 0 < snd l) (t_journal t) \<and>
     store_shape (t_store t) \<and> sorted_wrt (\<lambda>a b. i_seq a < i_seq b) (t_index t)"

definition later_moment :: "moment \<Rightarrow> moment \<Rightarrow> bool" where
  "later_moment t u \<longleftrightarrow>
     (\<exists>ens. t_index u = t_index t @ ens \<and> (\<forall>en\<in>set ens. t_durable t < i_seq en)) \<and> t_durable t \<le> t_durable u \<and>
     (\<exists>ls. t_journal u = t_journal t @ ls)"

lemma later_trans: "later_moment t u \<Longrightarrow> later_moment u v \<Longrightarrow> later_moment t v"
  unfolding later_moment_def by (fastforce simp: append_assoc)

lemma line_at_append: "off < total_len ls \<Longrightarrow> line_at (ls @ ms) off = line_at ls off"
  by (induction ls arbitrary: off) auto

lemma splits_at_unique:
  assumes "splits_at P xs p" "splits_at P xs q"
  shows "p = q"
proof (rule ccontr)
  assume "p \<noteq> q"
  then have "p < q \<or> q < p" by linarith
  then show False using assms by (auto simp: splits_at_def)
qed

lemma one_chain_drop: "one_chain e rv c0 (xs @ ys) \<Longrightarrow> \<exists>c. one_chain e (rv + int (length xs)) c ys"
proof (induction xs arbitrary: rv c0)
  case (Cons x xs)
  then obtain c1 where "one_chain e (rv + 1) c1 (xs @ ys)"
    by (cases x) (auto simp: Let_def split: option.splits)
  then obtain c where "one_chain e (rv + 1 + int (length xs)) c ys" using Cons.IH by blast
  then show ?case by (auto simp: add.assoc)
qed auto

text \<open>What a revision sees does not change.\<close>

lemma history_later:
  assumes t: "sound_moment e aid t" and u: "sound_moment e aid u" and ls: "t_journal u = t_journal t @ ls"
  shows "\<exists>more. history_of (t_store u) key = history_of (t_store t) key @ more \<and>
    (\<forall>x\<in>set more. h_revision (t_store t) < fst x)"
    "\<forall>x\<in>set (history_of (t_store t) key). fst (snd x) < total_len (t_journal t)"
    "sorted_wrt (\<lambda>x y. fst x < fst y) (history_of (t_store u) key)"
proof -
  let ?h = "\<lambda>off ms. map fst (history_rows e key off ms)"
  have st: "state_after e aid (t_journal t) = Some (t_store t)" "state_after e aid (t_journal u) = Some (t_store u)"
    "list_all (\<lambda>l. 0 < snd l) (t_journal t)" "list_all (\<lambda>l. 0 < snd l) (t_journal u)"
    using t u by (simp_all add: sound_moment_def)
  have h: "history_of (t_store t) key = ?h 0 (t_journal t)" "history_of (t_store u) key = ?h 0 (t_journal u)"
    using load_history [of e "new_store aid" "t_journal t" "t_store t" key]
      load_history [of e "new_store aid" "t_journal u" "t_store u" key] st
    by (simp_all add: state_after_def new_store_def history_of_def)
  have split: "history_rows e key off (xs @ ys) = history_rows e key off xs @ history_rows e key (off + total_len xs) ys" for off xs ys
    by (induction xs arbitrary: off) (auto simp: add.assoc)
  have ch: "one_chain e 0 ZERO (t_journal u)" "\<forall>l\<in>set (t_journal u). fst l \<noteq> None"
    "h_revision (t_store t) = int (length (t_journal t))"
    using load_chain [of e "new_store aid" "t_journal u" "t_store u"] load_chain [of e "new_store aid" "t_journal t" "t_store t"] st
    by (simp_all add: state_after_def new_store_def)
  obtain c where "one_chain e (0 + int (length (t_journal t))) c ls" using one_chain_drop [of e 0 ZERO "t_journal t" ls] ch(1) ls by auto
  then have rows: "\<forall>row\<in>set (lines_rows ls). h_revision (t_store t) < row_revision row" using chain_sorted ch(3) by force
  have "fst x = row_revision row" if "(x, row) \<in> set (history_rows e key off ms)" "list_all (\<lambda>l. 0 < snd l) ms" for x row off ms
    using history_rows_at [of "fst x" "fst (snd x)" "fst (snd (snd x))" "snd (snd (snd x))" row e key off ms] that by simp
  note rv = this
  have "h_revision (t_store t) < fst x" if x: "x \<in> set (?h (total_len (t_journal t)) ls)" for x
  proof -
    obtain row where r: "(x, row) \<in> set (history_rows e key (total_len (t_journal t)) ls)" using x by auto
    have "list_all (\<lambda>l. 0 < snd l) ls" using st(4) ls by simp
    then have "row \<in> set (lines_rows ls)" "fst x = row_revision row"
      using history_rows_at [of "fst x" "fst (snd x)" "fst (snd (snd x))" "snd (snd (snd x))" row e key _ ls] r by auto
    then show ?thesis using rows by simp
  qed
  then show "\<exists>more. history_of (t_store u) key = history_of (t_store t) key @ more \<and>
    (\<forall>x\<in>set more. h_revision (t_store t) < fst x)"
    unfolding h ls split by auto
  show "\<forall>x\<in>set (history_of (t_store t) key). fst (snd x) < total_len (t_journal t)"
    unfolding h(1) using history_rows_at [of _ _ _ _ _ e key 0 "t_journal t"] st(3) by fastforce
  have "sorted_wrt (\<lambda>a b. row_revision a < row_revision b) (map snd (history_rows e key 0 (t_journal u)))"
    unfolding history_rows_snd [OF ch(2)] using chain_sorted [OF ch(1)] by (intro sorted_wrt_filter) blast
  then have "sorted_wrt (\<lambda>x y. row_revision (snd x) < row_revision (snd y)) (history_rows e key 0 (t_journal u))"
    by (simp add: sorted_wrt_map)
  then show "sorted_wrt (\<lambda>x y. fst x < fst y) (history_of (t_store u) key)"
    unfolding h(2) sorted_wrt_map
    by (rule sorted_wrt_mono_rel [rotated]) (use rv st(4) in auto)
qed

lemma effective_later:
  assumes t: "sound_moment e aid t" and u: "sound_moment e aid u" and l: "later_moment t u"
    and r: "r \<le> h_revision (t_store t)"
  shows "effective e (t_journal u) (t_store u) ref r = effective e (t_journal t) (t_store t) ref r"
proof -
  obtain ls where ls: "t_journal u = t_journal t @ ls" using l by (auto simp: later_moment_def)
  have off: "int (total_len (t_journal t)) \<le> MAX_REVISION"
    using t state_after_sel(1) by (auto simp: sound_moment_def store_shape_def)
  have "effective_kind e (t_journal u) (t_store u) ref r k = effective_kind e (t_journal t) (t_store t) ref r k" for k
  proof -
    let ?key = "(str_of_val (dget (dict_of_val ref) ''source_instance_id''), int_of_val (dget (dict_of_val ref) ''source_local_sequence''), k)"
    let ?h = "history_of (t_store t) ?key" and ?g = "history_of (t_store u) ?key"
    note hl = history_later [OF t u ls, of ?key]
    obtain more where m: "?g = ?h @ more" "\<forall>x\<in>set more. h_revision (t_store t) < fst x" using hl(1) by blast
    have sorted_g: "sorted_wrt (\<lambda>x y. after_key r x \<longrightarrow> after_key r y) ?g"
      by (rule sorted_wrt_mono_rel [OF _ hl(3)]) (auto simp: after_key_def)
    let ?n = "bisect_right (after_key r) ?h 0 (length ?h)"
    have sp: "splits_at (after_key r) ?h ?n"
      by (rule bisect_right_sorted) (use sorted_g m(1) in \<open>simp add: sorted_wrt_append\<close>)
    have aft: "after_key r x" if "x \<in> set more" for x using m(2) that r by (force simp: after_key_def)
    have n: "?n \<le> length ?h" using sp by (simp add: splits_at_def)
    have "splits_at (after_key r) ?g ?n"
      using sp aft unfolding splits_at_def m(1) by (auto simp: nth_append)
    then have eq: "bisect_right (after_key r) ?g 0 (length ?g) = ?n"
      using bisect_right_sorted [OF sorted_g] splits_at_unique by blast
    show ?thesis
    proof (cases "?n = 0")
      case False
      then have lt: "?n - 1 < length ?h" using n by linarith
      then have nth: "?g ! (?n - 1) = ?h ! (?n - 1)" "?h ! (?n - 1) \<in> set ?h" by (simp_all only: m(1) nth_append if_True nth_mem)
      obtain rv off' len dg where x: "?h ! (?n - 1) = (rv, off', len, dg)" by (metis surj_pair)
      then have "line_at (t_journal u) off' = line_at (t_journal t) off'"
        using hl(2) nth(2) unfolding ls by (intro line_at_append) fastforce
      then show ?thesis using False eq nth(1) x by (simp add: effective_kind_def Let_def)
    qed (simp add: effective_kind_def Let_def eq)
  qed
  then have "effective_kinds e (t_journal u) (t_store u) ref r ks = effective_kinds e (t_journal t) (t_store t) ref r ks" for ks
    by (induction ks) simp_all
  then show ?thesis by (simp add: effective_def)
qed

lemma takeWhile_Nil_append: "takeWhile P ys = [] \<Longrightarrow> takeWhile P (xs @ ys) = takeWhile P xs"
  by (induction xs) auto

lemma group_rows_later:
  assumes "later_moment t u" "limit \<le> t_durable t"
  shows "group_rows limits (t_index u) limit en = group_rows limits (t_index t) limit en"
proof -
  obtain ens where i: "t_index u = t_index t @ ens" "\<forall>en\<in>set ens. t_durable t < i_seq en"
    using assms(1) by (auto simp: later_moment_def)
  have "filter (\<lambda>row. i_seq row \<le> limit) (take n (filter P ens)) = []" for P n
    using i(2) assms(2) by (fastforce simp: filter_empty_conv dest: in_set_takeD)
  then show ?thesis by (simp add: group_rows_def i(1))
qed

lemma source_later:
  assumes "later_moment t u" "limit \<le> t_durable t"
  shows "annotation_source e limits aid (t_index u) limit ref = annotation_source e limits aid (t_index t) limit ref"
proof -
  obtain ens where i: "t_index u = t_index t @ ens" "\<forall>en\<in>set ens. t_durable t < i_seq en"
    using assms(1) by (auto simp: later_moment_def)
  have "takeWhile (\<lambda>en. i_seq en \<le> limit) (filter P ens) = []" for P
    using i(2) assms(2) by (cases "filter P ens") (auto simp: Cons_eq_filter_iff dest!: filter_eq_ConsD)
  then have "takeWhile (\<lambda>en. i_seq en \<le> limit) (filter P (t_index t @ ens)) = takeWhile (\<lambda>en. i_seq en \<le> limit) (filter P (t_index t))" for P
    unfolding filter_append by (rule takeWhile_Nil_append)
  then have v: "visible_matches (t_index u) limit r = visible_matches (t_index t) limit r" for r
    by (simp add: visible_matches_def i(1))
  have "group_choice limits (t_index u) limit en = group_choice limits (t_index t) limit en" for en
    by (simp add: group_choice_def group_rows_later [OF assms])
  then show ?thesis by (simp add: annotation_source_def v cong: list.case_cong option.case_cong if_cong)
qed

lemma rows_later:
  assumes "sound_moment e aid t" "sound_moment e aid u" "later_moment t u" "p \<le> t_durable t" "r \<le> h_revision (t_store t)"
  shows "query_rows e limits aid u p r private refs = query_rows e limits aid t p r private refs"
  by (induction refs) (simp_all add: source_later [OF assms(3,4)] effective_later [OF assms(1,2,3,5)])

definition between :: "int \<Rightarrow> int \<Rightarrow> ientry list \<Rightarrow> ientry list" where
  "between a p idx = filter (\<lambda>en. a < i_seq en \<and> i_seq en \<le> p) idx"

lemma between_later: "later_moment t u \<Longrightarrow> p \<le> t_durable t \<Longrightarrow> between a p (t_index u) = between a p (t_index t)"
  by (fastforce simp: later_moment_def between_def filter_empty_conv)

lemma takeWhile_sorted:
  "sorted_wrt (\<lambda>a b. i_seq a < i_seq b) xs \<Longrightarrow> takeWhile (\<lambda>en. i_seq en \<le> p) xs = filter (\<lambda>en. i_seq en \<le> p) xs"
proof (induction xs)
  case (Cons x xs)
  then have "\<not> i_seq x \<le> p \<Longrightarrow> filter (\<lambda>en. i_seq en \<le> p) xs = []" by (fastforce simp: filter_empty_conv)
  then show ?case using Cons by simp
qed simp

lemma le_last: "sorted_wrt (\<lambda>a b. i_seq a < i_seq b) xs \<Longrightarrow> x \<in> set xs \<Longrightarrow> i_seq x \<le> i_seq (last xs)"
  by (induction xs) (auto split: if_splits dest: less_imp_le)

lemma select_page_between:
  assumes "sorted_wrt (\<lambda>a b. i_seq a < i_seq b) idx"
  shows "select_page idx sz p a = (take sz (between a p idx), sz < length (between a p idx))"
proof -
  let ?s = "bisect_right (\<lambda>en. a < i_seq en) idx 0 (length idx)"
  have "sorted_wrt (\<lambda>x y. a < i_seq x \<longrightarrow> a < i_seq y) idx" by (rule sorted_wrt_mono_rel [OF _ assms]) auto
  then have d: "drop ?s idx = filter (\<lambda>en. a < i_seq en) idx" by (intro splits_at_filter(2) bisect_right_sorted)
  have "sorted_wrt (\<lambda>a b. i_seq a < i_seq b) (drop ?s idx)" unfolding d by (rule sorted_wrt_filter [OF assms])
  then have "takeWhile (\<lambda>en. i_seq en \<le> p) (drop ?s idx) = between a p idx"
    by (simp add: takeWhile_sorted) (simp add: d between_def conj_commute)
  moreover have "takeWhile P (take n xs) = take n (takeWhile P xs)" for P :: "ientry \<Rightarrow> bool" and n xs
    by (induction xs arbitrary: n) (auto simp: take_Cons' split: nat.split)
  ultimately show ?thesis by (simp add: select_page_def Let_def min_def)
qed

lemma between_next:
  assumes "sorted_wrt (\<lambda>a b. i_seq a < i_seq b) idx" "0 < sz" "sz < length (between a p idx)"
  shows "between (i_seq (last (take sz (between a p idx)))) p idx = drop sz (between a p idx)"
proof -
  let ?xs = "between a p idx" and ?b = "i_seq (last (take sz (between a p idx)))"
  have s: "sorted_wrt (\<lambda>a b. i_seq a < i_seq b) ?xs" unfolding between_def by (rule sorted_wrt_filter [OF assms(1)])
  have ne: "take sz ?xs \<noteq> []" using assms(2,3) by auto
  then have "last (take sz ?xs) \<in> set ?xs" by (metis in_set_takeD last_in_set)
  then have "a < ?b" by (simp add: between_def)
  then have "between ?b p idx = filter (\<lambda>en. ?b < i_seq en) ?xs" by (auto simp: between_def intro!: filter_cong)
  also have "\<dots> = filter (\<lambda>en. ?b < i_seq en) (take sz ?xs) @ filter (\<lambda>en. ?b < i_seq en) (drop sz ?xs)"
    by (metis append_take_drop_id filter_append)
  also have "filter (\<lambda>en. ?b < i_seq en) (take sz ?xs) = []"
  proof -
    have "sorted_wrt (\<lambda>a b. i_seq a < i_seq b) (take sz ?xs)" using s by (metis append_take_drop_id sorted_wrt_append)
    then have "\<forall>en\<in>set (take sz ?xs). i_seq en \<le> ?b" using le_last by blast
    then show ?thesis by (simp add: filter_empty_conv not_less)
  qed
  also have "filter (\<lambda>en. ?b < i_seq en) (drop sz ?xs) = drop sz ?xs"
  proof -
    have "\<forall>x\<in>set (take sz ?xs). \<forall>y\<in>set (drop sz ?xs). i_seq x < i_seq y"
      using s by (metis append_take_drop_id sorted_wrt_append)
    then show ?thesis using last_in_set [OF ne] by (auto simp: filter_id_conv)
  qed
  finally show ?thesis by simp
qed


subsection \<open>Walking through the pages\<close>

lemma and_then_assoc: "and_then (and_then m k) h = and_then m (\<lambda>x. and_then (k x) h)"
  by (cases m) simp_all

lemma query_rows_append:
  "query_rows e limits aid t p r private (xs @ ys) =
     and_then (query_rows e limits aid t p r private xs) (\<lambda>a.
     and_then (query_rows e limits aid t p r private ys) (\<lambda>b. Value (a @ b)))"
proof (induction xs)
  case Nil
  then show ?case by (cases "query_rows e limits aid t p r private ys") simp_all
next
  case (Cons x xs)
  then show ?case
    by (cases "annotation_source e limits aid (t_index t) p x"; cases "effective e (t_journal t) (t_store t) x r")
      (auto simp: and_then_assoc)
qed

lemma sound_sel:
  assumes "sound_moment e aid t"
  shows "h_archive (t_store t) = aid" "\<not> h_failed (t_store t)" "h_revision (t_store t) = int (length (t_journal t))"
proof -
  have s: "state_after e aid (t_journal t) = Some (t_store t)" "list_all (\<lambda>l. 0 < snd l) (t_journal t)"
    using assms by (simp_all add: sound_moment_def)
  then show "h_archive (t_store t) = aid" "\<not> h_failed (t_store t)"
    using load_archive [of e _ "t_journal t" "new_store aid" "t_store t"] by (simp_all add: state_after_def new_store_def)
  show "h_revision (t_store t) = int (length (t_journal t))"
    using s load_chain [of e "new_store aid" "t_journal t" "t_store t"] by (simp add: state_after_def new_store_def)
qed

text \<open>A request for pages, with the page size, the prefix and the revision that its first answer fixes.\<close>

definition paged_request :: "pydict \<Rightarrow> string \<Rightarrow> pydict \<Rightarrow> nat \<Rightarrow> int \<Rightarrow> int \<Rightarrow> bool" where
  "paged_request limits aid body sz p r \<longleftrightarrow>
     fst ` set body \<subseteq> set QUERY_KEYS \<and> is_bool (dget_or body ''private_detail'' (PBool False)) \<and>
     eq_str (dget body ''annotation_version'') ANNOTATION_VERSION \<and>
     eq_str (dget_or body ''archive_id'' (PStr aid)) aid \<and> paged_limits limits body = Value sz \<and> 0 < sz \<and>
     dget body ''cursor_token'' = PNone \<and> dget body ''source_reference'' = PNone \<and>
     (has_key body ''as_of_durable_seq'' \<longrightarrow> dget body ''as_of_durable_seq'' = PInt p) \<and>
     (has_key body ''annotation_revision'' \<longrightarrow> dget body ''annotation_revision'' = PInt r) \<and>
     0 \<le> p \<and> p \<le> MAX_REVISION \<and> 0 \<le> r \<and> r \<le> MAX_REVISION"

definition private_of :: "pydict \<Rightarrow> bool" where
  "private_of body \<longleftrightarrow> dget_or body ''private_detail'' (PBool False) = PBool True"

definition next_cursor :: "string \<Rightarrow> int \<Rightarrow> int \<Rightarrow> bool \<Rightarrow> nat \<Rightarrow> ientry list \<Rightarrow> pyval option" where
  "next_cursor aid p r private sz ens =
     (if sz < length ens then Some (cursor_value aid (PInt p) (PInt r) (i_seq (last (take sz ens))) private) else None)"

definition refs_of :: "string \<Rightarrow> ientry list \<Rightarrow> pyval list" where
  "refs_of aid ens = map (index_reference aid) ens"

lemma has_key_get: "dget_or d k v = (if has_key d k then dget d k else v)"
proof (cases "has_key d k")
  case False
  then have "map_of d k = None" by (simp add: has_key_def map_of_eq_None_iff)
  then show ?thesis using False by (simp add: dget_or_def)
next
  case True
  then have "map_of d k \<noteq> None" by (simp add: has_key_def map_of_eq_None_iff)
  then show ?thesis using True by (auto simp: dget_or_def dget_def)
qed

lemma an_integer_PInt: "an_integer n v \<Longrightarrow> v = PInt (int_of_val v)"
  by (cases v) (simp_all add: an_integer_def)

lemma first_page:
  assumes s: "sound_moment e aid t" and q: "annotation_query e limits t body = Value pg"
    and b: "dget body ''cursor_token'' = PNone" "dget body ''source_reference'' = PNone"
  obtains sz where "paged_request limits aid body sz (pg_prefix pg) (pg_revision pg)"
    "pg_prefix pg \<le> t_durable t" "pg_revision pg \<le> h_revision (t_store t)"
    "query_rows e limits aid t (pg_prefix pg) (pg_revision pg) (private_of body)
       (refs_of aid (take sz (between 0 (pg_prefix pg) (t_index t)))) = Value (pg_rows pg)"
    "pg_next pg = next_cursor aid (pg_prefix pg) (pg_revision pg) (private_of body) sz (between 0 (pg_prefix pg) (t_index t))"
proof -
  note sel = sound_sel [OF s]
  let ?P = "dget_or body ''as_of_durable_seq'' (PInt (t_durable t))"
  let ?R = "dget_or body ''annotation_revision'' (PInt (h_revision (t_store t)))"
  obtain sz where sz: "paged_limits limits body = Value sz"
    using q by (auto simp: annotation_query_def Let_def elim!: outcome_elims)
  have pos: "0 < sz" using sz by (auto simp: paged_limits_def Let_def)
  have sp: "select_page (t_index t) sz p 0 = (take sz (between 0 p (t_index t)), sz < length (between 0 p (t_index t)))" for p
    using s by (intro select_page_between) (simp add: sound_moment_def)
  have f: "fst ` set body \<subseteq> set QUERY_KEYS" "is_bool (dget_or body ''private_detail'' (PBool False))"
    "eq_str (dget body ''annotation_version'') ANNOTATION_VERSION" "eq_str (dget_or body ''archive_id'' (PStr aid)) aid"
    and i: "an_integer 0 ?P" "an_integer 0 ?R" "int_of_val ?P \<le> t_durable t" "int_of_val ?R \<le> h_revision (t_store t)"
    and g: "pg_prefix pg = int_of_val ?P" "pg_revision pg = int_of_val ?R"
    "query_rows e limits aid t (int_of_val ?P) (int_of_val ?R) (private_of body)
       (refs_of aid (take sz (between 0 (int_of_val ?P) (t_index t)))) = Value (pg_rows pg)"
    "pg_next pg = (if sz < length (between 0 (int_of_val ?P) (t_index t))
       then Some (cursor_value aid ?P ?R (i_seq (last (take sz (between 0 (int_of_val ?P) (t_index t))))) (private_of body)) else None)"
    using q by (auto simp: annotation_query_def query_position_def Let_def sel sz b sp private_of_def refs_of_def elim!: outcome_elims)
  have int: "?P = PInt (int_of_val ?P)" "?R = PInt (int_of_val ?R)"
    by (rule an_integer_PInt [OF i(1)], rule an_integer_PInt [OF i(2)])
  have "paged_request limits aid body sz (pg_prefix pg) (pg_revision pg)"
    using f i int sz pos b unfolding paged_request_def g by (auto simp: an_integer_def has_key_get)
  moreover have "pg_next pg = next_cursor aid (pg_prefix pg) (pg_revision pg) (private_of body) sz (between 0 (pg_prefix pg) (t_index t))"
    using g(4) int unfolding g(1,2) next_cursor_def by metis
  ultimately show thesis using that i(3,4) g(3) unfolding g(1,2) by blast
qed

lemma cursor_page:
  assumes s: "sound_moment e aid u" and b: "paged_request limits aid body sz p r"
    and le: "p \<le> t_durable u" "r \<le> h_revision (t_store u)" "0 \<le> a" "a \<le> p"
  shows "annotation_query e limits u (with_cursor (Some (cursor_value aid (PInt p) (PInt r) a (private_of body))) body) =
    and_then (query_rows e limits aid u p r (private_of body) (refs_of aid (take sz (between a p (t_index u)))))
      (\<lambda>rows. Value \<lparr>pg_prefix = p, pg_revision = r, pg_rows = rows,
         pg_next = next_cursor aid p r (private_of body) sz (between a p (t_index u))\<rparr>)"
proof -
  note sel = sound_sel [OF s]
  let ?c = "cursor_value aid (PInt p) (PInt r) a (private_of body)"
  let ?b = "(''cursor_token'', ?c) # body"
  note B = b [unfolded paged_request_def]
  have sp: "select_page (t_index u) sz p a = (take sz (between a p (t_index u)), sz < length (between a p (t_index u)))"
    using s by (intro select_page_between) (simp add: sound_moment_def)
  have d: "dget ?b k = dget body k" "dget_or ?b k v = dget_or body k v" "has_key ?b k = has_key body k"
    if "k \<noteq> ''cursor_token''" for k v
    using that by (simp_all add: dget_or_def has_key_def)
  have priv: "dget_or body ''private_detail'' (PBool False) = PBool (private_of body)"
    using B by (cases "dget_or body ''private_detail'' (PBool False)") (auto simp: private_of_def)
  have same: "has_key body ''as_of_durable_seq'' \<Longrightarrow> dget_or body ''as_of_durable_seq'' v = PInt p"
    "has_key body ''annotation_revision'' \<Longrightarrow> dget_or body ''annotation_revision'' v = PInt r" for v
    using B by (simp_all add: has_key_get)
  have c: "truthy ?c" "is_dict ?c" "keys_are (dict_of_val ?c) [''archive_id'', ''prefix'', ''revision'', ''after'', ''private'']"
    "eq_str (dget (dict_of_val ?c) ''archive_id'') aid" "dget (dict_of_val ?c) ''prefix'' = PInt p"
    "dget (dict_of_val ?c) ''revision'' = PInt r" "dget (dict_of_val ?c) ''after'' = PInt a"
    "dget (dict_of_val ?c) ''private'' = PBool (private_of body)"
    by (simp_all add: cursor_value_def keys_are_def eq_str_def)
  have pos: "query_position aid u ?b = Value (PInt p, PInt r, PInt a)"
    unfolding query_position_def Let_def using same B by (simp add: d c demand_def priv)
  have lim: "paged_limits limits ?b = Value sz" using B by (simp add: paged_limits_def d)
  have keys: "fst ` set ?b \<subseteq> set QUERY_KEYS" using B by (simp add: QUERY_KEYS_def)
  have ints: "an_integer 0 (PInt p)" "an_integer 0 (PInt r)" "an_integer 0 (PInt a)"
    using B le by (simp_all add: an_integer_def)
  show ?thesis
    using B keys le
    by (simp add: with_cursor_def annotation_query_def demand_def d sel lim pos priv ints sp refs_of_def next_cursor_def)
qed

lemma read_from_cursor:
  assumes t: "sound_moment e aid t" and b: "paged_request limits aid body sz p r"
    and le: "p \<le> t_durable t" "r \<le> h_revision (t_store t)"
    and us: "\<forall>u\<in>set us. sound_moment e aid u \<and> later_moment t u"
    and a: "0 \<le> a" "a \<le> p" and len: "length (between a p (t_index t)) \<le> length us" "us \<noteq> []"
  shows "read_pages e limits body (Some (cursor_value aid (PInt p) (PInt r) a (private_of body))) us =
    and_then (query_rows e limits aid t p r (private_of body) (refs_of aid (between a p (t_index t)))) (\<lambda>rows. Value (rows, False))"
  using us a len
proof (induction us arbitrary: a)
  case (Cons u us)
  let ?B = "between a p (t_index t)" and ?q = "\<lambda>refs. query_rows e limits aid t p r (private_of body) refs"
  have u: "sound_moment e aid u" "later_moment t u" using Cons.prems(1) by simp_all
  have le': "p \<le> t_durable u" "r \<le> h_revision (t_store u)"
    using u(2) le sound_sel(3) [OF t] sound_sel(3) [OF u(1)] by (auto simp: later_moment_def)
  have B: "between a p (t_index u) = ?B" by (rule between_later [OF u(2) le(1)])
  have q: "query_rows e limits aid u p r (private_of body) refs = ?q refs" for refs by (rule rows_later [OF t u le])
  note page = cursor_page [OF u(1) b le' Cons.prems(2,3), unfolded B q]
  have pos: "0 < sz" using b by (simp add: paged_request_def)
  show ?case
  proof (cases "sz < length ?B")
    case False
    then show ?thesis by (cases "?q (refs_of aid ?B)") (simp_all add: page next_cursor_def)
  next
    case True
    let ?a = "i_seq (last (take sz ?B))"
    have "take sz ?B \<noteq> []" using True pos by auto
    then have "last (take sz ?B) \<in> set ?B" by (metis in_set_takeD last_in_set)
    then have le_a: "0 \<le> ?a" "?a \<le> p" using Cons.prems(2) by (auto simp: between_def)
    have nxt: "between ?a p (t_index t) = drop sz ?B"
      using t True pos by (intro between_next) (simp_all add: sound_moment_def)
    have "length (drop sz ?B) \<le> length us" "us \<noteq> []" using Cons.prems(4) True pos by auto
    then have ih: "read_pages e limits body (Some (cursor_value aid (PInt p) (PInt r) ?a (private_of body))) us =
        and_then (?q (refs_of aid (drop sz ?B))) (\<lambda>rows. Value (rows, False))"
      using Cons.IH [of ?a] Cons.prems(1) le_a nxt by simp
    have "?q (refs_of aid ?B) = ?q (refs_of aid (take sz ?B) @ refs_of aid (drop sz ?B))"
      by (simp add: refs_of_def flip: map_append)
    then show ?thesis
      using True by (cases "?q (refs_of aid (take sz ?B))") (simp_all add: page next_cursor_def ih query_rows_append and_then_assoc)
  qed
qed simp

text \<open>C37. A walk through the pages is the published prefix: when the first request is answered and
  each further one repeats it with the cursor of the page before, whatever is published or edited
  in between, the pages together are the evidence of every observation of the first answer's prefix
  at its revision, each once and in order, as one request for all of them would give it, errors
  included; and as many requests as there are observations are enough to come to the end.\<close>

theorem pages_are_the_published_prefix:
  assumes "sound_moment e aid t" "\<forall>u\<in>set us. sound_moment e aid u \<and> later_moment t u"
    and "dget body ''cursor_token'' = PNone" "dget body ''source_reference'' = PNone"
    and "annotation_query e limits t body = Value pg" "length (t_index t) \<le> length us"
  shows "read_pages e limits body None (t # us) =
    and_then (query_rows e limits aid t (pg_prefix pg) (pg_revision pg) (private_of body)
      (refs_of aid (between 0 (pg_prefix pg) (t_index t)))) (\<lambda>rows. Value (rows, False))"
proof -
  obtain sz where b: "paged_request limits aid body sz (pg_prefix pg) (pg_revision pg)"
    and le: "pg_prefix pg \<le> t_durable t" "pg_revision pg \<le> h_revision (t_store t)"
    and rows: "query_rows e limits aid t (pg_prefix pg) (pg_revision pg) (private_of body)
       (refs_of aid (take sz (between 0 (pg_prefix pg) (t_index t)))) = Value (pg_rows pg)"
    and nxt: "pg_next pg = next_cursor aid (pg_prefix pg) (pg_revision pg) (private_of body) sz (between 0 (pg_prefix pg) (t_index t))"
    by (rule first_page [OF assms(1,5,3,4)])
  let ?p = "pg_prefix pg" and ?B = "between 0 (pg_prefix pg) (t_index t)"
  let ?q = "\<lambda>refs. query_rows e limits aid t ?p (pg_revision pg) (private_of body) refs"
  have pos: "0 < sz" "0 \<le> ?p" using b by (simp_all add: paged_request_def)
  show ?thesis
  proof (cases "sz < length ?B")
    case False
    then show ?thesis using assms(5) rows nxt by (simp add: with_cursor_def next_cursor_def)
  next
    case True
    let ?a = "i_seq (last (take sz ?B))"
    have "take sz ?B \<noteq> []" using True pos(1) by auto
    then have "last (take sz ?B) \<in> set ?B" by (metis in_set_takeD last_in_set)
    then have le_a: "0 \<le> ?a" "?a \<le> ?p" by (auto simp: between_def)
    have d: "between ?a ?p (t_index t) = drop sz ?B"
      using assms(1) True pos(1) by (intro between_next) (simp_all add: sound_moment_def)
    have "length ?B \<le> length (t_index t)" by (simp add: between_def)
    then have "length (drop sz ?B) \<le> length us" "us \<noteq> []" using assms(6) True by auto
    then have "read_pages e limits body (pg_next pg) us = and_then (?q (refs_of aid (drop sz ?B))) (\<lambda>rows. Value (rows, False))"
      using read_from_cursor [OF assms(1) b le assms(2) le_a] True d nxt by (simp add: next_cursor_def)
    moreover have "?q (refs_of aid ?B) = ?q (refs_of aid (take sz ?B) @ refs_of aid (drop sz ?B))"
      by (simp add: refs_of_def flip: map_append)
    ultimately show ?thesis
      using assms(5) rows True nxt by (simp add: with_cursor_def next_cursor_def query_rows_append and_then_assoc)
  qed
qed

text \<open>The archive after one edit.\<close>

definition demo_moment :: moment where
  "demo_moment = \<lparr>t_index = demo_index, t_durable = 2, t_store = remember_row demo_env demo_row 11 (new_store demo_aid),
     t_journal = [(Some demo_row, 11)]\<rparr>"

definition demo_query :: pydict where
  "demo_query = [(''annotation_version'', PStr ANNOTATION_VERSION)]"

lemma demo_sound: "sound_moment demo_env demo_aid demo_moment"
proof -
  have "first_edit demo_env (\<lambda>_. True) demo_aid demo_edit demo_row" by (rule demo_first) simp
  then have p: "plan_edit demo_env (\<lambda>_. Value True) (new_store demo_aid) demo_edit = Value (Write demo_row)"
    "wf_dict (dict_of_val (dget demo_edit ''source_reference''))"
    unfolding first_edit_def by blast+
  have "written_row demo_env (\<lambda>_. True) (new_store demo_aid) demo_row" by (rule plan_written [OF p(1) _ p(2)]) simp
  then have "validate_row demo_env (new_store demo_aid) demo_row" by (rule written_valid)
  then have "state_after demo_env demo_aid [(Some demo_row, 11)] = Some (remember_row demo_env demo_row 11 (new_store demo_aid))"
    by (simp add: state_after_def LINE_BYTES_def) (simp add: new_store_def)
  moreover have "store_shape (remember_row demo_env demo_row 11 (new_store demo_aid))"
    using demo_hex(1) by (simp add: store_shape_def new_store_def demo_row_def MAX_REVISION_def demo_env_def ZERO_def remember_row_def Let_def)
  ultimately show ?thesis by (simp add: sound_moment_def demo_moment_def demo_index_def demo_entry_def)
qed

theorem pages_are_the_published_prefix_witness:
  "\<exists>pg :: page. read_pages demo_env demo_limits demo_query None [demo_moment, demo_moment, demo_moment] =
    and_then (query_rows demo_env demo_limits demo_aid demo_moment (pg_prefix pg) (pg_revision pg) (private_of demo_query)
      (refs_of demo_aid (between 0 (pg_prefix pg) (t_index demo_moment)))) (\<lambda>rows. Value (rows, False))"
proof -
  have "is_value (annotation_query demo_env demo_limits demo_moment demo_query)" by code_simp
  then obtain pg where pg: "annotation_query demo_env demo_limits demo_moment demo_query = Value pg" using is_value_ex by blast
  have "later_moment demo_moment demo_moment" by (simp add: later_moment_def)
  then have us: "\<forall>u\<in>set [demo_moment, demo_moment]. sound_moment demo_env demo_aid u \<and> later_moment demo_moment u"
    using demo_sound by simp
  have b: "dget demo_query ''cursor_token'' = PNone" "dget demo_query ''source_reference'' = PNone"
    "length (t_index demo_moment) \<le> length [demo_moment, demo_moment]"
    by (simp_all add: demo_query_def demo_moment_def demo_index_def)
  show ?thesis by (rule exI [of _ pg]) (rule pages_are_the_published_prefix [OF demo_sound us b(1,2) pg b(3)])
qed

end
