(* ===== verification/Annotations_Evidence.thy ===== *)
theory Annotations_Evidence
  imports Annotations_Views
begin

text \<open>
  What the evidence of an annotation says: what it takes to be eligible for ranking, what it keeps
  to itself without private detail. And the acknowledgement of a repeated request, which can be
  wrong about the disk.
\<close>

subsection \<open>Ranking\<close>

definition group_of :: "ientry list \<Rightarrow> int \<Rightarrow> ientry \<Rightarrow> ientry list" where
  "group_of idx limit en = filter (\<lambda>row. in_group en row \<and> i_seq row \<le> limit) idx"

lemma filter_take_all:
  assumes "length (filter P (take (Suc n) xs)) \<le> n" "\<And>i j. i < j \<Longrightarrow> j < length xs \<Longrightarrow> P (xs ! j) \<Longrightarrow> P (xs ! i)"
  shows "filter P (take (Suc n) xs) = filter P xs"
proof (cases "length xs \<le> Suc n")
  case False
  have "filter P (drop (Suc n) xs) = []"
  proof (rule ccontr)
    assume "filter P (drop (Suc n) xs) \<noteq> []"
    then obtain x where "x \<in> set (drop (Suc n) xs)" "P x" unfolding filter_empty_conv by blast
    then obtain i where "i < length xs - Suc n" "P (xs ! (Suc n + i))" by (auto simp: in_set_conv_nth)
    then have j: "Suc n \<le> Suc n + i" "Suc n + i < length xs" "P (xs ! (Suc n + i))" by simp_all
    have "P (xs ! k)" if "k < Suc n" for k using assms(2) [of k "Suc n + i"] j that by simp
    then have "\<forall>x\<in>set (take (Suc n) xs). P x" using j(2) by (auto simp: in_set_conv_nth)
    then have "filter P (take (Suc n) xs) = take (Suc n) xs" by simp
    then show False using assms(1) False by simp
  qed
  then show ?thesis by (metis append_Nil2 append_take_drop_id filter_append)
qed simp

lemma group_rows_of:
  assumes s: "sorted_wrt (\<lambda>a b. i_seq a < i_seq b) idx"
    and le: "length (group_rows limits idx limit en) \<le> limit_nat limits ''query_group_members_max''"
  shows "group_rows limits idx limit en = group_of idx limit en"
proof -
  have srt: "sorted_wrt (\<lambda>a b. i_seq a < i_seq b) (filter (in_group en) idx)" by (rule sorted_wrt_filter [OF s])
  have "group_rows limits idx limit en = filter (\<lambda>row. i_seq row \<le> limit) (filter (in_group en) idx)"
    unfolding group_rows_def
  proof (rule filter_take_all)
    show "length (filter (\<lambda>row. i_seq row \<le> limit)
        (take (Suc (limit_nat limits ''query_group_members_max'')) (filter (in_group en) idx))) \<le> limit_nat limits ''query_group_members_max''"
      using le by (simp add: group_rows_def)
    fix i j assume "i < j" "j < length (filter (in_group en) idx)" "i_seq (filter (in_group en) idx ! j) \<le> limit"
    then show "i_seq (filter (in_group en) idx ! i) \<le> limit" using srt by (fastforce simp: sorted_wrt_iff_nth_less)
  qed
  then show ?thesis by (simp add: group_of_def conj_commute)
qed

lemma group_same:
  assumes "in_group en x" "in_group en y"
  shows "key_of x = key_of y" "row_considered p q x = row_considered p q y"
  using assms by (auto simp: in_group_def key_of_def plugin_of_def row_group_def row_considered_def Let_def split: option.splits)

lemma choice_of_group:
  assumes rows: "\<forall>row\<in>set rows. in_group en row"
    and g: "list_of_val (dget (choice_group_rollup limits p q rows) ''groups'') = [g]"
  shows "\<exists>m. g = finish_choice (roll_group m rows)" "rows \<noteq> []" "missing_parts (key_of (hd rows)) = []"
proof -
  have "map (\<lambda>(k, c). finish_choice c) (o_groups (choice_groups limits p q rows)) = [g]"
    using g by (simp add: choice_group_rollup_def Let_def)
  then obtain k c where kc: "o_groups (choice_groups limits p q rows) = [(k, c)]" "g = finish_choice c" by auto
  then have gr: "c = roll_group (limit_nat limits ''query_group_members_max'') (rows_of k (identified p q rows))"
    "rows_of k (identified p q rows) \<noteq> []"
    using group_row [of k c limits p q rows] by simp_all
  then obtain x where x: "x \<in> set rows" "row_considered p q x" "missing_parts (key_of x) = []" "key_of x = k"
    by (auto simp: rows_of_def identified_def filter_empty_conv)
  have "row_considered p q y \<and> missing_parts (key_of y) = [] \<and> key_of y = k" if "y \<in> set rows" for y
    using x group_same [of en x y] rows that by auto
  note every = this
  have all: "rows_of k (identified p q rows) = rows" using every unfolding rows_of_def identified_def filter_filter filter_id_conv
    by blast
  show "\<exists>m. g = finish_choice (roll_group m rows)" using kc(2) gr(1) unfolding all by blast
  show ne: "rows \<noteq> []" using x(1) by auto
  then show "missing_parts (key_of (hd rows)) = []" using x group_same(1) [of en x "hd rows"] rows by (metis list.set_sel(1))
qed

lemma finish_choice_sel:
  "dget (dict_of_val (finish_choice c)) ''evidence_permitted'' = PBool (evidence_permitted c)"
  "dget (dict_of_val (finish_choice c)) ''retracted'' = PBool (c_retracted c)"
  "dget (dict_of_val (finish_choice c)) ''request_outcome'' = PStr (c_outcome c)"
  "dget (dict_of_val (finish_choice c)) ''target_membership'' = c_membership c"
  by (simp_all add: finish_choice_def)

lemma eligible_dget:
  "dget (dict_of_val (dget (evidence_of ref record observed choice edits private) ''ranking_evaluation'')) ''evidence_eligible'' =
     PBool (ranking_eligible observed (effective_target observed (human_edit edits)) choice (map_of edits ''exclude'' \<noteq> None))"
  by (simp add: evidence_of_def Let_def)

text \<open>C38. Ranking evidence is earned: when the evidence of an annotated observation is eligible for
  ranking, the observation has a submitted text that no correction replaces by another and no edit
  excludes; and the rows of its choice group up to the prefix, all of them and no more than the
  bound, contain one with complete accepted coverage and no retraction, their last outcome is a
  commit and their last stated target membership is present.\<close>

theorem ranking_evidence_is_earned:
  assumes "sorted_wrt (\<lambda>a b. i_seq a < i_seq b) idx"
    and "annotation_source e limits aid idx limit ref = Value (record, observed, choice)"
    and "dget (dict_of_val (dget (evidence_of ref record observed choice edits private) ''ranking_evaluation'')) ''evidence_eligible'' =
      PBool True"
  shows "\<exists>en t. visible_matches idx limit (dict_of_val ref) = [en] \<and> observed = Some t \<and>
    effective_target observed (human_edit edits) = PStr t \<and> map_of edits ''exclude'' = None \<and>
    (let rows = group_of idx limit en in
     rows \<noteq> [] \<and> length rows \<le> limit_nat limits ''query_group_members_max'' \<and>
     (\<exists>row\<in>set rows. coverage_accepted (plugin_of row)) \<and> (\<forall>row\<in>set rows. \<not> stage_is ''retraction'' row) \<and>
     group_outcome rows = ''engine_commit_observed'' \<and> last_stated [''unknown''] ''target_membership'' rows = PStr ''present'')"
proof -
  obtain en where en: "visible_matches idx limit (dict_of_val ref) = [en]" "choice = group_choice limits idx limit en"
    using assms(2) by (auto simp: annotation_source_def Let_def elim!: outcome_elims split: list.splits option.splits if_splits)
  let ?R = "group_rows limits idx limit en"
  have el: "ranking_eligible observed (effective_target observed (human_edit edits)) choice (map_of edits ''exclude'' \<noteq> None)"
    using assms(3) by (simp add: eligible_dget)
  then have c: "choice \<noteq> PNone" "truthy (dget (dict_of_val choice) ''evidence_permitted'')"
    "\<not> truthy (dget (dict_of_val choice) ''retracted'')" "dget (dict_of_val choice) ''request_outcome'' = PStr ''engine_commit_observed''"
    "dget (dict_of_val choice) ''target_membership'' = PStr ''present''" "map_of edits ''exclude'' = None"
    by (auto simp: ranking_eligible_def Let_def eq_str_def simp del: split_paired_All split_paired_Ex not_Some_eq)
  obtain t where t: "observed = Some t" "effective_target observed (human_edit edits) = PStr t"
    using el by (auto simp: ranking_eligible_def Let_def split: option.splits)
  have len: "length ?R \<le> limit_nat limits ''query_group_members_max''" "?R \<noteq> []"
    using c(1) en(2) by (auto simp: group_choice_def Let_def split: if_splits)
  obtain q where "list_of_val (dget (choice_group_rollup limits (i_process en) q ?R) ''groups'') = [choice]"
    using c(1) en(2) by (auto simp: group_choice_def Let_def split: if_splits list.splits)
  moreover have "\<forall>row\<in>set ?R. in_group en row" by (auto simp: group_rows_def dest: in_set_takeD)
  ultimately obtain m where m: "choice = finish_choice (roll_group m ?R)" "missing_parts (key_of (hd ?R)) = []"
    using choice_of_group(1,3) [of ?R en limits "i_process en" q choice] by blast
  note sel = roll_group_sel [OF len(2) m(2), of m]
  have R: "?R = group_of idx limit en" by (rule group_rows_of [OF assms(1) len(1)])
  have "(\<exists>row\<in>set ?R. coverage_accepted (plugin_of row)) \<and> (\<forall>row\<in>set ?R. \<not> stage_is ''retraction'' row) \<and>
     group_outcome ?R = ''engine_commit_observed'' \<and> last_stated [''unknown''] ''target_membership'' ?R = PStr ''present''"
    using c(2-5) sel unfolding m(1) finish_choice_sel by (auto simp: evidence_permitted_def choice_complete_def)
  then show ?thesis using en(1) t c(6) len unfolding R by (simp add: Let_def)
qed

definition demo_source :: source where
  "demo_source = (case annotation_source demo_env demo_limits demo_aid demo_index 2 demo_ref of
     Value x \<Rightarrow> x | _ \<Rightarrow> ([], None, PNone))"

theorem ranking_evidence_is_earned_witness:
  "\<exists>en t. visible_matches demo_index 2 (dict_of_val demo_ref) = [en] \<and> fst (snd demo_source) = Some t \<and>
    effective_target (fst (snd demo_source)) (human_edit []) = PStr t \<and> map_of ([] :: (string \<times> effective_edit) list) ''exclude'' = None \<and>
    (let rows = group_of demo_index 2 en in
     rows \<noteq> [] \<and> length rows \<le> limit_nat demo_limits ''query_group_members_max'' \<and>
     (\<exists>row\<in>set rows. coverage_accepted (plugin_of row)) \<and> (\<forall>row\<in>set rows. \<not> stage_is ''retraction'' row) \<and>
     group_outcome rows = ''engine_commit_observed'' \<and> last_stated [''unknown''] ''target_membership'' rows = PStr ''present'')"
proof (rule ranking_evidence_is_earned)
  show "sorted_wrt (\<lambda>a b. i_seq a < i_seq b) demo_index" by (simp add: demo_index_def demo_entry_def)
  have "is_value (annotation_source demo_env demo_limits demo_aid demo_index 2 demo_ref)" by code_simp
  then show "annotation_source demo_env demo_limits demo_aid demo_index 2 demo_ref =
      Value (fst demo_source, fst (snd demo_source), snd (snd demo_source))"
    using is_value_ex by (force simp: demo_source_def)
  show "dget (dict_of_val (dget (evidence_of demo_ref (fst demo_source) (fst (snd demo_source)) (snd (snd demo_source)) [] False)
      ''ranking_evaluation'')) ''evidence_eligible'' = PBool True"
    by code_simp
qed

subsection \<open>Private detail\<close>

text \<open>An edit with its text and its note written in other words.\<close>

definition reword :: "(string \<Rightarrow> string) \<Rightarrow> pyval \<Rightarrow> pyval" where
  "reword f v = (case v of PStr s \<Rightarrow> PStr (f s) | _ \<Rightarrow> v)"

definition other_value :: "(string \<Rightarrow> string) \<Rightarrow> (string \<Rightarrow> string) \<Rightarrow> string \<Rightarrow> pyval \<Rightarrow> pyval" where
  "other_value f g k v = (if k = ''text'' then reword f v else if k = ''note'' then reword g v else v)"

definition other_words :: "(string \<Rightarrow> string) \<Rightarrow> (string \<Rightarrow> string) \<Rightarrow> effective_edit \<Rightarrow> effective_edit" where
  "other_words f g ed =
     (fst ed, map (\<lambda>(k, v). (k, if k = ''value'' then PDict (map (\<lambda>(k, v). (k, other_value f g k v)) (dict_of_val v)) else v)) (snd ed))"

lemma dget_map: "dget (map (\<lambda>(k, v). (k, h k v)) d) k = (if has_key d k then h k (dget d k) else PNone)"
proof (induction d)
  case (Cons kv d)
  then show ?case by (cases kv) (simp add: has_key_def)
qed (simp add: has_key_def)

lemma dget_absent: "\<not> has_key d k \<Longrightarrow> dget d k = PNone"
  by (induction d) (auto simp: has_key_def)

lemma other_words_sel [simp]:
  "fst (other_words f g ed) = fst ed"
  "edit_kind_of (other_words f g ed) = edit_kind_of ed"
  "edit_field (other_words f g ed) k = other_value f g k (edit_field ed k)"
proof -
  show "fst (other_words f g ed) = fst ed" by (simp add: other_words_def)
  show "edit_kind_of (other_words f g ed) = edit_kind_of ed"
    by (simp add: edit_kind_of_def other_words_def dget_map dget_absent)
  have "other_value f g k PNone = PNone" by (simp add: other_value_def reword_def)
  then show "edit_field (other_words f g ed) k = other_value f g k (edit_field ed k)"
    by (simp add: edit_field_def other_words_def dget_map dget_absent)
qed

lemma reword_sel: "reword f v = PNone \<longleftrightarrow> v = PNone" "inj f \<Longrightarrow> reword f v = PStr (f t) \<longleftrightarrow> v = PStr t"
  by (auto simp: reword_def inj_def split: pyval.splits)

lemma map_of_other: "map_of (map (\<lambda>(k, ed). (k, h ed)) edits) k = map_option h (map_of edits k)"
  by (induction edits) auto

lemma human_other: "human_edit (map (\<lambda>(k, ed). (k, other_words f g ed)) edits) = map_option (other_words f g) (human_edit edits)"
  by (simp add: human_edit_def map_of_other split: option.split)

lemma target_other:
  "effective_target (map_option f observed) (map_option (other_words f g) human) = reword f (effective_target observed human)"
  by (cases human; cases observed) (simp_all add: effective_target_def reword_def other_value_def)

lemma eligible_other:
  assumes "inj f"
  shows "ranking_eligible (map_option f observed) (reword f target) choice excluded = ranking_eligible observed target choice excluded"
  by (cases observed) (simp_all add: ranking_eligible_def Let_def reword_sel assms)



end
